(* ===== verification/Prelude.thy ===== *)
theory Prelude imports Main "HOL-Library.Word" begin

text \<open>
  Shared vocabulary of the development: the machine integers of the C code as words of their
  width, the byte codecs every wire format uses, buffers that are written at an offset
  (\<open>memcpy\<close> and the explicit copy loops), the first-match table scan, and the generic lemmas the
  components share.

  Conventions of the model, used by every theory:
  \<^item> \<open>uint8_t\<close>, \<open>uint16_t\<close>, \<open>uint32_t\<close> and \<open>uint64_t\<close> are words of that width, so that C's
    wrap-around is the arithmetic of the type; \<open>size_t\<close> and loop counters are \<open>nat\<close>.
  \<^item> a buffer with its length is a list of bytes; a pointer parameter the code compares with
    \<open>NULL\<close> is an \<open>option\<close>, \<open>None\<close> for \<open>NULL\<close>.
  \<^item> a module's file-scope state is a record that its operations take and return; the hardware
    behind a port is a world of type \<open>'w\<close> that the port's functions take and return.
\<close>

unbundle bit_operations_syntax

type_synonym u8 = "8 word"
type_synonym u16 = "16 word"
type_synonym u32 = "32 word"
type_synonym u64 = "64 word"
type_synonym bytes = "u8 list"

named_theorems codec \<open>encode/decode round trips on bytes\<close>
named_theorems buffers \<open>reading and writing buffers at an offset\<close>

section \<open>Bytes and words\<close>

text \<open>The little- and big-endian codecs, once; the components' own copies are equal to these.\<close>

definition le16 :: "u16 \<Rightarrow> bytes" where
  "le16 v = [ucast v, ucast (drop_bit 8 v)]"

definition un_le16 :: "u8 \<Rightarrow> u8 \<Rightarrow> u16" where
  "un_le16 a b = ucast a OR push_bit 8 (ucast b)"

definition le32 :: "u32 \<Rightarrow> bytes" where
  "le32 v = [ucast v, ucast (drop_bit 8 v), ucast (drop_bit 16 v), ucast (drop_bit 24 v)]"

definition un_le32 :: "u8 \<Rightarrow> u8 \<Rightarrow> u8 \<Rightarrow> u8 \<Rightarrow> u32" where
  "un_le32 a b c d =
     ucast a OR push_bit 8 (ucast b) OR push_bit 16 (ucast c) OR push_bit 24 (ucast d)"

definition un_be32 :: "u8 \<Rightarrow> u8 \<Rightarrow> u8 \<Rightarrow> u8 \<Rightarrow> u32" where
  "un_be32 a b c d = un_le32 d c b a"

definition be32 :: "u32 \<Rightarrow> bytes" where
  "be32 v = rev (le32 v)"

lemma mask_0xFF: "(0xFF :: 'a::len word) = mask 8"
  by (simp add: mask_eq_exp_minus_1)

lemma ucast_and_0xFF [simp, codec]: "(ucast ((w :: 'a::len word) AND 0xFF) :: u8) = ucast w"
  by (rule bit_word_eqI) (auto simp: mask_0xFF bit_simps dest: bit_imp_le_length)

lemma bit_u8_D: "bit (a :: u8) n \<Longrightarrow> n < 8"
  using bit_imp_le_length [of a n] by simp

lemma bit_u8_high [simp]:
  "8 \<le> n \<Longrightarrow> \<not> bit (a :: u8) n"
  using bit_u8_D [of a n] by auto

lemma length_le16 [simp]: "length (le16 v) = 2"
  by (simp add: le16_def)

lemma length_le32 [simp]: "length (le32 v) = 4"
  by (simp add: le32_def)

lemma un_le16_le16 [simp, codec]: "un_le16 (ucast v) (ucast (drop_bit 8 v)) = v"
  by (rule bit_word_eqI) (auto simp: un_le16_def bit_simps)

lemma le16_un_le16 [simp, codec]: "le16 (un_le16 a b) = [a, b]"
  by (auto intro!: bit_word_eqI simp: le16_def un_le16_def bit_simps)

lemma un_le32_le32 [simp, codec]:
  "un_le32 (ucast v) (ucast (drop_bit 8 v)) (ucast (drop_bit 16 v)) (ucast (drop_bit 24 v)) = v"
proof (rule bit_word_eqI)
  fix n assume "n < LENGTH(32)"
  then have "n < 8 \<or> (8 \<le> n \<and> n < 16) \<or> (16 \<le> n \<and> n < 24) \<or> (24 \<le> n \<and> n < 32)" by auto
  then show "bit (un_le32 (ucast v) (ucast (drop_bit 8 v)) (ucast (drop_bit 16 v))
      (ucast (drop_bit 24 v))) n = bit v n"
    by (elim disjE conjE) (auto simp: un_le32_def bit_simps)
qed

lemma le32_un_le32 [simp, codec]: "le32 (un_le32 a b c d) = [a, b, c, d]"
  by (auto intro!: bit_word_eqI simp: le32_def un_le32_def bit_simps)

lemma un_le16_nth [simp, codec]: "un_le16 (le16 v ! 0) (le16 v ! Suc 0) = v"
  by (simp add: le16_def)

lemma le16_inject [simp]: "le16 v = le16 w \<longleftrightarrow> v = w"
proof
  assume "le16 v = le16 w"
  then have "un_le16 (ucast v) (ucast (drop_bit 8 v)) = un_le16 (ucast w) (ucast (drop_bit 8 w))"
    by (simp add: le16_def)
  then show "v = w" by (simp only: un_le16_le16)
qed simp

lemma le32_inject [simp]: "le32 v = le32 w \<longleftrightarrow> v = w"
proof
  assume "le32 v = le32 w"
  then have "un_le32 (ucast v) (ucast (drop_bit 8 v)) (ucast (drop_bit 16 v)) (ucast (drop_bit 24 v))
    = un_le32 (ucast w) (ucast (drop_bit 8 w)) (ucast (drop_bit 16 w)) (ucast (drop_bit 24 w))"
    by (simp add: le32_def)
  then show "v = w" by (simp only: un_le32_le32)
qed simp

section \<open>Buffers\<close>

lemma length_ge_4_D: "4 \<le> length xs \<Longrightarrow> \<exists>a b c d r. xs = a # b # c # d # r"
  by (auto simp: numeral_eq_Suc Suc_le_length_iff)

lemma Suc_0_le_length [simp]: "Suc 0 \<le> length xs \<longleftrightarrow> xs \<noteq> []"
  by (cases xs) auto

text \<open>\<open>overwrite i xs b\<close> is \<open>b\<close> after \<open>xs\<close> was copied to \<open>&b[i]\<close>.\<close>

definition overwrite :: "nat \<Rightarrow> 'a list \<Rightarrow> 'a list \<Rightarrow> 'a list" where
  "overwrite i xs b = take i b @ xs @ drop (i + length xs) b"

lemma length_overwrite [simp, buffers]:
  "i + length xs \<le> length b \<Longrightarrow> length (overwrite i xs b) = length b"
  by (simp add: overwrite_def)

lemma nth_overwrite [buffers]:
  assumes "i + length xs \<le> length b" and "k < length b"
  shows "overwrite i xs b ! k = (if i \<le> k \<and> k < i + length xs then xs ! (k - i) else b ! k)"
  using assms by (auto simp: overwrite_def nth_append min_def)

lemma take_overwrite_0 [simp, buffers]: "take (length xs) (overwrite 0 xs b) = xs"
  by (simp add: overwrite_def)

lemma overwrite_Nil [simp, buffers]: "overwrite i [] b = b"
  by (simp add: overwrite_def)

lemma take_overwrite_before [buffers]:
  "k \<le> i \<Longrightarrow> i \<le> length b \<Longrightarrow> take k (overwrite i xs b) = take k b"
  by (simp add: overwrite_def min_def)

lemma take_overwrite_upto [buffers]:
  "i \<le> length b \<Longrightarrow> take (i + length xs) (overwrite i xs b) = take i b @ xs"
  by (simp add: overwrite_def min_def)

section \<open>First match in a table\<close>

text \<open>The scan \<open>for (i = 0; i < n; ++i) if (p(t[i])) return i\<close>: the first index, if any.\<close>

fun first_index :: "('a \<Rightarrow> bool) \<Rightarrow> 'a list \<Rightarrow> nat option" where
  "first_index p [] = None"
| "first_index p (x # xs) = (if p x then Some 0 else map_option Suc (first_index p xs))"

lemma first_index_Some_D:
  "first_index p xs = Some i \<Longrightarrow> i < length xs \<and> p (xs ! i) \<and> (\<forall>j < i. \<not> p (xs ! j))"
proof (induction xs arbitrary: i)
  case Nil
  then show ?case by simp
next
  case (Cons x xs)
  show ?case
  proof (cases "p x")
    case True
    with Cons.prems show ?thesis by simp
  next
    case False
    with Cons.prems obtain k where k: "first_index p xs = Some k" "i = Suc k" by auto
    with Cons.IH [OF k(1)] False show ?thesis by (auto simp: less_Suc_eq_0_disj)
  qed
qed

lemma first_index_None_iff: "first_index p xs = None \<longleftrightarrow> (\<forall>x \<in> set xs. \<not> p x)"
  by (induction xs) auto

lemma first_index_nth:
  "i < length xs \<Longrightarrow> p (xs ! i) \<Longrightarrow> (\<And>j. j < i \<Longrightarrow> \<not> p (xs ! j)) \<Longrightarrow> first_index p xs = Some i"
proof (induction xs arbitrary: i)
  case Nil
  then show ?case by simp
next
  case (Cons x xs)
  show ?case
  proof (cases i)
    case 0
    with Cons.prems show ?thesis by simp
  next
    case (Suc k)
    have "\<not> p x" using Cons.prems(3) [of 0] Suc by simp
    moreover have "first_index p xs = Some k"
    proof (rule Cons.IH)
      show "k < length xs" and "p (xs ! k)" using Cons.prems Suc by auto
      show "\<And>j. j < k \<Longrightarrow> \<not> p (xs ! j)" using Cons.prems(3) Suc by fastforce
    qed
    ultimately show ?thesis using Suc by simp
  qed
qed

section \<open>Words\<close>

lemma xor_eq_0_iff: "a XOR b = 0 \<longleftrightarrow> a = (b :: 'a::len word)"
  by (metis xor.assoc xor.left_neutral xor.right_neutral xor_self_eq)

lemma unat_Suc: "(w :: 'a::len word) \<noteq> - 1 \<Longrightarrow> unat (w + 1) = Suc (unat w)"
  by (metis add.commute add_eq_0_iff2 unatSuc)

lemma unat_Suc_bounded: "unat (w :: 'a::len word) + Suc n < 2 ^ LENGTH('a) \<Longrightarrow> unat (w + 1) = Suc (unat w)"
  by (rule unat_Suc) (auto simp: unsigned_minus_1_eq_mask mask_eq_exp_minus_1)

lemma word_less_plus_one: "(w :: 'a::len word) \<noteq> - 1 \<Longrightarrow> w < w + 1"
  by (simp add: word_less_nat_alt unat_Suc)

lemma u16_max: "(0xFFFF :: u16) = - 1"
  by (simp add: word_eq_iff_unsigned unsigned_minus_1_eq_mask mask_eq_exp_minus_1)

lemma u16_less_plus_one: "(w :: u16) \<noteq> 0xFFFF \<Longrightarrow> w < w + 1"
  by (rule word_less_plus_one) (simp only: u16_max not_False_eq_True)

lemma unat_ucast_u8 [simp]: "unat (ucast (r :: u32) :: u8) = unat r mod 256"
  by (simp add: unsigned_ucast_eq take_bit_eq_mod)

lemma unat_ucast_u32 [simp]: "unat (ucast (n :: u8) :: u32) = unat n"
  using unsigned_less [of n, where 'a = nat] by (simp add: unsigned_ucast_eq take_bit_eq_mod)

end
