(* ===== verification/Crypto_Msg.thy ===== *)
theory Crypto_Msg imports Prelude begin

text \<open>
  The envelope between the application core and the security core:
  \<open>shared/crypto/src/crypto_msg.c\<close>. An envelope is \<open>op | length (LE) | payload\<close>; the payloads are the
  verify request, the verdict, the MAC request and the MAC response.

  A message the code writes through a pointer is an \<open>option\<close> of its present contents, \<open>None\<close> for
  \<open>NULL\<close>; a parsed field is returned under \<open>Some\<close>, and \<open>None\<close> is the parser's \<open>false\<close>. The payload
  is a list of \<open>CRYPTO_MAX_PAYLOAD\<close> bytes.
\<close>

section \<open>Types and constants\<close>

definition CRYPTO_MAX_PAYLOAD :: nat where "CRYPTO_MAX_PAYLOAD = 128"
definition CRYPTO_MSG_HDR_SIZE :: nat where "CRYPTO_MSG_HDR_SIZE = 3"
definition CRYPTO_MSG_MAX_WIRE :: nat where "CRYPTO_MSG_MAX_WIRE = CRYPTO_MSG_HDR_SIZE + CRYPTO_MAX_PAYLOAD"
definition CRYPTO_CMAC_TAG_LEN :: nat where "CRYPTO_CMAC_TAG_LEN = 16"
definition CRYPTO_SHA256_DIGEST_LEN :: nat where "CRYPTO_SHA256_DIGEST_LEN = 32"

lemmas crypto_consts = CRYPTO_MAX_PAYLOAD_def CRYPTO_MSG_HDR_SIZE_def CRYPTO_MSG_MAX_WIRE_def
  CRYPTO_CMAC_TAG_LEN_def CRYPTO_SHA256_DIGEST_LEN_def

definition CRYPTO_OP_NONE :: u8 where "CRYPTO_OP_NONE = 0x00"
definition CRYPTO_OP_HASH :: u8 where "CRYPTO_OP_HASH = 0x01"
definition CRYPTO_OP_VERIFY_IMAGE :: u8 where "CRYPTO_OP_VERIFY_IMAGE = 0x02"
definition CRYPTO_OP_MAC :: u8 where "CRYPTO_OP_MAC = 0x03"

lemmas crypto_ops = CRYPTO_OP_NONE_def CRYPTO_OP_HASH_def CRYPTO_OP_VERIFY_IMAGE_def CRYPTO_OP_MAC_def

datatype crypto_verdict = CRYPTO_VERDICT_INVALID | CRYPTO_VERDICT_VALID | CRYPTO_VERDICT_ERROR

fun verdict_code :: "crypto_verdict \<Rightarrow> u8" where
  "verdict_code CRYPTO_VERDICT_INVALID = 0"
| "verdict_code CRYPTO_VERDICT_VALID = 1"
| "verdict_code CRYPTO_VERDICT_ERROR = 2"

record crypto_msg =
  cm_op :: u8
  cm_length :: u16
  cm_payload :: bytes

text \<open>A local \<open>crypto_msg_t\<close> before it is written; its contents do not matter.\<close>

definition msg0 :: crypto_msg where
  "msg0 = \<lparr>cm_op = 0, cm_length = 0, cm_payload = replicate CRYPTO_MAX_PAYLOAD 0\<rparr>"

section \<open>Envelope\<close>

definition put_u32le :: "u32 \<Rightarrow> bytes" where
  "put_u32le v = [ucast (v AND 0xFF), ucast (drop_bit 8 v AND 0xFF),
     ucast (drop_bit 16 v AND 0xFF), ucast (drop_bit 24 v AND 0xFF)]"

definition get_u32le :: "bytes \<Rightarrow> u32" where
  "get_u32le p = ucast (p ! 0) OR push_bit 8 (ucast (p ! 1)) OR push_bit 16 (ucast (p ! 2)) OR
     push_bit 24 (ucast (p ! 3))"

definition payload_zero_from :: "nat \<Rightarrow> crypto_msg \<Rightarrow> crypto_msg" where
  "payload_zero_from from m =
     m\<lparr>cm_payload := overwrite from (replicate (CRYPTO_MAX_PAYLOAD - from) 0) (cm_payload m)\<rparr>"

definition crypto_msg_encode :: "crypto_msg option \<Rightarrow> bytes option \<Rightarrow> nat \<times> bytes option" where
  "crypto_msg_encode msg buf = (case (msg, buf) of
     (Some m, Some b) \<Rightarrow>
       if unat (cm_length m) > CRYPTO_MAX_PAYLOAD then (0, buf)
       else
         let total = CRYPTO_MSG_HDR_SIZE + unat (cm_length m) in
         if length b < total then (0, buf)
         else
           let b1 = b[0 := cm_op m, 1 := ucast (cm_length m AND 0xFF),
                      2 := ucast (drop_bit 8 (cm_length m) AND 0xFF)];
               b2 = overwrite CRYPTO_MSG_HDR_SIZE (take (unat (cm_length m)) (cm_payload m)) b1 in
           (total, Some b2)
   | _ \<Rightarrow> (0, buf))"

definition crypto_msg_decode :: "bytes option \<Rightarrow> crypto_msg option \<Rightarrow> bool \<times> crypto_msg option" where
  "crypto_msg_decode buf msg = (case (buf, msg) of
     (Some b, Some m) \<Rightarrow>
       if length b < CRYPTO_MSG_HDR_SIZE then (False, msg)
       else
         let len = ucast (b ! 1) OR push_bit 8 (ucast (b ! 2)) :: u16 in
         if unat len > CRYPTO_MAX_PAYLOAD then (False, msg)
         else if unat len > length b - CRYPTO_MSG_HDR_SIZE then (False, msg)
         else (True, Some (payload_zero_from (unat len)
                (m\<lparr>cm_op := b ! 0, cm_length := len,
                   cm_payload := overwrite 0 (take (unat len) (drop CRYPTO_MSG_HDR_SIZE b))
                     (cm_payload m)\<rparr>)))
   | _ \<Rightarrow> (False, msg))"

section \<open>Verify request and verdict\<close>

definition crypto_make_verify_request :: "u32 \<Rightarrow> u32 \<Rightarrow> u32 \<Rightarrow> crypto_msg option \<Rightarrow> crypto_msg option"
  where
  "crypto_make_verify_request base len key_id msg = (case msg of None \<Rightarrow> None | Some m \<Rightarrow>
     Some (payload_zero_from 12 (m\<lparr>cm_op := CRYPTO_OP_VERIFY_IMAGE, cm_length := 12,
       cm_payload := overwrite 8 (put_u32le key_id)
         (overwrite 4 (put_u32le len) (overwrite 0 (put_u32le base) (cm_payload m)))\<rparr>)))"

definition crypto_parse_verify_request :: "crypto_msg option \<Rightarrow> (u32 \<times> u32 \<times> u32) option" where
  "crypto_parse_verify_request msg = (case msg of None \<Rightarrow> None | Some m \<Rightarrow>
     if cm_op m \<noteq> CRYPTO_OP_VERIFY_IMAGE then None
     else if cm_length m < 12 then None
     else Some (get_u32le (cm_payload m), get_u32le (drop 4 (cm_payload m)),
                get_u32le (drop 8 (cm_payload m))))"

definition crypto_make_verdict :: "u8 \<Rightarrow> crypto_verdict \<Rightarrow> crypto_msg option \<Rightarrow> crypto_msg option" where
  "crypto_make_verdict echo_op v msg = (case msg of None \<Rightarrow> None | Some m \<Rightarrow>
     Some (payload_zero_from 1 (m\<lparr>cm_op := echo_op, cm_length := 1,
       cm_payload := (cm_payload m)[0 := verdict_code v]\<rparr>)))"

definition crypto_parse_verdict :: "crypto_msg option \<Rightarrow> crypto_verdict option" where
  "crypto_parse_verdict msg = (case msg of None \<Rightarrow> None | Some m \<Rightarrow>
     if cm_length m < 1 then None
     else
       let raw = cm_payload m ! 0 in
       if raw > verdict_code CRYPTO_VERDICT_ERROR then None
       else Some (if raw = 0 then CRYPTO_VERDICT_INVALID
                  else if raw = 1 then CRYPTO_VERDICT_VALID else CRYPTO_VERDICT_ERROR))"

section \<open>MAC request and response\<close>

definition put_u16le :: "u16 \<Rightarrow> bytes" where
  "put_u16le v = [ucast (v AND 0xFF), ucast (drop_bit 8 v AND 0xFF)]"

definition get_u16le :: "bytes \<Rightarrow> u16" where
  "get_u16le p = ucast (p ! 0) OR push_bit 8 (ucast (p ! 1))"

text \<open>\<open>msg\<close> is \<open>None\<close> for a \<open>NULL\<close> with a non-zero length.\<close>

definition crypto_make_mac_request :: "u32 \<Rightarrow> bytes option \<Rightarrow> crypto_msg option \<Rightarrow> crypto_msg option" where
  "crypto_make_mac_request key_id data msg = (case msg of None \<Rightarrow> None | Some m \<Rightarrow>
     (case data of
        None \<Rightarrow> Some (payload_zero_from 0 (m\<lparr>cm_op := CRYPTO_OP_MAC, cm_length := 0\<rparr>))
      | Some d \<Rightarrow>
          let total = 6 + length d in
          if total > CRYPTO_MAX_PAYLOAD then
            Some (payload_zero_from 0 (m\<lparr>cm_op := CRYPTO_OP_MAC, cm_length := 0\<rparr>))
          else
            Some (payload_zero_from total (m\<lparr>cm_op := CRYPTO_OP_MAC, cm_length := of_nat total,
              cm_payload := overwrite 6 d (overwrite 4 (put_u16le (of_nat (length d)))
                (overwrite 0 (put_u32le key_id) (cm_payload m)))\<rparr>))))"

definition crypto_parse_mac_request :: "crypto_msg option \<Rightarrow> (u32 \<times> bytes) option" where
  "crypto_parse_mac_request msg = (case msg of None \<Rightarrow> None | Some m \<Rightarrow>
     if cm_op m \<noteq> CRYPTO_OP_MAC then None
     else if cm_length m < 6 then None
     else
       let ml = get_u16le (drop 4 (cm_payload m)) in
       if unat ml > unat (cm_length m) - 6 then None
       else Some (get_u32le (cm_payload m), take (unat ml) (drop 6 (cm_payload m))))"

definition crypto_make_mac_response :: "bytes option \<Rightarrow> crypto_msg option \<Rightarrow> crypto_msg option" where
  "crypto_make_mac_response tag msg = (case (msg, tag) of
     (Some m, Some t) \<Rightarrow>
       Some (payload_zero_from CRYPTO_CMAC_TAG_LEN (m\<lparr>cm_op := CRYPTO_OP_MAC,
         cm_length := of_nat CRYPTO_CMAC_TAG_LEN,
         cm_payload := overwrite 0 (take CRYPTO_CMAC_TAG_LEN t) (cm_payload m)\<rparr>))
   | _ \<Rightarrow> msg)"

definition crypto_parse_mac_response :: "crypto_msg option \<Rightarrow> bytes option" where
  "crypto_parse_mac_response msg = (case msg of None \<Rightarrow> None | Some m \<Rightarrow>
     if cm_op m \<noteq> CRYPTO_OP_MAC then None
     else if unat (cm_length m) < CRYPTO_CMAC_TAG_LEN then None
     else Some (take CRYPTO_CMAC_TAG_LEN (cm_payload m)))"

section \<open>Codec lemmas\<close>

lemma put_u32le_eq [codec]: "put_u32le v = le32 v"
  by (simp add: put_u32le_def le32_def)

lemma crypto_put_u16le_eq [codec]: "put_u16le v = le16 v"
  by (simp add: put_u16le_def le16_def)

lemma get_u32le_le32 [simp, codec]: "get_u32le (le32 v @ xs) = v"
  using un_le32_le32 [of v]
  by (simp add: get_u32le_def le32_def un_le32_def eval_nat_numeral)

lemma get_u16le_le16 [simp, codec]: "get_u16le (le16 v @ xs) = v"
  using un_le16_le16 [of v] by (simp add: get_u16le_def le16_def un_le16_def)

text \<open>A message whose payload is a list of bytes followed by zeros.\<close>

definition msg_with :: "u8 \<Rightarrow> bytes \<Rightarrow> crypto_msg" where
  "msg_with op p = \<lparr>cm_op = op, cm_length = of_nat (length p),
     cm_payload = p @ replicate (CRYPTO_MAX_PAYLOAD - length p) 0\<rparr>"

definition msg_wf :: "crypto_msg \<Rightarrow> bool" where
  "msg_wf m \<longleftrightarrow> length (cm_payload m) = CRYPTO_MAX_PAYLOAD"

lemma msg0_wf [simp]: "msg_wf msg0"
  by (simp add: msg_wf_def msg0_def)

lemma msg_with_wf [simp]: "length p \<le> CRYPTO_MAX_PAYLOAD \<Longrightarrow> msg_wf (msg_with op p)"
  by (simp add: msg_wf_def msg_with_def)

lemma unat_len: "n \<le> CRYPTO_MAX_PAYLOAD \<Longrightarrow> unat (of_nat n :: u16) = n"
  by (simp add: crypto_consts unat_of_nat)

lemma overwrite_tail_zero:
  "length p \<le> n \<Longrightarrow> length b = n \<Longrightarrow>
     overwrite (length p) (replicate (n - length p) 0) (overwrite 0 p b) = p @ replicate (n - length p) 0"
  by (simp add: overwrite_def)

lemma make_verify_request_eq:
  assumes "msg_wf m"
  shows "crypto_make_verify_request base len key (Some m) =
    Some (msg_with CRYPTO_OP_VERIFY_IMAGE (le32 base @ le32 len @ le32 key))"
proof -
  let ?p = "le32 base @ le32 len @ le32 key"
  have "overwrite 8 (le32 key) (overwrite 4 (le32 len) (overwrite 0 (le32 base) (cm_payload m)))
    = overwrite 0 ?p (cm_payload m)"
    using assms by (simp add: overwrite_def msg_wf_def crypto_consts)
  then have "overwrite 12 (replicate 116 0) (overwrite 8 (le32 key) (overwrite 4 (le32 len)
      (overwrite 0 (le32 base) (cm_payload m)))) = ?p @ replicate 116 0"
    using overwrite_tail_zero [of ?p 128 "cm_payload m"] assms by (simp add: msg_wf_def crypto_consts)
  then show ?thesis
    by (simp add: crypto_make_verify_request_def payload_zero_from_def put_u32le_eq msg_with_def crypto_consts)
qed

lemma make_verdict_eq:
  assumes "msg_wf m"
  shows "crypto_make_verdict op v (Some m) = Some (msg_with op [verdict_code v])"
proof -
  obtain x r where r: "cm_payload m = x # r" "length r = 127"
    using assms by (cases "cm_payload m") (auto simp: msg_wf_def crypto_consts)
  then show ?thesis
    by (simp add: crypto_make_verdict_def payload_zero_from_def msg_with_def crypto_consts overwrite_def)
qed

lemma make_mac_request_eq:
  assumes "msg_wf m" and "length d \<le> 122"
  shows "crypto_make_mac_request key (Some d) (Some m) =
    Some (msg_with CRYPTO_OP_MAC (le32 key @ le16 (of_nat (length d)) @ d))"
proof -
  let ?p = "le32 key @ le16 (of_nat (length d)) @ d"
  have "overwrite 6 d (overwrite 4 (le16 (of_nat (length d))) (overwrite 0 (le32 key) (cm_payload m)))
    = overwrite 0 ?p (cm_payload m)"
    using assms by (simp add: overwrite_def msg_wf_def crypto_consts add.commute)
  then have "overwrite (6 + length d) (replicate (122 - length d) 0) (overwrite 6 d
      (overwrite 4 (le16 (of_nat (length d))) (overwrite 0 (le32 key) (cm_payload m))))
      = ?p @ replicate (122 - length d) 0"
    using overwrite_tail_zero [of ?p 128 "cm_payload m"] assms
    by (simp add: msg_wf_def crypto_consts)
  then show ?thesis using assms(2)
    by (simp add: crypto_make_mac_request_def payload_zero_from_def put_u32le_eq crypto_put_u16le_eq
        msg_with_def crypto_consts)
qed

lemma make_mac_response_eq:
  assumes "msg_wf m" and "length t = 16"
  shows "crypto_make_mac_response (Some t) (Some m) = Some (msg_with CRYPTO_OP_MAC t)"
  using overwrite_tail_zero [of t 128 "cm_payload m"] assms
  by (simp add: crypto_make_mac_response_def payload_zero_from_def msg_with_def crypto_consts msg_wf_def)

text \<open>On the wire: op, length, payload.\<close>

definition msg_wire :: "u8 \<Rightarrow> bytes \<Rightarrow> bytes" where
  "msg_wire op p = op # le16 (of_nat (length p)) @ p"

lemma length_msg_wire [simp]: "length (msg_wire op p) = 3 + length p"
  by (simp add: msg_wire_def)

lemma encode_msg_with:
  assumes p: "length p \<le> CRYPTO_MAX_PAYLOAD" and b: "3 + length p \<le> length b"
  shows "crypto_msg_encode (Some (msg_with op p)) (Some b) =
    (3 + length p, Some (overwrite 0 (msg_wire op p) b))"
proof -
  obtain x y z r where bb: "b = x # y # z # r" using b by (auto simp: numeral_3_eq_3 Suc_le_length_iff)
  have "b[0 := op, 1 := ucast (of_nat (length p) AND 0xFF :: u16),
      2 := ucast (drop_bit 8 (of_nat (length p) :: u16) AND 0xFF)] = (op # le16 (of_nat (length p))) @ r"
    by (simp add: bb le16_def numeral_2_eq_2)
  moreover have "overwrite 3 p ((op # le16 (of_nat (length p))) @ r) = overwrite 0 (msg_wire op p) b"
    by (simp add: bb overwrite_def msg_wire_def le16_def numeral_3_eq_3)
  ultimately show ?thesis
    using p b by (simp add: crypto_msg_encode_def Let_def unat_len crypto_consts msg_with_def)
qed

lemma decode_msg_wire:
  assumes p: "length p \<le> CRYPTO_MAX_PAYLOAD" and m: "msg_wf m"
  shows "crypto_msg_decode (Some (msg_wire op p @ pad)) (Some m) = (True, Some (msg_with op p))"
proof -
  let ?l = "of_nat (length p) :: u16"
  have "ucast ((msg_wire op p @ pad) ! 1) OR push_bit 8 (ucast ((msg_wire op p @ pad) ! 2)) = ?l"
    using un_le16_le16 [of ?l] by (simp add: msg_wire_def le16_def un_le16_def numeral_2_eq_2)
  moreover have "unat ?l = length p" using p by (rule unat_len)
  moreover have "take (length p) (drop 3 (msg_wire op p @ pad)) = p"
    by (simp add: msg_wire_def le16_def)
  ultimately show ?thesis
    using p m overwrite_tail_zero [of p 128 "cm_payload m"]
    by (simp add: crypto_msg_decode_def Let_def crypto_consts payload_zero_from_def msg_with_def
        msg_wf_def msg_wire_def)
qed

lemma parse_verify_request:
  "crypto_parse_verify_request (Some (msg_with CRYPTO_OP_VERIFY_IMAGE (le32 base @ le32 len @ le32 key @ r)))
     = Some (base, len, key)"
  if "length r \<le> 100"
proof -
  have "\<not> (of_nat (length (le32 base @ le32 len @ le32 key @ r)) :: u16) < 12"
    using that by (simp add: word_less_nat_alt unat_word_ariths unat_of_nat)
  then show ?thesis
    by (simp add: crypto_parse_verify_request_def msg_with_def)
qed

lemma parse_verdict_code: "crypto_parse_verdict (Some (msg_with op [verdict_code v])) = Some v"
  by (cases v) (simp_all add: crypto_parse_verdict_def msg_with_def crypto_consts)

lemma parse_mac_request:
  assumes "length d \<le> 122"
  shows "crypto_parse_mac_request (Some (msg_with CRYPTO_OP_MAC (le32 key @ le16 (of_nat (length d)) @ d)))
    = Some (key, d)"
proof -
  have l: "unat (of_nat (6 + length d) :: u16) = 6 + length d"
    using assms unat_len [of "6 + length d"] by (simp add: crypto_consts)
  then have "\<not> (of_nat (6 + length d) :: u16) < 6" by (simp add: word_less_nat_alt)
  moreover have "unat (of_nat (length d) :: u16) = length d"
    using assms unat_len [of "length d"] by (simp add: crypto_consts)
  ultimately show ?thesis using l by (simp add: crypto_parse_mac_request_def msg_with_def Let_def)
qed

lemma parse_mac_response:
  assumes "length t = 16"
  shows "crypto_parse_mac_response (Some (msg_with CRYPTO_OP_MAC t)) = Some t"
  using assms by (simp add: crypto_parse_mac_response_def msg_with_def crypto_consts)

lemma parse_mac_response_len:
  "crypto_parse_mac_response (Some m) = Some t \<Longrightarrow> msg_wf m \<Longrightarrow> length t = 16"
  by (auto simp: crypto_parse_mac_response_def msg_wf_def crypto_consts split: if_splits)

text \<open>A verdict never parses as a tag: an error reply cannot be taken for a MAC.\<close>

lemma verdict_is_no_tag: "crypto_parse_mac_response (Some (msg_with op [verdict_code v])) = None"
  by (simp add: crypto_parse_mac_response_def msg_with_def crypto_consts)

text \<open>Whatever bytes are decoded, the result is well formed and its length is the payload's.\<close>

lemma decode_sound:
  assumes "crypto_msg_decode (Some b) (Some m) = (True, Some m')" and "msg_wf m"
  shows "\<exists>p pad. b = msg_wire (cm_op m') p @ pad \<and> m' = msg_with (cm_op m') p \<and>
    length p \<le> CRYPTO_MAX_PAYLOAD"
proof -
  let ?l = "ucast (b ! 1) OR push_bit 8 (ucast (b ! 2)) :: u16"
  have len: "3 \<le> length b" "unat ?l \<le> 128" "unat ?l \<le> length b - 3"
    using assms(1) by (auto simp: crypto_msg_decode_def Let_def crypto_consts not_less split: if_splits)
  obtain x y z r where b: "b = x # y # z # r" using len(1) by (auto simp: numeral_3_eq_3 Suc_le_length_iff)
  define l where "l = un_le16 y z"
  have L: "?l = l" by (simp add: b l_def un_le16_def numeral_2_eq_2)
  note len' = len(2,3) [unfolded L]
  let ?p = "take (unat l) r" and ?pad = "drop (unat l) r"
  have p: "length ?p = unat l" using len' b by simp
  have le: "le16 l = [y, z]" by (simp add: l_def)
  have w: "b = msg_wire x ?p @ ?pad"
    unfolding msg_wire_def p by (simp add: le b)
  have "m' = msg_with x ?p"
    using decode_msg_wire [of ?p m x ?pad] assms len'(1) p w by (simp add: crypto_consts)
  then show ?thesis using w p len'(1) by (intro exI [of _ ?p] exI [of _ ?pad]) (simp add: msg_with_def crypto_consts)
qed

end
