(* ===== verification/Ipc_Mailbox.thy ===== *)
theory Ipc_Mailbox imports Prelude begin

text \<open>
  The transport between the cores: \<open>shared/crypto/src/ipc_mailbox.c\<close>. Acquire, write the request,
  notify, wait for the response at most \<open>timeout_ms\<close>, copy it out, release.

  The hardware seam \<open>ipc_port_if_t\<close> is a record of functions over a world \<open>'w\<close>, in which the other
  core runs between the calls. The wait is a loop over a clock the code does not control, so it
  takes fuel: \<open>None\<close> is a wait that has not ended within it.
\<close>

datatype ipc_status = IPC_OK | IPC_BUSY | IPC_TIMEOUT | IPC_MALFORMED

record 'w ipc_port_if =
  ip_sema_try_acquire :: "'w \<Rightarrow> bool \<times> 'w"
  ip_sema_release :: "'w \<Rightarrow> 'w"
  ip_mailbox_put :: "bytes \<Rightarrow> 'w \<Rightarrow> 'w"
  ip_mailbox_get :: "nat \<Rightarrow> 'w \<Rightarrow> bytes"
  ip_mailbox_cap :: nat
  ip_notify :: "nat \<Rightarrow> 'w \<Rightarrow> 'w"
  ip_response_ready :: "'w \<Rightarrow> bool \<times> 'w"
  ip_response_len :: "'w \<Rightarrow> nat"
  ip_now_ms :: "'w \<Rightarrow> u32 \<times> 'w"

text \<open>The loop \<open>while (!response_ready()) if (now_ms() - start >= timeout_ms) return timeout\<close>.\<close>

primrec ipc_wait :: "'w ipc_port_if \<Rightarrow> nat \<Rightarrow> u32 \<Rightarrow> u32 \<Rightarrow> 'w \<Rightarrow> (bool \<times> 'w) option" where
  "ipc_wait p 0 start timeout_ms w = None"
| "ipc_wait p (Suc fuel) start timeout_ms w =
     (case ip_response_ready p w of (ready, w1) \<Rightarrow>
        if ready then Some (True, w1)
        else case ip_now_ms p w1 of (now, w2) \<Rightarrow>
          if now - start \<ge> timeout_ms then Some (False, w2)
          else ipc_wait p fuel start timeout_ms w2)"

text \<open>
  \<open>resp\<close> is the response buffer, returned as the call leaves it, and \<open>resp_len\<close> what the pointer
  of that name points to.
\<close>

definition ipc_transact ::
  "nat \<Rightarrow> 'w ipc_port_if option \<Rightarrow> bytes option \<Rightarrow> bytes option \<Rightarrow> nat option \<Rightarrow> u32 \<Rightarrow> 'w \<Rightarrow>
   (ipc_status \<times> bytes option \<times> nat option \<times> 'w) option" where
  "ipc_transact fuel port req resp resp_len timeout_ms w =
     (let len0 = map_option (\<lambda>_. 0) resp_len in
      case (port, req, resp) of
        (Some p, Some rq, Some rs) \<Rightarrow>
          if length rq > ip_mailbox_cap p then Some (IPC_MALFORMED, resp, len0, w)
          else (case ip_sema_try_acquire p w of (got, w1) \<Rightarrow>
            if \<not> got then Some (IPC_BUSY, resp, len0, w1)
            else
              let w2 = ip_notify p (length rq) (ip_mailbox_put p rq w1) in
              case ip_now_ms p w2 of (start, w3) \<Rightarrow>
              (case ipc_wait p fuel start timeout_ms w3 of
                 None \<Rightarrow> None
               | Some (False, w4) \<Rightarrow> Some (IPC_TIMEOUT, resp, len0, ip_sema_release p w4)
               | Some (True, w4) \<Rightarrow>
                   let n = ip_response_len p w4 in
                   if n > length rs \<or> n > ip_mailbox_cap p
                   then Some (IPC_MALFORMED, resp, len0, ip_sema_release p w4)
                   else Some (IPC_OK, Some (overwrite 0 (ip_mailbox_get p n w4) rs),
                              map_option (\<lambda>_. n) resp_len, ip_sema_release p w4)))
      | _ \<Rightarrow> Some (IPC_MALFORMED, resp, len0, w))"

section \<open>The wait\<close>

text \<open>The clock after \<open>n\<close> failed polls, and whether a poll before then succeeds.\<close>

primrec poll :: "'w ipc_port_if \<Rightarrow> nat \<Rightarrow> 'w \<Rightarrow> 'w" where
  "poll p 0 w = w"
| "poll p (Suc n) w = poll p n (snd (ip_now_ms p (snd (ip_response_ready p w))))"

definition poll_ready :: "'w ipc_port_if \<Rightarrow> 'w \<Rightarrow> nat \<Rightarrow> bool" where
  "poll_ready p w n = fst (ip_response_ready p (poll p n w))"

definition poll_now :: "'w ipc_port_if \<Rightarrow> 'w \<Rightarrow> nat \<Rightarrow> u32" where
  "poll_now p w n = fst (ip_now_ms p (snd (ip_response_ready p (poll p n w))))"

lemma poll_Suc:
  "poll_ready p (poll p 1 w) n = poll_ready p w (Suc n)" "poll_now p (poll p 1 w) n = poll_now p w (Suc n)"
  by (simp_all add: poll_ready_def poll_now_def)

lemma ipc_wait_step:
  "ipc_wait p (Suc fuel) start timeout_ms w =
     (if poll_ready p w 0 then Some (True, snd (ip_response_ready p w))
      else if poll_now p w 0 - start \<ge> timeout_ms then Some (False, poll p 1 w)
      else ipc_wait p fuel start timeout_ms (poll p 1 w))"
  by (simp add: poll_ready_def poll_now_def split_def)

text \<open>The wait ends at the first poll that is answered or finds the time elapsed.\<close>

lemma ipc_wait_ends:
  "n < fuel \<Longrightarrow> poll_ready p w n \<or> poll_now p w n - start \<ge> timeout_ms \<Longrightarrow>
     ipc_wait p fuel start timeout_ms w \<noteq> None"
proof (induction fuel arbitrary: n w)
  case 0
  then show ?case by simp
next
  case (Suc fuel)
  show ?case
  proof (cases n)
    case 0
    then show ?thesis using Suc.prems unfolding ipc_wait_step by auto
  next
    case (Suc k)
    then have k: "k < fuel" "poll_ready p (poll p 1 w) k \<or> poll_now p (poll p 1 w) k - start \<ge> timeout_ms"
      using Suc.prems unfolding poll_Suc by simp_all
    have "ipc_wait p fuel start timeout_ms (poll p 1 w) \<noteq> None" by (rule Suc.IH [OF k])
    then show ?thesis unfolding ipc_wait_step by auto
  qed
qed

text \<open>And it does not end before.\<close>

lemma ipc_wait_hangs:
  "(\<And>n. n < fuel \<Longrightarrow> \<not> poll_ready p w n \<and> poll_now p w n - start < timeout_ms) \<Longrightarrow>
     ipc_wait p fuel start timeout_ms w = None"
proof (induction fuel arbitrary: w)
  case 0
  then show ?case by simp
next
  case (Suc fuel)
  have "\<not> poll_ready p (poll p 1 w) n \<and> poll_now p (poll p 1 w) n - start < timeout_ms" if "n < fuel" for n
    unfolding poll_Suc by (rule Suc.prems) (use that in simp)
  then have "ipc_wait p fuel start timeout_ms (poll p 1 w) = None" by (rule Suc.IH)
  then show ?case using Suc.prems [of 0] unfolding ipc_wait_step by auto
qed

lemma ipc_wait_mono:
  "ipc_wait p fuel start timeout_ms w = Some r \<Longrightarrow> ipc_wait p (fuel + k) start timeout_ms w = Some r"
  by (induction fuel arbitrary: w) (auto split: prod.splits if_splits)

text \<open>Every outcome but \<open>IPC_OK\<close> leaves the buffer alone and reports no bytes.\<close>

lemma ipc_transact_frame:
  "ipc_transact fuel port req resp (Some k) t w = Some (st, resp', len', w') \<Longrightarrow> st \<noteq> IPC_OK \<Longrightarrow>
     resp' = resp \<and> len' = Some 0"
  by (auto simp: ipc_transact_def Let_def split: option.splits prod.splits if_splits bool.splits)

lemma ipc_transact_len:
  assumes "ipc_transact fuel port req (Some rs) (Some k) t w = Some (IPC_OK, Some rs', Some n, w')"
    and "\<And>p n w. port = Some p \<Longrightarrow> length (ip_mailbox_get p n w) = n"
  shows "n \<le> length rs \<and> length rs' = length rs"
  using assms
  by (auto simp: ipc_transact_def Let_def not_less split: option.splits prod.splits if_splits bool.splits)

end
