(* ===== verification/Log_Events.thy ===== *)
theory Log_Events imports Prelude begin

text \<open>
  The identifiers of \<open>shared/log/include/log_events.h\<close> and the shape of a \<open>log_evt\<close> call: event,
  \<open>arg0\<close>, \<open>arg1\<close>. A component that logs returns the calls it made, in order; \<open>Log\<close> models what
  a call does to the ring.
\<close>

type_synonym log_call = "u16 \<times> u32 \<times> u16"

definition LOG_EVT_BOOT :: u16 where "LOG_EVT_BOOT = 0x0001"
definition LOG_EVT_APP_JUMP :: u16 where "LOG_EVT_APP_JUMP = 0x0002"
definition LOG_EVT_APP_REJECT :: u16 where "LOG_EVT_APP_REJECT = 0x0003"
definition LOG_EVT_OVERFLOW :: u16 where "LOG_EVT_OVERFLOW = 0x0004"
definition LOG_EVT_SECOC_ACCEPT :: u16 where "LOG_EVT_SECOC_ACCEPT = 0x0101"
definition LOG_EVT_SECOC_REJECT_MAC :: u16 where "LOG_EVT_SECOC_REJECT_MAC = 0x0102"
definition LOG_EVT_SECOC_REJECT_FRESHNESS :: u16 where "LOG_EVT_SECOC_REJECT_FRESHNESS = 0x0103"
definition LOG_EVT_SECOC_RESYNC :: u16 where "LOG_EVT_SECOC_RESYNC = 0x0104"
definition LOG_EVT_CRYPTO_ERROR :: u16 where "LOG_EVT_CRYPTO_ERROR = 0x0201"
definition LOG_EVT_UDS_SESSION :: u16 where "LOG_EVT_UDS_SESSION = 0x0301"
definition LOG_EVT_UDS_SECURITY :: u16 where "LOG_EVT_UDS_SECURITY = 0x0302"
definition LOG_EVT_APP_ALIVE :: u16 where "LOG_EVT_APP_ALIVE = 0x0401"
definition LOG_EVT_DBG_U32 :: u16 where "LOG_EVT_DBG_U32 = 0x1001"

lemmas log_evt_defs = LOG_EVT_BOOT_def LOG_EVT_APP_JUMP_def LOG_EVT_APP_REJECT_def
  LOG_EVT_OVERFLOW_def LOG_EVT_SECOC_ACCEPT_def LOG_EVT_SECOC_REJECT_MAC_def
  LOG_EVT_SECOC_REJECT_FRESHNESS_def LOG_EVT_SECOC_RESYNC_def LOG_EVT_CRYPTO_ERROR_def
  LOG_EVT_UDS_SESSION_def LOG_EVT_UDS_SECURITY_def LOG_EVT_APP_ALIVE_def LOG_EVT_DBG_U32_def

end
