(* ===== verification/Crypto_Service.thy ===== *)
theory Crypto_Service imports Crypto_Msg Ipc_Mailbox Log_Events begin

text \<open>
  The client of the security core: \<open>shared/crypto/src/crypto_service.c\<close>. Both operations build a
  request, hand it to the transport and decode the reply; every failure collapses to an ERROR
  verdict or \<open>false\<close>, and logs one event with its reason.

  The bound port is the module's only state; the two operations take it as an argument and return
  the \<open>log_evt\<close> calls they made. The fuel is the transport's, and \<open>None\<close> is a wait that has not ended.
\<close>

definition CRYPTO_VERIFY_TIMEOUT_MS :: u32 where "CRYPTO_VERIFY_TIMEOUT_MS = 1000"
definition CRYPTO_MAC_TIMEOUT_MS :: u32 where "CRYPTO_MAC_TIMEOUT_MS = 10"

datatype crypto_fail =
  CRYPTO_FAIL_IPC_BUSY | CRYPTO_FAIL_IPC_TIMEOUT | CRYPTO_FAIL_IPC_MALFORMED |
  CRYPTO_FAIL_BAD_REPLY | CRYPTO_FAIL_REFUSED | CRYPTO_FAIL_REQUEST

fun fail_code :: "crypto_fail \<Rightarrow> u16" where
  "fail_code CRYPTO_FAIL_IPC_BUSY = 1"
| "fail_code CRYPTO_FAIL_IPC_TIMEOUT = 2"
| "fail_code CRYPTO_FAIL_IPC_MALFORMED = 3"
| "fail_code CRYPTO_FAIL_BAD_REPLY = 4"
| "fail_code CRYPTO_FAIL_REFUSED = 5"
| "fail_code CRYPTO_FAIL_REQUEST = 6"

definition crypto_report :: "u8 \<Rightarrow> crypto_fail \<Rightarrow> log_call list" where
  "crypto_report op reason = [(LOG_EVT_CRYPTO_ERROR, ucast op, fail_code reason)]"

fun crypto_fail_from_ipc :: "ipc_status \<Rightarrow> crypto_fail" where
  "crypto_fail_from_ipc IPC_BUSY = CRYPTO_FAIL_IPC_BUSY"
| "crypto_fail_from_ipc IPC_TIMEOUT = CRYPTO_FAIL_IPC_TIMEOUT"
| "crypto_fail_from_ipc IPC_OK = CRYPTO_FAIL_IPC_MALFORMED"
| "crypto_fail_from_ipc IPC_MALFORMED = CRYPTO_FAIL_IPC_MALFORMED"

text \<open>\<open>uint8_t buf[CRYPTO_MSG_MAX_WIRE]\<close>, before it is written.\<close>

definition wire_buf :: bytes where
  "wire_buf = replicate CRYPTO_MSG_MAX_WIRE 0"

definition crypto_verify_image ::
  "nat \<Rightarrow> 'w ipc_port_if option \<Rightarrow> u32 \<Rightarrow> u32 \<Rightarrow> u32 \<Rightarrow> 'w \<Rightarrow>
   (crypto_verdict \<times> log_call list \<times> 'w) option" where
  "crypto_verify_image fuel port base len key_id w =
     (let op = CRYPTO_OP_VERIFY_IMAGE in
      if port = None then Some (CRYPTO_VERDICT_ERROR, crypto_report op CRYPTO_FAIL_REQUEST, w)
      else
        let reqm = crypto_make_verify_request base len key_id (Some msg0);
            (req_len, req) = crypto_msg_encode reqm (Some wire_buf) in
        if req_len = 0 then Some (CRYPTO_VERDICT_ERROR, crypto_report op CRYPTO_FAIL_REQUEST, w)
        else case ipc_transact fuel port (map_option (take req_len) req) (Some wire_buf) (Some 0)
                    CRYPTO_VERIFY_TIMEOUT_MS w of
            None \<Rightarrow> None
          | Some (st, resp, resp_len, w1) \<Rightarrow>
              if st \<noteq> IPC_OK
              then Some (CRYPTO_VERDICT_ERROR, crypto_report op (crypto_fail_from_ipc st), w1)
              else case crypto_msg_decode (map_option (take (the resp_len)) resp) (Some msg0) of
                  (False, _) \<Rightarrow> Some (CRYPTO_VERDICT_ERROR, crypto_report op CRYPTO_FAIL_BAD_REPLY, w1)
                | (True, respm) \<Rightarrow>
                    (case crypto_parse_verdict respm of
                       None \<Rightarrow> Some (CRYPTO_VERDICT_ERROR, crypto_report op CRYPTO_FAIL_BAD_REPLY, w1)
                     | Some v \<Rightarrow>
                         Some (v, if v = CRYPTO_VERDICT_ERROR
                                  then crypto_report op CRYPTO_FAIL_REFUSED else [], w1)))"

text \<open>
  \<open>data\<close> is \<open>None\<close> for a \<open>NULL\<close> with a non-zero length; the result is the tag or \<open>None\<close> for \<open>false\<close>.
  \<open>tag_given\<close> is whether the caller's \<open>tag\<close> pointer is not \<open>NULL\<close>.
\<close>

definition crypto_mac ::
  "nat \<Rightarrow> 'w ipc_port_if option \<Rightarrow> u32 \<Rightarrow> bytes option \<Rightarrow> bool \<Rightarrow> 'w \<Rightarrow>
   (bytes option \<times> log_call list \<times> 'w) option" where
  "crypto_mac fuel port key_id data tag_given w =
     (let op = CRYPTO_OP_MAC in
      case (port, data) of
        (Some p, Some d) \<Rightarrow>
          if \<not> tag_given then Some (None, crypto_report op CRYPTO_FAIL_REQUEST, w)
          else if length d > CRYPTO_MAX_PAYLOAD - 6
          then Some (None, crypto_report op CRYPTO_FAIL_REQUEST, w)
          else
            let reqm = crypto_make_mac_request key_id data (Some msg0) in
            if cm_length (the reqm) = 0 then Some (None, crypto_report op CRYPTO_FAIL_REQUEST, w)
            else
              let (req_len, req) = crypto_msg_encode reqm (Some wire_buf) in
              if req_len = 0 then Some (None, crypto_report op CRYPTO_FAIL_REQUEST, w)
              else case ipc_transact fuel port (map_option (take req_len) req) (Some wire_buf) (Some 0)
                          CRYPTO_MAC_TIMEOUT_MS w of
                  None \<Rightarrow> None
                | Some (st, resp, resp_len, w1) \<Rightarrow>
                    if st \<noteq> IPC_OK
                    then Some (None, crypto_report op (crypto_fail_from_ipc st), w1)
                    else case crypto_msg_decode (map_option (take (the resp_len)) resp) (Some msg0) of
                        (False, _) \<Rightarrow> Some (None, crypto_report op CRYPTO_FAIL_BAD_REPLY, w1)
                      | (True, respm) \<Rightarrow>
                          (case crypto_parse_mac_response respm of
                             None \<Rightarrow>
                               Some (None, crypto_report op
                                 (if crypto_parse_verdict respm \<noteq> None then CRYPTO_FAIL_REFUSED
                                  else CRYPTO_FAIL_BAD_REPLY), w1)
                           | Some tag \<Rightarrow> Some (Some tag, [], w1))
      | _ \<Rightarrow> Some (None, crypto_report op CRYPTO_FAIL_REQUEST, w))"

section \<open>The requests that go out\<close>

lemma wire_buf_len [simp]: "length wire_buf = 131"
  by (simp add: wire_buf_def crypto_consts)

lemma take_overwrite0: "length p \<le> n \<Longrightarrow> n \<le> length b \<Longrightarrow> take (length p) (overwrite 0 p b) = p"
  by simp

lemma encoded_request:
  assumes "length p \<le> CRYPTO_MAX_PAYLOAD"
  shows "crypto_msg_encode (Some (msg_with op p)) (Some wire_buf) =
      (3 + length p, Some (overwrite 0 (msg_wire op p) wire_buf))"
    and "take (3 + length p) (overwrite 0 (msg_wire op p) wire_buf) = msg_wire op p"
proof -
  show "crypto_msg_encode (Some (msg_with op p)) (Some wire_buf) =
      (3 + length p, Some (overwrite 0 (msg_wire op p) wire_buf))"
    using assms by (intro encode_msg_with) (simp_all add: crypto_consts)
  show "take (3 + length p) (overwrite 0 (msg_wire op p) wire_buf) = msg_wire op p"
    using take_overwrite_0 [of "msg_wire op p" wire_buf] by simp
qed

lemma crypto_verify_image_eq:
  "crypto_verify_image fuel (Some p) base len key w =
    (case ipc_transact fuel (Some p)
            (Some (msg_wire CRYPTO_OP_VERIFY_IMAGE (le32 base @ le32 len @ le32 key)))
            (Some wire_buf) (Some 0) CRYPTO_VERIFY_TIMEOUT_MS w of
       None \<Rightarrow> None
     | Some (st, resp, resp_len, w1) \<Rightarrow>
         if st \<noteq> IPC_OK
         then Some (CRYPTO_VERDICT_ERROR, crypto_report CRYPTO_OP_VERIFY_IMAGE (crypto_fail_from_ipc st), w1)
         else case crypto_msg_decode (map_option (take (the resp_len)) resp) (Some msg0) of
             (False, _) \<Rightarrow> Some (CRYPTO_VERDICT_ERROR,
                crypto_report CRYPTO_OP_VERIFY_IMAGE CRYPTO_FAIL_BAD_REPLY, w1)
           | (True, respm) \<Rightarrow>
               (case crypto_parse_verdict respm of
                  None \<Rightarrow> Some (CRYPTO_VERDICT_ERROR,
                    crypto_report CRYPTO_OP_VERIFY_IMAGE CRYPTO_FAIL_BAD_REPLY, w1)
                | Some v \<Rightarrow> Some (v, if v = CRYPTO_VERDICT_ERROR
                    then crypto_report CRYPTO_OP_VERIFY_IMAGE CRYPTO_FAIL_REFUSED else [], w1)))"
proof -
  let ?p = "le32 base @ le32 len @ le32 key"
  have l: "length ?p \<le> CRYPTO_MAX_PAYLOAD" by (simp add: crypto_consts)
  show ?thesis
    unfolding crypto_verify_image_def Let_def make_verify_request_eq [OF msg0_wf] encoded_request(1) [OF l]
      prod.case option.map encoded_request(2) [OF l]
    by simp
qed

lemma crypto_mac_eq:
  assumes "length d \<le> 122"
  shows "crypto_mac fuel (Some p) key (Some d) True w =
    (case ipc_transact fuel (Some p)
            (Some (msg_wire CRYPTO_OP_MAC (le32 key @ le16 (of_nat (length d)) @ d)))
            (Some wire_buf) (Some 0) CRYPTO_MAC_TIMEOUT_MS w of
       None \<Rightarrow> None
     | Some (st, resp, resp_len, w1) \<Rightarrow>
         if st \<noteq> IPC_OK
         then Some (None, crypto_report CRYPTO_OP_MAC (crypto_fail_from_ipc st), w1)
         else case crypto_msg_decode (map_option (take (the resp_len)) resp) (Some msg0) of
             (False, _) \<Rightarrow> Some (None, crypto_report CRYPTO_OP_MAC CRYPTO_FAIL_BAD_REPLY, w1)
           | (True, respm) \<Rightarrow>
               (case crypto_parse_mac_response respm of
                  None \<Rightarrow> Some (None, crypto_report CRYPTO_OP_MAC
                      (if crypto_parse_verdict respm \<noteq> None then CRYPTO_FAIL_REFUSED
                       else CRYPTO_FAIL_BAD_REPLY), w1)
                | Some tag \<Rightarrow> Some (Some tag, [], w1)))"
proof -
  let ?p = "le32 key @ le16 (of_nat (length d)) @ d"
  have l: "length ?p \<le> CRYPTO_MAX_PAYLOAD" using assms by (simp add: crypto_consts)
  have d: "\<not> length d > CRYPTO_MAX_PAYLOAD - 6" using assms by (simp add: crypto_consts)
  have u: "unat (of_nat (6 + length d) :: u16) = 6 + length d"
    using assms unat_len [of "6 + length d"] by (simp add: crypto_consts)
  then have nz: "cm_length (msg_with CRYPTO_OP_MAC ?p) \<noteq> 0"
    using unat_eq_zero [of "of_nat (6 + length d) :: u16"] by (auto simp: msg_with_def)
  show ?thesis
    unfolding crypto_mac_def Let_def make_mac_request_eq [OF msg0_wf assms] encoded_request(1) [OF l]
      prod.case option.map option.case option.sel encoded_request(2) [OF l] if_not_P [OF d] if_not_P [OF nz]
    by simp
qed

end
