(* ===== verification/Crypto_Server.thy ===== *)
theory Crypto_Server imports Crypto_Msg begin

text \<open>
  The security core's side: \<open>shared/crypto/src/crypto_dispatch.c\<close> and \<open>crypto_keystore.c\<close>, and the
  operation handlers of \<open>node_a_gateway/bootloader/proj_cm0p/src/crypto_ops_cm0p.c\<close> (Node B's
  \<open>crypto_ops_cm0p.c\<close> has the MAC row only).

  The hardware crypto block and the memory it reads are not part of the repository: they are the
  record \<open>hw\<close> of functions over a hardware state \<open>'h\<close>, one per vendor call the handlers make, and a
  memory read. The file-scope tables (handlers, keys) are arguments.
\<close>

section \<open>Dispatch\<close>

record 'h crypto_handler_if =
  ch_op :: u8
  ch_handle :: "(crypto_msg \<Rightarrow> crypto_msg \<Rightarrow> 'h \<Rightarrow> bool \<times> crypto_msg \<times> 'h) option"

definition find_handler :: "'h crypto_handler_if list \<Rightarrow> u8 \<Rightarrow> 'h crypto_handler_if option" where
  "find_handler table op = map_option ((!) table) (first_index (\<lambda>h. ch_op h = op) table)"

definition crypto_dispatch ::
  "'h crypto_handler_if list \<Rightarrow> bytes option \<Rightarrow> bytes option \<Rightarrow> nat option \<Rightarrow> 'h \<Rightarrow>
   bool \<times> bytes option \<times> nat option \<times> 'h" where
  "crypto_dispatch table req resp resp_len h =
     (let len0 = map_option (\<lambda>_. 0) resp_len in
      if resp = None then (False, resp, len0, h)
      else
        let (decoded, reqm) = (case req of None \<Rightarrow> (False, Some msg0)
                               | Some _ \<Rightarrow> crypto_msg_decode req (Some msg0));
            echo = (if decoded then cm_op (the reqm) else CRYPTO_OP_NONE);
            (answered, respm, h1) =
              (if decoded then
                 (case find_handler table (cm_op (the reqm)) of
                    None \<Rightarrow> (False, msg0, h)
                  | Some e \<Rightarrow> (case ch_handle e of
                       None \<Rightarrow> (False, msg0, h)
                     | Some f \<Rightarrow> f (the reqm) msg0 h))
               else (False, msg0, h));
            respm1 = (if \<not> answered
              then the (crypto_make_verdict echo CRYPTO_VERDICT_ERROR (Some respm)) else respm);
            (n, resp1) = crypto_msg_encode (Some respm1) resp in
        if n = 0 then (False, resp1, len0, h1)
        else (True, resp1, map_option (\<lambda>_. n) resp_len, h1))"

section \<open>Keystore\<close>

datatype crypto_key_type = CRYPTO_KEY_ECDSA_PUBLIC | CRYPTO_KEY_AES_SECRET

record crypto_key_entry =
  ke_key_id :: u32
  ke_pubkey :: "bytes option"
  ke_pubkey_len :: nat
  ke_type :: crypto_key_type
  ke_secret :: "bytes option"
  ke_secret_len :: nat

definition crypto_keystore_lookup :: "crypto_key_entry list option \<Rightarrow> u32 \<Rightarrow> crypto_key_entry option" where
  "crypto_keystore_lookup table key_id = (case table of None \<Rightarrow> None
   | Some t \<Rightarrow> map_option ((!) t) (first_index (\<lambda>k. ke_key_id k = key_id) t))"

section \<open>The hardware block\<close>

text \<open>
  \<open>hw_sha\<close>: a digest, or a failure code. \<open>hw_ecc_verify\<close> (signature, digest, x, y): the status byte, or a
  failure. The CMAC steps: whether each succeeded, and the tag of the last. The error interrupt
  bits are read and cleared separately. \<open>hw_mem\<close> is the memory-mapped flash.
\<close>

record 'h crypto_hw =
  hw_mem :: "'h \<Rightarrow> u32 \<Rightarrow> u8"
  hw_sha :: "bytes \<Rightarrow> 'h \<Rightarrow> bytes option \<times> 'h"
  hw_ecc_verify :: "bytes \<Rightarrow> bytes \<Rightarrow> bytes \<Rightarrow> bytes \<Rightarrow> 'h \<Rightarrow> u8 option \<times> 'h"
  hw_cmac_init :: "'h \<Rightarrow> bool \<times> 'h"
  hw_cmac_start :: "bytes \<Rightarrow> 'h \<Rightarrow> bool \<times> 'h"
  hw_cmac_update :: "bytes \<Rightarrow> 'h \<Rightarrow> bool \<times> 'h"
  hw_cmac_finish :: "'h \<Rightarrow> bytes option \<times> 'h"
  hw_cmac_free :: "'h \<Rightarrow> 'h"
  hw_error_bits :: "'h \<Rightarrow> u32"
  hw_clear_interrupt :: "u32 \<Rightarrow> 'h \<Rightarrow> 'h"

section \<open>Handlers\<close>

definition hash_handler :: "'h crypto_hw \<Rightarrow> crypto_msg \<Rightarrow> crypto_msg \<Rightarrow> 'h \<Rightarrow> bool \<times> crypto_msg \<times> 'h" where
  "hash_handler hw req resp h =
     (case hw_sha hw (take (unat (cm_length req)) (cm_payload req)) h of
        (None, h1) \<Rightarrow> (False, resp, h1)
      | (Some digest, h1) \<Rightarrow>
          (True, resp\<lparr>cm_op := CRYPTO_OP_HASH, cm_length := of_nat CRYPTO_SHA256_DIGEST_LEN,
             cm_payload := overwrite 0 (take CRYPTO_SHA256_DIGEST_LEN digest) (cm_payload resp)\<rparr>, h1))"

definition TRAILER_HASH_OFF :: nat where "TRAILER_HASH_OFF = 0"
definition TRAILER_SIG_OFF :: nat where "TRAILER_SIG_OFF = 32"
definition ECC_P256_BYTES :: nat where "ECC_P256_BYTES = 32"

definition reverse32 :: "bytes \<Rightarrow> bytes" where
  "reverse32 src = map (\<lambda>i. src ! (31 - i)) [0..<32]"

text \<open>\<open>n\<close> bytes of memory from \<open>base\<close>.\<close>

definition mem_bytes :: "'h crypto_hw \<Rightarrow> 'h \<Rightarrow> u32 \<Rightarrow> nat \<Rightarrow> bytes" where
  "mem_bytes hw h base n = map (\<lambda>i. hw_mem hw h (base + of_nat i)) [0..<n]"

definition do_verify_image ::
  "'h crypto_hw \<Rightarrow> u32 \<Rightarrow> u32 \<Rightarrow> bytes \<Rightarrow> 'h \<Rightarrow> crypto_verdict \<times> 'h" where
  "do_verify_image hw base len pubkey_xy h =
     (let trailer = base + len;
          stored_hash = mem_bytes hw h (trailer + of_nat TRAILER_HASH_OFF) 32;
          sig = mem_bytes hw h (trailer + of_nat TRAILER_SIG_OFF) 64 in
      case hw_sha hw (mem_bytes hw h base (unat len)) h of
        (None, h1) \<Rightarrow> (CRYPTO_VERDICT_ERROR, h1)
      | (Some digest, h1) \<Rightarrow>
          if digest \<noteq> stored_hash then (CRYPTO_VERDICT_INVALID, h1)
          else
            let key_x_le = reverse32 pubkey_xy;
                key_y_le = reverse32 (drop ECC_P256_BYTES pubkey_xy);
                sig_le = reverse32 sig @ reverse32 (drop ECC_P256_BYTES sig) in
            (case hw_ecc_verify hw sig_le digest key_x_le key_y_le h1 of
               (None, h2) \<Rightarrow> (CRYPTO_VERDICT_ERROR, h2)
             | (Some stat, h2) \<Rightarrow>
                 (if stat = 1 then CRYPTO_VERDICT_VALID else CRYPTO_VERDICT_INVALID, h2)))"

definition verify_handler ::
  "'h crypto_hw \<Rightarrow> crypto_key_entry list option \<Rightarrow> crypto_msg \<Rightarrow> crypto_msg \<Rightarrow> 'h \<Rightarrow>
   bool \<times> crypto_msg \<times> 'h" where
  "verify_handler hw keys req resp h =
     (let (v, h1) =
        (case crypto_parse_verify_request (Some req) of
           None \<Rightarrow> (CRYPTO_VERDICT_ERROR, h)
         | Some (base, len, key_id) \<Rightarrow>
             (case crypto_keystore_lookup keys key_id of
                None \<Rightarrow> (CRYPTO_VERDICT_INVALID, h)
              | Some k \<Rightarrow>
                  if ke_pubkey k \<noteq> None \<and> ke_pubkey_len k = 2 * ECC_P256_BYTES
                  then do_verify_image hw base len (the (ke_pubkey k)) h
                  else (CRYPTO_VERDICT_INVALID, h))) in
      (True, the (crypto_make_verdict CRYPTO_OP_VERIFY_IMAGE v (Some resp)), h1))"

definition cmac_compute :: "'h crypto_hw \<Rightarrow> bytes \<Rightarrow> bytes \<Rightarrow> 'h \<Rightarrow> bytes option \<times> 'h" where
  "cmac_compute hw key data h =
     (let (st_tag, h5) =
        (case hw_cmac_init hw h of
           (False, h1) \<Rightarrow> (None, h1)
         | (True, h1) \<Rightarrow>
             let (t, h4) =
               (case hw_cmac_start hw key h1 of
                  (False, h2) \<Rightarrow> (None, h2)
                | (True, h2) \<Rightarrow>
                    (case hw_cmac_update hw data h2 of
                       (False, h3) \<Rightarrow> (None, h3)
                     | (True, h3) \<Rightarrow> hw_cmac_finish hw h3)) in
             (t, hw_cmac_free hw h4));
          hw_err = hw_error_bits hw h5 in
      if hw_err \<noteq> 0 then (None, hw_clear_interrupt hw hw_err h5)
      else (st_tag, h5))"

definition SECOC_AES128_KEY_BYTES :: nat where "SECOC_AES128_KEY_BYTES = 16"
definition CRYPTO_DEV_KEY_ID :: u32 where "CRYPTO_DEV_KEY_ID = 1"
definition SECOC_MAC_KEY_ID :: u32 where "SECOC_MAC_KEY_ID = 0x5E"

definition mac_handler ::
  "'h crypto_hw \<Rightarrow> crypto_key_entry list option \<Rightarrow> crypto_msg \<Rightarrow> crypto_msg \<Rightarrow> 'h \<Rightarrow>
   bool \<times> crypto_msg \<times> 'h" where
  "mac_handler hw keys req resp h =
     (let refuse = the (crypto_make_verdict CRYPTO_OP_MAC CRYPTO_VERDICT_ERROR (Some resp)) in
      case crypto_parse_mac_request (Some req) of
        None \<Rightarrow> (True, refuse, h)
      | Some (key_id, data) \<Rightarrow>
          (case crypto_keystore_lookup keys key_id of
             None \<Rightarrow> (True, refuse, h)
           | Some k \<Rightarrow>
               if ke_type k \<noteq> CRYPTO_KEY_AES_SECRET \<or> ke_secret k = None \<or>
                  ke_secret_len k \<noteq> SECOC_AES128_KEY_BYTES
               then (True, refuse, h)
               else (case cmac_compute hw (the (ke_secret k)) data h of
                   (None, h1) \<Rightarrow> (True, refuse, h1)
                 | (Some tag, h1) \<Rightarrow> (True, the (crypto_make_mac_response (Some tag) (Some resp)), h1))))"

section \<open>Tables\<close>

definition g_handlers :: "'h crypto_hw \<Rightarrow> crypto_key_entry list option \<Rightarrow> 'h crypto_handler_if list" where
  "g_handlers hw keys =
     [\<lparr>ch_op = CRYPTO_OP_HASH, ch_handle = Some (hash_handler hw)\<rparr>,
      \<lparr>ch_op = CRYPTO_OP_VERIFY_IMAGE, ch_handle = Some (verify_handler hw keys)\<rparr>,
      \<lparr>ch_op = CRYPTO_OP_MAC, ch_handle = Some (mac_handler hw keys)\<rparr>]"

definition g_handlers_b :: "'h crypto_hw \<Rightarrow> crypto_key_entry list option \<Rightarrow> 'h crypto_handler_if list" where
  "g_handlers_b hw keys = [\<lparr>ch_op = CRYPTO_OP_MAC, ch_handle = Some (mac_handler hw keys)\<rparr>]"

text \<open>Node A's keys: the key bytes themselves are data of the build.\<close>

definition g_keys :: "bytes \<Rightarrow> bytes \<Rightarrow> crypto_key_entry list" where
  "g_keys pubkey secret =
     [\<lparr>ke_key_id = CRYPTO_DEV_KEY_ID, ke_pubkey = Some pubkey, ke_pubkey_len = 64,
       ke_type = CRYPTO_KEY_ECDSA_PUBLIC, ke_secret = None, ke_secret_len = 0\<rparr>,
      \<lparr>ke_key_id = SECOC_MAC_KEY_ID, ke_pubkey = None, ke_pubkey_len = 0,
       ke_type = CRYPTO_KEY_AES_SECRET, ke_secret = Some secret, ke_secret_len = SECOC_AES128_KEY_BYTES\<rparr>]"

section \<open>What the server answers\<close>

text \<open>The message the dispatcher encodes: the handler's, or the ERROR verdict.\<close>

definition reply_msg :: "'h crypto_handler_if list \<Rightarrow> crypto_msg \<Rightarrow> 'h \<Rightarrow> crypto_msg \<times> 'h" where
  "reply_msg table m h =
     (case find_handler table (cm_op m) of
        None \<Rightarrow> (msg_with (cm_op m) [verdict_code CRYPTO_VERDICT_ERROR], h)
      | Some e \<Rightarrow> (case ch_handle e of
           None \<Rightarrow> (msg_with (cm_op m) [verdict_code CRYPTO_VERDICT_ERROR], h)
         | Some f \<Rightarrow> (case f m msg0 h of
              (True, r, h1) \<Rightarrow> (r, h1)
            | (False, r, h1) \<Rightarrow> (the (crypto_make_verdict (cm_op m) CRYPTO_VERDICT_ERROR (Some r)), h1))))"

lemma dispatch_decoded:
  assumes "crypto_msg_decode req (Some msg0) = (True, Some m)"
  shows "crypto_dispatch table req (Some b) (Some k) h =
    (case reply_msg table m h of (r, h1) \<Rightarrow>
       (case crypto_msg_encode (Some r) (Some b) of (n, b1) \<Rightarrow>
          if n = 0 then (False, b1, Some 0, h1) else (True, b1, Some n, h1)))"
proof -
  obtain x where req: "req = Some x" using assms by (cases req) (auto simp: crypto_msg_decode_def)
  show ?thesis
  proof (cases "find_handler table (cm_op m)")
    case None
    then show ?thesis
      using assms req by (simp add: crypto_dispatch_def reply_msg_def Let_def make_verdict_eq split: prod.splits)
  next
    case (Some e)
    show ?thesis
    proof (cases "ch_handle e")
      case None
      then show ?thesis
        using assms req Some by (simp add: crypto_dispatch_def reply_msg_def Let_def make_verdict_eq split: prod.splits)
    next
      case h: (Some f)
      obtain a r h1 where "f m msg0 h = (a, r, h1)" by (metis prod_cases3)
      then show ?thesis
        using assms req Some h
        by (cases a) (simp_all add: crypto_dispatch_def reply_msg_def Let_def split: prod.splits)
    qed
  qed
qed

lemma dispatch_undecoded:
  assumes "req = None \<or> fst (crypto_msg_decode req (Some msg0)) = False" and "4 \<le> length b"
  shows "crypto_dispatch table req (Some b) (Some k) h =
    (True, Some (overwrite 0 (msg_wire CRYPTO_OP_NONE [verdict_code CRYPTO_VERDICT_ERROR]) b), Some 4, h)"
proof -
  have e: "crypto_msg_encode (Some (msg_with CRYPTO_OP_NONE [verdict_code CRYPTO_VERDICT_ERROR])) (Some b) =
      (4, Some (overwrite 0 (msg_wire CRYPTO_OP_NONE [verdict_code CRYPTO_VERDICT_ERROR]) b))"
    using encode_msg_with [of "[verdict_code CRYPTO_VERDICT_ERROR]" b CRYPTO_OP_NONE] assms(2)
    by (simp add: crypto_consts)
  show ?thesis
    using assms(1) e
    by (cases req; cases "crypto_msg_decode req (Some msg0)")
       (auto simp: crypto_dispatch_def Let_def make_verdict_eq)
qed

lemma find_handlers:
  "find_handler (g_handlers hw keys) CRYPTO_OP_HASH = Some \<lparr>ch_op = CRYPTO_OP_HASH, ch_handle = Some (hash_handler hw)\<rparr>"
  "find_handler (g_handlers hw keys) CRYPTO_OP_VERIFY_IMAGE =
     Some \<lparr>ch_op = CRYPTO_OP_VERIFY_IMAGE, ch_handle = Some (verify_handler hw keys)\<rparr>"
  "find_handler (g_handlers hw keys) CRYPTO_OP_MAC =
     Some \<lparr>ch_op = CRYPTO_OP_MAC, ch_handle = Some (mac_handler hw keys)\<rparr>"
  "find_handler (g_handlers_b hw keys) CRYPTO_OP_MAC =
     Some \<lparr>ch_op = CRYPTO_OP_MAC, ch_handle = Some (mac_handler hw keys)\<rparr>"
  by (simp_all add: find_handler_def g_handlers_def g_handlers_b_def crypto_ops)

lemma find_handler_other:
  "op \<notin> {CRYPTO_OP_HASH, CRYPTO_OP_VERIFY_IMAGE, CRYPTO_OP_MAC} \<Longrightarrow> find_handler (g_handlers hw keys) op = None"
  by (auto simp: find_handler_def g_handlers_def)

text \<open>Every reply is small and fits the mailbox, so the server always answers.\<close>

definition small_msg :: "crypto_msg \<Rightarrow> bool" where
  "small_msg m \<longleftrightarrow> msg_wf m \<and> unat (cm_length m) \<le> 32"

lemma small_verdict [simp]: "small_msg (msg_with op [verdict_code v])"
  by (simp add: small_msg_def msg_with_def msg_wf_def crypto_consts)

lemma small_verdict' [simp]: "msg_wf m \<Longrightarrow> small_msg (the (crypto_make_verdict op v (Some m)))"
  by (simp add: make_verdict_eq)

lemma hash_handler_small:
  "msg_wf resp \<Longrightarrow> hash_handler hw req resp h = (b, r, h1) \<Longrightarrow> msg_wf r \<and> (b \<longrightarrow> small_msg r)"
  by (auto simp: hash_handler_def small_msg_def msg_wf_def crypto_consts
      split: prod.splits option.splits)

lemma verify_handler_small:
  "msg_wf resp \<Longrightarrow> verify_handler hw keys req resp h = (b, r, h1) \<Longrightarrow> b \<and> small_msg r"
  by (auto simp: verify_handler_def Let_def split: prod.splits)

lemma mac_response_small: "msg_wf m \<Longrightarrow> small_msg (the (crypto_make_mac_response (Some t) (Some m)))"
  by (simp add: crypto_make_mac_response_def payload_zero_from_def small_msg_def msg_wf_def crypto_consts)

lemma mac_handler_small:
  "msg_wf resp \<Longrightarrow> mac_handler hw keys req resp h = (b, r, h1) \<Longrightarrow> b \<and> small_msg r"
  by (auto simp: mac_handler_def Let_def mac_response_small split: prod.splits option.splits if_splits)

lemma small_encode:
  assumes "small_msg m" and "35 \<le> length b"
  shows "fst (crypto_msg_encode (Some m) (Some b)) = 3 + unat (cm_length m)"
  using assms by (simp add: crypto_msg_encode_def small_msg_def Let_def crypto_consts)

lemma reply_small: "small_msg (fst (reply_msg (g_handlers hw keys) m h))"
proof -
  consider (hash) "cm_op m = CRYPTO_OP_HASH" | (verify) "cm_op m = CRYPTO_OP_VERIFY_IMAGE"
    | (mac) "cm_op m = CRYPTO_OP_MAC"
    | (other) "cm_op m \<notin> {CRYPTO_OP_HASH, CRYPTO_OP_VERIFY_IMAGE, CRYPTO_OP_MAC}" by blast
  then show ?thesis
  proof cases
    case hash
    obtain a r h1 where "hash_handler hw m msg0 h = (a, r, h1)" by (metis prod_cases3)
    with hash_handler_small [OF msg0_wf this] hash show ?thesis
      by (cases a) (simp_all add: reply_msg_def find_handlers)
  next
    case verify
    obtain a r h1 where "verify_handler hw keys m msg0 h = (a, r, h1)" by (metis prod_cases3)
    with verify_handler_small [OF msg0_wf this] verify show ?thesis
      by (simp add: reply_msg_def find_handlers)
  next
    case mac
    obtain a r h1 where "mac_handler hw keys m msg0 h = (a, r, h1)" by (metis prod_cases3)
    with mac_handler_small [OF msg0_wf this] mac show ?thesis
      by (simp add: reply_msg_def find_handlers)
  next
    case other
    then show ?thesis
      using small_verdict [of "cm_op m" CRYPTO_VERDICT_ERROR]
      by (simp add: reply_msg_def find_handler_other)
  qed
qed

lemma dispatch_always_answers:
  assumes "35 \<le> length b"
  shows "\<exists>b' n h'. crypto_dispatch (g_handlers hw keys) req (Some b) (Some k) h = (True, Some b', Some n, h') \<and> 3 \<le> n \<and> n \<le> 35"
proof (cases "fst (crypto_msg_decode req (Some msg0)) = False \<or> req = None")
  case True
  then show ?thesis using dispatch_undecoded [of req b "g_handlers hw keys" k h] assms by auto
next
  case False
  then obtain m where m: "crypto_msg_decode req (Some msg0) = (True, Some m)"
    by (cases "crypto_msg_decode req (Some msg0)")
       (auto simp: crypto_msg_decode_def Let_def split: option.splits if_splits)
  obtain r h1 where r: "reply_msg (g_handlers hw keys) m h = (r, h1)" by fastforce
  then have small: "small_msg r" using reply_small [of hw keys m h] by simp
  obtain n b1 where e: "crypto_msg_encode (Some r) (Some b) = (n, b1)" by fastforce
  have n: "n = 3 + unat (cm_length r)" using small_encode [OF small assms] e by simp
  have "\<exists>b2. b1 = Some b2"
    using e by (auto simp: crypto_msg_encode_def Let_def split: if_splits)
  then show ?thesis
    using dispatch_decoded [OF m, of "g_handlers hw keys" b k h] r e n small by (auto simp: small_msg_def)
qed

text \<open>The MAC row: a tag for a key of the right kind, and an ERROR verdict in every other case.\<close>

definition mac_key :: "crypto_key_entry list option \<Rightarrow> u32 \<Rightarrow> bytes option" where
  "mac_key keys key_id = (case crypto_keystore_lookup keys key_id of None \<Rightarrow> None
     | Some k \<Rightarrow> if ke_type k = CRYPTO_KEY_AES_SECRET \<and> ke_secret_len k = SECOC_AES128_KEY_BYTES
                then ke_secret k else None)"

lemma mac_reply:
  assumes "find_handler table CRYPTO_OP_MAC = Some \<lparr>ch_op = CRYPTO_OP_MAC, ch_handle = Some (mac_handler hw keys)\<rparr>"
    and "length d \<le> 122"
  shows "reply_msg table (msg_with CRYPTO_OP_MAC (le32 key @ le16 (of_nat (length d)) @ d)) h =
    (case mac_key keys key of
       None \<Rightarrow> (msg_with CRYPTO_OP_MAC [verdict_code CRYPTO_VERDICT_ERROR], h)
     | Some s \<Rightarrow> (case cmac_compute hw s d h of
         (None, h1) \<Rightarrow> (msg_with CRYPTO_OP_MAC [verdict_code CRYPTO_VERDICT_ERROR], h1)
       | (Some t, h1) \<Rightarrow> (the (crypto_make_mac_response (Some t) (Some msg0)), h1)))"
proof -
  let ?m = "msg_with CRYPTO_OP_MAC (le32 key @ le16 (of_nat (length d)) @ d)"
  have op: "cm_op ?m = CRYPTO_OP_MAC" by (simp add: msg_with_def)
  note parse = parse_mac_request [OF assms(2), of key]
  show ?thesis
    unfolding reply_msg_def op assms(1)
    by (auto simp: mac_handler_def Let_def parse mac_key_def make_verdict_eq split: option.splits prod.splits)
qed

end
