(* ===== verification/Secoc.thy ===== *)
theory Secoc imports Prelude begin

text \<open>
  The secured-frame layer: \<open>shared/secoc/src/secoc.c\<close>. A CAN FD frame is
  \<open>[ PDU | epoch, counter (4, little endian) | truncated MAC (8) ]\<close>, and the MAC also covers the
  Data ID, which is not transmitted.

  The MAC oracle is injected in the code (\<open>secoc_mac_if_t\<close>): here it is a function of the key, the
  message and the world (the IPC channel and the secure core behind it) that yields the 16-byte tag
  or fails. Each of the pointers the code checks against \<open>NULL\<close> is an \<open>option\<close>. The four output
  pointers of the verify entry points are one record, returned as the call leaves it; an input or
  output buffer's length is its list's length. \<open>NULL\<close> with length 0, which \<open>secoc_secure\<close> allows for
  the PDU, is \<open>Some []\<close>.
\<close>

section \<open>Types and constants\<close>

definition SECOC_FRESHNESS_LEN :: nat where "SECOC_FRESHNESS_LEN = 4"
definition SECOC_MAC_LEN :: nat where "SECOC_MAC_LEN = 8"
definition SECOC_TRAILER_LEN :: nat where "SECOC_TRAILER_LEN = SECOC_FRESHNESS_LEN + SECOC_MAC_LEN"
definition SECOC_FULL_TAG_LEN :: nat where "SECOC_FULL_TAG_LEN = 16"
definition SECOC_MAX_PDU :: nat where "SECOC_MAX_PDU = 64"

lemmas secoc_consts = SECOC_FRESHNESS_LEN_def SECOC_MAC_LEN_def SECOC_TRAILER_LEN_def
  SECOC_FULL_TAG_LEN_def SECOC_MAX_PDU_def

type_synonym 'w mac_fn = "u32 \<Rightarrow> bytes \<Rightarrow> 'w \<Rightarrow> bytes option \<times> 'w"

record 'w secoc_mac_if = if_mac :: "'w mac_fn option"

record 'w secoc_crypto =
  cy_oracle :: "'w secoc_mac_if option"
  cy_key_id :: u32

datatype secoc_verify_result = SECOC_OK | SECOC_BAD_MAC | SECOC_BAD_LENGTH | SECOC_MAC_ERROR

record secoc_out =
  o_epoch :: "u16 option"
  o_counter :: "u16 option"
  o_pdu :: "bytes option"
  o_pdu_len :: "nat option"

section \<open>Operations\<close>

definition put_u16le :: "u16 \<Rightarrow> bytes" where
  "put_u16le v = [ucast (v AND 0xFF), ucast (drop_bit 8 v AND 0xFF)]"

definition get_u16le :: "bytes \<Rightarrow> u16" where
  "get_u16le p = ucast (p ! 0) OR push_bit 8 (ucast (p ! 1))"

definition secoc_ct_equal :: "bytes option \<Rightarrow> bytes option \<Rightarrow> nat \<Rightarrow> bool" where
  "secoc_ct_equal a b n =
     (if n \<noteq> 0 \<and> (a = None \<or> b = None) then False
      else foldl (\<lambda>diff i. diff OR (the a ! i XOR the b ! i)) 0 [0..<n] = 0)"

definition build_mac_input :: "u16 \<Rightarrow> bytes \<Rightarrow> bytes \<Rightarrow> nat \<Rightarrow> bytes" where
  "build_mac_input can_id freshness4 pdu pdu_len =
     put_u16le can_id @
     [freshness4 ! 0, freshness4 ! 1, freshness4 ! 2, freshness4 ! 3] @ take pdu_len pdu"

text \<open>The guard chain \<open>cy == NULL || cy->oracle == NULL || cy->oracle->mac == NULL\<close>.\<close>

definition crypto_mac_of :: "'w secoc_crypto option \<Rightarrow> (u32 \<times> 'w mac_fn) option" where
  "crypto_mac_of cy = (case cy of None \<Rightarrow> None | Some c \<Rightarrow>
     (case cy_oracle c of None \<Rightarrow> None | Some i \<Rightarrow>
       (case if_mac i of None \<Rightarrow> None | Some m \<Rightarrow> Some (cy_key_id c, m))))"

definition secoc_secure ::
  "'w secoc_crypto option \<Rightarrow> u16 \<Rightarrow> u16 \<Rightarrow> u16 \<Rightarrow> bytes option \<Rightarrow> bytes option \<Rightarrow> 'w \<Rightarrow>
   nat \<times> bytes option \<times> 'w" where
  "secoc_secure cy can_id epoch counter pdu out w = (case (crypto_mac_of cy, out, pdu) of
     (Some (key, m), Some ob, Some p) \<Rightarrow>
       let pdu_len = length p; secured = pdu_len + SECOC_TRAILER_LEN in
       if pdu_len > SECOC_MAX_PDU then (0, out, w)
       else if length ob < secured then (0, out, w)
       else
         let fresh = put_u16le epoch @ put_u16le counter;
             macin = build_mac_input can_id fresh p pdu_len in
         (case m key macin w of
            (None, w') \<Rightarrow> (0, out, w')
          | (Some tag, w') \<Rightarrow>
              let o1 = overwrite 0 p ob;
                  o2 = overwrite pdu_len [fresh ! 0, fresh ! 1, fresh ! 2, fresh ! 3] o1;
                  o3 = overwrite (pdu_len + SECOC_FRESHNESS_LEN) (take SECOC_MAC_LEN tag) o2
              in (secured, Some o3, w'))
   | _ \<Rightarrow> (0, out, w))"

definition verify_core ::
  "u32 \<Rightarrow> 'w mac_fn \<Rightarrow> u16 \<Rightarrow> bytes \<Rightarrow> nat \<Rightarrow> secoc_out \<Rightarrow> 'w \<Rightarrow>
   secoc_verify_result \<times> secoc_out \<times> 'w" where
  "verify_core key m can_id frame plen out w =
     (let pdu = frame; fresh = drop plen frame; rx_mac = drop (plen + SECOC_FRESHNESS_LEN) frame;
          macin = build_mac_input can_id fresh pdu plen in
      (case m key macin w of
         (None, w') \<Rightarrow> (SECOC_MAC_ERROR, out, w')
       | (Some tag, w') \<Rightarrow>
           if \<not> secoc_ct_equal (Some tag) (Some rx_mac) SECOC_MAC_LEN then (SECOC_BAD_MAC, out, w')
           else (SECOC_OK,
                 out\<lparr>o_pdu := map_option (overwrite 0 (take plen pdu)) (o_pdu out),
                     o_pdu_len := Some plen,
                     o_epoch := Some (get_u16le fresh),
                     o_counter := Some (get_u16le (drop 2 fresh))\<rparr>, w')))"

text \<open>All four output pointers are given: the part of \<open>verify_args_ok\<close> about them.\<close>

definition outs_ok :: "secoc_out \<Rightarrow> bool" where
  "outs_ok out \<longleftrightarrow> o_epoch out \<noteq> None \<and> o_counter out \<noteq> None \<and> o_pdu out \<noteq> None \<and> o_pdu_len out \<noteq> None"

definition verify_args_ok :: "'w secoc_crypto option \<Rightarrow> bytes option \<Rightarrow> secoc_out \<Rightarrow> bool" where
  "verify_args_ok cy frame out \<longleftrightarrow> crypto_mac_of cy \<noteq> None \<and> frame \<noteq> None \<and> outs_ok out"

definition secoc_verify ::
  "'w secoc_crypto option \<Rightarrow> u16 \<Rightarrow> bytes option \<Rightarrow> secoc_out \<Rightarrow> 'w \<Rightarrow>
   secoc_verify_result \<times> secoc_out \<times> 'w" where
  "secoc_verify cy can_id frame out w =
     (if \<not> verify_args_ok cy frame out then (SECOC_MAC_ERROR, out, w)
      else
        let (key, m) = the (crypto_mac_of cy); f = the frame; cap = length (the (o_pdu out)) in
        if length f < SECOC_TRAILER_LEN then (SECOC_BAD_LENGTH, out, w)
        else
          let plen = length f - SECOC_TRAILER_LEN in
          if plen > SECOC_MAX_PDU \<or> plen > cap then (SECOC_BAD_LENGTH, out, w)
          else verify_core key m can_id f plen out w)"

definition k_fd_len :: "nat list" where "k_fd_len = [12, 16, 20, 24, 32, 48, 64]"

definition secoc_fd_frame_len :: "nat \<Rightarrow> nat" where
  "secoc_fd_frame_len n =
     (if n \<le> 8 then n
      else case first_index (\<lambda>l. n \<le> l) k_fd_len of Some i \<Rightarrow> k_fd_len ! i | None \<Rightarrow> 0)"

definition secoc_verify_len ::
  "'w secoc_crypto option \<Rightarrow> u16 \<Rightarrow> bytes option \<Rightarrow> nat \<Rightarrow> secoc_out \<Rightarrow> 'w \<Rightarrow>
   secoc_verify_result \<times> secoc_out \<times> 'w" where
  "secoc_verify_len cy can_id frame pdu_len_cfg out w =
     (if \<not> verify_args_ok cy frame out then (SECOC_MAC_ERROR, out, w)
      else
        let (key, m) = the (crypto_mac_of cy); f = the frame; cap = length (the (o_pdu out)) in
        if pdu_len_cfg > SECOC_MAX_PDU \<or> pdu_len_cfg > cap then (SECOC_BAD_LENGTH, out, w)
        else
          let secured = pdu_len_cfg + SECOC_TRAILER_LEN; padded = secoc_fd_frame_len secured in
          if length f < secured \<or> length f > padded then (SECOC_BAD_LENGTH, out, w)
          else verify_core key m can_id f pdu_len_cfg out w)"

section \<open>Byte-level lemmas\<close>

lemma put_u16le_eq [codec]: "put_u16le v = le16 v"
  by (simp add: put_u16le_def le16_def)

lemma get_u16le_eq [codec]: "get_u16le (a # b # xs) = un_le16 a b"
  by (simp add: get_u16le_def un_le16_def)

lemma get_put_u16le [simp, codec]: "get_u16le (put_u16le v @ xs) = v"
  by (simp add: put_u16le_eq le16_def get_u16le_eq)

lemma foldl_or_eq_0:
  "foldl (\<lambda>d i. d OR f i) (x :: u8) is = 0 \<longleftrightarrow> x = 0 \<and> (\<forall>i \<in> set is. f i = 0)"
  by (induction "is" arbitrary: x) (auto simp: or_eq_0_iff)

lemma secoc_ct_equal_iff:
  assumes "n \<le> length a" and "n \<le> length b"
  shows "secoc_ct_equal (Some a) (Some b) n \<longleftrightarrow> take n a = take n b"
proof -
  have "secoc_ct_equal (Some a) (Some b) n \<longleftrightarrow> (\<forall>i < n. a ! i = b ! i)"
    by (auto simp: secoc_ct_equal_def foldl_or_eq_0 xor_eq_0_iff)
  also have "\<dots> \<longleftrightarrow> take n a = take n b"
    using assms by (auto simp: list_eq_iff_nth_eq)
  finally show ?thesis .
qed

text \<open>What the MAC covers and what goes on the wire, as plain concatenations.\<close>

definition mac_input :: "u16 \<Rightarrow> u16 \<Rightarrow> u16 \<Rightarrow> bytes \<Rightarrow> bytes" where
  "mac_input can_id epoch counter pdu = le16 can_id @ le16 epoch @ le16 counter @ pdu"

definition wire_frame :: "bytes \<Rightarrow> u16 \<Rightarrow> u16 \<Rightarrow> bytes \<Rightarrow> bytes" where
  "wire_frame pdu epoch counter mac8 = pdu @ le16 epoch @ le16 counter @ mac8"

lemma mac_input_inject:
  "mac_input i e c p = mac_input i' e' c' p' \<longleftrightarrow> i = i' \<and> e = e' \<and> c = c' \<and> p = p'"
  by (simp add: mac_input_def)

lemma length_wire_frame [simp]: "length (wire_frame p e c t) = length p + 4 + length t"
  by (simp add: wire_frame_def)

lemma build_mac_input_eq:
  "build_mac_input i (le16 e @ le16 c @ r) (p @ q) (length p) = mac_input i e c p"
  by (simp add: build_mac_input_def mac_input_def put_u16le_eq le16_def)

lemma build_mac_input_eq' [simp]:
  "build_mac_input i (le16 e @ le16 c) p (length p) = mac_input i e c p"
  using build_mac_input_eq [of i e c "[]" p "[]"] by simp

lemma overwrite_append: "overwrite (i + length xs) ys (overwrite i xs b) = overwrite i (xs @ ys) b"
  if "i \<le> length b"
  using that by (simp add: overwrite_def min_def ac_simps)

lemma secure_buffer:
  assumes "length p + 12 \<le> length ob" and "length t = 8"
  shows "overwrite (length p + 4) t (overwrite (length p)
           [le16 e ! 0, le16 e ! Suc 0, le16 c ! 0, le16 c ! Suc 0] (overwrite 0 p ob))
         = overwrite 0 (wire_frame p e c t) ob"
proof -
  let ?f = "[le16 e ! 0, le16 e ! Suc 0, le16 c ! 0, le16 c ! Suc 0]"
  have f: "?f = le16 e @ le16 c" by (simp add: le16_def)
  have "overwrite (length p) ?f (overwrite 0 p ob) = overwrite 0 (p @ ?f) ob"
    using overwrite_append [of 0 ob p ?f] by simp
  moreover have "overwrite (length p + 4) t (overwrite 0 (p @ ?f) ob) = overwrite 0 ((p @ ?f) @ t) ob"
    using overwrite_append [of 0 ob "p @ ?f" t] by (simp add: numeral_eq_Suc)
  ultimately show ?thesis by (simp add: wire_frame_def le16_def)
qed

text \<open>A buffer that is long enough is a wire frame followed by padding.\<close>

lemma le16_surj: "\<exists>v. [a, b] = le16 v"
  by (metis le16_un_le16)

lemma frame_split:
  assumes "n + 12 \<le> length f"
  obtains p e c t pad where "f = wire_frame p e c t @ pad" and "length p = n" and "length t = 8"
proof -
  let ?r = "drop n f"
  have "4 \<le> length ?r" using assms by simp
  then obtain a b c d r where r: "?r = a # b # c # d # r"
    using length_ge_4_D [of ?r] by blast
  obtain e where e: "[a, b] = le16 e" using le16_surj by blast
  obtain ct where ct: "[c, d] = le16 ct" using le16_surj by blast
  have "f = take n f @ [a, b] @ [c, d] @ take 8 r @ drop 8 r"
    by (metis append_Cons append_Nil append_take_drop_id r)
  then have "f = wire_frame (take n f) e ct (take 8 r) @ drop 8 r"
    by (simp add: wire_frame_def e ct)
  moreover have "length r = length f - n - 4" using arg_cong [OF r, of length] by simp
  then have "length (take 8 r) = 8" using assms by simp
  ultimately show ?thesis using assms by (intro that [of "take n f"]) auto
qed

section \<open>The frame operations\<close>

lemma secoc_secure_spec:
  assumes "crypto_mac_of cy = Some (key, m)"
    and "length p \<le> SECOC_MAX_PDU" and "length p + SECOC_TRAILER_LEN \<le> length ob"
  shows "secoc_secure cy i e c (Some p) (Some ob) w =
    (case m key (mac_input i e c p) w of
       (None, w') \<Rightarrow> (0, Some ob, w')
     | (Some tag, w') \<Rightarrow>
         (length p + SECOC_TRAILER_LEN,
          Some (overwrite (length p + SECOC_FRESHNESS_LEN) (take SECOC_MAC_LEN tag)
            (overwrite (length p) (le16 e @ le16 c) (overwrite 0 p ob))), w'))"
  using assms
  by (auto simp: secoc_secure_def Let_def put_u16le_eq secoc_consts le16_def build_mac_input_def
      mac_input_def split: option.splits prod.splits)

text \<open>An oracle that delivers full tags: what the type \<open>uint8_t tag[16]\<close> says.\<close>

definition full_tags :: "'w mac_fn \<Rightarrow> bool" where
  "full_tags m \<longleftrightarrow> (\<forall>k msg w t w'. m k msg w = (Some t, w') \<longrightarrow> length t = SECOC_FULL_TAG_LEN)"

lemma full_tagsD: "full_tags m \<Longrightarrow> m k msg w = (Some t, w') \<Longrightarrow> length t = SECOC_FULL_TAG_LEN"
  unfolding full_tags_def by blast

lemma secoc_secure_ok:
  assumes "secoc_secure cy i e c (Some p) (Some ob) w = (n, out, w')" and "n \<noteq> 0"
    and tag: "full_tags m"
    and cy: "crypto_mac_of cy = Some (key, m)"
  obtains t where "m key (mac_input i e c p) w = (Some t, w')"
    and "n = length p + SECOC_TRAILER_LEN" and "length p \<le> SECOC_MAX_PDU"
    and "n \<le> length ob"
    and "out = Some (overwrite 0 (wire_frame p e c (take SECOC_MAC_LEN t)) ob)"
proof -
  have len: "length p \<le> SECOC_MAX_PDU" "length p + SECOC_TRAILER_LEN \<le> length ob"
    using assms(1,2) by (auto simp: secoc_secure_def Let_def cy split: if_splits)
  from secoc_secure_spec [OF cy len, of i e c w] assms(1,2) obtain t
    where t: "m key (mac_input i e c p) w = (Some t, w')"
      and n: "n = length p + SECOC_TRAILER_LEN"
      and out: "out = Some (overwrite (length p + SECOC_FRESHNESS_LEN) (take SECOC_MAC_LEN t)
            (overwrite (length p) (le16 e @ le16 c) (overwrite 0 p ob)))"
    by (auto split: option.splits prod.splits)
  have "out = Some (overwrite 0 (wire_frame p e c (take SECOC_MAC_LEN t)) ob)"
    using secure_buffer [of p ob "take SECOC_MAC_LEN t" e c] len(2) full_tagsD [OF tag t] out
    by (simp add: secoc_consts le16_def)
  with t n len show ?thesis by (intro that) auto
qed

text \<open>Verification of a frame in the split form: it is the comparison of the recomputed tag.\<close>

lemma verify_core_wire:
  assumes "length t = 8"
    and tag: "full_tags m"
  shows "verify_core key m i (wire_frame p e c t @ pad) (length p) out w =
    (case m key (mac_input i e c p) w of
       (None, w') \<Rightarrow> (SECOC_MAC_ERROR, out, w')
     | (Some tag, w') \<Rightarrow>
         if take SECOC_MAC_LEN tag = t then
           (SECOC_OK, out\<lparr>o_pdu := map_option (overwrite 0 p) (o_pdu out),
              o_pdu_len := Some (length p), o_epoch := Some e, o_counter := Some c\<rparr>, w')
         else (SECOC_BAD_MAC, out, w'))"
proof -
  let ?f = "wire_frame p e c t @ pad"
  have f: "drop (length p) ?f = le16 e @ le16 c @ t @ pad"
    by (simp add: wire_frame_def)
  have g: "drop (length p + 4) ?f = t @ pad"
    by (simp add: wire_frame_def le16_def)
  have b: "build_mac_input i (le16 e @ le16 c @ t @ pad) ?f (length p) = mac_input i e c p"
    using build_mac_input_eq [of i e c "t @ pad" p] by (simp add: wire_frame_def)
  have ct: "secoc_ct_equal (Some tg) (Some (t @ pad)) 8 \<longleftrightarrow> take 8 tg = t"
    if "m key (mac_input i e c p) w = (Some tg, w')" for tg w'
    using secoc_ct_equal_iff [of 8 tg "t @ pad"] full_tagsD [OF tag that] assms(1)
    by (simp add: secoc_consts)
  have h: "get_u16le (le16 e @ le16 c @ t @ pad) = e"
    "get_u16le (drop 2 (le16 e @ le16 c @ t @ pad)) = c" "take (length p) ?f = p"
    by (simp_all add: le16_def get_u16le_eq wire_frame_def)
  show ?thesis
    unfolding verify_core_def Let_def SECOC_FRESHNESS_LEN_def f g b SECOC_MAC_LEN_def h
    by (auto simp: ct split: option.splits prod.splits)
qed

lemma secoc_verify_wire:
  assumes "crypto_mac_of cy = Some (key, m)" and "outs_ok out" and "length t = 8"
    and "length p \<le> SECOC_MAX_PDU" and "length p \<le> length (the (o_pdu out))"
  shows "secoc_verify cy i (Some (wire_frame p e c t)) out w =
    verify_core key m i (wire_frame p e c t) (length p) out w"
  using assms by (simp add: secoc_verify_def verify_args_ok_def secoc_consts)

lemma secoc_verify_len_wire:
  assumes "crypto_mac_of cy = Some (key, m)" and "outs_ok out" and "length t = 8"
    and "length p \<le> SECOC_MAX_PDU" and "length p \<le> length (the (o_pdu out))"
    and "length p + SECOC_TRAILER_LEN + length pad \<le> secoc_fd_frame_len (length p + SECOC_TRAILER_LEN)"
  shows "secoc_verify_len cy i (Some (wire_frame p e c t @ pad)) (length p) out w =
    verify_core key m i (wire_frame p e c t @ pad) (length p) out w"
  using assms by (simp add: secoc_verify_len_def verify_args_ok_def secoc_consts)

lemma secoc_fd_frame_len_ge: "n \<le> 64 \<Longrightarrow> n \<le> secoc_fd_frame_len n \<and> secoc_fd_frame_len n \<le> 64"
  by (auto simp: secoc_fd_frame_len_def k_fd_len_def)

lemma secoc_fd_frame_len_0: "64 < n \<Longrightarrow> secoc_fd_frame_len n = 0"
  by (auto simp: secoc_fd_frame_len_def k_fd_len_def)

text \<open>Whatever the verdict, only \<open>SECOC_OK\<close> writes an output.\<close>

lemma verify_core_frame:
  "verify_core key m i f n out w = (r, out', w') \<Longrightarrow> r \<noteq> SECOC_OK \<Longrightarrow> out' = out"
  by (auto simp: verify_core_def Let_def split: option.splits prod.splits if_splits)

lemma secoc_verify_frame:
  "secoc_verify cy i f out w = (r, out', w') \<Longrightarrow> r \<noteq> SECOC_OK \<Longrightarrow> out' = out"
  by (auto simp: secoc_verify_def Let_def split: prod.splits if_splits dest: verify_core_frame)

lemma secoc_verify_len_frame:
  "secoc_verify_len cy i f n out w = (r, out', w') \<Longrightarrow> r \<noteq> SECOC_OK \<Longrightarrow> out' = out"
  by (auto simp: secoc_verify_len_def Let_def split: prod.splits if_splits dest: verify_core_frame)

lemma verify_core_no_bad_length: "fst (verify_core key m i f n out w) \<noteq> SECOC_BAD_LENGTH"
  by (auto simp: verify_core_def Let_def split: option.splits prod.splits)

section \<open>The contract of the MAC oracle\<close>

text \<open>
  What the frame layer relies on: the tags are 16 bytes and are a function of key and message,
  whatever the state of the channel to the secure core. Whether a tag is produced at all may
  depend on the world (busy, timeout, unknown key).
\<close>

locale mac_service =
  fixes m :: "'w mac_fn"
    and tag :: "u32 \<Rightarrow> bytes \<Rightarrow> bytes"
  assumes mac_tag: "m k msg w = (Some t, w') \<Longrightarrow> t = tag k msg"
    and mac_len: "full_tags m"
begin

lemma tag_trunc_len:
  "m k msg w = (Some t, w') \<Longrightarrow> length (take SECOC_MAC_LEN (tag k msg)) = 8"
  using mac_tag [of k msg w t w'] full_tagsD [OF mac_len] by (simp add: secoc_consts)

lemma secure_then_verify_core:
  assumes "secoc_secure cy i e c (Some p) (Some ob) w = (n, out, w')" and "n \<noteq> 0"
    and "crypto_mac_of cy = Some (key, m)"
  shows "out = Some (overwrite 0 (wire_frame p e c (take SECOC_MAC_LEN (tag key (mac_input i e c p)))) ob)
    \<and> n = length p + SECOC_TRAILER_LEN \<and> length p \<le> SECOC_MAX_PDU \<and> n \<le> length ob
    \<and> length (take SECOC_MAC_LEN (tag key (mac_input i e c p))) = 8"
proof -
  obtain t where t: "m key (mac_input i e c p) w = (Some t, w')"
    and r: "n = length p + SECOC_TRAILER_LEN" "length p \<le> SECOC_MAX_PDU" "n \<le> length ob"
      "out = Some (overwrite 0 (wire_frame p e c (take SECOC_MAC_LEN t)) ob)"
    using secoc_secure_ok [OF assms(1,2) mac_len assms(3)] .
  from r tag_trunc_len [OF t] mac_tag [OF t] show ?thesis by simp
qed

lemma verify_core_accepts_iff:
  assumes "length t = 8" and "m key (mac_input i e c p) w = (Some tg, w')"
  shows "fst (verify_core key m i (wire_frame p e c t @ pad) (length p) out w) = SECOC_OK
    \<longleftrightarrow> t = take SECOC_MAC_LEN (tag key (mac_input i e c p))"
  using verify_core_wire [OF assms(1) mac_len] assms(2) mac_tag [OF assms(2)] by auto

lemma verify_core_ok:
  assumes "verify_core key m i f n out w = (SECOC_OK, out', w')" and "n + 12 \<le> length f"
  obtains p e c t pad where "f = wire_frame p e c t @ pad" and "length p = n"
    and "t = take SECOC_MAC_LEN (tag key (mac_input i e c p))" and "length t = 8"
    and "out' = out\<lparr>o_pdu := map_option (overwrite 0 p) (o_pdu out),
              o_pdu_len := Some n, o_epoch := Some e, o_counter := Some c\<rparr>"
proof -
  from frame_split [OF assms(2)] obtain p e c t pad
    where f: "f = wire_frame p e c t @ pad" "length p = n" "length t = 8" .
  from verify_core_wire [OF f(3) mac_len, where p = p and e = e and c = c and key = key and i = i
      and pad = pad and out = out and w = w] assms(1) f(1,2)
  have "t = take SECOC_MAC_LEN (tag key (mac_input i e c p)) \<and>
    out' = out\<lparr>o_pdu := map_option (overwrite 0 p) (o_pdu out),
              o_pdu_len := Some n, o_epoch := Some e, o_counter := Some c\<rparr>"
    by (auto split: option.splits prod.splits if_splits dest: mac_tag)
  with f show ?thesis by (intro that) auto
qed

end

end
