(* ===== verification/Crypto_Link.thy ===== *)
theory Crypto_Link imports Crypto_Service Crypto_Server Secoc begin

text \<open>
  The two cores together: the application core's port of the transport
  (\<open>node_a_gateway/app/src/port_crypto.c\<close>; the FBL's and Node B's are the same code over their own
  mailbox), the shared mailbox of \<open>shared/crypto/include/ipc_mailbox_map.h\<close>, and the security core's
  service loop (\<open>node_a_gateway/bootloader/proj_cm0p/src/main_cm0p.c\<close>).

  The world \<open>'h link\<close> is the shared mailbox, the channel's hardware lock, the clock the port reads,
  and the security core's hardware state. The cores interleave at the polls of the response flag:
  \<open>lk_delay\<close> says how many polls pass before the security core gets to its loop, \<open>None\<close> that it is
  dead. The result is that the client's MAC is an oracle in the sense of \<open>mac_service\<close>.
\<close>

section \<open>The mailbox and its port\<close>

datatype ipc_mbx_status = IPC_MBX_IDLE | IPC_MBX_REQUEST | IPC_MBX_RESPONSE

record 'h link =
  lk_status :: ipc_mbx_status
  lk_len :: u32
  lk_mem :: "nat \<Rightarrow> u8"
  lk_locked :: bool
  lk_clock :: u32
  lk_tick :: u32
  lk_delay :: "nat option"
  lk_hw :: 'h

text \<open>The payload array \<open>payload[CRYPTO_MAX_PAYLOAD]\<close> of the shared structure.\<close>

definition lk_payload :: "'h link \<Rightarrow> bytes" where
  "lk_payload lk = map (lk_mem lk) [0..<CRYPTO_MAX_PAYLOAD]"

definition set_payload :: "bytes \<Rightarrow> 'h link \<Rightarrow> 'h link" where
  "set_payload p lk = lk\<lparr>lk_mem := (\<lambda>i. if i < length p then p ! i else 0)\<rparr>"

lemma length_lk_payload [simp]: "length (lk_payload lk) = 128"
  by (simp add: lk_payload_def crypto_consts)

lemma lk_payload_set [simp]: "length p = 128 \<Longrightarrow> lk_payload (set_payload p lk) = p"
  by (rule nth_equalityI) (simp_all add: lk_payload_def set_payload_def crypto_consts)

lemma lk_payload_other [simp]:
  "lk_payload (lk\<lparr>lk_len := n\<rparr>) = lk_payload lk" "lk_payload (lk\<lparr>lk_status := s\<rparr>) = lk_payload lk"
  "lk_payload (lk\<lparr>lk_hw := h\<rparr>) = lk_payload lk" "lk_payload (lk\<lparr>lk_locked := b\<rparr>) = lk_payload lk"
  "lk_payload (lk\<lparr>lk_delay := d\<rparr>) = lk_payload lk" "lk_payload (lk\<lparr>lk_clock := c\<rparr>) = lk_payload lk"
  by (simp_all add: lk_payload_def)

lemma set_payload_other [simp]:
  "lk_hw (set_payload p lk) = lk_hw lk" "lk_status (set_payload p lk) = lk_status lk"
  "lk_len (set_payload p lk) = lk_len lk"
  by (simp_all add: set_payload_def)

definition service_mailbox_once :: "'h crypto_handler_if list \<Rightarrow> 'h link \<Rightarrow> 'h link" where
  "service_mailbox_once table lk =
     (if lk_status lk = IPC_MBX_REQUEST then
        (case crypto_dispatch table (Some (take (unat (lk_len lk)) (lk_payload lk)))
                (Some (lk_payload lk)) (Some 0) (lk_hw lk) of
           (_, resp, resp_len, h) \<Rightarrow>
             (set_payload (the resp) lk)\<lparr>lk_len := of_nat (the resp_len), lk_hw := h,
                lk_status := IPC_MBX_RESPONSE\<rparr>)
      else lk)"

text \<open>What the other core does before the flag is looked at.\<close>

definition other_core :: "'h crypto_handler_if list \<Rightarrow> 'h link \<Rightarrow> 'h link" where
  "other_core table lk = (case lk_delay lk of
     None \<Rightarrow> lk
   | Some 0 \<Rightarrow> service_mailbox_once table lk
   | Some (Suc n) \<Rightarrow> lk\<lparr>lk_delay := Some n\<rparr>)"

definition port_sema_try_acquire :: "'h link \<Rightarrow> bool \<times> 'h link" where
  "port_sema_try_acquire lk = (if lk_locked lk then (False, lk) else (True, lk\<lparr>lk_locked := True\<rparr>))"

definition port_sema_release :: "'h link \<Rightarrow> 'h link" where
  "port_sema_release lk = lk\<lparr>lk_status := IPC_MBX_IDLE, lk_locked := False\<rparr>"

definition port_mailbox_put :: "bytes \<Rightarrow> 'h link \<Rightarrow> 'h link" where
  "port_mailbox_put d lk = set_payload (overwrite 0 d (lk_payload lk)) lk"

definition port_mailbox_get :: "nat \<Rightarrow> 'h link \<Rightarrow> bytes" where
  "port_mailbox_get n lk = take n (lk_payload lk)"

definition port_notify :: "nat \<Rightarrow> 'h link \<Rightarrow> 'h link" where
  "port_notify req_len lk = lk\<lparr>lk_len := of_nat req_len, lk_status := IPC_MBX_REQUEST\<rparr>"

definition port_response_ready :: "'h crypto_handler_if list \<Rightarrow> 'h link \<Rightarrow> bool \<times> 'h link" where
  "port_response_ready table lk =
     (let lk1 = other_core table lk in (lk_status lk1 = IPC_MBX_RESPONSE, lk1))"

definition port_response_len :: "'h link \<Rightarrow> nat" where
  "port_response_len lk = unat (lk_len lk)"

definition port_now_ms :: "'h link \<Rightarrow> u32 \<times> 'h link" where
  "port_now_ms lk = (lk_clock lk, lk\<lparr>lk_clock := lk_clock lk + lk_tick lk\<rparr>)"

definition g_crypto_port :: "'h crypto_handler_if list \<Rightarrow> 'h link ipc_port_if" where
  "g_crypto_port table =
     \<lparr>ip_sema_try_acquire = port_sema_try_acquire, ip_sema_release = port_sema_release,
      ip_mailbox_put = port_mailbox_put, ip_mailbox_get = port_mailbox_get,
      ip_mailbox_cap = CRYPTO_MAX_PAYLOAD, ip_notify = port_notify,
      ip_response_ready = port_response_ready table, ip_response_len = port_response_len,
      ip_now_ms = port_now_ms\<rparr>"

definition secoc_crypto_port_init :: "'h link \<Rightarrow> 'h link" where
  "secoc_crypto_port_init lk = lk\<lparr>lk_status := IPC_MBX_IDLE, lk_len := 0\<rparr>"

text \<open>
  The oracle SecOC is bound to: \<open>crypto_mac\<close> through this port. A wait that does not end within the
  fuel yields no tag either.
\<close>

definition link_mac :: "nat \<Rightarrow> 'h crypto_handler_if list \<Rightarrow> 'h link mac_fn" where
  "link_mac fuel table key msg lk =
     (case crypto_mac fuel (Some (g_crypto_port table)) key (Some msg) True lk of
        None \<Rightarrow> (None, lk) | Some (t, _, lk') \<Rightarrow> (t, lk'))"

section \<open>One transaction\<close>

definition pending :: "bytes \<Rightarrow> 'h link \<Rightarrow> bool" where
  "pending req lk \<longleftrightarrow> lk_status lk = IPC_MBX_REQUEST \<and> take (unat (lk_len lk)) (lk_payload lk) = req"

lemma port_simps [simp]:
  "ip_mailbox_cap (g_crypto_port table) = 128"
  "ip_sema_try_acquire (g_crypto_port table) = port_sema_try_acquire"
  "ip_sema_release (g_crypto_port table) = port_sema_release"
  "ip_mailbox_put (g_crypto_port table) = port_mailbox_put"
  "ip_mailbox_get (g_crypto_port table) = port_mailbox_get"
  "ip_notify (g_crypto_port table) = port_notify"
  "ip_response_ready (g_crypto_port table) = port_response_ready table"
  "ip_response_len (g_crypto_port table) = port_response_len"
  "ip_now_ms (g_crypto_port table) = port_now_ms"
  by (simp_all add: g_crypto_port_def crypto_consts)

lemma ready_cases:
  assumes "pending req lk" and "port_response_ready table lk = (r, lk1)"
  obtains (waiting) "\<not> r" "pending req lk1" "lk_payload lk1 = lk_payload lk" "lk_hw lk1 = lk_hw lk"
  | (served) "r" "lk1 = service_mailbox_once table lk"
proof (cases "lk_delay lk")
  case None
  then have "lk1 = lk" "r = False"
    using assms by (simp_all add: port_response_ready_def other_core_def pending_def Let_def)
  then show ?thesis using assms by (intro waiting) simp_all
next
  case (Some n)
  show ?thesis
  proof (cases n)
    case 0
    then have "lk1 = service_mailbox_once table lk" "r = (lk_status lk1 = IPC_MBX_RESPONSE)"
      using assms Some by (auto simp: port_response_ready_def other_core_def Let_def)
    moreover from this have "r"
      using assms(1) by (simp add: service_mailbox_once_def pending_def split: prod.splits)
    ultimately show ?thesis by (intro served)
  next
    case (Suc k)
    then have "lk1 = lk\<lparr>lk_delay := Some k\<rparr>" "r = False"
      using assms Some by (simp_all add: port_response_ready_def other_core_def pending_def Let_def)
    then show ?thesis using assms by (intro waiting) (simp_all add: pending_def)
  qed
qed

text \<open>If the wait is answered, it is by the service of the pending request, on the same hardware state.\<close>

lemma wait_served:
  "pending req lk \<Longrightarrow> ipc_wait (g_crypto_port table) fuel start t lk = Some (True, lk') \<Longrightarrow>
     \<exists>lk0. pending req lk0 \<and> lk_payload lk0 = lk_payload lk \<and> lk_hw lk0 = lk_hw lk \<and>
       lk' = service_mailbox_once table lk0"
proof (induction fuel arbitrary: lk)
  case 0
  then show ?case by simp
next
  case (Suc fuel)
  obtain r lk1 where rd: "port_response_ready table lk = (r, lk1)" by fastforce
  from Suc.prems(1) rd show ?case
  proof (cases rule: ready_cases)
    case served
    then show ?thesis using Suc.prems rd by auto
  next
    case waiting
    let ?lk2 = "lk1\<lparr>lk_clock := lk_clock lk1 + lk_tick lk1\<rparr>"
    have "ipc_wait (g_crypto_port table) fuel start t ?lk2 = Some (True, lk')"
      using Suc.prems(2) rd waiting by (auto simp: port_now_ms_def split: if_splits)
    moreover have "pending req ?lk2" using waiting by (simp add: pending_def)
    ultimately show ?thesis using Suc.IH [of ?lk2] waiting by auto
  qed
qed

text \<open>A transaction that reports success delivers the server's reply to this very request.\<close>

lemma transact_served:
  assumes tr: "ipc_transact fuel (Some (g_crypto_port table)) (Some req) (Some rs) (Some 0) t lk =
      Some (IPC_OK, resp, len, lk')"
    and req: "length req \<le> 128"
    and disp: "crypto_dispatch table (Some req) (Some (overwrite 0 req (lk_payload lk))) (Some 0)
      (lk_hw lk) = (ok, Some resp', Some n, h')"
    and n: "n \<le> 128" and resp': "length resp' = 128"
  shows "resp = Some (overwrite 0 (take n resp') rs)" and "len = Some n" and "lk_payload lk' = resp'"
proof -
  let ?w2 = "port_notify (length req) (port_mailbox_put req (snd (port_sema_try_acquire lk)))"
  obtain start w3 where now: "port_now_ms ?w2 = (start, w3)" by fastforce
  have got: "port_sema_try_acquire lk = (True, snd (port_sema_try_acquire lk))"
    using tr by (auto simp: ipc_transact_def Let_def split: prod.splits if_splits)
  have u: "unat (of_nat (length req) :: u32) = length req" using req by (simp add: unat_of_nat)
  have sn: "lk_payload (snd (port_sema_try_acquire lk)) = lk_payload lk"
    "lk_hw (snd (port_sema_try_acquire lk)) = lk_hw lk" by (simp_all add: port_sema_try_acquire_def)
  have ov: "length (overwrite 0 req (lk_payload lk)) = 128" using req by (simp add: length_overwrite)
  have w3: "lk_payload w3 = overwrite 0 req (lk_payload lk)" "lk_hw w3 = lk_hw lk" "pending req w3"
    using now u sn ov req by (auto simp: port_now_ms_def port_notify_def port_mailbox_put_def pending_def)
  obtain w4 where w4: "ipc_wait (g_crypto_port table) fuel start t w3 = Some (True, w4)"
  proof (cases "ipc_wait (g_crypto_port table) fuel start t w3")
    case None
    then show ?thesis using tr got req now
      by (simp add: ipc_transact_def Let_def split_def crypto_consts split: if_splits)
  next
    case (Some x)
    then show ?thesis using tr got req now that [of "snd x"]
      by (cases x; cases "fst x") (simp_all add: ipc_transact_def Let_def split_def crypto_consts split: if_splits)
  qed
  from wait_served [OF w3(3) w4] obtain lk0 where lk0: "pending req lk0"
    "lk_payload lk0 = overwrite 0 req (lk_payload lk)" "lk_hw lk0 = lk_hw lk"
    "w4 = service_mailbox_once table lk0" using w3 by auto
  have un: "unat (of_nat n :: u32) = n" using n by (simp add: unat_of_nat)
  have s: "lk_payload w4 = resp'" "port_response_len w4 = n"
    using lk0(1) disp un resp'
    by (auto simp: lk0 service_mailbox_once_def pending_def port_response_len_def)
  show "resp = Some (overwrite 0 (take n resp') rs)" and "len = Some n" and "lk_payload lk' = resp'"
    using tr got req now w4 s
    by (auto simp: ipc_transact_def Let_def split_def port_mailbox_get_def port_sema_release_def
        split: if_splits)
qed

lemma transact_cap:
  "ipc_transact fuel (Some (g_crypto_port table)) (Some req) (Some rs) (Some 0) t lk =
      Some (IPC_OK, resp, len, lk') \<Longrightarrow> length req \<le> 128"
  by (auto simp: ipc_transact_def Let_def split: if_splits)

text \<open>So the client decodes the message the handler built.\<close>

lemma transact_message:
  assumes tr: "ipc_transact fuel (Some (g_crypto_port table)) (Some (msg_wire op q)) (Some wire_buf) (Some 0) t lk =
      Some (IPC_OK, resp, len, lk')"
    and reply: "reply_msg table (msg_with op q) (lk_hw lk) = (msg_with op' p, h1)" and p: "length p \<le> 125"
  shows "crypto_msg_decode (map_option (take (the len)) resp) (Some msg0) = (True, Some (msg_with op' p))"
proof -
  let ?b = "overwrite 0 (msg_wire op q) (lk_payload lk)"
  let ?b' = "overwrite 0 (msg_wire op' p) ?b"
  have req: "length (msg_wire op q) \<le> 128" by (rule transact_cap [OF tr])
  then have b: "length ?b = 128" and b': "length ?b' = 128"
    using p by (simp_all add: length_overwrite)
  have dec: "crypto_msg_decode (Some (msg_wire op q)) (Some msg0) = (True, Some (msg_with op q))"
    using decode_msg_wire [of q msg0 op "[]"] req by (simp add: crypto_consts)
  have enc: "crypto_msg_encode (Some (msg_with op' p)) (Some ?b) = (3 + length p, Some ?b')"
    using p b by (intro encode_msg_with) (simp_all add: crypto_consts)
  have disp: "crypto_dispatch table (Some (msg_wire op q)) (Some ?b) (Some 0) (lk_hw lk) =
      (True, Some ?b', Some (3 + length p), h1)"
    unfolding dispatch_decoded [OF dec] reply prod.case enc by simp
  note s = transact_served [OF tr req disp _ b']
  have t: "take (3 + length p) ?b' = msg_wire op' p"
    using take_overwrite_0 [of "msg_wire op' p" ?b] by (simp del: take_overwrite_0)
  have "take (3 + length p) (overwrite 0 (msg_wire op' p) wire_buf) = msg_wire op' p"
    using take_overwrite_0 [of "msg_wire op' p" wire_buf] by (simp del: take_overwrite_0)
  then have "map_option (take (the len)) resp = Some (msg_wire op' p)"
    using s(1,2) p by (simp add: t del: take_overwrite_0)
  then show ?thesis using decode_msg_wire [of p msg0 op' "[]"] p by (auto simp: crypto_consts)
qed

text \<open>
  The other direction: a server that gets to its loop after \<open>d\<close> polls, before the client's patience
  runs out, answers.
\<close>

lemma wait_answered:
  "pending req lk \<Longrightarrow> lk_delay lk = Some d \<Longrightarrow> d < fuel \<Longrightarrow>
     unat (lk_clock lk - start) + d * unat (lk_tick lk) < unat t \<Longrightarrow>
     \<exists>lk'. ipc_wait (g_crypto_port table) fuel start t lk = Some (True, lk')"
proof (induction d arbitrary: lk fuel)
  case 0
  then obtain f where f: "fuel = Suc f" by (cases fuel) auto
  have "port_response_ready table lk = (True, service_mailbox_once table lk)"
    using 0 by (simp add: port_response_ready_def other_core_def service_mailbox_once_def pending_def
        Let_def split: prod.splits)
  then show ?case by (simp add: f)
next
  case (Suc d)
  then obtain f where f: "fuel = Suc f" by (cases fuel) auto
  let ?lk1 = "lk\<lparr>lk_delay := Some d\<rparr>"
  let ?lk2 = "?lk1\<lparr>lk_clock := lk_clock lk + lk_tick lk\<rparr>"
  have rd: "port_response_ready table lk = (False, ?lk1)"
    using Suc.prems by (simp add: port_response_ready_def other_core_def pending_def Let_def)
  have early: "lk_clock lk - start < t" using Suc.prems(4) by (simp add: word_less_nat_alt)
  have "lk_clock ?lk2 - start = (lk_clock lk - start) + lk_tick lk" by simp
  then have "unat (lk_clock ?lk2 - start) \<le> unat (lk_clock lk - start) + unat (lk_tick lk)"
    by (simp only: unat_word_ariths) (rule mod_less_eq_dividend)
  then have "unat (lk_clock ?lk2 - start) + d * unat (lk_tick ?lk2) < unat t"
    using Suc.prems(4) by simp
  moreover have "pending req ?lk2" using Suc.prems(1) by (simp add: pending_def)
  ultimately obtain lk' where "ipc_wait (g_crypto_port table) f start t ?lk2 = Some (True, lk')"
    using Suc.IH [of ?lk2 f] Suc.prems(3) f by auto
  then show ?case using rd early by (simp add: f port_now_ms_def not_le)
qed

lemma transact_answered:
  assumes free: "\<not> lk_locked lk" and srv: "lk_delay lk = Some d" "d < fuel"
    and time: "d * unat (lk_tick lk) + unat (lk_tick lk) < unat t" and q: "length q \<le> 125"
    and reply: "reply_msg table (msg_with op q) (lk_hw lk) = (msg_with op' p, h1)" and p: "length p \<le> 125"
  shows "\<exists>resp len lk'. ipc_transact fuel (Some (g_crypto_port table)) (Some (msg_wire op q)) (Some wire_buf)
      (Some 0) t lk = Some (IPC_OK, resp, len, lk')"
proof -
  let ?w1 = "lk\<lparr>lk_locked := True\<rparr>"
  let ?b = "overwrite 0 (msg_wire op q) (lk_payload lk)"
  let ?w2 = "port_notify (3 + length q) (port_mailbox_put (msg_wire op q) ?w1)"
  let ?w3 = "?w2\<lparr>lk_clock := lk_clock ?w2 + lk_tick ?w2\<rparr>"
  have b: "length ?b = 128" using q by simp
  have u: "unat (of_nat (3 + length q) :: u32) = length (msg_wire op q)"
    using q by (simp add: unat_of_nat del: of_nat_add)
  have pay: "lk_payload ?w3 = ?b" using b by (simp add: port_notify_def port_mailbox_put_def)
  have pend: "pending (msg_wire op q) ?w3"
    using u take_overwrite_0 [of "msg_wire op q" "lk_payload lk"] unfolding pending_def pay
    by (simp add: port_notify_def)
  have w3: "lk_delay ?w3 = Some d" "lk_hw ?w3 = lk_hw lk"
    "unat (lk_clock ?w3 - lk_clock ?w2) + d * unat (lk_tick ?w3) < unat t"
    using srv time by (simp_all add: port_notify_def port_mailbox_put_def set_payload_def)
  from wait_answered [OF pend w3(1) srv(2) w3(3)] obtain w4 where
    w4: "ipc_wait (g_crypto_port table) fuel (lk_clock ?w2) t ?w3 = Some (True, w4)" by blast
  from wait_served [OF pend w4] obtain lk0 where lk0: "pending (msg_wire op q) lk0" "lk_payload lk0 = ?b"
    "lk_hw lk0 = lk_hw lk" "w4 = service_mailbox_once table lk0" using pay w3(2) by auto
  have dec: "crypto_msg_decode (Some (msg_wire op q)) (Some msg0) = (True, Some (msg_with op q))"
    using decode_msg_wire [of q msg0 op "[]"] q by (simp add: crypto_consts)
  have enc: "crypto_msg_encode (Some (msg_with op' p)) (Some ?b) =
      (3 + length p, Some (overwrite 0 (msg_wire op' p) ?b))"
    using p b by (intro encode_msg_with) (simp_all add: crypto_consts)
  have "crypto_dispatch table (Some (msg_wire op q)) (Some ?b) (Some 0) (lk_hw lk) =
      (True, Some (overwrite 0 (msg_wire op' p) ?b), Some (3 + length p), h1)"
    unfolding dispatch_decoded [OF dec] reply prod.case enc by simp
  moreover have "unat (of_nat (3 + length p) :: u32) = 3 + length p"
    using p by (simp add: unat_of_nat del: of_nat_add)
  ultimately have n: "port_response_len w4 = 3 + length p"
    using lk0 by (simp add: service_mailbox_once_def pending_def port_response_len_def)
  have now: "port_now_ms ?w2 = (lk_clock ?w2, ?w3)" by (simp add: port_now_ms_def)
  show ?thesis
    using free q p n now w4
    by (simp add: ipc_transact_def Let_def port_sema_try_acquire_def split_def)
qed

section \<open>The verify client and the verify server\<close>

text \<open>The verdict of the server's verify row on a key identifier, and the state it leaves.\<close>

definition verify_verdict ::
  "'h crypto_hw \<Rightarrow> crypto_key_entry list option \<Rightarrow> u32 \<Rightarrow> u32 \<Rightarrow> u32 \<Rightarrow> 'h \<Rightarrow> crypto_verdict \<times> 'h" where
  "verify_verdict hw keys base len key h = (case crypto_keystore_lookup keys key of
     None \<Rightarrow> (CRYPTO_VERDICT_INVALID, h)
   | Some k \<Rightarrow> if ke_pubkey k \<noteq> None \<and> ke_pubkey_len k = 64
       then do_verify_image hw base len (the (ke_pubkey k)) h else (CRYPTO_VERDICT_INVALID, h))"

lemma verify_reply:
  "reply_msg (g_handlers hw keys) (msg_with CRYPTO_OP_VERIFY_IMAGE (le32 base @ le32 len @ le32 key)) h =
    (case verify_verdict hw keys base len key h of
       (v, h1) \<Rightarrow> (msg_with CRYPTO_OP_VERIFY_IMAGE [verdict_code v], h1))"
proof -
  have op: "cm_op (msg_with CRYPTO_OP_VERIFY_IMAGE q) = CRYPTO_OP_VERIFY_IMAGE" for q
    by (simp add: msg_with_def)
  show ?thesis
    unfolding reply_msg_def op find_handlers
    using parse_verify_request [where r = "[]" and base = base and len = len and key = key]
    by (auto simp: verify_handler_def verify_verdict_def make_verdict_eq ECC_P256_BYTES_def Let_def
        split: option.splits prod.splits)
qed

text \<open>The client reports exactly the server's verdict on its own request, or ERROR.\<close>

lemma verify_image_served:
  assumes "crypto_verify_image fuel (Some (g_crypto_port (g_handlers hw keys))) base len key lk = Some (v, log, lk')"
    and "v \<noteq> CRYPTO_VERDICT_ERROR"
  shows "fst (verify_verdict hw keys base len key (lk_hw lk)) = v"
proof -
  let ?q = "le32 base @ le32 len @ le32 key"
  obtain v' h1 where vv: "verify_verdict hw keys base len key (lk_hw lk) = (v', h1)" by (metis surj_pair)
  have r: "reply_msg (g_handlers hw keys) (msg_with CRYPTO_OP_VERIFY_IMAGE ?q) (lk_hw lk) =
      (msg_with CRYPTO_OP_VERIFY_IMAGE [verdict_code v'], h1)"
    by (simp add: verify_reply vv)
  from assms obtain resp n lk1 respm where
    tr: "ipc_transact fuel (Some (g_crypto_port (g_handlers hw keys))) (Some (msg_wire CRYPTO_OP_VERIFY_IMAGE ?q))
        (Some wire_buf) (Some 0) CRYPTO_VERIFY_TIMEOUT_MS lk = Some (IPC_OK, resp, n, lk1)"
    and dec: "crypto_msg_decode (map_option (take (the n)) resp) (Some msg0) = (True, respm)"
    and parse: "crypto_parse_verdict respm = Some v"
    unfolding crypto_verify_image_eq
    by (auto split: option.splits prod.splits if_splits bool.splits)
  have "respm = Some (msg_with CRYPTO_OP_VERIFY_IMAGE [verdict_code v'])"
    using transact_message [OF tr r] dec by simp
  then show ?thesis using parse parse_verdict_code vv by simp
qed

text \<open>A server that gets to its loop in time has its verdict reported.\<close>

lemma verify_image_answered:
  assumes free: "\<not> lk_locked lk" "lk_delay lk = Some d" "d < fuel"
    and time: "d * unat (lk_tick lk) + unat (lk_tick lk) < unat CRYPTO_VERIFY_TIMEOUT_MS"
    and v: "fst (verify_verdict hw keys base len key (lk_hw lk)) = v" and ne: "v \<noteq> CRYPTO_VERDICT_ERROR"
  shows "\<exists>lk'. crypto_verify_image fuel (Some (g_crypto_port (g_handlers hw keys))) base len key lk = Some (v, [], lk')"
proof -
  let ?q = "le32 base @ le32 len @ le32 key"
  obtain h1 where vv: "verify_verdict hw keys base len key (lk_hw lk) = (v, h1)" using v by (metis prod.collapse)
  have r: "reply_msg (g_handlers hw keys) (msg_with CRYPTO_OP_VERIFY_IMAGE ?q) (lk_hw lk) =
      (msg_with CRYPTO_OP_VERIFY_IMAGE [verdict_code v], h1)"
    by (simp add: verify_reply vv)
  have q: "length ?q \<le> 125" and p: "length [verdict_code v] \<le> 125" by simp_all
  from transact_answered [OF free time q r p] obtain resp n lk' where
    tr: "ipc_transact fuel (Some (g_crypto_port (g_handlers hw keys))) (Some (msg_wire CRYPTO_OP_VERIFY_IMAGE ?q))
        (Some wire_buf) (Some 0) CRYPTO_VERIFY_TIMEOUT_MS lk = Some (IPC_OK, resp, n, lk')" by blast
  show ?thesis
    unfolding crypto_verify_image_eq tr using ne
    by (simp add: transact_message [OF tr r p] parse_verdict_code)
qed

section \<open>The MAC client and the MAC server\<close>

definition mac_tag_of ::
  "(bytes \<Rightarrow> bytes \<Rightarrow> bytes) \<Rightarrow> crypto_key_entry list option \<Rightarrow> u32 \<Rightarrow> bytes \<Rightarrow> bytes" where
  "mac_tag_of aes keys key d = aes (the (mac_key keys key)) d"

text \<open>
  What the vendor's CMAC calls promise when all of them succeed and no fault bit is set: the
  16-byte CMAC of the message under the key, whatever the state of the block.
\<close>

locale cmac_engine =
  fixes hw :: "'h crypto_hw" and aes :: "bytes \<Rightarrow> bytes \<Rightarrow> bytes"
  assumes engine_tag: "cmac_compute hw key msg h = (Some t, h') \<Longrightarrow> t = aes key msg \<and> length t = 16"
begin

lemma reply_of_mac:
  assumes "find_handler table CRYPTO_OP_MAC = Some \<lparr>ch_op = CRYPTO_OP_MAC, ch_handle = Some (mac_handler hw keys)\<rparr>"
    and "length d \<le> 122"
  shows "\<exists>p h1. reply_msg table (msg_with CRYPTO_OP_MAC (le32 key @ le16 (of_nat (length d)) @ d)) h =
      (msg_with CRYPTO_OP_MAC p, h1) \<and>
      (p = [verdict_code CRYPTO_VERDICT_ERROR] \<or>
       (\<exists>s. mac_key keys key = Some s \<and> p = aes s d \<and> length p = 16 \<and> fst (cmac_compute hw s d h) \<noteq> None))"
proof -
  note r = mac_reply [OF assms, of key h]
  show ?thesis
  proof (cases "mac_key keys key")
    case None
    then show ?thesis using r by auto
  next
    case (Some s)
    obtain t h1 where c: "cmac_compute hw s d h = (t, h1)" by fastforce
    show ?thesis
    proof (cases t)
      case None
      then show ?thesis using r Some c by auto
    next
      case t: (Some tag)
      then have "tag = aes s d" "length tag = 16" using engine_tag c by auto
      then show ?thesis using r Some c t make_mac_response_eq [OF msg0_wf] by auto
    qed
  qed
qed

text \<open>
  Whatever tag the client hands out is the CMAC of its message under the secret of the named key in
  the security core's table: no timeout, busy mailbox, error verdict or bad key yields one.
\<close>

lemma link_mac_tag:
  assumes row: "find_handler table CRYPTO_OP_MAC =
      Some \<lparr>ch_op = CRYPTO_OP_MAC, ch_handle = Some (mac_handler hw keys)\<rparr>"
    and m: "link_mac fuel table key msg lk = (Some t, lk')"
  shows "mac_key keys key \<noteq> None \<and> t = mac_tag_of aes keys key msg \<and> length t = 16"
proof -
  let ?q = "le32 key @ le16 (of_nat (length msg)) @ msg"
  have l: "length msg \<le> 122"
    using m by (auto simp: link_mac_def crypto_mac_def crypto_consts Let_def split: if_splits option.splits)
  from m obtain tr resp len lk1 respm where
    tr: "ipc_transact fuel (Some (g_crypto_port table)) (Some (msg_wire CRYPTO_OP_MAC ?q)) (Some wire_buf)
        (Some 0) CRYPTO_MAC_TIMEOUT_MS lk = Some (IPC_OK, resp, len, lk1)"
    and dec: "crypto_msg_decode (map_option (take (the len)) resp) (Some msg0) = (True, respm)"
    and parse: "crypto_parse_mac_response respm = Some t"
    unfolding link_mac_def crypto_mac_eq [OF l]
    by (auto split: option.splits prod.splits if_splits bool.splits)
  obtain p h1 where r: "reply_msg table (msg_with CRYPTO_OP_MAC ?q) (lk_hw lk) = (msg_with CRYPTO_OP_MAC p, h1)"
    and p: "p = [verdict_code CRYPTO_VERDICT_ERROR] \<or>
       (\<exists>s. mac_key keys key = Some s \<and> p = aes s msg \<and> length p = 16)"
    using reply_of_mac [OF row l, of key "lk_hw lk"] by blast
  have "respm = Some (msg_with CRYPTO_OP_MAC p)"
    using transact_message [OF tr r] p dec by auto
  then show ?thesis
    using p parse verdict_is_no_tag [of CRYPTO_OP_MAC CRYPTO_VERDICT_ERROR] parse_mac_response [of p]
    by (auto simp: mac_tag_of_def)
qed

end

section \<open>A block that keeps the promise\<close>

text \<open>
  The hardware block with every call modelled, over an arbitrary cipher, hash and signature check:
  \<open>start\<close> takes the key, \<open>update\<close> the data, \<open>finish\<close> yields the tag. A call on a channel that is not
  open, or while an error bit is set, fails.
\<close>

record crypto_block =
  cb_mem :: "u32 \<Rightarrow> u8"
  cb_open :: bool
  cb_key :: bytes
  cb_data :: bytes
  cb_err :: u32

definition pad16 :: "bytes \<Rightarrow> bytes" where
  "pad16 t = take 16 (t @ replicate 16 0)"

definition block_hw ::
  "(bytes \<Rightarrow> bytes \<Rightarrow> bytes) \<Rightarrow> (bytes \<Rightarrow> bytes) \<Rightarrow> (bytes \<Rightarrow> bytes \<Rightarrow> bytes \<Rightarrow> bytes \<Rightarrow> bool) \<Rightarrow>
   crypto_block crypto_hw" where
  "block_hw aes sha ecc =
     \<lparr>hw_mem = cb_mem,
      hw_sha = (\<lambda>d h. (if cb_err h = 0 then Some (take 32 (sha d @ replicate 32 0)) else None, h)),
      hw_ecc_verify = (\<lambda>s d x y h. (if cb_err h = 0 then Some (if ecc s d x y then 1 else 0) else None, h)),
      hw_cmac_init = (\<lambda>h. (cb_err h = 0, h\<lparr>cb_open := True, cb_key := [], cb_data := []\<rparr>)),
      hw_cmac_start = (\<lambda>k h. (cb_open h, h\<lparr>cb_key := k\<rparr>)),
      hw_cmac_update = (\<lambda>d h. (cb_open h, h\<lparr>cb_data := cb_data h @ d\<rparr>)),
      hw_cmac_finish = (\<lambda>h. (if cb_open h then Some (pad16 (aes (cb_key h) (cb_data h))) else None, h)),
      hw_cmac_free = (\<lambda>h. h\<lparr>cb_open := False\<rparr>),
      hw_error_bits = cb_err,
      hw_clear_interrupt = (\<lambda>b h. h\<lparr>cb_err := cb_err h AND NOT b\<rparr>)\<rparr>"

lemma block_cmac:
  "cb_err h = 0 \<Longrightarrow> fst (cmac_compute (block_hw aes sha ecc) key d h) = Some (pad16 (aes key d))"
  "cb_err h \<noteq> 0 \<Longrightarrow> fst (cmac_compute (block_hw aes sha ecc) key d h) = None"
  by (simp_all add: cmac_compute_def block_hw_def)

interpretation block: cmac_engine "block_hw aes sha ecc" "\<lambda>k d. pad16 (aes k d)" for aes sha ecc
proof
  fix key msg h t h'
  assume c: "cmac_compute (block_hw aes sha ecc) key msg h = (Some t, h')"
  then have "Some t = Some (pad16 (aes key msg))"
    using block_cmac [of h aes sha ecc key msg] by (cases "cb_err h = 0") simp_all
  then show "t = pad16 (aes key msg) \<and> length t = 16" by (simp add: pad16_def)
qed

text \<open>A server whose table has the MAC row over such a block: both nodes' tables are.\<close>

locale mac_server = cmac_engine hw aes for hw :: "'h crypto_hw" and aes +
  fixes table :: "'h crypto_handler_if list" and keys :: "crypto_key_entry list option"
  assumes mac_row: "find_handler table CRYPTO_OP_MAC =
      Some \<lparr>ch_op = CRYPTO_OP_MAC, ch_handle = Some (mac_handler hw keys)\<rparr>"
begin

lemmas served_tag = link_mac_tag [OF mac_row]

lemma served_answer:
  assumes free: "\<not> lk_locked lk" "lk_delay lk = Some d" "d < fuel" "Suc d * unat (lk_tick lk) < 10"
    and msg: "length msg \<le> 119" and key: "mac_key keys key = Some s"
    and hw_ok: "fst (cmac_compute hw s msg (lk_hw lk)) \<noteq> None"
  shows "\<exists>lk'. link_mac fuel table key msg lk = (Some (aes s msg), lk')"
proof -
  let ?q = "le32 key @ le16 (of_nat (length msg)) @ msg"
  have l: "length msg \<le> 122" and q: "length ?q \<le> 125" using msg by simp_all
  obtain tg h1 where c: "cmac_compute hw s msg (lk_hw lk) = (Some tg, h1)" using hw_ok by (cases "cmac_compute hw s msg (lk_hw lk)") auto
  then have tg: "tg = aes s msg" "length tg = 16" using engine_tag by auto
  have r: "reply_msg table (msg_with CRYPTO_OP_MAC ?q) (lk_hw lk) = (msg_with CRYPTO_OP_MAC tg, h1)"
    using mac_reply [OF mac_row l, of key "lk_hw lk"] key c make_mac_response_eq [OF msg0_wf tg(2)] by simp
  have time: "d * unat (lk_tick lk) + unat (lk_tick lk) < unat CRYPTO_MAC_TIMEOUT_MS"
    using free(4) by (simp add: CRYPTO_MAC_TIMEOUT_MS_def)
  have p: "length tg \<le> 125" using tg by simp
  from transact_answered [OF free(1-3) time q r p] obtain resp len lk' where
    tr: "ipc_transact fuel (Some (g_crypto_port table)) (Some (msg_wire CRYPTO_OP_MAC ?q)) (Some wire_buf)
      (Some 0) CRYPTO_MAC_TIMEOUT_MS lk = Some (IPC_OK, resp, len, lk')" by blast
  have "link_mac fuel table key msg lk = (Some tg, lk')"
    unfolding link_mac_def crypto_mac_eq [OF l] tr
    by (simp add: transact_message [OF tr r p] parse_mac_response [OF tg(2)])
  then show ?thesis using tg by blast
qed

end

sublocale mac_server \<subseteq> link: mac_service "link_mac fuel table" "mac_tag_of aes keys" for fuel
  using served_tag by unfold_locales (auto simp: full_tags_def secoc_consts)

lemma mac_server_tables:
  assumes "cmac_engine hw aes" and "table \<in> {g_handlers hw keys, g_handlers_b hw keys}"
  shows "mac_server hw aes table keys"
  using assms find_handlers(3,4) by (auto simp: mac_server_def mac_server_axioms_def)

interpretation server_a: mac_server "block_hw aes sha ecc" "\<lambda>k d. pad16 (aes k d)"
    "g_handlers (block_hw aes sha ecc) keys" keys for aes sha ecc keys
  by (rule mac_server_tables [OF block.cmac_engine_axioms]) simp

interpretation server_b: mac_server "block_hw aes sha ecc" "\<lambda>k d. pad16 (aes k d)"
    "g_handlers_b (block_hw aes sha ecc) keys" keys for aes sha ecc keys
  by (rule mac_server_tables [OF block.cmac_engine_axioms]) simp

end
