(* ===== verification/Freshness.thy ===== *)
theory Freshness imports Prelude begin

text \<open>
  The freshness manager: \<open>shared/secoc/src/secoc_freshness.c\<close>. A sender context spends
  \<open>(epoch, counter)\<close> pairs, a receiver context accepts them; both keep only the epoch across a
  reboot, through a persistence port (\<open>secoc_freshness_store_if_t\<close>).

  The port's two functions are record fields that may be \<open>NULL\<close> (\<open>None\<close>), over a world \<open>'w\<close> that
  holds the medium behind them; \<open>load\<close> reads it, \<open>commit\<close> changes it. A context points to its
  port, and to none before its boot succeeded: a call through that \<open>NULL\<close> pointer is the result
  \<open>None\<close> of the operation, every other result is under \<open>Some\<close>. The fixed-size arrays are lists of
  \<open>SECOC_MAX_IDS\<close> entries of which \<open>id_count\<close> are in use.
\<close>

section \<open>Types\<close>

definition SECOC_MAX_IDS :: nat where "SECOC_MAX_IDS = 8"

record 'w freshness_store_if =
  st_load :: "(u8 \<Rightarrow> 'w \<Rightarrow> u16 option) option"
  st_commit :: "(u8 \<Rightarrow> u16 \<Rightarrow> 'w \<Rightarrow> bool \<times> 'w) option"

record 'w tx_ctx =
  tx_store :: "'w freshness_store_if option"
  tx_domain :: u8
  tx_epoch :: u16
  tx_ids :: "u16 list"
  tx_counter :: "u16 list"
  tx_id_count :: nat

record 'w rx_ctx =
  rx_store :: "'w freshness_store_if option"
  rx_domain :: u8
  rx_floor :: u16
  rx_current :: u16
  rx_ids :: "u16 list"
  rx_high :: "u16 list"
  rx_id_count :: nat

datatype fresh_verdict = SECOC_FRESH_OK | SECOC_FRESH_STALE | SECOC_FRESH_UNKNOWN

section \<open>Helpers\<close>

definition find_slot :: "u16 list \<Rightarrow> nat \<Rightarrow> u16 \<Rightarrow> nat option" where
  "find_slot ids n can_id = first_index (\<lambda>i. i = can_id) (take n ids)"

definition store_ok :: "'w freshness_store_if option \<Rightarrow> bool" where
  "store_ok s = (case s of None \<Rightarrow> False | Some i \<Rightarrow> st_load i \<noteq> None \<and> st_commit i \<noteq> None)"

text \<open>\<open>ctx->store->commit(domain, epoch)\<close>; \<open>None\<close> is the call through a null pointer.\<close>

definition commit_via ::
  "'w freshness_store_if option \<Rightarrow> u8 \<Rightarrow> u16 \<Rightarrow> 'w \<Rightarrow> (bool \<times> 'w) option" where
  "commit_via s d e w = (case s of None \<Rightarrow> None | Some i \<Rightarrow>
     (case st_commit i of None \<Rightarrow> None | Some f \<Rightarrow> Some (f d e w)))"

text \<open>The loop \<open>for (i = 0; i < n; ++i) a[i] = 0\<close>.\<close>

definition zero_upto :: "nat \<Rightarrow> u16 list \<Rightarrow> u16 list" where
  "zero_upto n xs = overwrite 0 (replicate n 0) xs"

section \<open>Sender\<close>

definition secoc_tx_boot ::
  "'w tx_ctx option \<Rightarrow> 'w freshness_store_if option \<Rightarrow> u8 \<Rightarrow> u16 list option \<Rightarrow> 'w \<Rightarrow>
   bool \<times> 'w tx_ctx option \<times> 'w" where
  "secoc_tx_boot ctx store domain ids w = (case (ctx, store, ids) of
     (Some c, Some s, Some is) \<Rightarrow>
       if \<not> store_ok store then (False, ctx, w)
       else if length is = 0 \<or> length is > SECOC_MAX_IDS then (False, ctx, w)
       else
         let e = (case the (st_load s) domain w of None \<Rightarrow> 0 | Some e \<Rightarrow> e);
             next_epoch = e + 1 in
         (case the (st_commit s) domain next_epoch w of
            (False, w') \<Rightarrow> (False, ctx, w')
          | (True, w') \<Rightarrow>
              (True, Some (c\<lparr>tx_store := store, tx_domain := domain, tx_epoch := next_epoch,
                 tx_id_count := length is,
                 tx_ids := overwrite 0 is (tx_ids c),
                 tx_counter := zero_upto (length is) (tx_counter c)\<rparr>), w'))
   | _ \<Rightarrow> (False, ctx, w))"

text \<open>\<open>out\<close> is \<open>None\<close> when \<open>epoch\<close> or \<open>counter\<close> is \<open>NULL\<close>, else what they point to.\<close>

definition secoc_tx_next ::
  "'w tx_ctx option \<Rightarrow> u16 \<Rightarrow> (u16 \<times> u16) option \<Rightarrow> 'w \<Rightarrow>
   (bool \<times> 'w tx_ctx option \<times> (u16 \<times> u16) option \<times> 'w) option" where
  "secoc_tx_next ctx can_id out w = (case (ctx, out) of
     (Some c, Some _) \<Rightarrow>
       (case find_slot (tx_ids c) (tx_id_count c) can_id of
          None \<Rightarrow> Some (False, ctx, out, w)
        | Some idx \<Rightarrow>
            let spend = (\<lambda>c1 w1.
                  let nxt = tx_counter c1 ! idx + 1 in
                  Some (True, Some (c1\<lparr>tx_counter := (tx_counter c1)[idx := nxt]\<rparr>),
                        Some (tx_epoch c1, nxt), w1)) in
            if tx_counter c ! idx = 0xFFFF then
              let bumped = tx_epoch c + 1 in
              (case commit_via (tx_store c) (tx_domain c) bumped w of
                 None \<Rightarrow> None
               | Some (False, w') \<Rightarrow> Some (False, ctx, out, w')
               | Some (True, w') \<Rightarrow>
                   spend (c\<lparr>tx_epoch := bumped,
                            tx_counter := zero_upto (tx_id_count c) (tx_counter c)\<rparr>) w')
            else spend c w)
   | _ \<Rightarrow> Some (False, ctx, out, w))"

definition secoc_tx_adopt_floor ::
  "'w tx_ctx option \<Rightarrow> u16 \<Rightarrow> 'w \<Rightarrow> (bool \<times> 'w tx_ctx option \<times> 'w) option" where
  "secoc_tx_adopt_floor ctx requested_floor w = (case ctx of
     None \<Rightarrow> Some (False, ctx, w)
   | Some c \<Rightarrow>
       if requested_floor \<le> tx_epoch c then Some (False, ctx, w)
       else (case commit_via (tx_store c) (tx_domain c) requested_floor w of
               None \<Rightarrow> None
             | Some (False, w') \<Rightarrow> Some (False, ctx, w')
             | Some (True, w') \<Rightarrow>
                 Some (True, Some (c\<lparr>tx_epoch := requested_floor,
                   tx_counter := zero_upto (tx_id_count c) (tx_counter c)\<rparr>), w')))"

section \<open>Receiver\<close>

definition secoc_rx_boot ::
  "'w rx_ctx option \<Rightarrow> 'w freshness_store_if option \<Rightarrow> u8 \<Rightarrow> u16 list option \<Rightarrow> 'w \<Rightarrow>
   bool \<times> 'w rx_ctx option" where
  "secoc_rx_boot ctx store domain ids w = (case (ctx, store, ids) of
     (Some c, Some s, Some is) \<Rightarrow>
       if \<not> store_ok store then (False, ctx)
       else if length is = 0 \<or> length is > SECOC_MAX_IDS then (False, ctx)
       else
         let h = (case the (st_load s) domain w of None \<Rightarrow> 0 | Some h \<Rightarrow> h) in
         (True, Some (c\<lparr>rx_store := store, rx_domain := domain, rx_floor := h + 1,
            rx_current := h, rx_id_count := length is,
            rx_ids := overwrite 0 is (rx_ids c),
            rx_high := zero_upto (length is) (rx_high c)\<rparr>))
   | _ \<Rightarrow> (False, ctx))"

definition secoc_rx_check :: "'w rx_ctx option \<Rightarrow> u16 \<Rightarrow> u16 \<Rightarrow> u16 \<Rightarrow> fresh_verdict" where
  "secoc_rx_check ctx can_id epoch counter = (case ctx of
     None \<Rightarrow> SECOC_FRESH_UNKNOWN
   | Some c \<Rightarrow>
       (case find_slot (rx_ids c) (rx_id_count c) can_id of
          None \<Rightarrow> SECOC_FRESH_UNKNOWN
        | Some idx \<Rightarrow>
            if epoch < rx_floor c then SECOC_FRESH_STALE
            else if epoch > rx_current c then SECOC_FRESH_OK
            else if epoch = rx_current c \<and> counter > rx_high c ! idx then SECOC_FRESH_OK
            else SECOC_FRESH_STALE))"

definition secoc_rx_accept ::
  "'w rx_ctx option \<Rightarrow> u16 \<Rightarrow> u16 \<Rightarrow> u16 \<Rightarrow> 'w \<Rightarrow> (bool \<times> 'w rx_ctx option \<times> 'w) option" where
  "secoc_rx_accept ctx can_id epoch counter w = (case ctx of
     None \<Rightarrow> Some (False, ctx, w)
   | Some c \<Rightarrow>
       (case find_slot (rx_ids c) (rx_id_count c) can_id of
          None \<Rightarrow> Some (False, ctx, w)
        | Some idx \<Rightarrow>
            let mark = (\<lambda>c1 w1. Some (True, Some (c1\<lparr>rx_high := (rx_high c1)[idx := counter]\<rparr>), w1)) in
            if epoch > rx_current c then
              (case commit_via (rx_store c) (rx_domain c) epoch w of
                 None \<Rightarrow> None
               | Some (False, w') \<Rightarrow> Some (False, ctx, w')
               | Some (True, w') \<Rightarrow>
                   mark (c\<lparr>rx_current := epoch,
                           rx_high := zero_upto (rx_id_count c) (rx_high c)\<rparr>) w')
            else mark c w))"

section \<open>Well-formed contexts\<close>

lemma length_zero_upto [simp]: "n \<le> length xs \<Longrightarrow> length (zero_upto n xs) = length xs"
  by (simp add: zero_upto_def)

lemma zero_upto_nth: "i < n \<Longrightarrow> n \<le> length xs \<Longrightarrow> zero_upto n xs ! i = 0"
  by (simp add: zero_upto_def nth_overwrite)

lemma find_slot_Some:
  "find_slot ids n i = Some k \<Longrightarrow> k < n \<and> k < length ids \<and> ids ! k = i"
  by (auto simp: find_slot_def dest: first_index_Some_D)

lemma find_slot_inject: "find_slot ids n i = Some k \<Longrightarrow> find_slot ids n j = Some k \<Longrightarrow> i = j"
  by (auto dest!: find_slot_Some)

lemma find_slot_overwrite:
  "length is \<le> length ids \<Longrightarrow> find_slot (overwrite 0 is ids) (length is) i = find_slot is (length is) i"
  by (simp add: find_slot_def)

definition tx_wf :: "'w tx_ctx \<Rightarrow> bool" where
  "tx_wf c \<longleftrightarrow> length (tx_ids c) = SECOC_MAX_IDS \<and> length (tx_counter c) = SECOC_MAX_IDS \<and>
     tx_id_count c \<le> SECOC_MAX_IDS"

definition rx_wf :: "'w rx_ctx \<Rightarrow> bool" where
  "rx_wf c \<longleftrightarrow> length (rx_ids c) = SECOC_MAX_IDS \<and> length (rx_high c) = SECOC_MAX_IDS \<and>
     rx_id_count c \<le> SECOC_MAX_IDS"

lemma tx_boot_wf:
  "secoc_tx_boot (Some c) s d is w = (b, Some c', w') \<Longrightarrow> tx_wf c \<Longrightarrow> tx_wf c'"
  by (auto simp: secoc_tx_boot_def Let_def tx_wf_def
      split: option.splits if_splits prod.splits bool.splits)

lemma tx_next_wf:
  "secoc_tx_next (Some c) i out w = Some (b, Some c', out', w') \<Longrightarrow> tx_wf c \<Longrightarrow> tx_wf c'"
  by (auto simp: secoc_tx_next_def Let_def tx_wf_def
      split: option.splits if_splits prod.splits bool.splits)

lemma tx_adopt_wf:
  "secoc_tx_adopt_floor (Some c) f w = Some (b, Some c', w') \<Longrightarrow> tx_wf c \<Longrightarrow> tx_wf c'"
  by (auto simp: secoc_tx_adopt_floor_def Let_def tx_wf_def
      split: option.splits if_splits prod.splits bool.splits)

lemma rx_boot_wf:
  "secoc_rx_boot (Some c) s d is w = (b, Some c') \<Longrightarrow> rx_wf c \<Longrightarrow> rx_wf c'"
  by (auto simp: secoc_rx_boot_def Let_def rx_wf_def split: option.splits if_splits)

lemma rx_accept_wf:
  "secoc_rx_accept (Some c) i e n w = Some (b, Some c', w') \<Longrightarrow> rx_wf c \<Longrightarrow> rx_wf c'"
  by (auto simp: secoc_rx_accept_def Let_def rx_wf_def
      split: option.splits if_splits prod.splits bool.splits)

lemma rx_accept_ids:
  "secoc_rx_accept (Some c) i e n w = Some (b, Some c', w') \<Longrightarrow>
     rx_ids c' = rx_ids c \<and> rx_id_count c' = rx_id_count c"
  by (auto simp: secoc_rx_accept_def Let_def
      split: option.splits if_splits prod.splits bool.splits)

text \<open>A context that has been booted never faults; one that has not faults exactly when it commits.\<close>

lemma tx_next_no_fault: "store_ok (tx_store c) \<Longrightarrow> secoc_tx_next (Some c) i out w \<noteq> None"
  by (auto simp: secoc_tx_next_def Let_def commit_via_def store_ok_def
      split: option.splits if_splits prod.splits bool.splits)

lemma tx_adopt_no_fault: "store_ok (tx_store c) \<Longrightarrow> secoc_tx_adopt_floor (Some c) f w \<noteq> None"
  by (auto simp: secoc_tx_adopt_floor_def commit_via_def store_ok_def
      split: option.splits if_splits prod.splits bool.splits)

lemma rx_accept_no_fault: "store_ok (rx_store c) \<Longrightarrow> secoc_rx_accept (Some c) i e n w \<noteq> None"
  by (auto simp: secoc_rx_accept_def Let_def commit_via_def store_ok_def
      split: option.splits if_splits prod.splits bool.splits)

section \<open>What a receiver remembers\<close>

type_synonym fresh_id = "u16 \<times> u16 \<times> u16"

text \<open>
  The accepted \<open>(id, epoch, counter)\<close> triples against the receiver's state: none is above the
  current epoch, and those of the current epoch that the floor still admits are at or below their
  identifier's high-water mark.
\<close>

definition rx_guard :: "'w rx_ctx \<Rightarrow> fresh_id set \<Rightarrow> bool" where
  "rx_guard c acc \<longleftrightarrow> (\<forall>i e n. (i, e, n) \<in> acc \<longrightarrow> e \<le> rx_current c \<and>
     (\<forall>k. find_slot (rx_ids c) (rx_id_count c) i = Some k \<longrightarrow> e = rx_current c \<longrightarrow>
        rx_floor c \<le> e \<longrightarrow> n \<le> rx_high c ! k))"

lemma rx_guardD:
  assumes "rx_guard c acc" and "(i, e, n) \<in> acc"
  shows "e \<le> rx_current c"
    and "find_slot (rx_ids c) (rx_id_count c) i = Some k \<Longrightarrow> e = rx_current c \<Longrightarrow> rx_floor c \<le> e \<Longrightarrow>
      n \<le> rx_high c ! k"
  using assms unfolding rx_guard_def by blast+

lemma rx_check_OK_iff:
  "secoc_rx_check (Some c) i e n = SECOC_FRESH_OK \<longleftrightarrow>
     (\<exists>k. find_slot (rx_ids c) (rx_id_count c) i = Some k \<and> rx_floor c \<le> e \<and>
        (rx_current c < e \<or> (e = rx_current c \<and> rx_high c ! k < n)))"
  by (auto simp: secoc_rx_check_def split: option.splits)

lemma rx_check_not_replayed:
  assumes "rx_guard c acc" and "secoc_rx_check (Some c) i e n = SECOC_FRESH_OK"
  shows "(i, e, n) \<notin> acc"
proof
  assume acc: "(i, e, n) \<in> acc"
  from assms(2) obtain k where k: "find_slot (rx_ids c) (rx_id_count c) i = Some k" "rx_floor c \<le> e"
    "rx_current c < e \<or> (e = rx_current c \<and> rx_high c ! k < n)" by (auto simp: rx_check_OK_iff)
  from rx_guardD [OF assms(1) acc] k show False by fastforce
qed

lemma rx_accept_cases:
  assumes "secoc_rx_accept (Some c) i e n w = Some (b, c'', w')"
  obtains (failed) "\<not> b" "c'' = Some c"
  | (same) k where "b" "find_slot (rx_ids c) (rx_id_count c) i = Some k" "e \<le> rx_current c" "w' = w"
      "c'' = Some (c\<lparr>rx_high := (rx_high c)[k := n]\<rparr>)"
  | (newer) k where "b" "find_slot (rx_ids c) (rx_id_count c) i = Some k" "rx_current c < e"
      "commit_via (rx_store c) (rx_domain c) e w = Some (True, w')"
      "c'' = Some (c\<lparr>rx_current := e,
          rx_high := (zero_upto (rx_id_count c) (rx_high c))[k := n]\<rparr>)"
  using assms
  by (auto simp: secoc_rx_accept_def Let_def split: option.splits if_splits prod.splits bool.splits)

lemma rx_accept_guard:
  assumes g: "rx_guard c acc" and wf: "rx_wf c"
    and check: "secoc_rx_check (Some c) i e n = SECOC_FRESH_OK"
    and accept: "secoc_rx_accept (Some c) i e n w = Some (True, Some c', w')"
  shows "rx_guard c' (insert (i, e, n) acc)"
  using accept
proof (cases rule: rx_accept_cases)
  case (same k)
  with check have e: "e = rx_current c" "rx_high c ! k < n" by (auto simp: rx_check_OK_iff)
  have c': "c' = c\<lparr>rx_high := (rx_high c)[k := n]\<rparr>" using same by simp
  have k: "k < length (rx_high c)" using same(2) wf by (auto simp: rx_wf_def dest: find_slot_Some)
  show ?thesis unfolding rx_guard_def
  proof (intro allI impI conjI)
    fix i' e' n' assume "(i', e', n') \<in> insert (i, e, n) acc"
    then show "e' \<le> rx_current c'" using rx_guardD(1) [OF g] e c' by auto
  next
    fix i' e' n' k'
    assume m: "(i', e', n') \<in> insert (i, e, n) acc"
      and s: "find_slot (rx_ids c') (rx_id_count c') i' = Some k'"
      and e': "e' = rx_current c'" "rx_floor c' \<le> e'"
    show "n' \<le> rx_high c' ! k'"
    proof (cases "(i', e', n') = (i, e, n)")
      case True
      then show ?thesis using s same(2) k c' by simp
    next
      case False
      then have "(i', e', n') \<in> acc" using m False by blast
      then have le: "n' \<le> rx_high c ! k'" using rx_guardD(2) [OF g] s e' c' by auto
      then show ?thesis using e(2) k c' by (cases "k' = k") auto
    qed
  qed
next
  case (newer k)
  have c': "c' = c\<lparr>rx_current := e, rx_high := (zero_upto (rx_id_count c) (rx_high c))[k := n]\<rparr>"
    using newer by simp
  have k: "k < length (zero_upto (rx_id_count c) (rx_high c))"
    using newer(2) wf by (auto simp: rx_wf_def dest: find_slot_Some)
  show ?thesis unfolding rx_guard_def
  proof (intro allI impI conjI)
    fix i' e' n' assume "(i', e', n') \<in> insert (i, e, n) acc"
    then show "e' \<le> rx_current c'" using rx_guardD(1) [OF g] newer(3) c' by fastforce
  next
    fix i' e' n' k'
    assume m: "(i', e', n') \<in> insert (i, e, n) acc"
      and s: "find_slot (rx_ids c') (rx_id_count c') i' = Some k'"
      and e': "e' = rx_current c'" "rx_floor c' \<le> e'"
    have "(i', e', n') \<notin> acc" using rx_guardD(1) [OF g] newer(3) e'(1) c' by fastforce
    then show "n' \<le> rx_high c' ! k'" using m s newer(2) k c' by auto
  qed
qed (use accept in simp)

text \<open>A reboot forgets the marks, and the floor above the persisted epoch makes up for it.\<close>

lemma rx_boot_guard:
  assumes "rx_guard c acc" and "rx_floor c' = rx_current c + 1" and "rx_current c' = rx_current c"
    and "rx_current c \<noteq> 0xFFFF"
  shows "rx_guard c' acc"
proof -
  have "rx_current c < rx_current c + 1"
    using assms(4) by (rule u16_less_plus_one)
  then show ?thesis
    using assms(1-3) unfolding rx_guard_def by (metis leD)
qed

section \<open>What a sender has spent\<close>

text \<open>
  The spent triples against the sender's state: none is above the current epoch, and those of the
  current epoch are at or below their identifier's counter.
\<close>

definition tx_guard :: "'w tx_ctx \<Rightarrow> fresh_id set \<Rightarrow> bool" where
  "tx_guard c spent \<longleftrightarrow> (\<forall>i e n. (i, e, n) \<in> spent \<longrightarrow> e \<le> tx_epoch c \<and>
     (\<forall>k. find_slot (tx_ids c) (tx_id_count c) i = Some k \<longrightarrow> e = tx_epoch c \<longrightarrow> n \<le> tx_counter c ! k))"

lemma tx_guardD:
  assumes "tx_guard c spent" and "(i, e, n) \<in> spent"
  shows "e \<le> tx_epoch c"
    and "find_slot (tx_ids c) (tx_id_count c) i = Some k \<Longrightarrow> e = tx_epoch c \<Longrightarrow> n \<le> tx_counter c ! k"
  using assms unfolding tx_guard_def by blast+

lemma tx_next_cases:
  assumes "secoc_tx_next (Some c) i out w = Some (b, c'', out', w')"
  obtains (failed) "\<not> b" "c'' = Some c" "out' = out"
  | (bump) k where "b" "find_slot (tx_ids c) (tx_id_count c) i = Some k" "tx_counter c ! k = 0xFFFF"
      "commit_via (tx_store c) (tx_domain c) (tx_epoch c + 1) w = Some (True, w')"
      "c'' = Some (c\<lparr>tx_epoch := tx_epoch c + 1, tx_counter :=
         (zero_upto (tx_id_count c) (tx_counter c))
           [k := zero_upto (tx_id_count c) (tx_counter c) ! k + 1]\<rparr>)"
      "out' = Some (tx_epoch c + 1, zero_upto (tx_id_count c) (tx_counter c) ! k + 1)"
  | (plain) k where "b" "find_slot (tx_ids c) (tx_id_count c) i = Some k" "tx_counter c ! k \<noteq> 0xFFFF"
      "w' = w" "c'' = Some (c\<lparr>tx_counter := (tx_counter c)[k := tx_counter c ! k + 1]\<rparr>)"
      "out' = Some (tx_epoch c, tx_counter c ! k + 1)"
  using assms
  by (auto simp: secoc_tx_next_def Let_def split: option.splits if_splits prod.splits bool.splits)

lemma tx_next_guard:
  assumes g: "tx_guard c spent" and wf: "tx_wf c" and no_wrap: "tx_epoch c \<noteq> 0xFFFF"
    and nxt: "secoc_tx_next (Some c) i out w = Some (True, Some c', Some (e, n), w')"
  shows "(i, e, n) \<notin> spent \<and> tx_guard c' (insert (i, e, n) spent)"
  using nxt
proof (cases rule: tx_next_cases)
  case (bump k)
  have less: "tx_epoch c < tx_epoch c + 1" by (rule u16_less_plus_one [OF no_wrap])
  have k: "k < length (zero_upto (tx_id_count c) (tx_counter c))"
    "zero_upto (tx_id_count c) (tx_counter c) ! k = 0"
    using bump(2) wf by (auto simp: tx_wf_def zero_upto_nth dest: find_slot_Some)
  have old: "e' < tx_epoch c + 1" if "(i', e', n') \<in> spent" for i' e' n'
    using rx_guardD tx_guardD(1) [OF g that] less by simp
  have e: "e = tx_epoch c + 1" "n = 1" using bump(6) k by simp_all
  then have "(i, e, n) \<notin> spent" using old by blast
  moreover have "tx_guard c' (insert (i, e, n) spent)"
    unfolding tx_guard_def using bump(2,5) k e old by (auto simp: less_imp_le)
  ultimately show ?thesis ..
next
  case (plain k)
  have k: "k < length (tx_counter c)" using plain(2) wf by (auto simp: tx_wf_def dest: find_slot_Some)
  have e: "e = tx_epoch c" "n = tx_counter c ! k + 1" using plain(6) by simp_all
  have less: "tx_counter c ! k < n" using plain(3) e by (simp add: u16_less_plus_one)
  have "(i, e, n) \<notin> spent" using tx_guardD(2) [OF g _ plain(2)] e less by fastforce
  moreover have "tx_guard c' (insert (i, e, n) spent)"
    unfolding tx_guard_def
  proof (intro allI impI conjI)
    fix i' e' n' assume "(i', e', n') \<in> insert (i, e, n) spent"
    then show "e' \<le> tx_epoch c'" using tx_guardD(1) [OF g] e plain(5) by auto
  next
    fix i' e' n' k'
    assume m: "(i', e', n') \<in> insert (i, e, n) spent"
      and s: "find_slot (tx_ids c') (tx_id_count c') i' = Some k'" and e': "e' = tx_epoch c'"
    show "n' \<le> tx_counter c' ! k'"
    proof (cases "(i', e', n') = (i, e, n)")
      case True
      then show ?thesis using s plain(2,5) k e by simp
    next
      case False
      then have "(i', e', n') \<in> spent" using m by blast
      then have "n' \<le> tx_counter c ! k'" using tx_guardD(2) [OF g] s e' plain(5) by auto
      then show ?thesis using less k e plain(5) by (cases "k' = k") auto
    qed
  qed
  ultimately show ?thesis ..
qed simp

lemma tx_raise_guard:
  assumes "tx_guard c spent" and "tx_epoch c < tx_epoch c'"
  shows "tx_guard c' spent"
  using assms unfolding tx_guard_def by (meson leD less_imp_le order_trans)

lemma tx_adopt_cases:
  assumes "secoc_tx_adopt_floor (Some c) f w = Some (b, c'', w')"
  obtains (refused) "\<not> b" "c'' = Some c"
  | (adopted) "b" "tx_epoch c < f" "commit_via (tx_store c) (tx_domain c) f w = Some (True, w')"
      "c'' = Some (c\<lparr>tx_epoch := f, tx_counter := zero_upto (tx_id_count c) (tx_counter c)\<rparr>)"
  using assms
  by (auto simp: secoc_tx_adopt_floor_def split: option.splits if_splits prod.splits bool.splits)

section \<open>A sender's life\<close>

text \<open>
  The calls a node makes of its sender over several boots: securing a frame for an identifier,
  adopting the floor of an authenticated sync, and rebooting, after which the context starts from
  zeroed memory. The run records what was spent, and the persisted epoch before each event; it is
  \<open>None\<close> when a call faults.
\<close>

datatype 'k tx_event = Tx_Send u16 | Tx_Sync u16 | Tx_Reboot 'k

definition tx_zero :: "'w tx_ctx" where
  "tx_zero = \<lparr>tx_store = None, tx_domain = 0, tx_epoch = 0, tx_ids = replicate SECOC_MAX_IDS 0,
     tx_counter = replicate SECOC_MAX_IDS 0, tx_id_count = 0\<rparr>"

definition stored_epoch :: "'w freshness_store_if \<Rightarrow> u8 \<Rightarrow> 'w \<Rightarrow> u16" where
  "stored_epoch s d w = (case the (st_load s) d w of None \<Rightarrow> 0 | Some e \<Rightarrow> e)"

fun tx_step ::
  "'w freshness_store_if \<Rightarrow> ('k \<Rightarrow> 'w \<Rightarrow> 'w) \<Rightarrow> u8 \<Rightarrow> u16 list \<Rightarrow> 'k tx_event \<Rightarrow>
   'w tx_ctx \<times> 'w \<Rightarrow> ('w tx_ctx \<times> 'w \<times> fresh_id list) option" where
  "tx_step s rb d ids (Tx_Send i) (c, w) =
     (case secoc_tx_next (Some c) i (Some (0, 0)) w of
        None \<Rightarrow> None
      | Some (b, c', out, w') \<Rightarrow>
          Some (the c', w', if b then [(i, fst (the out), snd (the out))] else []))"
| "tx_step s rb d ids (Tx_Sync f) (c, w) =
     (case secoc_tx_adopt_floor (Some c) f w of
        None \<Rightarrow> None | Some (_, c', w') \<Rightarrow> Some (the c', w', []))"
| "tx_step s rb d ids (Tx_Reboot k) (c, w) =
     (case secoc_tx_boot (Some tx_zero) (Some s) d (Some ids) (rb k w) of
        (_, c', w') \<Rightarrow> Some (the c', w', []))"

fun tx_life ::
  "'w freshness_store_if \<Rightarrow> ('k \<Rightarrow> 'w \<Rightarrow> 'w) \<Rightarrow> u8 \<Rightarrow> u16 list \<Rightarrow> 'k tx_event list \<Rightarrow>
   'w tx_ctx \<times> 'w \<Rightarrow> (fresh_id list \<times> u16 list) option" where
  "tx_life s rb d ids [] (c, w) = Some ([], [stored_epoch s d w])"
| "tx_life s rb d ids (ev # evs) (c, w) =
     (case tx_step s rb d ids ev (c, w) of
        None \<Rightarrow> None
      | Some (c', w', out) \<Rightarrow>
          (case tx_life s rb d ids evs (c', w') of
             None \<Rightarrow> None
           | Some (outs, hist) \<Rightarrow> Some (out @ outs, stored_epoch s d w # hist)))"

section \<open>The contract of the persistence port\<close>

text \<open>
  \<open>ok n w\<close>: the medium is sound with at least \<open>n\<close> saves left before its sequence numbers run out.
  A commit that reports success is what the domain loads from then on, one that fails leaves
  every domain as it was, and a reboot (\<open>k\<close> says when the power fails next) loses nothing.
\<close>

text \<open>
  Its meaning as a map from domains to epochs: a run of commits and reboots, with the answers the
  commits gave, against the map those answers describe.
\<close>

datatype 'k medium_op = Commit_Epoch u8 u16 | Power_Cycle 'k

fun medium_run ::
  "(u8 \<Rightarrow> u16 \<Rightarrow> 'w \<Rightarrow> bool \<times> 'w) \<Rightarrow> ('k \<Rightarrow> 'w \<Rightarrow> 'w) \<Rightarrow> 'k medium_op list \<Rightarrow> 'w \<Rightarrow> bool list \<times> 'w"
  where
  "medium_run cm rb [] w = ([], w)"
| "medium_run cm rb (Commit_Epoch d e # ops) w =
     (case cm d e w of (b, w1) \<Rightarrow> (case medium_run cm rb ops w1 of (bs, w2) \<Rightarrow> (b # bs, w2)))"
| "medium_run cm rb (Power_Cycle k # ops) w = medium_run cm rb ops (rb k w)"

fun epoch_map :: "'k medium_op list \<Rightarrow> bool list \<Rightarrow> (u8 \<rightharpoonup> u16) \<Rightarrow> (u8 \<rightharpoonup> u16)" where
  "epoch_map [] bs m = m"
| "epoch_map (Commit_Epoch d e # ops) (b # bs) m = epoch_map ops bs (if b then m(d \<mapsto> e) else m)"
| "epoch_map (Commit_Epoch d e # ops) [] m = m"
| "epoch_map (Power_Cycle k # ops) bs m = epoch_map ops bs m"

locale freshness_medium =
  fixes ld :: "u8 \<Rightarrow> 'w \<Rightarrow> u16 option"
    and cm :: "u8 \<Rightarrow> u16 \<Rightarrow> 'w \<Rightarrow> bool \<times> 'w"
    and reboot :: "'k \<Rightarrow> 'w \<Rightarrow> 'w"
    and ok :: "nat \<Rightarrow> 'w \<Rightarrow> bool"
  assumes ok_less: "ok (Suc n) w \<Longrightarrow> ok n w"
    and commit_ok: "ok (Suc n) w \<Longrightarrow> cm d e w = (b, w') \<Longrightarrow> ok n w'"
    and commit_done: "ok (Suc n) w \<Longrightarrow> cm d e w = (True, w') \<Longrightarrow> ld d w' = Some e"
    and commit_failed: "ok (Suc n) w \<Longrightarrow> cm d e w = (False, w') \<Longrightarrow> ld d w' = ld d w"
    and commit_other: "ok (Suc n) w \<Longrightarrow> cm d e w = (b, w') \<Longrightarrow> d' \<noteq> d \<Longrightarrow> ld d' w' = ld d' w"
    and reboot_ok: "ok n w \<Longrightarrow> ok n (reboot k w)"
    and reboot_load: "ok n w \<Longrightarrow> ld d (reboot k w) = ld d w"
begin

definition port :: "'w freshness_store_if" where
  "port = \<lparr>st_load = Some ld, st_commit = Some cm\<rparr>"

lemma medium_run_refines:
  assumes "ok (length ops) w" and "medium_run cm reboot ops w = (bs, w')"
  shows "(\<lambda>d. ld d w') = epoch_map ops bs (\<lambda>d. ld d w)"
  using assms
proof (induction ops arbitrary: w bs)
  case Nil
  then show ?case by simp
next
  case (Cons op ops)
  show ?case
  proof (cases op)
    case (Power_Cycle k)
    have ok: "ok (length ops) (reboot k w)" using Cons.prems(1) by (auto intro: reboot_ok ok_less)
    have "(\<lambda>d. ld d (reboot k w)) = (\<lambda>d. ld d w)"
      using reboot_load [OF Cons.prems(1)] by (rule ext)
    then show ?thesis using Cons.IH [OF ok, of bs] Cons.prems(2) Power_Cycle by simp
  next
    case (Commit_Epoch d e)
    then obtain b w1 bs' where c: "cm d e w = (b, w1)" and
      r: "medium_run cm reboot ops w1 = (bs', w')" and bs: "bs = b # bs'"
      using Cons.prems(2) by (auto split: prod.splits)
    have sok: "ok (Suc (length ops)) w" using Cons.prems(1) by simp
    have "ld d' w1 = ((\<lambda>d. ld d w)(d := (if b then Some e else ld d w))) d'" for d'
      using commit_done [OF sok, of d e w1] commit_failed [OF sok, of d e w1] c
        commit_other [OF sok c, of d'] by (cases b; cases "d' = d") auto
    then have "(\<lambda>d. ld d w1) = (if b then (\<lambda>d. ld d w)(d \<mapsto> e) else (\<lambda>d. ld d w))" by auto
    then show ?thesis
      using Cons.IH [OF commit_ok [OF sok c] r] Commit_Epoch bs by simp
  qed
qed

definition persisted :: "u8 \<Rightarrow> 'w \<Rightarrow> u16" where
  "persisted d w = (case ld d w of None \<Rightarrow> 0 | Some e \<Rightarrow> e)"

lemma port_ok [simp]: "store_ok (Some port)"
  by (simp add: store_ok_def port_def)

lemma commit_via_port [simp]: "commit_via (Some port) d e w = Some (cm d e w)"
  by (simp add: commit_via_def port_def)

lemma persisted_commit:
  "ok (Suc n) w \<Longrightarrow> cm d e w = (True, w') \<Longrightarrow> persisted d w' = e"
  "ok (Suc n) w \<Longrightarrow> cm d e w = (False, w') \<Longrightarrow> persisted d w' = persisted d w"
  "ok (Suc n) w \<Longrightarrow> cm d e w = (b, w') \<Longrightarrow> d' \<noteq> d \<Longrightarrow> persisted d' w' = persisted d' w"
  by (auto simp: persisted_def commit_done commit_failed commit_other)

lemma persisted_reboot: "ok n w \<Longrightarrow> persisted d (reboot k w) = persisted d w"
  by (simp add: persisted_def reboot_load)

text \<open>A booted receiver on this port, its accepted triples, and \<open>n\<close> saves left.\<close>

definition rx_sound :: "nat \<Rightarrow> u8 \<Rightarrow> 'w rx_ctx \<Rightarrow> 'w \<Rightarrow> fresh_id set \<Rightarrow> bool" where
  "rx_sound n d c w acc \<longleftrightarrow> ok n w \<and> rx_wf c \<and> rx_store c = Some port \<and> rx_domain c = d \<and>
     rx_current c = persisted d w \<and> rx_guard c acc"

lemma rx_sound_check:
  "rx_sound n d c w acc \<Longrightarrow> secoc_rx_check (Some c) i e m = SECOC_FRESH_OK \<Longrightarrow> (i, e, m) \<notin> acc"
  by (auto simp: rx_sound_def dest: rx_check_not_replayed)

lemma rx_sound_less: "rx_sound (Suc n) d c w acc \<Longrightarrow> rx_sound n d c w acc"
  by (auto simp: rx_sound_def intro: ok_less)

lemma rx_sound_accept:
  assumes "rx_sound (Suc n) d c w acc" and "secoc_rx_check (Some c) i e m = SECOC_FRESH_OK"
  obtains b c' w' where "secoc_rx_accept (Some c) i e m w = Some (b, Some c', w')"
    and "rx_sound n d c' w' (if b then insert (i, e, m) acc else acc)"
proof -
  from assms(1) have ok: "ok (Suc n) w" and wf: "rx_wf c" and st: "rx_store c = Some port"
    and dom: "rx_domain c = d" and cur: "rx_current c = persisted d w" and g: "rx_guard c acc"
    by (auto simp: rx_sound_def)
  have ok': "ok n w" by (rule ok_less [OF ok])
  obtain b c'' w' where acc: "secoc_rx_accept (Some c) i e m w = Some (b, c'', w')"
    using rx_accept_no_fault [of c i e m w] st by (cases "secoc_rx_accept (Some c) i e m w") auto
  then have "\<exists>c'. c'' = Some c' \<and> rx_store c' = Some port \<and> rx_domain c' = d \<and>
      rx_current c' = persisted d w' \<and> ok n w' \<and> rx_guard c' (if b then insert (i, e, m) acc else acc)"
  proof (cases rule: rx_accept_cases)
    case failed
    have "w' = w \<or> (\<exists>e. cm d e w = (False, w'))"
      using acc failed st dom
      by (auto simp: secoc_rx_accept_def Let_def split: option.splits if_splits prod.splits bool.splits)
    then have "ok n w'" "persisted d w' = persisted d w"
      using ok' commit_ok [OF ok] persisted_commit(2) [OF ok] by auto
    then show ?thesis using failed st dom cur g by simp
  next
    case (same k)
    then show ?thesis using rx_accept_guard [OF g wf assms(2)] acc st dom cur ok' by auto
  next
    case (newer k)
    then have "cm d e w = (True, w')" using st dom by simp
    then have "ok n w'" "persisted d w' = e" using commit_ok [OF ok] persisted_commit(1) [OF ok] by auto
    then show ?thesis using rx_accept_guard [OF g wf assms(2)] acc newer st dom by auto
  qed
  then obtain c' where c': "c'' = Some c'" "rx_store c' = Some port" "rx_domain c' = d"
    "rx_current c' = persisted d w'" "ok n w'" "rx_guard c' (if b then insert (i, e, m) acc else acc)"
    by blast
  have acc': "secoc_rx_accept (Some c) i e m w = Some (b, Some c', w')" using acc c'(1) by simp
  have "rx_sound n d c' w' (if b then insert (i, e, m) acc else acc)"
    unfolding rx_sound_def using c' rx_accept_wf [OF acc' wf] by blast
  then show ?thesis by (rule that [OF acc'])
qed

lemma rx_sound_reboot:
  assumes "rx_sound n d c w acc" and "rx_current c \<noteq> 0xFFFF"
    and "rx_wf c0" and "ids \<noteq> []" and "length ids \<le> SECOC_MAX_IDS"
    and same: "\<And>i. find_slot (rx_ids c) (rx_id_count c) i = find_slot ids (length ids) i"
  obtains c' where "secoc_rx_boot (Some c0) (Some port) d (Some ids) (reboot k w) = (True, Some c')"
    and "rx_sound n d c' (reboot k w) acc"
    and "\<And>i. find_slot (rx_ids c') (rx_id_count c') i = find_slot ids (length ids) i"
proof -
  let ?c' = "c0\<lparr>rx_store := Some port, rx_domain := d, rx_floor := persisted d (reboot k w) + 1,
      rx_current := persisted d (reboot k w), rx_id_count := length ids,
      rx_ids := overwrite 0 ids (rx_ids c0), rx_high := zero_upto (length ids) (rx_high c0)\<rparr>"
  have boot: "secoc_rx_boot (Some c0) (Some port) d (Some ids) (reboot k w) = (True, Some ?c')"
    using assms(4,5) by (simp add: secoc_rx_boot_def Let_def persisted_def port_def store_ok_def not_less)
  have ok: "ok n w" and cur: "rx_current c = persisted d w" and g: "rx_guard c acc"
    using assms(1) by (simp_all add: rx_sound_def)
  have "rx_guard ?c' acc"
    by (rule rx_boot_guard [OF g _ _ assms(2)]) (simp_all add: cur persisted_reboot [OF ok])
  moreover have "rx_wf ?c'" using assms(3,5) by (auto simp: rx_wf_def)
  ultimately have "rx_sound n d ?c' (reboot k w) acc"
    using reboot_ok [OF ok] by (simp add: rx_sound_def)
  moreover have "find_slot (rx_ids ?c') (rx_id_count ?c') i = find_slot ids (length ids) i" for i
    using assms(3,5) by (simp add: find_slot_overwrite rx_wf_def)
  ultimately show ?thesis using boot by (intro that) auto
qed

text \<open>
  A sender on this port. Before its boot succeeds it has no identifiers and sends nothing;
  what was spent earlier is at or below the persisted epoch.
\<close>

definition tx_sound :: "nat \<Rightarrow> u8 \<Rightarrow> 'w tx_ctx \<Rightarrow> 'w \<Rightarrow> fresh_id set \<Rightarrow> bool" where
  "tx_sound n d c w spent \<longleftrightarrow> ok n w \<and> (\<forall>i e m. (i, e, m) \<in> spent \<longrightarrow> e \<le> persisted d w) \<and>
     (tx_id_count c = 0 \<and> tx_store c = None \<or>
      tx_wf c \<and> tx_store c = Some port \<and> tx_domain c = d \<and> tx_epoch c = persisted d w \<and>
      tx_guard c spent)"

lemma tx_guard_le: "tx_guard c spent \<Longrightarrow> (i, e, m) \<in> spent \<Longrightarrow> e \<le> tx_epoch c"
  by (rule tx_guardD(1))

lemma tx_sound_next:
  assumes s: "tx_sound (Suc n) d c w spent" and nw: "persisted d w \<noteq> 0xFFFF"
    and nxt: "secoc_tx_next (Some c) i (Some (0, 0)) w = Some (b, c'', out, w')"
  shows "b \<longrightarrow> (i, fst (the out), snd (the out)) \<notin> spent"
    and "tx_sound n d (the c'') w' (if b then insert (i, fst (the out), snd (the out)) spent else spent)"
proof -
  have ok: "ok (Suc n) w" using s by (simp add: tx_sound_def)
  have ok': "ok n w" by (rule ok_less [OF ok])
  consider (unbooted) "tx_id_count c = 0" "tx_store c = None"
    | (booted) "tx_wf c" "tx_store c = Some port" "tx_domain c = d" "tx_epoch c = persisted d w"
        "tx_guard c spent"
    using s by (auto simp: tx_sound_def)
  then have "(b \<longrightarrow> (i, fst (the out), snd (the out)) \<notin> spent) \<and>
    tx_sound n d (the c'') w' (if b then insert (i, fst (the out), snd (the out)) spent else spent)"
  proof cases
    case unbooted
    then have "\<not> b" "c'' = Some c" "w' = w"
      using nxt by (auto simp: secoc_tx_next_def find_slot_def)
    then show ?thesis using s ok' unbooted by (simp add: tx_sound_def)
  next
    case booted
    show ?thesis
      using nxt
    proof (cases rule: tx_next_cases)
      case failed
      have "w' = w \<or> (\<exists>e. cm d e w = (False, w'))"
        using nxt failed booted
        by (auto simp: secoc_tx_next_def Let_def split: option.splits if_splits prod.splits bool.splits)
      then have "ok n w'" "persisted d w' = persisted d w"
        using ok' commit_ok [OF ok] persisted_commit(2) [OF ok] by auto
      then show ?thesis using failed booted s by (simp add: tx_sound_def)
    next
      case (bump k)
      then have cm: "cm d (tx_epoch c + 1) w = (True, w')" using booted by simp
      obtain e m where out: "out = Some (e, m)" using bump(6) by simp
      obtain c' where c': "c'' = Some c'" using bump(5) by simp
      have nxt': "secoc_tx_next (Some c) i (Some (0, 0)) w = Some (True, Some c', Some (e, m), w')"
        using nxt bump(1) out c' by simp
      have g: "(i, e, m) \<notin> spent \<and> tx_guard c' (insert (i, e, m) spent)"
        using tx_next_guard [OF booted(5,1) _ nxt'] nw booted(4) by simp
      have p: "tx_epoch c' = persisted d w'" "tx_store c' = Some port" "tx_domain c' = d"
        using persisted_commit(1) [OF ok cm] bump(5) c' booted by auto
      have "tx_sound n d c' w' (insert (i, e, m) spent)"
        unfolding tx_sound_def
        using p g commit_ok [OF ok cm] tx_next_wf [OF nxt' booted(1)] tx_guard_le [of c' "insert (i, e, m) spent"]
        by auto
      then show ?thesis using g out c' bump(1) by simp
    next
      case (plain k)
      obtain e m where out: "out = Some (e, m)" using plain(6) by simp
      obtain c' where c': "c'' = Some c'" using plain(5) by simp
      have nxt': "secoc_tx_next (Some c) i (Some (0, 0)) w = Some (True, Some c', Some (e, m), w')"
        using nxt plain(1) out c' by simp
      have g: "(i, e, m) \<notin> spent \<and> tx_guard c' (insert (i, e, m) spent)"
        using tx_next_guard [OF booted(5,1) _ nxt'] nw booted(4) by simp
      have p: "tx_epoch c' = persisted d w'" "tx_store c' = Some port" "tx_domain c' = d"
        using plain(4,5) c' booted by auto
      have "tx_sound n d c' w' (insert (i, e, m) spent)"
        unfolding tx_sound_def
        using p g ok' plain(4) tx_next_wf [OF nxt' booted(1)] tx_guard_le [of c' "insert (i, e, m) spent"]
        by auto
      then show ?thesis using g out c' plain(1) by simp
    qed
  qed
  then show "b \<longrightarrow> (i, fst (the out), snd (the out)) \<notin> spent"
    and "tx_sound n d (the c'') w' (if b then insert (i, fst (the out), snd (the out)) spent else spent)"
    by blast+
qed

lemma tx_sound_adopt:
  assumes s: "tx_sound (Suc n) d c w spent"
    and ad: "secoc_tx_adopt_floor (Some c) f w = Some (b, c'', w')"
  shows "tx_sound n d (the c'') w' spent"
proof -
  have ok: "ok (Suc n) w" using s by (simp add: tx_sound_def)
  have ok': "ok n w" by (rule ok_less [OF ok])
  show ?thesis
    using ad
  proof (cases rule: tx_adopt_cases)
    case refused
    have "w' = w \<or> (tx_store c = Some port \<and> (\<exists>e. cm (tx_domain c) e w = (False, w')))"
      using ad refused s
      by (auto simp: secoc_tx_adopt_floor_def tx_sound_def commit_via_def [of None]
          split: option.splits if_splits prod.splits bool.splits)
    then have "ok n w'" "persisted d w' = persisted d w"
      using ok' commit_ok [OF ok] persisted_commit(2,3) [OF ok] by (auto, metis)
    then show ?thesis using refused s by (simp add: tx_sound_def)
  next
    case adopted
    then have b: "tx_wf c" "tx_store c = Some port" "tx_domain c = d" "tx_epoch c = persisted d w"
      "tx_guard c spent" using s by (auto simp: tx_sound_def commit_via_def)
    obtain c' where c': "c'' = Some c'" using adopted(4) by simp
    have cm: "cm d f w = (True, w')" using adopted(3) b by simp
    have e: "tx_epoch c' = f" using adopted(4) c' by simp
    have g: "tx_guard c' spent" by (rule tx_raise_guard [OF b(5)]) (simp add: adopted(2) e)
    have "tx_wf c'" using tx_adopt_wf [of c f w b c' w'] ad c' b(1) by simp
    then have "tx_sound n d c' w' spent"
      unfolding tx_sound_def
      using persisted_commit(1) [OF ok cm] commit_ok [OF ok cm] e g tx_guard_le [OF g] adopted(4) c' b
      by auto
    then show ?thesis using c' by simp
  qed
qed

lemma tx_sound_boot:
  assumes ok: "ok (Suc n) w" and below: "\<And>i e m. (i, e, m) \<in> spent \<Longrightarrow> e \<le> persisted d w"
    and nw: "persisted d w \<noteq> 0xFFFF" and ids: "ids \<noteq> []" "length ids \<le> SECOC_MAX_IDS"
    and boot: "secoc_tx_boot (Some tx_zero) (Some port) d (Some ids) w = (b, c'', w')"
  shows "tx_sound n d (the c'') w' spent"
proof -
  have p: "(case ld d w of None \<Rightarrow> 0 | Some e \<Rightarrow> e) = persisted d w" by (simp add: persisted_def)
  obtain b' where cm: "cm d (persisted d w + 1) w = (b', w')" and b': "b' = b"
    using boot ids p
    by (cases "cm d (persisted d w + 1) w")
       (auto simp: secoc_tx_boot_def Let_def store_ok_def port_def split: bool.splits)
  have ok': "ok n w'" by (rule commit_ok [OF ok cm])
  show ?thesis
  proof (cases b)
    case False
    then have "c'' = Some tx_zero"
      using boot ids p cm b'
      by (auto simp: secoc_tx_boot_def Let_def store_ok_def port_def split: bool.splits)
    then show ?thesis
      using ok' below persisted_commit(2) [OF ok] cm False b' by (auto simp: tx_sound_def tx_zero_def)
  next
    case True
    have per: "persisted d w' = persisted d w + 1" using persisted_commit(1) [OF ok] cm True b' by simp
    have c'': "c'' = Some (tx_zero\<lparr>tx_store := Some port, tx_domain := d,
        tx_epoch := persisted d w + 1, tx_id_count := length ids,
        tx_ids := overwrite 0 ids (tx_ids (tx_zero :: 'w tx_ctx)),
        tx_counter := zero_upto (length ids) (tx_counter (tx_zero :: 'w tx_ctx))\<rparr>)" (is "_ = Some ?c'")
      using boot ids p cm b' True
      by (auto simp: secoc_tx_boot_def Let_def store_ok_def port_def split: bool.splits)
    have less: "persisted d w < persisted d w + 1" by (rule u16_less_plus_one [OF nw])
    have below': "e < persisted d w + 1" if "(i, e, m) \<in> spent" for i e m
      using below [OF that] less by simp
    have "tx_guard ?c' spent"
      unfolding tx_guard_def by (auto dest!: below' simp: less_imp_le)
    moreover have "tx_wf ?c'" using ids by (simp add: tx_wf_def tx_zero_def SECOC_MAX_IDS_def)
    ultimately show ?thesis
      unfolding tx_sound_def c'' using ok' per below' by (auto simp: less_imp_le)
  qed
qed

lemma stored_epoch_port [simp]: "stored_epoch port d w = persisted d w"
  by (simp add: stored_epoch_def persisted_def port_def)

lemma tx_life_head:
  "tx_life s rb d ids evs (c, w) = Some (outs, hist) \<Longrightarrow> stored_epoch s d w \<in> set hist"
  by (cases evs) (auto split: option.splits prod.splits)

lemma tx_step_sound:
  assumes s: "tx_sound (Suc n) d c w spent" and nw: "persisted d w \<noteq> 0xFFFF"
    and ids: "ids \<noteq> []" "length ids \<le> SECOC_MAX_IDS"
    and step: "tx_step port reboot d ids ev (c, w) = Some (c', w', out)"
  shows "tx_sound n d c' w' (spent \<union> set out)" and "set out \<inter> spent = {}" and "distinct out"
proof -
  have "tx_sound n d c' w' (spent \<union> set out) \<and> set out \<inter> spent = {} \<and> distinct out"
  proof (cases ev)
    case (Tx_Send i)
    with step obtain b c'' o' where
      n: "secoc_tx_next (Some c) i (Some (0, 0)) w = Some (b, c'', o', w')"
        "c' = the c''" "out = (if b then [(i, fst (the o'), snd (the o'))] else [])"
      by (auto split: option.splits)
    from tx_sound_next [OF s nw n(1)] n(2,3) show ?thesis by (auto split: if_splits)
  next
    case (Tx_Sync f)
    with step obtain b c'' where n: "secoc_tx_adopt_floor (Some c) f w = Some (b, c'', w')"
        "c' = the c''" "out = []"
      by (auto split: option.splits)
    from tx_sound_adopt [OF s n(1)] n show ?thesis by simp
  next
    case (Tx_Reboot k)
    with step obtain b c'' where
      n: "secoc_tx_boot (Some tx_zero) (Some port) d (Some ids) (reboot k w) = (b, c'', w')"
        "c' = the c''" "out = []"
      by (auto split: prod.splits)
    have ok: "ok (Suc n) w" using s by (simp add: tx_sound_def)
    have r: "persisted d (reboot k w) = persisted d w" "ok (Suc n) (reboot k w)"
      using persisted_reboot [OF ok] reboot_ok [OF ok] by auto
    have "tx_sound n d (the c'') w' spent"
    proof (rule tx_sound_boot [OF r(2) _ _ ids n(1)])
      show "\<And>i e m. (i, e, m) \<in> spent \<Longrightarrow> e \<le> persisted d (reboot k w)"
        using s r(1) unfolding tx_sound_def by auto
      show "persisted d (reboot k w) \<noteq> 0xFFFF" using nw r(1) by simp
    qed
    then show ?thesis using n by simp
  qed
  then show "tx_sound n d c' w' (spent \<union> set out)" and "set out \<inter> spent = {}" and "distinct out"
    by blast+
qed

text \<open>The sender never spends the same triple twice, as long as its epoch does not run out.\<close>

lemma tx_life_distinct:
  assumes "tx_life port reboot d ids evs (c, w) = Some (outs, hist)" and "0xFFFF \<notin> set hist"
    and "tx_sound (length evs) d c w spent" and "ids \<noteq> []" and "length ids \<le> SECOC_MAX_IDS"
  shows "distinct outs \<and> set outs \<inter> spent = {}"
  using assms
proof (induction evs arbitrary: c w outs hist spent)
  case Nil
  then show ?case by simp
next
  case (Cons ev evs)
  from Cons.prems(1) obtain c' w' out outs' hist' where
    step: "tx_step port reboot d ids ev (c, w) = Some (c', w', out)" and
    rest: "tx_life port reboot d ids evs (c', w') = Some (outs', hist')" and
    eq: "outs = out @ outs'" "hist = persisted d w # hist'"
    by (auto split: option.splits)
  have nw: "persisted d w \<noteq> 0xFFFF" "0xFFFF \<notin> set hist'" using Cons.prems(2) eq by auto
  have s: "tx_sound (Suc (length evs)) d c w spent" using Cons.prems(3) by simp
  note st = tx_step_sound [OF s nw(1) Cons.prems(4,5) step]
  from Cons.IH [OF rest nw(2) st(1) Cons.prems(4,5)] st(2,3) eq(1) show ?case by auto
qed

end

end
