(* ===== verification/Secoc_Rx.thy ===== *)
theory Secoc_Rx imports Secoc Freshness Log_Events begin

text \<open>
  The receive pipeline: \<open>shared/secoc/src/secoc_rx.c\<close>. It verifies the MAC, then the freshness, then
  commits, and only then releases the PDU; each verdict counts once and logs once.

  The receiver owns the structures its pointers name (the crypto binding and the freshness
  context), so they are embedded under an \<open>option\<close>. A call returns the verdict, the receiver, the
  two output buffers as it leaves them and the \<open>log_evt\<close> calls it made. The whole result is
  \<open>None\<close> only when the freshness context calls through a null store.
\<close>

section \<open>State\<close>

datatype rx_verdict = SECOC_RX_ACCEPT | SECOC_RX_DROP_MAC | SECOC_RX_DROP_FRESHNESS

record 'w secoc_rx =
  r_cy :: "'w secoc_crypto option"
  r_fresh :: "'w rx_ctx option"
  r_pdu_len_of :: "(u32 \<Rightarrow> nat) option"
  r_n_accept :: u32
  r_n_drop_mac :: u32
  r_n_drop_fresh :: u32

record 'w rx_result =
  rr_verdict :: rx_verdict
  rr_rx :: "'w secoc_rx option"
  rr_pdu :: "bytes option"
  rr_pdu_len :: "nat option"
  rr_log :: "log_call list"
  rr_world :: 'w

section \<open>Operations\<close>

definition secoc_rx_init ::
  "'w secoc_rx option \<Rightarrow> 'w secoc_crypto option \<Rightarrow> 'w rx_ctx option \<Rightarrow> 'w secoc_rx option" where
  "secoc_rx_init rx cy fresh = (case rx of None \<Rightarrow> None
   | Some r \<Rightarrow> Some (r\<lparr>r_cy := cy, r_fresh := fresh, r_pdu_len_of := None,
       r_n_accept := 0, r_n_drop_mac := 0, r_n_drop_fresh := 0\<rparr>))"

definition secoc_rx_set_pdu_len_of ::
  "'w secoc_rx option \<Rightarrow> (u32 \<Rightarrow> nat) option \<Rightarrow> 'w secoc_rx option" where
  "secoc_rx_set_pdu_len_of rx f = (case rx of None \<Rightarrow> None | Some r \<Rightarrow> Some (r\<lparr>r_pdu_len_of := f\<rparr>))"

text \<open>The enumeration's values, as \<open>(uint16_t)reason\<close> puts them into the event.\<close>

fun verify_code :: "secoc_verify_result \<Rightarrow> u16" where
  "verify_code SECOC_OK = 0"
| "verify_code SECOC_BAD_MAC = 1"
| "verify_code SECOC_BAD_LENGTH = 2"
| "verify_code SECOC_MAC_ERROR = 3"

definition drop_mac ::
  "'w secoc_rx \<Rightarrow> u16 \<Rightarrow> secoc_verify_result \<Rightarrow> rx_verdict \<times> 'w secoc_rx \<times> log_call list" where
  "drop_mac r can_id reason =
     (SECOC_RX_DROP_MAC, r\<lparr>r_n_drop_mac := r_n_drop_mac r + 1\<rparr>,
      [(LOG_EVT_SECOC_REJECT_MAC, ucast can_id, verify_code reason)])"

definition drop_fresh ::
  "'w secoc_rx \<Rightarrow> u16 \<Rightarrow> u16 \<Rightarrow> rx_verdict \<times> 'w secoc_rx \<times> log_call list" where
  "drop_fresh r can_id counter =
     (SECOC_RX_DROP_FRESHNESS, r\<lparr>r_n_drop_fresh := r_n_drop_fresh r + 1\<rparr>,
      [(LOG_EVT_SECOC_REJECT_FRESHNESS, ucast can_id, counter)])"

definition rx_return ::
  "rx_verdict \<times> 'w secoc_rx \<times> log_call list \<Rightarrow> bytes option \<Rightarrow> nat option \<Rightarrow> 'w \<Rightarrow> 'w rx_result" where
  "rx_return vrl pdu len w = (case vrl of (v, r, l) \<Rightarrow>
     \<lparr>rr_verdict = v, rr_rx = Some r, rr_pdu = pdu, rr_pdu_len = len, rr_log = l, rr_world = w\<rparr>)"

text \<open>The MAC step: the configured length of the identifier decides which entry point verifies.\<close>

definition rx_verify ::
  "'w secoc_rx \<Rightarrow> u16 \<Rightarrow> bytes option \<Rightarrow> bytes option \<Rightarrow> 'w \<Rightarrow>
   secoc_verify_result \<times> secoc_out \<times> 'w" where
  "rx_verify r can_id frame pdu_out w =
     (let cfg_len = (case r_pdu_len_of r of Some f \<Rightarrow> f (ucast can_id) | None \<Rightarrow> 0);
          outs = \<lparr>o_epoch = Some 0, o_counter = Some 0, o_pdu = pdu_out, o_pdu_len = Some 0\<rparr> in
      if cfg_len \<noteq> 0 then secoc_verify_len (r_cy r) can_id frame cfg_len outs w
      else secoc_verify (r_cy r) can_id frame outs w)"

definition secoc_rx_process ::
  "'w secoc_rx option \<Rightarrow> u16 \<Rightarrow> bytes option \<Rightarrow> bytes option \<Rightarrow> nat option \<Rightarrow> 'w \<Rightarrow>
   'w rx_result option" where
  "secoc_rx_process rx can_id frame pdu_out pdu_len w = (case rx of
     None \<Rightarrow> Some \<lparr>rr_verdict = SECOC_RX_DROP_MAC, rr_rx = None, rr_pdu = pdu_out,
                    rr_pdu_len = pdu_len, rr_log = [], rr_world = w\<rparr>
   | Some r \<Rightarrow>
       let len0 = map_option (\<lambda>_. 0) pdu_len in
       if r_cy r = None \<or> r_fresh r = None \<or> pdu_out = None \<or> pdu_len = None then
         Some (rx_return (drop_mac r can_id SECOC_MAC_ERROR) pdu_out len0 w)
       else
         let (vr, outs', w1) = rx_verify r can_id frame pdu_out w in
         if vr \<noteq> SECOC_OK then
           Some (rx_return (drop_mac r can_id vr) (o_pdu outs') (Some 0) w1)
         else
           let epoch = the (o_epoch outs'); counter = the (o_counter outs') in
           if secoc_rx_check (r_fresh r) can_id epoch counter \<noteq> SECOC_FRESH_OK then
             Some (rx_return (drop_fresh r can_id counter) (o_pdu outs') (Some 0) w1)
           else
             (case secoc_rx_accept (r_fresh r) can_id epoch counter w1 of
                None \<Rightarrow> None
              | Some (False, f', w2) \<Rightarrow>
                  Some (rx_return (drop_fresh (r\<lparr>r_fresh := f'\<rparr>) can_id counter)
                          (o_pdu outs') (Some 0) w2)
              | Some (True, f', w2) \<Rightarrow>
                  Some (rx_return
                    (SECOC_RX_ACCEPT, r\<lparr>r_fresh := f', r_n_accept := r_n_accept r + 1\<rparr>,
                     [(LOG_EVT_SECOC_ACCEPT, ucast can_id, counter)])
                    (o_pdu outs') (o_pdu_len outs') w2)))"

definition secoc_rx_sync_adopt ::
  "'w tx_ctx option \<Rightarrow> u16 \<Rightarrow> u16 \<Rightarrow> 'w \<Rightarrow> (bool \<times> 'w tx_ctx option \<times> log_call list \<times> 'w) option" where
  "secoc_rx_sync_adopt tx can_id requested_floor w = (case tx of
     None \<Rightarrow> Some (False, None, [], w)
   | Some _ \<Rightarrow>
       (case secoc_tx_adopt_floor tx requested_floor w of
          None \<Rightarrow> None
        | Some (moved, tx', w') \<Rightarrow>
            Some (moved, tx',
              (if moved then [(LOG_EVT_SECOC_RESYNC, ucast can_id, tx_epoch (the tx'))] else []),
              w')))"

section \<open>Case analysis\<close>

lemma rx_verify_frame:
  "rx_verify r i f pdu w = (vr, outs, w1) \<Longrightarrow> vr \<noteq> SECOC_OK \<Longrightarrow> o_pdu outs = pdu"
  by (auto simp: rx_verify_def Let_def split: if_splits
      dest!: secoc_verify_frame secoc_verify_len_frame)

lemma rx_process_cases:
  assumes "secoc_rx_process (Some r) i f pdu len w = Some x"
  obtains (guard) "r_cy r = None \<or> r_fresh r = None \<or> pdu = None \<or> len = None"
      "x = rx_return (drop_mac r i SECOC_MAC_ERROR) pdu (map_option (\<lambda>_. 0) len) w"
  | (mac) vr outs w1 where "rx_verify r i f pdu w = (vr, outs, w1)" "vr \<noteq> SECOC_OK"
      "x = rx_return (drop_mac r i vr) pdu (Some 0) w1"
  | (stale) outs w1 where "rx_verify r i f pdu w = (SECOC_OK, outs, w1)"
      "secoc_rx_check (r_fresh r) i (the (o_epoch outs)) (the (o_counter outs)) \<noteq> SECOC_FRESH_OK"
      "x = rx_return (drop_fresh r i (the (o_counter outs))) (o_pdu outs) (Some 0) w1"
  | (fresh) outs w1 b f' w2 where "rx_verify r i f pdu w = (SECOC_OK, outs, w1)"
      "secoc_rx_check (r_fresh r) i (the (o_epoch outs)) (the (o_counter outs)) = SECOC_FRESH_OK"
      "secoc_rx_accept (r_fresh r) i (the (o_epoch outs)) (the (o_counter outs)) w1 = Some (b, f', w2)"
      "x = (if b then rx_return (SECOC_RX_ACCEPT, r\<lparr>r_fresh := f', r_n_accept := r_n_accept r + 1\<rparr>,
                     [(LOG_EVT_SECOC_ACCEPT, ucast i, the (o_counter outs))])
                    (o_pdu outs) (o_pdu_len outs) w2
            else rx_return (drop_fresh (r\<lparr>r_fresh := f'\<rparr>) i (the (o_counter outs)))
                    (o_pdu outs) (Some 0) w2)"
proof (cases "r_cy r = None \<or> r_fresh r = None \<or> pdu = None \<or> len = None")
  case True
  then show ?thesis using assms guard by (simp add: secoc_rx_process_def Let_def)
next
  case False
  obtain vr outs w1 where v: "rx_verify r i f pdu w = (vr, outs, w1)" by (metis prod_cases3)
  show ?thesis
  proof (cases "vr = SECOC_OK")
    case vr: False
    then show ?thesis
      using assms False v rx_verify_frame [OF v vr] mac by (auto simp: secoc_rx_process_def Let_def)
  next
    case vr: True
    show ?thesis
    proof (cases "secoc_rx_check (r_fresh r) i (the (o_epoch outs)) (the (o_counter outs)) = SECOC_FRESH_OK")
      case c: False
      then show ?thesis using assms False v vr stale by (auto simp: secoc_rx_process_def Let_def)
    next
      case c: True
      then obtain b f' w2 where
        "secoc_rx_accept (r_fresh r) i (the (o_epoch outs)) (the (o_counter outs)) w1 = Some (b, f', w2)"
        using assms False v vr
        by (auto simp: secoc_rx_process_def Let_def split: option.splits)
      then show ?thesis using assms False v vr c fresh
        by (cases b) (auto simp: secoc_rx_process_def Let_def)
    qed
  qed
qed

lemmas rx_return_simps = rx_return_def drop_mac_def drop_fresh_def

text \<open>Exactly one counter moves and exactly one event is logged, and they agree.\<close>

fun verdict_event :: "rx_verdict \<Rightarrow> u16" where
  "verdict_event SECOC_RX_ACCEPT = LOG_EVT_SECOC_ACCEPT"
| "verdict_event SECOC_RX_DROP_MAC = LOG_EVT_SECOC_REJECT_MAC"
| "verdict_event SECOC_RX_DROP_FRESHNESS = LOG_EVT_SECOC_REJECT_FRESHNESS"

definition rx_counts :: "'w secoc_rx \<Rightarrow> u32 \<times> u32 \<times> u32" where
  "rx_counts r = (r_n_accept r, r_n_drop_mac r, r_n_drop_fresh r)"

fun bump_count :: "rx_verdict \<Rightarrow> u32 \<times> u32 \<times> u32 \<Rightarrow> u32 \<times> u32 \<times> u32" where
  "bump_count SECOC_RX_ACCEPT (a, m, f) = (a + 1, m, f)"
| "bump_count SECOC_RX_DROP_MAC (a, m, f) = (a, m + 1, f)"
| "bump_count SECOC_RX_DROP_FRESHNESS (a, m, f) = (a, m, f + 1)"

lemma rx_process_accounting:
  assumes "secoc_rx_process (Some r) i f pdu len w = Some x"
  shows "\<exists>r' a. rr_rx x = Some r' \<and> rx_counts r' = bump_count (rr_verdict x) (rx_counts r) \<and>
    rr_log x = [(verdict_event (rr_verdict x), ucast i, a)]"
  using assms
  by (cases rule: rx_process_cases) (auto simp: rx_return_simps rx_counts_def split: if_splits)

lemma rx_process_no_pdu:
  assumes "secoc_rx_process (Some r) i f pdu len w = Some x" and "rr_verdict x \<noteq> SECOC_RX_ACCEPT"
  shows "rr_pdu_len x = map_option (\<lambda>_. 0) len \<or> rr_pdu_len x = Some 0"
  using assms
  by (cases rule: rx_process_cases) (auto simp: rx_return_simps split: if_splits)

lemma rx_process_mac_drop_inert:
  assumes "secoc_rx_process (Some r) i f pdu len w = Some x" and "rr_verdict x = SECOC_RX_DROP_MAC"
  shows "rr_pdu x = pdu \<and> rr_rx x = Some (r\<lparr>r_n_drop_mac := r_n_drop_mac r + 1\<rparr>)"
  using assms
  by (cases rule: rx_process_cases) (auto simp: rx_return_simps split: if_splits)

section \<open>Authenticity\<close>

lemma secoc_verify_OK_core:
  assumes "secoc_verify cy i f out w = (SECOC_OK, out', w')" and "crypto_mac_of cy = Some (key, m)"
  obtains g where "f = Some g" "SECOC_TRAILER_LEN \<le> length g"
    "verify_core key m i g (length g - SECOC_TRAILER_LEN) out w = (SECOC_OK, out', w')"
  using assms by (auto simp: secoc_verify_def verify_args_ok_def Let_def not_less split: if_splits)

lemma secoc_verify_len_OK_core:
  assumes "secoc_verify_len cy i f n out w = (SECOC_OK, out', w')" and "crypto_mac_of cy = Some (key, m)"
  obtains g where "f = Some g" "n + SECOC_TRAILER_LEN \<le> length g"
    "length g \<le> secoc_fd_frame_len (n + SECOC_TRAILER_LEN)"
    "verify_core key m i g n out w = (SECOC_OK, out', w')"
  using assms by (auto simp: secoc_verify_len_def verify_args_ok_def Let_def not_less split: if_splits)

text \<open>A frame as the sender with the key would have built it, padded or not.\<close>

definition authentic :: "(u32 \<Rightarrow> bytes \<Rightarrow> bytes) \<Rightarrow> u32 \<Rightarrow> u16 \<Rightarrow> u16 \<Rightarrow> u16 \<Rightarrow> bytes \<Rightarrow> bytes \<Rightarrow> bool" where
  "authentic tag key i e c p f \<longleftrightarrow>
     (\<exists>pad. f = wire_frame p e c (take SECOC_MAC_LEN (tag key (mac_input i e c p))) @ pad)"

context mac_service
begin

lemma rx_verify_ok:
  assumes v: "rx_verify r i f pdu w = (SECOC_OK, outs, w1)"
    and cy: "crypto_mac_of (r_cy r) = Some (key, m)"
  obtains g p e c where "f = Some g" "authentic tag key i e c p g"
    "o_pdu outs = map_option (overwrite 0 p) pdu" "o_pdu_len outs = Some (length p)"
    "o_epoch outs = Some e" "o_counter outs = Some c"
proof -
  let ?o = "\<lparr>o_epoch = Some 0, o_counter = Some 0, o_pdu = pdu, o_pdu_len = Some 0\<rparr>"
  have "\<exists>g n. f = Some g \<and> n + 12 \<le> length g \<and> verify_core key m i g n ?o w = (SECOC_OK, outs, w1)"
  proof (cases "(case r_pdu_len_of r of Some f \<Rightarrow> f (ucast i) | None \<Rightarrow> 0) = 0")
    case True
    then have "secoc_verify (r_cy r) i f ?o w = (SECOC_OK, outs, w1)"
      using v by (simp add: rx_verify_def Let_def)
    then show ?thesis
      by (rule secoc_verify_OK_core [OF _ cy])
         (auto simp: secoc_consts intro!: exI [of _ "length (the f) - 12"])
  next
    case False
    then have "secoc_verify_len (r_cy r) i f (case r_pdu_len_of r of Some f \<Rightarrow> f (ucast i) | None \<Rightarrow> 0) ?o w
      = (SECOC_OK, outs, w1)"
      using v by (simp add: rx_verify_def Let_def)
    then show ?thesis
      by (rule secoc_verify_len_OK_core [OF _ cy]) (auto simp: secoc_consts)
  qed
  then obtain g n where g: "f = Some g" "n + 12 \<le> length g"
    "verify_core key m i g n ?o w = (SECOC_OK, outs, w1)" by blast
  from verify_core_ok [OF g(3,2)] obtain p e c t pad where
    "g = wire_frame p e c t @ pad" "length p = n" "t = take SECOC_MAC_LEN (tag key (mac_input i e c p))"
    "outs = ?o\<lparr>o_pdu := map_option (overwrite 0 p) (o_pdu ?o),
              o_pdu_len := Some n, o_epoch := Some e, o_counter := Some c\<rparr>" by metis
  then show ?thesis using g(1) by (intro that [of g e c p]) (auto simp: authentic_def)
qed

lemma rx_process_authentic:
  assumes "secoc_rx_process (Some r) i f pdu len w = Some x" and "rr_verdict x = SECOC_RX_ACCEPT"
    and cy: "crypto_mac_of (r_cy r) = Some (key, m)"
  obtains g p e c where "f = Some g" "authentic tag key i e c p g"
    "rr_pdu x = map_option (overwrite 0 p) pdu" "rr_pdu_len x = Some (length p)"
    "secoc_rx_check (r_fresh r) i e c = SECOC_FRESH_OK"
  using assms(1)
proof (cases rule: rx_process_cases)
  case (fresh outs w1 b f' w2)
  obtain g p e c where "f = Some g" "authentic tag key i e c p g"
    "o_pdu outs = map_option (overwrite 0 p) pdu" "o_pdu_len outs = Some (length p)"
    "o_epoch outs = Some e" "o_counter outs = Some c"
    using rx_verify_ok [OF fresh(1) cy] .
  then show ?thesis
    using fresh assms(2) by (intro that [of g e c p]) (auto simp: rx_return_simps split: if_splits)
qed (use assms(2) in \<open>auto simp: rx_return_simps\<close>)

end

section \<open>A receiver's life\<close>

text \<open>
  What a node does with its receiver over several boots: process a frame (with the buffer \<open>buf\<close> for
  the PDU), or reboot, after which context and receiver start from zeroed memory and are bound
  again. The run records the \<open>(id, epoch, counter)\<close> of each accepted frame, read from the frame
  itself, and the persisted epoch before each event.
\<close>

datatype 'k rx_event = Rx_Frame u16 bytes | Rx_Reboot 'k

definition rx_zero :: "'w rx_ctx" where
  "rx_zero = \<lparr>rx_store = None, rx_domain = 0, rx_floor = 0, rx_current = 0,
     rx_ids = replicate SECOC_MAX_IDS 0, rx_high = replicate SECOC_MAX_IDS 0, rx_id_count = 0\<rparr>"

definition secoc_rx_zero :: "'w secoc_rx" where
  "secoc_rx_zero = \<lparr>r_cy = None, r_fresh = None, r_pdu_len_of = None,
     r_n_accept = 0, r_n_drop_mac = 0, r_n_drop_fresh = 0\<rparr>"

definition rx_start ::
  "'w secoc_crypto \<Rightarrow> (u32 \<Rightarrow> nat) option \<Rightarrow> 'w freshness_store_if \<Rightarrow> u8 \<Rightarrow> u16 list \<Rightarrow> 'w \<Rightarrow> 'w secoc_rx"
  where
  "rx_start cy plen s d ids w =
     the (secoc_rx_set_pdu_len_of
            (secoc_rx_init (Some secoc_rx_zero) (Some cy)
               (snd (secoc_rx_boot (Some rx_zero) (Some s) d (Some ids) w)))
            plen)"

definition frame_fresh_id :: "u16 \<Rightarrow> bytes \<Rightarrow> nat \<Rightarrow> fresh_id" where
  "frame_fresh_id i f n = (i, get_u16le (drop n f), get_u16le (drop (n + 2) f))"

fun rx_step ::
  "'w secoc_crypto \<Rightarrow> (u32 \<Rightarrow> nat) option \<Rightarrow> 'w freshness_store_if \<Rightarrow> ('k \<Rightarrow> 'w \<Rightarrow> 'w) \<Rightarrow> u8 \<Rightarrow>
   u16 list \<Rightarrow> bytes \<Rightarrow> 'k rx_event \<Rightarrow> 'w secoc_rx \<times> 'w \<Rightarrow> ('w secoc_rx \<times> 'w \<times> fresh_id list) option"
  where
  "rx_step cy plen s rb d ids buf (Rx_Frame i f) (r, w) =
     (case secoc_rx_process (Some r) i (Some f) (Some buf) (Some 0) w of
        None \<Rightarrow> None
      | Some x \<Rightarrow> Some (the (rr_rx x), rr_world x,
          if rr_verdict x = SECOC_RX_ACCEPT then [frame_fresh_id i f (the (rr_pdu_len x))] else []))"
| "rx_step cy plen s rb d ids buf (Rx_Reboot k) (r, w) =
     Some (rx_start cy plen s d ids (rb k w), rb k w, [])"

fun rx_life ::
  "'w secoc_crypto \<Rightarrow> (u32 \<Rightarrow> nat) option \<Rightarrow> 'w freshness_store_if \<Rightarrow> ('k \<Rightarrow> 'w \<Rightarrow> 'w) \<Rightarrow> u8 \<Rightarrow>
   u16 list \<Rightarrow> bytes \<Rightarrow> 'k rx_event list \<Rightarrow> 'w secoc_rx \<times> 'w \<Rightarrow> (fresh_id list \<times> u16 list) option"
  where
  "rx_life cy plen s rb d ids buf [] (r, w) = Some ([], [stored_epoch s d w])"
| "rx_life cy plen s rb d ids buf (ev # evs) (r, w) =
     (case rx_step cy plen s rb d ids buf ev (r, w) of
        None \<Rightarrow> None
      | Some (r', w', out) \<Rightarrow>
          (case rx_life cy plen s rb d ids buf evs (r', w') of
             None \<Rightarrow> None
           | Some (outs, hist) \<Rightarrow> Some (out @ outs, stored_epoch s d w # hist)))"

text \<open>A receiver bound to a booted context never faults, whatever it is fed and whatever the store answers.\<close>

definition bound_receiver :: "'w secoc_rx \<Rightarrow> bool" where
  "bound_receiver r \<longleftrightarrow> r_cy r \<noteq> None \<and> (\<exists>c. r_fresh r = Some c \<and> store_ok (rx_store c))"

lemma rx_accept_store:
  "secoc_rx_accept (Some c) i e n w = Some (b, f', w') \<Longrightarrow> \<exists>c'. f' = Some c' \<and> rx_store c' = rx_store c"
  by (auto simp: secoc_rx_accept_def Let_def split: option.splits if_splits prod.splits bool.splits)

lemma rx_start_bound:
  assumes "store_ok (Some s)" and "ids \<noteq> []" and "length ids \<le> SECOC_MAX_IDS"
  shows "bound_receiver (rx_start cy plen s d ids w)"
  using assms
  by (simp add: bound_receiver_def rx_start_def secoc_rx_init_def secoc_rx_set_pdu_len_of_def
      secoc_rx_boot_def rx_zero_def Let_def)

lemma rx_process_total:
  assumes "bound_receiver r"
  shows "\<exists>x. secoc_rx_process (Some r) i f pdu len w = Some x \<and> bound_receiver (the (rr_rx x))"
proof -
  from assms obtain c where c: "r_fresh r = Some c" "store_ok (rx_store c)" by (auto simp: bound_receiver_def)
  have a: "(secoc_rx_accept (r_fresh r) i e k w1 = None) = False" for e k w1
    using c rx_accept_no_fault by metis
  then have "secoc_rx_process (Some r) i f pdu len w \<noteq> None"
    unfolding secoc_rx_process_def Let_def option.case
    by (simp add: a split: prod.splits option.splits bool.splits)
  then obtain x where x: "secoc_rx_process (Some r) i f pdu len w = Some x" by blast
  then have "bound_receiver (the (rr_rx x))"
  proof (cases rule: rx_process_cases)
    case (fresh outs w1 b f' w2)
    then obtain c' where "f' = Some c'" "rx_store c' = rx_store c" using c rx_accept_store by metis
    then show ?thesis using assms c fresh by (auto simp: bound_receiver_def rx_return_simps)
  qed (use assms in \<open>auto simp: bound_receiver_def rx_return_simps\<close>)
  with x show ?thesis by blast
qed

lemma rx_life_total:
  assumes "bound_receiver r" and "store_ok (Some s)" and "ids \<noteq> []" and "length ids \<le> SECOC_MAX_IDS"
  shows "\<exists>outs hist. rx_life cy plen s rb d ids buf evs (r, w) = Some (outs, hist)"
  using assms(1)
proof (induction evs arbitrary: r w)
  case Nil
  then show ?case by simp
next
  case (Cons ev evs)
  obtain r' w' out where step: "rx_step cy plen s rb d ids buf ev (r, w) = Some (r', w', out)" "bound_receiver r'"
  proof (cases ev)
    case (Rx_Frame i f)
    then show ?thesis using rx_process_total [OF Cons.prems, of i "Some f" "Some buf" "Some 0" w] that by auto
  next
    case (Rx_Reboot k)
    then show ?thesis using rx_start_bound [OF assms(2-4)] that by auto
  qed
  then show ?case using Cons.IH [OF step(2), of w'] by auto
qed

section \<open>Replay protection\<close>

text \<open>
  The receiver over a sound medium, with an oracle that leaves the medium alone and produces the
  tags of a fixed function.
\<close>

locale protected_receiver = mac_service m tag + freshness_medium ld cm reboot ok
  for m :: "'w mac_fn" and tag and ld :: "u8 \<Rightarrow> 'w \<Rightarrow> u16 option" and cm
    and reboot :: "'k \<Rightarrow> 'w \<Rightarrow> 'w" and ok +
  assumes mac_ok: "ok n w \<Longrightarrow> m k msg w = (t, w') \<Longrightarrow> ok n w'"
    and mac_load: "m k msg w = (t, w') \<Longrightarrow> ld d w' = ld d w"
begin

lemma verify_core_world:
  "verify_core key m i f n out w = (r, out', w') \<Longrightarrow> (ok k w \<longrightarrow> ok k w') \<and> persisted d w' = persisted d w"
proof -
  assume "verify_core key m i f n out w = (r, out', w')"
  then obtain msg t where t: "m key msg w = (t, w')"
    by (auto simp: verify_core_def Let_def split: option.splits prod.splits if_splits)
  show ?thesis using mac_ok [OF _ t] mac_load [OF t] by (simp add: persisted_def)
qed

lemma rx_verify_world:
  assumes "rx_verify r i f pdu w = (vr, outs, w1)" and "crypto_mac_of (r_cy r) = Some (key, m)"
  shows "(ok k w \<longrightarrow> ok k w1) \<and> persisted d w1 = persisted d w"
  using assms
  by (auto simp: rx_verify_def secoc_verify_def secoc_verify_len_def Let_def
      split: if_splits dest: verify_core_world)

text \<open>A bound receiver with a sound freshness context for the identifiers \<open>ids\<close>.\<close>

definition receiver_ok ::
  "nat \<Rightarrow> 'w secoc_crypto \<Rightarrow> u8 \<Rightarrow> u16 list \<Rightarrow> 'w secoc_rx \<Rightarrow> 'w \<Rightarrow> fresh_id set \<Rightarrow> bool" where
  "receiver_ok n cy d ids r w acc \<longleftrightarrow> r_cy r = Some cy \<and>
     (\<exists>c. r_fresh r = Some c \<and> rx_sound n d c w acc \<and>
        (\<forall>i. find_slot (rx_ids c) (rx_id_count c) i = find_slot ids (length ids) i))"

lemma rx_sound_world:
  "rx_sound n d c w acc \<Longrightarrow> ok n w' \<Longrightarrow> persisted d w' = persisted d w \<Longrightarrow> rx_sound n d c w' acc"
  by (simp add: rx_sound_def)

lemma rx_start_eq:
  "rx_start cy plen port d ids w =
     secoc_rx_zero\<lparr>r_cy := Some cy, r_pdu_len_of := plen,
       r_fresh := snd (secoc_rx_boot (Some rx_zero) (Some port) d (Some ids) w)\<rparr>"
  by (simp add: rx_start_def secoc_rx_init_def secoc_rx_set_pdu_len_of_def secoc_rx_zero_def)

lemma rx_step_ok:
  assumes r: "receiver_ok (Suc n) cy d ids r w acc" and nw: "persisted d w \<noteq> 0xFFFF"
    and cy: "crypto_mac_of (Some cy) = Some (key, m)"
    and ids: "ids \<noteq> []" "length ids \<le> SECOC_MAX_IDS"
    and step: "rx_step cy plen port reboot d ids buf ev (r, w) = Some (r', w', out)"
  shows "receiver_ok n cy d ids r' w' (acc \<union> set out) \<and> set out \<inter> acc = {} \<and> distinct out"
proof (cases ev)
  case (Rx_Reboot k)
  obtain c where c: "r_fresh r = Some c" "rx_sound (Suc n) d c w acc"
    "\<forall>i. find_slot (rx_ids c) (rx_id_count c) i = find_slot ids (length ids) i"
    using r by (auto simp: receiver_ok_def)
  have wf0: "rx_wf (rx_zero :: 'w rx_ctx)" by (simp add: rx_wf_def rx_zero_def)
  have cur: "rx_current c \<noteq> 0xFFFF" using c(2) nw by (simp add: rx_sound_def)
  from rx_sound_reboot [OF rx_sound_less [OF c(2)] cur wf0 ids, of k] c(3) obtain c' where
    "secoc_rx_boot (Some rx_zero) (Some port) d (Some ids) (reboot k w) = (True, Some c')"
    "rx_sound n d c' (reboot k w) acc"
    "\<forall>i. find_slot (rx_ids c') (rx_id_count c') i = find_slot ids (length ids) i" by metis
  then show ?thesis using step Rx_Reboot by (auto simp: rx_start_eq receiver_ok_def)
next
  case (Rx_Frame i f)
  obtain c where c: "r_cy r = Some cy" "r_fresh r = Some c" "rx_sound (Suc n) d c w acc"
    "\<forall>i. find_slot (rx_ids c) (rx_id_count c) i = find_slot ids (length ids) i"
    using r by (auto simp: receiver_ok_def)
  from step Rx_Frame obtain x where
    x: "secoc_rx_process (Some r) i (Some f) (Some buf) (Some 0) w = Some x" and
    r': "r' = the (rr_rx x)" "w' = rr_world x" and
    out: "out = (if rr_verdict x = SECOC_RX_ACCEPT then [frame_fresh_id i f (the (rr_pdu_len x))] else [])"
    by (auto split: option.splits)
  have cy': "crypto_mac_of (r_cy r) = Some (key, m)" using c(1) cy by simp
  have world: "ok (Suc n) w1 \<and> persisted d w1 = persisted d w"
    if "rx_verify r i (Some f) (Some buf) w = (vr, outs, w1)" for vr outs w1
    using rx_verify_world [OF that cy', of "Suc n" d] c(3) by (simp add: rx_sound_def)
  have stay: "receiver_ok n cy d ids r2 w1 acc"
    if "r_cy r2 = r_cy r" "r_fresh r2 = r_fresh r" "ok (Suc n) w1" "persisted d w1 = persisted d w" for r2 w1
    using that c rx_sound_less [OF rx_sound_world [OF c(3) that(3,4)]] by (auto simp: receiver_ok_def)
  show ?thesis using x
  proof (cases rule: rx_process_cases)
    case guard
    then show ?thesis using c by simp
  next
    case (mac vr outs w1)
    then show ?thesis using r' out world [OF mac(1)] by (auto simp: rx_return_simps intro: stay)
  next
    case (stale outs w1)
    then show ?thesis using r' out world [OF stale(1)] by (auto simp: rx_return_simps intro: stay)
  next
    case (fresh outs w1 b f' w2)
    let ?e = "the (o_epoch outs)" and ?c = "the (o_counter outs)"
    obtain g p e k where g: "Some f = Some g" "authentic tag key i e k p g"
      "o_pdu_len outs = Some (length p)" "o_epoch outs = Some e" "o_counter outs = Some k"
      using rx_verify_ok [OF fresh(1) cy'] by metis
    have id: "frame_fresh_id i f (length p) = (i, e, k)"
      using g(1,2) by (auto simp: authentic_def frame_fresh_id_def wire_frame_def le16_def get_u16le_eq)
    have s: "rx_sound (Suc n) d c w1 acc" using rx_sound_world [OF c(3)] world [OF fresh(1)] by blast
    have chk: "secoc_rx_check (Some c) i e k = SECOC_FRESH_OK" using fresh(2) c(2) g by simp
    from rx_sound_accept [OF s chk] obtain b' c' w2' where
      acc: "secoc_rx_accept (Some c) i e k w1 = Some (b', Some c', w2')"
      "rx_sound n d c' w2' (if b' then insert (i, e, k) acc else acc)" .
    have eq: "b' = b" "f' = Some c'" "w2' = w2" using acc(1) fresh(3) c(2) g by auto
    have "receiver_ok n cy d ids r' w' (if b then insert (i, e, k) acc else acc)"
      using fresh(4) r' acc(2) eq c rx_accept_ids [OF acc(1)]
      by (auto simp: receiver_ok_def rx_return_simps)
    moreover have "out = (if b then [(i, e, k)] else [])"
      using fresh(4) out g(3) id by (auto simp: rx_return_simps)
    ultimately show ?thesis using rx_sound_check [OF s chk] by auto
  qed
qed

lemma rx_life_distinct:
  assumes "rx_life cy plen port reboot d ids buf evs (r, w) = Some (outs, hist)" and "0xFFFF \<notin> set hist"
    and "receiver_ok (length evs) cy d ids r w acc" and "crypto_mac_of (Some cy) = Some (key, m)"
    and "ids \<noteq> []" and "length ids \<le> SECOC_MAX_IDS"
  shows "distinct outs \<and> set outs \<inter> acc = {}"
  using assms
proof (induction evs arbitrary: r w outs hist acc)
  case Nil
  then show ?case by simp
next
  case (Cons ev evs)
  from Cons.prems(1) obtain r' w' out outs' hist' where
    step: "rx_step cy plen port reboot d ids buf ev (r, w) = Some (r', w', out)" and
    rest: "rx_life cy plen port reboot d ids buf evs (r', w') = Some (outs', hist')" and
    eq: "outs = out @ outs'" "hist = persisted d w # hist'"
    by (auto split: option.splits)
  have nw: "persisted d w \<noteq> 0xFFFF" "0xFFFF \<notin> set hist'" using Cons.prems(2) eq by auto
  have s: "receiver_ok (Suc (length evs)) cy d ids r w acc" using Cons.prems(3) by simp
  note st = rx_step_ok [OF s nw(1) Cons.prems(4,5,6) step]
  from Cons.IH [OF rest nw(2) _ Cons.prems(4,5,6)] st eq(1) show ?case by fastforce
qed

lemma receiver_ok_first:
  assumes "ok n w" and "persisted d w = 0" and ids: "ids \<noteq> []" "length ids \<le> SECOC_MAX_IDS"
  shows "receiver_ok n cy d ids (rx_start cy plen port d ids (reboot k w)) (reboot k w) {}"
proof -
  let ?c = "(rx_zero :: 'w rx_ctx)\<lparr>rx_store := Some port, rx_domain := d,
      rx_ids := overwrite 0 ids (replicate SECOC_MAX_IDS 0), rx_id_count := length ids\<rparr>"
  have s: "rx_sound n d ?c w {}"
    using assms by (simp add: rx_sound_def rx_wf_def rx_zero_def rx_guard_def)
  have wf0: "rx_wf (rx_zero :: 'w rx_ctx)" by (simp add: rx_wf_def rx_zero_def)
  have slot: "find_slot (rx_ids ?c) (rx_id_count ?c) i = find_slot ids (length ids) i" for i
    using ids by (simp add: find_slot_overwrite)
  have cur: "rx_current ?c \<noteq> 0xFFFF" by (simp add: rx_zero_def)
  from rx_sound_reboot [OF s cur wf0 ids slot, of k] obtain c' where
    "secoc_rx_boot (Some rx_zero) (Some port) d (Some ids) (reboot k w) = (True, Some c')"
    "rx_sound n d c' (reboot k w) {}"
    "\<forall>i. find_slot (rx_ids c') (rx_id_count c') i = find_slot ids (length ids) i" by metis
  then show ?thesis by (simp add: rx_start_eq receiver_ok_def)
qed

end

end
