(* ===== verification/Hal.thy ===== *)
theory Hal imports Prelude begin

text \<open>
  The flash abstraction of \<open>shared/hal/include/hal.h\<close>, over a device state \<open>'f\<close>. Function pointers
  may be \<open>NULL\<close> (\<open>None\<close>). Error codes stay integers, since callers compare them with 0 or test the
  sign; \<open>read_checked\<close>, whose buffer is only looked at when the code is not negative, returns the
  bytes or \<open>None\<close>.
\<close>

record 'f hal_flash_if =
  fl_read :: "(u32 \<Rightarrow> nat \<Rightarrow> 'f \<Rightarrow> bytes option \<times> 'f) option"
  fl_write :: "(u32 \<Rightarrow> bytes option \<Rightarrow> 'f \<Rightarrow> int \<times> 'f) option"
  fl_erase_sector :: "(u32 \<Rightarrow> 'f \<Rightarrow> int \<times> 'f) option"
  fl_erase_range :: "(u32 \<Rightarrow> u32 \<Rightarrow> 'f \<Rightarrow> int \<times> 'f) option"
  fl_sector_size :: u32
  fl_program_row_size :: u32
  fl_blank_check :: "(u32 \<Rightarrow> nat \<Rightarrow> 'f \<Rightarrow> int) option"
  fl_read_checked :: "(u32 \<Rightarrow> nat \<Rightarrow> 'f \<Rightarrow> bytes option) option"

end
