(* ===== verification/Secoc_Store.thy ===== *)
theory Secoc_Store imports Hal Freshness begin

text \<open>
  The two-slot work-flash record behind the persistence port: \<open>shared/secoc_store/src/secoc_store.c\<close>.

  The module's static structure \<open>s_store\<close> is the record \<open>store_state\<close>; together with the flash device
  it is the world \<open>'f store_state \<times> 'f\<close> of the port. A save writes the slot that does not hold the
  newest record (erase, body, mark, read back) and only then lets the RAM mirror follow; a mount
  scans both slots. \<open>work_flash\<close> states what the store relies on of the device, power loss
  included, and under it the store is a \<open>freshness_medium\<close>.
\<close>

section \<open>Types and constants\<close>

definition SECOC_STORE_DOMAINS :: u8 where "SECOC_STORE_DOMAINS = 2"
definition SECOC_STORE_RECORD_LEN :: nat where "SECOC_STORE_RECORD_LEN = 20"
definition SECOC_STORE_COMMIT_MARK :: u32 where "SECOC_STORE_COMMIT_MARK = 0xA5C33C5A"
definition BODY_LEN :: nat where "BODY_LEN = 16"
definition CRC_LEN :: nat where "CRC_LEN = 12"
definition MARK_OFFSET :: nat where "MARK_OFFSET = 16"
definition MARK_LEN :: nat where "MARK_LEN = 4"
definition NO_SLOT :: u8 where "NO_SLOT = 0xFF"
definition WRITTEN_MASK :: u32 where "WRITTEN_MASK = 3"
definition CRC32_POLY :: u32 where "CRC32_POLY = 0xEDB88320"

lemmas store_consts = SECOC_STORE_DOMAINS_def SECOC_STORE_RECORD_LEN_def BODY_LEN_def CRC_LEN_def
  MARK_OFFSET_def MARK_LEN_def NO_SLOT_def WRITTEN_MASK_def

record store_rec =
  rec_seq :: u32
  rec_epoch :: "u16 list"
  rec_written :: u32

definition rec_zero :: store_rec where
  "rec_zero = \<lparr>rec_seq = 0, rec_epoch = [0, 0], rec_written = 0\<rparr>"

datatype slot_state = SLOT_EMPTY | SLOT_TORN | SLOT_CORRUPT | SLOT_VALID

datatype store_status = SECOC_STORE_OK | SECOC_STORE_FACTORY | SECOC_STORE_BROKEN

record 'f store_cfg =
  cfg_flash :: "'f hal_flash_if option"
  cfg_slot_addr :: "u32 list"

record 'f store_state =
  ss_cfg :: "'f store_cfg"
  ss_status :: store_status
  ss_newest :: u8
  ss_mirror :: store_rec

section \<open>Codec\<close>

definition put_u32 :: "u32 \<Rightarrow> bytes" where
  "put_u32 v = [ucast (v AND 0xFF), ucast (drop_bit 8 v AND 0xFF),
     ucast (drop_bit 16 v AND 0xFF), ucast (drop_bit 24 v AND 0xFF)]"

definition get_u32 :: "bytes \<Rightarrow> u32" where
  "get_u32 b = ucast (b ! 0) OR push_bit 8 (ucast (b ! 1)) OR push_bit 16 (ucast (b ! 2)) OR
     push_bit 24 (ucast (b ! 3))"

definition crc32_bit :: "u32 \<Rightarrow> u32" where
  "crc32_bit crc = (if crc AND 1 \<noteq> 0 then drop_bit 1 crc XOR CRC32_POLY else drop_bit 1 crc)"

definition crc32_byte :: "u32 \<Rightarrow> u8 \<Rightarrow> u32" where
  "crc32_byte crc b = (crc32_bit ^^ 8) (crc XOR ucast b)"

definition crc32 :: "bytes \<Rightarrow> nat \<Rightarrow> u32" where
  "crc32 p n = foldl crc32_byte 0xFFFFFFFF (take n p) XOR 0xFFFFFFFF"

text \<open>Each \<open>put_u32(&out[k], ...)\<close> fills the next four of the 20 bytes.\<close>

definition encode :: "store_rec \<Rightarrow> bytes" where
  "encode r =
     (let o0 = put_u32 (rec_seq r);
          o4 = o0 @ put_u32 (ucast (rec_epoch r ! 0) OR push_bit 16 (ucast (rec_epoch r ! 1)));
          o8 = o4 @ put_u32 (rec_written r);
          o12 = o8 @ put_u32 (crc32 o8 CRC_LEN) in
      o12 @ put_u32 SECOC_STORE_COMMIT_MARK)"

definition same_record :: "store_rec \<Rightarrow> store_rec \<Rightarrow> bool" where
  "same_record a b \<longleftrightarrow> rec_seq a = rec_seq b \<and> rec_epoch a ! 0 = rec_epoch b ! 0 \<and>
     rec_epoch a ! 1 = rec_epoch b ! 1 \<and> rec_written a = rec_written b"

section \<open>Reading a slot\<close>

definition read_slot :: "'f hal_flash_if \<Rightarrow> u32 \<Rightarrow> store_rec \<Rightarrow> 'f \<Rightarrow> slot_state \<times> store_rec" where
  "read_slot fl addr r f =
     (let blank = the (fl_blank_check fl) (addr + of_nat MARK_OFFSET) MARK_LEN f in
      if blank = 1 then (SLOT_EMPTY, r)
      else if blank \<noteq> 0 then (SLOT_TORN, r)
      else case the (fl_read_checked fl) addr SECOC_STORE_RECORD_LEN f of
          None \<Rightarrow> (SLOT_TORN, r)
        | Some buf \<Rightarrow>
            if get_u32 (drop MARK_OFFSET buf) \<noteq> SECOC_STORE_COMMIT_MARK then (SLOT_TORN, r)
            else if get_u32 (drop 12 buf) \<noteq> crc32 buf CRC_LEN then (SLOT_CORRUPT, r)
            else
              let epochs = get_u32 (drop 4 buf);
                  r' = r\<lparr>rec_seq := get_u32 buf,
                         rec_epoch := [ucast (epochs AND 0xFFFF), ucast (drop_bit 16 epochs)],
                         rec_written := get_u32 (drop 8 buf)\<rparr> in
              if rec_written r' AND NOT WRITTEN_MASK \<noteq> 0 then (SLOT_CORRUPT, r')
              else (SLOT_VALID, r'))"

section \<open>Mount\<close>

definition cfg_ok :: "'f store_cfg option \<Rightarrow> bool" where
  "cfg_ok cfg = (case cfg of None \<Rightarrow> False | Some c \<Rightarrow>
     (case cfg_flash c of None \<Rightarrow> False | Some f \<Rightarrow>
        if fl_erase_sector f = None \<or> fl_write f = None \<or> fl_blank_check f = None \<or>
           fl_read_checked f = None then False
        else if fl_sector_size f < of_nat SECOC_STORE_RECORD_LEN \<or>
           cfg_slot_addr c ! 0 = cfg_slot_addr c ! 1 then False
        else list_all (\<lambda>i. cfg_slot_addr c ! i mod fl_sector_size f = 0) [0, 1]))"

definition secoc_store_mount ::
  "'f store_cfg option \<Rightarrow> 'f store_state \<Rightarrow> 'f \<Rightarrow> store_status \<times> 'f store_state" where
  "secoc_store_mount cfg s f =
     (let s0 = s\<lparr>ss_status := SECOC_STORE_BROKEN, ss_newest := NO_SLOT, ss_mirror := rec_zero\<rparr> in
      if \<not> cfg_ok cfg then (SECOC_STORE_BROKEN, s0)
      else
        let c = the cfg; fl = the (cfg_flash c); s1 = s0\<lparr>ss_cfg := c\<rparr>;
            (st0, rec0) = read_slot fl (cfg_slot_addr c ! 0) rec_zero f;
            (st1, rec1) = read_slot fl (cfg_slot_addr c ! 1) rec_zero f;
            newest = (if st0 = SLOT_VALID \<and> st1 = SLOT_VALID then
                        (if rec_seq rec1 > rec_seq rec0 then 1 else 0)
                      else if st0 = SLOT_VALID then 0
                      else if st1 = SLOT_VALID then 1
                      else NO_SLOT);
            s2 = s1\<lparr>ss_newest := newest\<rparr>;
            s3 = (if newest \<noteq> NO_SLOT then
                    s2\<lparr>ss_mirror := (if newest = 0 then rec0 else rec1), ss_status := SECOC_STORE_OK\<rparr>
                  else if st0 = SLOT_EMPTY \<and> st1 = SLOT_EMPTY then s2\<lparr>ss_status := SECOC_STORE_FACTORY\<rparr>
                  else s2\<lparr>ss_status := SECOC_STORE_BROKEN\<rparr>) in
        (ss_status s3, s3))"

section \<open>The port\<close>

definition usable :: "'f store_state \<Rightarrow> bool" where
  "usable s \<longleftrightarrow> ss_status s \<noteq> SECOC_STORE_BROKEN"

definition store_load :: "u8 \<Rightarrow> 'f store_state \<times> 'f \<Rightarrow> u16 option" where
  "store_load domain sf = (case sf of (s, _) \<Rightarrow>
     if \<not> usable s \<or> domain \<ge> SECOC_STORE_DOMAINS then None
     else if rec_written (ss_mirror s) AND push_bit (unat domain) 1 = 0 then None
     else Some (rec_epoch (ss_mirror s) ! unat domain))"

definition store_commit :: "u8 \<Rightarrow> u16 \<Rightarrow> 'f store_state \<times> 'f \<Rightarrow> bool \<times> 'f store_state \<times> 'f" where
  "store_commit domain epoch sf = (case sf of (s, f) \<Rightarrow>
     if \<not> usable s \<or> domain \<ge> SECOC_STORE_DOMAINS then (False, s, f)
     else
       let fl = the (cfg_flash (ss_cfg s));
           m = ss_mirror s;
           nxt = m\<lparr>rec_seq := rec_seq m + 1, rec_epoch := (rec_epoch m)[unat domain := epoch],
                   rec_written := rec_written m OR push_bit (unat domain) 1\<rparr>;
           target = (if ss_newest s = 0 then 1 else 0);
           addr = cfg_slot_addr (ss_cfg s) ! target;
           buf = encode nxt in
       case the (fl_erase_sector fl) addr f of (e1, f1) \<Rightarrow>
       if e1 \<noteq> 0 then (False, s, f1)
       else case the (fl_write fl) addr (Some (take BODY_LEN buf)) f1 of (e2, f2) \<Rightarrow>
       if e2 \<noteq> 0 then (False, s, f2)
       else case the (fl_write fl) (addr + of_nat MARK_OFFSET) (Some (take MARK_LEN (drop MARK_OFFSET buf))) f2
         of (e3, f3) \<Rightarrow>
       if e3 \<noteq> 0 then (False, s, f3)
       else case read_slot fl addr rec_zero f3 of (st, back) \<Rightarrow>
       if st \<noteq> SLOT_VALID \<or> \<not> same_record back nxt then (False, s, f3)
       else (True, s\<lparr>ss_mirror := nxt, ss_newest := of_nat target, ss_status := SECOC_STORE_OK\<rparr>, f3))"

definition g_secoc_store :: "('f store_state \<times> 'f) freshness_store_if" where
  "g_secoc_store = \<lparr>st_load = Some store_load, st_commit = Some store_commit\<rparr>"

section \<open>Codec lemmas\<close>

lemma put_u32_eq [codec]: "put_u32 v = le32 v"
  by (simp add: put_u32_def le32_def)

lemma get_u32_eq [codec]: "get_u32 (a # b # c # d # xs) = un_le32 a b c d"
  by (simp add: get_u32_def un_le32_def eval_nat_numeral)

lemma get_u32_le32 [simp, codec]: "get_u32 (le32 v @ xs) = v"
  by (simp add: le32_def get_u32_eq)

lemma get_u32_le32' [simp, codec]: "get_u32 (le32 v) = v"
  using get_u32_le32 [of v "[]"] by simp

lemma crc32_take: "crc32 (xs @ ys) n = crc32 xs n" if "n \<le> length xs"
  using that by (simp add: crc32_def)

definition rec_body :: "store_rec \<Rightarrow> bytes" where
  "rec_body r = le32 (rec_seq r) @
     le32 (ucast (rec_epoch r ! 0) OR push_bit 16 (ucast (rec_epoch r ! 1))) @ le32 (rec_written r)"

lemma length_rec_body [simp]: "length (rec_body r) = 12"
  by (simp add: rec_body_def)

lemma encode_eq:
  "encode r = (rec_body r @ le32 (crc32 (rec_body r) 12)) @ le32 SECOC_STORE_COMMIT_MARK"
  by (simp add: encode_def Let_def put_u32_eq rec_body_def store_consts)

lemma length_encode [simp]: "length (encode r) = 20"
  by (simp add: encode_eq)

lemma encode_split:
  "take 16 (encode r) = rec_body r @ le32 (crc32 (rec_body r) 12)"
  "take 4 (drop 16 (encode r)) = le32 SECOC_STORE_COMMIT_MARK"
  by (simp_all add: encode_eq)

lemma epochs_low: "(ucast ((ucast (a :: u16) OR push_bit 16 (ucast (b :: u16)) :: u32) AND 0xFFFF) :: u16) = a"
proof -
  have m: "(0xFFFF :: u32) = mask 16" by (simp add: mask_eq_exp_minus_1)
  show ?thesis
    unfolding m by (rule bit_word_eqI) (auto simp: bit_simps)
qed

lemma epochs_high: "(ucast (drop_bit 16 (ucast (a :: u16) OR push_bit 16 (ucast (b :: u16)) :: u32)) :: u16) = b"
  by (rule bit_word_eqI) (auto simp: bit_simps dest: bit_imp_le_length)

definition rec_ok :: "store_rec \<Rightarrow> bool" where
  "rec_ok r \<longleftrightarrow> length (rec_epoch r) = 2 \<and> rec_written r AND NOT WRITTEN_MASK = 0"

lemma two_epochs: "length (rec_epoch r) = 2 \<Longrightarrow> [rec_epoch r ! 0, rec_epoch r ! 1] = rec_epoch r"
  by (auto simp: numeral_2_eq_2 length_Suc_conv)

text \<open>What \<open>read_slot\<close> makes of the 20 bytes of a slot whose mark is not blank.\<close>

definition decode_slot :: "bytes \<Rightarrow> store_rec \<Rightarrow> slot_state \<times> store_rec" where
  "decode_slot buf r =
     (if get_u32 (drop MARK_OFFSET buf) \<noteq> SECOC_STORE_COMMIT_MARK then (SLOT_TORN, r)
      else if get_u32 (drop 12 buf) \<noteq> crc32 buf CRC_LEN then (SLOT_CORRUPT, r)
      else
        let epochs = get_u32 (drop 4 buf);
            r' = r\<lparr>rec_seq := get_u32 buf,
                   rec_epoch := [ucast (epochs AND 0xFFFF), ucast (drop_bit 16 epochs)],
                   rec_written := get_u32 (drop 8 buf)\<rparr> in
        if rec_written r' AND NOT WRITTEN_MASK \<noteq> 0 then (SLOT_CORRUPT, r')
        else (SLOT_VALID, r'))"

lemma read_slot_eq:
  "read_slot fl addr r f =
     (let blank = the (fl_blank_check fl) (addr + 16) 4 f in
      if blank = 1 then (SLOT_EMPTY, r)
      else if blank \<noteq> 0 then (SLOT_TORN, r)
      else case the (fl_read_checked fl) addr 20 f of
          None \<Rightarrow> (SLOT_TORN, r) | Some buf \<Rightarrow> decode_slot buf r)"
  by (auto simp: read_slot_def decode_slot_def store_consts Let_def split: option.splits)

lemma decode_encode:
  assumes "rec_ok r"
  shows "decode_slot (encode r) r0 = (SLOT_VALID, r)"
proof -
  let ?b = "encode r"
  let ?w = "ucast (rec_epoch r ! 0) OR push_bit 16 (ucast (rec_epoch r ! 1)) :: u32"
  have g: "get_u32 ?b = rec_seq r" "get_u32 (drop 4 ?b) = ?w" "get_u32 (drop 8 ?b) = rec_written r"
    "get_u32 (drop 12 ?b) = crc32 (rec_body r) 12" "get_u32 (drop 16 ?b) = SECOC_STORE_COMMIT_MARK"
    by (simp_all add: encode_eq rec_body_def)
  have c: "crc32 ?b 12 = crc32 (rec_body r) 12"
    by (simp add: encode_eq crc32_take)
  have "r0\<lparr>rec_seq := rec_seq r, rec_epoch := [ucast (?w AND 0xFFFF), ucast (drop_bit 16 ?w)],
      rec_written := rec_written r\<rparr> = r"
    unfolding epochs_low epochs_high using two_epochs [of r] assms by (simp add: rec_ok_def)
  then show ?thesis
    using assms by (simp add: decode_slot_def store_consts g c Let_def rec_ok_def)
qed

lemma decode_slot_ok:
  "decode_slot buf r0 = (SLOT_VALID, r) \<Longrightarrow> rec_ok r"
  by (auto simp: decode_slot_def Let_def rec_ok_def split: if_splits)

lemma decode_slot_VALID_indep:
  "decode_slot buf r0 = (SLOT_VALID, r) \<Longrightarrow> decode_slot buf r1 = (SLOT_VALID, r)"
  by (auto simp: decode_slot_def Let_def split: if_splits)

lemma same_record_refl: "same_record r r"
  by (simp add: same_record_def)

text \<open>\<open>s_store\<close> as the image starts: unmounted, which is broken.\<close>

definition store_state0 :: "'f store_state" where
  "store_state0 = \<lparr>ss_cfg = \<lparr>cfg_flash = None, cfg_slot_addr = [0, 0]\<rparr>,
     ss_status = SECOC_STORE_BROKEN, ss_newest = NO_SLOT, ss_mirror = rec_zero\<rparr>"

definition next_rec :: "u8 \<Rightarrow> u16 \<Rightarrow> store_rec \<Rightarrow> store_rec" where
  "next_rec d e m = m\<lparr>rec_seq := rec_seq m + 1, rec_epoch := (rec_epoch m)[unat d := e],
     rec_written := rec_written m OR push_bit (unat d) 1\<rparr>"

lemma domain_cases: "\<not> SECOC_STORE_DOMAINS \<le> d \<Longrightarrow> d = 0 \<or> d = 1"
proof -
  assume "\<not> SECOC_STORE_DOMAINS \<le> d"
  then have "unat d < 2" by (simp add: SECOC_STORE_DOMAINS_def word_le_nat_alt)
  then have "unat d = 0 \<or> unat d = 1" by auto
  then show ?thesis by (metis unat_0 unat_1 unsigned_word_eqI)
qed

lemma rec_ok_next: "rec_ok m \<Longrightarrow> d = 0 \<or> d = 1 \<Longrightarrow> rec_ok (next_rec d e m)"
  by (auto simp: rec_ok_def next_rec_def WRITTEN_MASK_def bit.conj_disj_distrib2)

lemma rec_ok_zero [simp]: "rec_ok rec_zero"
  by (simp add: rec_ok_def rec_zero_def)

lemma written_bit:
  "(d = 0 \<or> d = 1) \<Longrightarrow> (w OR push_bit (unat d) 1) AND push_bit (unat (d :: u8)) 1 \<noteq> (0 :: u32)"
  by (rule notI, drule arg_cong [where f = "\<lambda>x. bit x (unat d)"]) (auto simp: bit_simps)

lemma written_other:
  "(d = 0 \<or> d = 1) \<Longrightarrow> (d' = 0 \<or> d' = 1) \<Longrightarrow> d' \<noteq> (d :: u8) \<Longrightarrow>
   (w OR push_bit (unat d) 1) AND push_bit (unat (d' :: u8)) 1 = (w :: u32) AND push_bit (unat d') 1"
  by (auto simp: bit.conj_disj_distrib2)

section \<open>What the store relies on of the work flash\<close>

text \<open>
  \<open>mblank a f\<close> and \<open>stored a f\<close> are what the device holds in the sector at \<open>a\<close>: whether the word of
  the mark is blank, and the 20 bytes of the record if they are readable. The laws are the power-loss
  argument of ADR-0024: a sector's operations leave the other sector alone; an erase that is cut
  short leaves the sector as it was or without a readable mark; a mark that is cut short is blank or
  unreadable; what was programmed reads back. \<open>rst k\<close> is a power cycle after which the power fails
  again as \<open>k\<close> says.
\<close>

definition no_mark :: "bytes option \<Rightarrow> bool" where
  "no_mark s \<longleftrightarrow> (case s of None \<Rightarrow> True | Some x \<Rightarrow> get_u32 (drop 16 x) \<noteq> SECOC_STORE_COMMIT_MARK)"

locale work_flash =
  fixes fl :: "'f hal_flash_if"
    and er :: "u32 \<Rightarrow> 'f \<Rightarrow> int \<times> 'f"
    and wr :: "u32 \<Rightarrow> bytes option \<Rightarrow> 'f \<Rightarrow> int \<times> 'f"
    and bc :: "u32 \<Rightarrow> nat \<Rightarrow> 'f \<Rightarrow> int"
    and rc :: "u32 \<Rightarrow> nat \<Rightarrow> 'f \<Rightarrow> bytes option"
    and sector a0 a1 :: u32
    and rst :: "'k \<Rightarrow> 'f \<Rightarrow> 'f"
    and mblank :: "u32 \<Rightarrow> 'f \<Rightarrow> bool"
    and stored :: "u32 \<Rightarrow> 'f \<Rightarrow> bytes option"
    and good :: "'f \<Rightarrow> bool"
  assumes flash_if_simps: "fl_write fl = Some wr" "fl_erase_sector fl = Some er"
      "fl_blank_check fl = Some bc" "fl_read_checked fl = Some rc" "fl_sector_size fl = sector"
    and geometry: "20 \<le> sector" "a0 \<noteq> a1" "a0 mod sector = 0" "a1 mod sector = 0"
    and good_er: "good f \<Longrightarrow> a \<in> {a0, a1} \<Longrightarrow> er a f = (r, f') \<Longrightarrow> good f'"
    and good_wr: "good f \<Longrightarrow> a \<in> {a0, a1} \<Longrightarrow> b \<in> {a, a + 16} \<Longrightarrow> length x = 16 \<or> length x = 4 \<Longrightarrow>
      wr b (Some x) f = (r, f') \<Longrightarrow> good f'"
    and good_rst: "good f \<Longrightarrow> good (rst k f)"
    and other_er: "good f \<Longrightarrow> {a, b} = {a0, a1} \<Longrightarrow> er a f = (r, f') \<Longrightarrow>
      mblank b f' = mblank b f \<and> stored b f' = stored b f"
    and other_wr: "good f \<Longrightarrow> {a, b} = {a0, a1} \<Longrightarrow> wr a (Some x) f = (r, f') \<Longrightarrow> length x = 16 \<Longrightarrow>
      mblank b f' = mblank b f \<and> stored b f' = stored b f"
    and other_mark: "good f \<Longrightarrow> {a, b} = {a0, a1} \<Longrightarrow> wr (a + 16) (Some x) f = (r, f') \<Longrightarrow>
      length x = 4 \<Longrightarrow> mblank b f' = mblank b f \<and> stored b f' = stored b f"
    and er_ok: "good f \<Longrightarrow> a \<in> {a0, a1} \<Longrightarrow> er a f = (0, f') \<Longrightarrow> mblank a f'"
    and er_fail: "good f \<Longrightarrow> a \<in> {a0, a1} \<Longrightarrow> er a f = (r, f') \<Longrightarrow> r \<noteq> 0 \<Longrightarrow>
      mblank a f' = mblank a f \<and> stored a f' = stored a f \<or> \<not> mblank a f' \<and> no_mark (stored a f')"
    and wr_body: "good f \<Longrightarrow> a \<in> {a0, a1} \<Longrightarrow> wr a (Some x) f = (r, f') \<Longrightarrow> length x = 16 \<Longrightarrow>
      mblank a f \<Longrightarrow> mblank a f'"
    and wr_mark: "good f \<Longrightarrow> a \<in> {a0, a1} \<Longrightarrow> wr (a + 16) (Some x) f = (r, f') \<Longrightarrow> length x = 4 \<Longrightarrow>
      mblank a f \<Longrightarrow> r \<noteq> 0 \<Longrightarrow> mblank a f' \<or> no_mark (stored a f')"
    and program: "good f \<Longrightarrow> a \<in> {a0, a1} \<Longrightarrow> er a f = (0, f1) \<Longrightarrow> wr a (Some x) f1 = (0, f2) \<Longrightarrow>
      length x = 16 \<Longrightarrow> wr (a + 16) (Some y) f2 = (0, f3) \<Longrightarrow> length y = 4 \<Longrightarrow>
      bc (a + 16) 4 f3 = 0 \<and> rc a 20 f3 = Some (x @ y) \<and> \<not> mblank a f3 \<and> stored a f3 = Some (x @ y)"
    and rst_bc: "good f \<Longrightarrow> a \<in> {a0, a1} \<Longrightarrow> bc (a + 16) 4 (rst k f) = (if mblank a f then 1 else 0)"
    and rst_rc: "good f \<Longrightarrow> a \<in> {a0, a1} \<Longrightarrow> \<not> mblank a f \<Longrightarrow> rc a 20 (rst k f) = stored a f"
    and rst_same: "mblank a (rst k f) = mblank a f" "stored a (rst k f) = stored a f"
begin

definition cfg :: "'f store_cfg" where
  "cfg = \<lparr>cfg_flash = Some fl, cfg_slot_addr = [a0, a1]\<rparr>"

text \<open>What a mount after a power cycle finds in a slot.\<close>

definition slot_of :: "u32 \<Rightarrow> 'f \<Rightarrow> slot_state \<times> store_rec" where
  "slot_of a f = (if mblank a f then (SLOT_EMPTY, rec_zero)
     else case stored a f of None \<Rightarrow> (SLOT_TORN, rec_zero) | Some b \<Rightarrow> decode_slot b rec_zero)"

declare flash_if_simps [simp]

lemma cfg_simps [simp]: "cfg_flash cfg = Some fl" "cfg_slot_addr cfg = [a0, a1]"
  by (simp_all add: cfg_def)

lemma cfg_is_ok [simp]: "cfg_ok (Some cfg)"
  using geometry by (simp add: cfg_ok_def store_consts not_less)

lemma read_slot_rst:
  "good f \<Longrightarrow> a \<in> {a0, a1} \<Longrightarrow> read_slot fl a rec_zero (rst k f) = slot_of a f"
  by (simp add: read_slot_eq slot_of_def rst_bc rst_rc Let_def)

lemma slot_of_rst [simp]: "slot_of a (rst k f) = slot_of a f"
  by (simp add: slot_of_def rst_same)

lemma slot_of_same:
  "mblank b f' = mblank b f \<and> stored b f' = stored b f \<Longrightarrow> slot_of b f' = slot_of b f"
  by (simp add: slot_of_def)

lemma no_mark_not_VALID: "no_mark (stored a f) \<Longrightarrow> fst (slot_of a f) \<noteq> SLOT_VALID"
  by (auto simp: slot_of_def no_mark_def decode_slot_def store_consts split: option.splits)

lemma mblank_not_VALID: "mblank a f \<Longrightarrow> fst (slot_of a f) \<noteq> SLOT_VALID"
  by (simp add: slot_of_def)

text \<open>The save as the store makes it, on the device.\<close>

definition save :: "u32 \<Rightarrow> bytes \<Rightarrow> 'f \<Rightarrow> bool \<times> 'f" where
  "save a buf f = (case er a f of (e1, f1) \<Rightarrow> if e1 \<noteq> 0 then (False, f1)
     else case wr a (Some (take 16 buf)) f1 of (e2, f2) \<Rightarrow> if e2 \<noteq> 0 then (False, f2)
     else case wr (a + 16) (Some (take 4 (drop 16 buf))) f2 of (e3, f3) \<Rightarrow> (e3 = 0, f3))"

lemma save_cases:
  assumes "save a buf f = (b, f')" and "length buf = 20" and g: "good f" and ab: "{a, c} = {a0, a1}"
  shows "good f'" and "slot_of c f' = slot_of c f"
    and "b \<Longrightarrow> slot_of a f' = decode_slot buf rec_zero \<and> bc (a + 16) 4 f' = 0 \<and> rc a 20 f' = Some buf"
    and "\<not> b \<Longrightarrow> slot_of a f' = slot_of a f \<or> fst (slot_of a f') \<noteq> SLOT_VALID"
proof -
  have a: "a \<in> {a0, a1}" using ab by blast
  let ?x = "take 16 buf" and ?y = "take 4 (drop 16 buf)"
  have xy: "length ?x = 16" "length ?y = 4" "?x @ ?y = buf"
    using assms(2) by (simp_all add: take_add [symmetric])
  obtain e1 f1 where 1: "er a f = (e1, f1)" by fastforce
  obtain e2 f2 where 2: "wr a (Some ?x) f1 = (e2, f2)" by fastforce
  obtain e3 f3 where 3: "wr (a + 16) (Some ?y) f2 = (e3, f3)" by fastforce
  have g1: "good f1" by (rule good_er [OF g a 1])
  have g2: "good f2" using good_wr [OF g1 a _ _ 2] xy by simp
  have g3: "good f3" using good_wr [OF g2 a _ _ 3] xy by simp
  have s1: "slot_of c f1 = slot_of c f" by (rule slot_of_same [OF other_er [OF g ab 1]])
  have s2: "slot_of c f2 = slot_of c f1" by (rule slot_of_same [OF other_wr [OF g1 ab 2 xy(1)]])
  have s3: "slot_of c f3 = slot_of c f2" by (rule slot_of_same [OF other_mark [OF g2 ab 3 xy(2)]])
  have f': "f' = (if e1 \<noteq> 0 then f1 else if e2 \<noteq> 0 then f2 else f3)"
    and b: "b = (e1 = 0 \<and> e2 = 0 \<and> e3 = 0)"
    using assms(1) by (auto simp: save_def 1 2 3 split: if_splits)
  show "good f'" using g1 g2 g3 f' by simp
  show "slot_of c f' = slot_of c f" using s1 s2 s3 f' by simp
  show "slot_of a f' = decode_slot buf rec_zero \<and> bc (a + 16) 4 f' = 0 \<and> rc a 20 f' = Some buf" if b
  proof -
    have "e1 = 0" "e2 = 0" "e3 = 0" "f' = f3" using that b f' by auto
    then show ?thesis
      using program [OF g a _ _ xy(1) _ xy(2)] 1 2 3 xy(3) by (fastforce simp: slot_of_def)
  qed
  show "slot_of a f' = slot_of a f \<or> fst (slot_of a f') \<noteq> SLOT_VALID" if nb: "\<not> b"
  proof (cases "e1 = 0")
    case False
    then show ?thesis
      using er_fail [OF g a 1] f' by (auto dest: no_mark_not_VALID intro: slot_of_same)
  next
    case True
    have m1: "mblank a f1" using er_ok [OF g a] 1 True by simp
    have m2: "mblank a f2" by (rule wr_body [OF g1 a 2 xy(1) m1])
    have m3: "mblank a f3 \<or> no_mark (stored a f3)" if "e3 \<noteq> 0"
      by (rule wr_mark [OF g2 a 3 xy(2) m2 that])
    show ?thesis using True f' b nb m2 m3 by (auto dest: mblank_not_VALID no_mark_not_VALID)
  qed
qed

text \<open>
  The store's invariant: the mirror is the newest record on the device, the other slot is older or
  not a record; without a record the mirror is empty. \<open>n\<close> saves fit below the end of the sequence
  numbers.
\<close>

definition holds :: "u32 \<Rightarrow> u32 \<Rightarrow> store_rec \<Rightarrow> 'f \<Rightarrow> bool" where
  "holds a b m f \<longleftrightarrow> slot_of a f = (SLOT_VALID, m) \<and>
     (fst (slot_of b f) = SLOT_VALID \<longrightarrow> rec_seq (snd (slot_of b f)) < rec_seq m)"

definition no_record :: "'f \<Rightarrow> bool" where
  "no_record f \<longleftrightarrow> fst (slot_of a0 f) \<noteq> SLOT_VALID \<and> fst (slot_of a1 f) \<noteq> SLOT_VALID"

definition store_inv :: "nat \<Rightarrow> 'f store_state \<times> 'f \<Rightarrow> bool" where
  "store_inv n sf \<longleftrightarrow> (case sf of (s, f) \<Rightarrow> good f \<and> ss_cfg s = cfg \<and> rec_ok (ss_mirror s) \<and>
     unat (rec_seq (ss_mirror s)) + n < 2 ^ 32 \<and>
     (case ss_status s of
        SECOC_STORE_BROKEN \<Rightarrow> ss_mirror s = rec_zero \<and> no_record f \<and>
          \<not> (fst (slot_of a0 f) = SLOT_EMPTY \<and> fst (slot_of a1 f) = SLOT_EMPTY)
      | SECOC_STORE_FACTORY \<Rightarrow> ss_mirror s = rec_zero \<and> ss_newest s = NO_SLOT \<and> no_record f
      | SECOC_STORE_OK \<Rightarrow> ss_newest s = 0 \<and> holds a0 a1 (ss_mirror s) f \<or>
          ss_newest s = 1 \<and> holds a1 a0 (ss_mirror s) f))"

definition store_reboot :: "'k \<Rightarrow> 'f store_state \<times> 'f \<Rightarrow> 'f store_state \<times> 'f" where
  "store_reboot k sf = (let f = rst k (snd sf) in (snd (secoc_store_mount (Some cfg) store_state0 f), f))"

lemma store_commit_eq:
  assumes "usable s" and "\<not> SECOC_STORE_DOMAINS \<le> d" and "ss_cfg s = cfg" and "rec_ok (ss_mirror s)"
    and "good f"
  shows "store_commit d e (s, f) =
    (let nxt = next_rec d e (ss_mirror s); t = (if ss_newest s = 0 then 1 else 0);
         a = (if ss_newest s = 0 then a1 else a0) in
     case save a (encode nxt) f of
       (False, f') \<Rightarrow> (False, s, f')
     | (True, f') \<Rightarrow> (True, s\<lparr>ss_mirror := nxt, ss_newest := t, ss_status := SECOC_STORE_OK\<rparr>, f'))"
proof -
  define nxt where "nxt = next_rec d e (ss_mirror s)"
  define a where "a = (if ss_newest s = 0 then a1 else a0)"
  define c where "c = (if ss_newest s = 0 then a0 else a1)"
  have ac: "{a, c} = {a0, a1}" by (auto simp: a_def c_def)
  have ok: "rec_ok nxt" unfolding nxt_def by (rule rec_ok_next [OF assms(4) domain_cases [OF assms(2)]])
  obtain b f' where sv: "save a (encode nxt) f = (b, f')" by fastforce
  have rd: "read_slot fl a rec_zero f' = (SLOT_VALID, nxt)" if b
    using save_cases(3) [OF sv _ assms(5) ac that]
    by (simp add: read_slot_eq decode_encode [OF ok])
  have nx: "(ss_mirror s)\<lparr>rec_seq := rec_seq (ss_mirror s) + 1,
      rec_epoch := (rec_epoch (ss_mirror s))[unat d := e],
      rec_written := rec_written (ss_mirror s) OR push_bit (unat d) 1\<rparr> = nxt"
    by (simp add: nxt_def next_rec_def)
  have live: "\<not> (\<not> usable s \<or> SECOC_STORE_DOMAINS \<le> d)" using assms(1,2) by simp
  obtain e1 f1 where 1: "er a f = (e1, f1)" by fastforce
  obtain e2 f2 where 2: "wr a (Some (take 16 (encode nxt))) f1 = (e2, f2)" by fastforce
  obtain e3 f3 where 3: "wr (a + 16) (Some (take 4 (drop 16 (encode nxt)))) f2 = (e3, f3)" by fastforce
  have u: "[a0, a1] ! (if ss_newest s = 0 then 1 else 0) = a" by (simp add: a_def)
  have "store_commit d e (s, f) = (case save a (encode nxt) f of (b, f') \<Rightarrow>
      if \<not> b then (False, s, f')
      else if fst (read_slot fl a rec_zero f') \<noteq> SLOT_VALID \<or>
        \<not> same_record (snd (read_slot fl a rec_zero f')) nxt then (False, s, f')
      else (True, s\<lparr>ss_mirror := nxt, ss_newest := of_nat (if ss_newest s = 0 then 1 else 0),
        ss_status := SECOC_STORE_OK\<rparr>, f'))"
    unfolding store_commit_def prod.case Let_def assms(3) cfg_simps option.sel flash_if_simps u nx
      if_not_P [OF live] MARK_OFFSET_def MARK_LEN_def BODY_LEN_def
    by (simp add: save_def 1 2 3 split_def)
  also have "\<dots> = (case (b, f') of
       (False, f') \<Rightarrow> (False, s, f')
     | (True, f') \<Rightarrow> (True, s\<lparr>ss_mirror := nxt, ss_newest := (if ss_newest s = 0 then 1 else 0),
         ss_status := SECOC_STORE_OK\<rparr>, f'))"
    using rd by (cases b) (auto simp: sv same_record_refl)
  finally show ?thesis by (simp add: nxt_def [symmetric] a_def [symmetric] sv)
qed

lemma store_commit_refused:
  "\<not> usable s \<or> SECOC_STORE_DOMAINS \<le> d \<Longrightarrow> store_commit d e (s, f) = (False, s, f)"
  by (auto simp: store_commit_def)

lemma store_load_mirror:
  "usable s \<Longrightarrow> store_load d (s, f) = (if SECOC_STORE_DOMAINS \<le> d then None
     else if rec_written (ss_mirror s) AND push_bit (unat d) 1 = 0 then None
     else Some (rec_epoch (ss_mirror s) ! unat d))"
  by (simp add: store_load_def)

lemma next_rec_load:
  assumes "\<not> SECOC_STORE_DOMAINS \<le> d" and "rec_ok m"
  shows "rec_written (next_rec d e m) AND push_bit (unat d) 1 \<noteq> 0"
    and "rec_epoch (next_rec d e m) ! unat d = e"
    and "\<not> SECOC_STORE_DOMAINS \<le> d' \<Longrightarrow> d' \<noteq> d \<Longrightarrow>
      rec_written (next_rec d e m) AND push_bit (unat d') 1 = rec_written m AND push_bit (unat d') 1"
    and "\<not> SECOC_STORE_DOMAINS \<le> d' \<Longrightarrow> d' \<noteq> d \<Longrightarrow>
      rec_epoch (next_rec d e m) ! unat d' = rec_epoch m ! unat d'"
proof -
  note d = domain_cases [OF assms(1)]
  show "rec_written (next_rec d e m) AND push_bit (unat d) 1 \<noteq> 0"
    using written_bit [OF d] by (simp add: next_rec_def)
  show "rec_epoch (next_rec d e m) ! unat d = e"
    using d assms(2) by (auto simp: next_rec_def rec_ok_def)
  assume d': "\<not> SECOC_STORE_DOMAINS \<le> d'" "d' \<noteq> d"
  show "rec_written (next_rec d e m) AND push_bit (unat d') 1 = rec_written m AND push_bit (unat d') 1"
    using written_other [OF d domain_cases [OF d'(1)] d'(2)] by (simp add: next_rec_def)
  show "rec_epoch (next_rec d e m) ! unat d' = rec_epoch m ! unat d'"
    using d domain_cases [OF d'(1)] d'(2) by (auto simp: next_rec_def)
qed

lemma next_seq: "unat (rec_seq m) + Suc n < 2 ^ 32 \<Longrightarrow>
    unat (rec_seq (next_rec d e m)) = Suc (unat (rec_seq m))"
  by (simp add: next_rec_def unat_Suc_bounded)

lemma store_inv_usableD:
  assumes "store_inv n (s, f)" and "usable s"
  obtains a c where "{a, c} = {a0, a1}" "a = (if ss_newest s = 0 then a1 else a0)"
    "c = (if ss_newest s = 0 then a0 else a1)"
    "fst (slot_of c f) = SLOT_VALID \<longrightarrow> slot_of c f = (SLOT_VALID, ss_mirror s)"
    "fst (slot_of a f) = SLOT_VALID \<longrightarrow> rec_seq (snd (slot_of a f)) < rec_seq (ss_mirror s)"
    "ss_status s = SECOC_STORE_OK \<longrightarrow> slot_of c f = (SLOT_VALID, ss_mirror s)"
    "ss_status s = SECOC_STORE_OK \<longrightarrow> ss_newest s = 0 \<or> ss_newest s = 1"
proof -
  have n: "ss_newest s = 0 \<longrightarrow> ss_newest s \<noteq> 1" by auto
  show ?thesis
    using assms
    by (intro that [of "if ss_newest s = 0 then a1 else a0" "if ss_newest s = 0 then a0 else a1"])
       (auto simp: store_inv_def usable_def holds_def no_record_def NO_SLOT_def n
         split: store_status.splits if_splits)
qed

lemma store_commit_inv:
  assumes inv: "store_inv (Suc n) (s, f)" and cm: "store_commit d e (s, f) = (b, s', f')"
  shows "store_inv n (s', f')"
    and "b \<Longrightarrow> store_load d (s', f') = Some e"
    and "\<not> b \<Longrightarrow> s' = s"
    and "d' \<noteq> d \<Longrightarrow> store_load d' (s', f') = store_load d' (s, f)"
proof -
  have base: "good f" "ss_cfg s = cfg" "rec_ok (ss_mirror s)"
    "unat (rec_seq (ss_mirror s)) + Suc n < 2 ^ 32"
    using inv by (auto simp: store_inv_def)
  have "store_inv n (s', f') \<and> (b \<longrightarrow> store_load d (s', f') = Some e) \<and> (\<not> b \<longrightarrow> s' = s) \<and>
    (d' \<noteq> d \<longrightarrow> store_load d' (s', f') = store_load d' (s, f))"
  proof (cases "usable s \<and> \<not> SECOC_STORE_DOMAINS \<le> d")
    case False
    then have "b = False" "s' = s" "f' = f" using store_commit_refused [of s d e f] cm by auto
    then show ?thesis using inv by (auto simp: store_inv_def)
  next
    case True
    then have us: "usable s" and dom: "\<not> SECOC_STORE_DOMAINS \<le> d" by auto
    define nxt where "nxt = next_rec d e (ss_mirror s)"
    obtain a c where ac: "{a, c} = {a0, a1}" "a = (if ss_newest s = 0 then a1 else a0)"
      "c = (if ss_newest s = 0 then a0 else a1)"
      and old: "fst (slot_of c f) = SLOT_VALID \<longrightarrow> slot_of c f = (SLOT_VALID, ss_mirror s)"
        "fst (slot_of a f) = SLOT_VALID \<longrightarrow> rec_seq (snd (slot_of a f)) < rec_seq (ss_mirror s)"
        "ss_status s = SECOC_STORE_OK \<longrightarrow> slot_of c f = (SLOT_VALID, ss_mirror s)"
        "ss_status s = SECOC_STORE_OK \<longrightarrow> ss_newest s = 0 \<or> ss_newest s = 1"
      using store_inv_usableD [OF inv us] .
    obtain bb g where sv: "save a (encode nxt) f = (bb, g)" by fastforce
    note c3 = save_cases [OF sv length_encode base(1) ac(1)]
    have eq: "store_commit d e (s, f) = (if bb then (True, s\<lparr>ss_mirror := nxt,
        ss_newest := (if ss_newest s = 0 then 1 else 0), ss_status := SECOC_STORE_OK\<rparr>, g)
      else (False, s, g))"
      using store_commit_eq [OF us dom base(2,3,1), of e] sv ac(2) by (simp add: nxt_def Let_def split: bool.splits)
    show ?thesis
    proof (cases bb)
      case False
      then have r: "b = False" "s' = s" "f' = g" using eq cm by auto
      have sl: "slot_of c g = slot_of c f" by (rule c3(2))
      have sa: "slot_of a g = slot_of a f \<or> fst (slot_of a g) \<noteq> SLOT_VALID" by (rule c3(4) [OF False])
      have "store_inv n (s, g)"
        using inv sl sa us c3(1) ac
        by (auto simp: store_inv_def usable_def holds_def no_record_def NO_SLOT_def
            split: store_status.splits if_splits)
      then show ?thesis using r by (simp add: store_load_def)
    next
      case b: True
      then have r: "b" "f' = g" "s' = s\<lparr>ss_mirror := nxt,
        ss_newest := (if ss_newest s = 0 then 1 else 0), ss_status := SECOC_STORE_OK\<rparr>"
        using eq cm by auto
      have ok: "rec_ok nxt" unfolding nxt_def by (rule rec_ok_next [OF base(3) domain_cases [OF dom]])
      have sa: "slot_of a g = (SLOT_VALID, nxt)" using c3(3) [OF b] decode_encode [OF ok] by simp
      have sc: "slot_of c g = slot_of c f" by (rule c3(2))
      have seq: "unat (rec_seq nxt) = Suc (unat (rec_seq (ss_mirror s)))"
        unfolding nxt_def by (rule next_seq [OF base(4)])
      have less: "rec_seq (ss_mirror s) < rec_seq nxt" by (simp add: word_less_nat_alt seq)
      have "holds a c nxt g" unfolding holds_def using sa sc old(1) less by auto
      then have "store_inv n (s', g)"
        using r c3(1) base ok seq ac by (auto simp: store_inv_def split: if_splits)
      moreover have "store_load d (s', g) = Some e"
        using next_rec_load(1,2) [OF dom base(3)] dom r
        by (simp add: store_load_def usable_def nxt_def)
      moreover have "store_load d' (s', g) = store_load d' (s, f)" if "d' \<noteq> d"
        using next_rec_load(3,4) [OF dom base(3) _ that] us r
        by (auto simp: store_load_def usable_def nxt_def)
      ultimately show ?thesis using r by simp
    qed
  qed
  then show "store_inv n (s', f')" and "b \<Longrightarrow> store_load d (s', f') = Some e" and "\<not> b \<Longrightarrow> s' = s"
    and "d' \<noteq> d \<Longrightarrow> store_load d' (s', f') = store_load d' (s, f)" by blast+
qed

text \<open>A mount after a power cycle finds what the slots hold, and picks the newest record.\<close>

definition mount_slots :: "slot_state \<times> store_rec \<Rightarrow> slot_state \<times> store_rec \<Rightarrow> 'f store_state" where
  "mount_slots x0 x1 =
     (let newest = (if fst x0 = SLOT_VALID \<and> fst x1 = SLOT_VALID then
                      (if rec_seq (snd x1) > rec_seq (snd x0) then 1 else 0)
                    else if fst x0 = SLOT_VALID then 0
                    else if fst x1 = SLOT_VALID then 1 else NO_SLOT) in
      \<lparr>ss_cfg = cfg,
        ss_status = (if newest \<noteq> NO_SLOT then SECOC_STORE_OK
          else if fst x0 = SLOT_EMPTY \<and> fst x1 = SLOT_EMPTY then SECOC_STORE_FACTORY
          else SECOC_STORE_BROKEN),
        ss_newest = newest,
        ss_mirror = (if newest \<noteq> NO_SLOT then (if newest = 0 then snd x0 else snd x1) else rec_zero)\<rparr>)"

lemma mount_rst:
  assumes "good f"
  shows "snd (secoc_store_mount (Some cfg) store_state0 (rst k f)) = mount_slots (slot_of a0 f) (slot_of a1 f)"
  using read_slot_rst [OF assms, of a0 k] read_slot_rst [OF assms, of a1 k]
  by (simp add: secoc_store_mount_def mount_slots_def Let_def split_def store_state0_def)

lemma no_slot_ne [simp]: "0 \<noteq> NO_SLOT" "1 \<noteq> NO_SLOT" "NO_SLOT \<noteq> 0" "NO_SLOT \<noteq> 1"
  by (simp_all add: NO_SLOT_def)

lemma mount_holds:
  assumes "holds a0 a1 m f" and "rec_ok m"
  shows "mount_slots (slot_of a0 f) (slot_of a1 f) =
    \<lparr>ss_cfg = cfg, ss_status = SECOC_STORE_OK, ss_newest = 0, ss_mirror = m\<rparr>"
  using assms by (auto simp: holds_def mount_slots_def Let_def)

lemma mount_holds':
  assumes "holds a1 a0 m f" and "rec_ok m"
  shows "mount_slots (slot_of a0 f) (slot_of a1 f) =
    \<lparr>ss_cfg = cfg, ss_status = SECOC_STORE_OK, ss_newest = 1, ss_mirror = m\<rparr>"
  using assms by (auto simp: holds_def mount_slots_def Let_def)

lemma mount_no_record:
  assumes "no_record f"
  shows "mount_slots (slot_of a0 f) (slot_of a1 f) =
    \<lparr>ss_cfg = cfg, ss_status = (if fst (slot_of a0 f) = SLOT_EMPTY \<and> fst (slot_of a1 f) = SLOT_EMPTY
       then SECOC_STORE_FACTORY else SECOC_STORE_BROKEN), ss_newest = NO_SLOT, ss_mirror = rec_zero\<rparr>"
  using assms by (auto simp: no_record_def mount_slots_def Let_def)

lemma rec_zero_load: "ss_mirror s = rec_zero \<Longrightarrow> store_load d (s, f) = None"
  by (simp add: store_load_def rec_zero_def)

lemma no_record_rst: "no_record (rst k f) = no_record f"
  by (simp add: no_record_def)

lemma holds_rst: "holds a b m (rst k f) = holds a b m f"
  by (simp add: holds_def)

lemma store_reboot_inv:
  assumes inv: "store_inv n (s, f)"
  shows "store_inv n (store_reboot k (s, f))" and "store_load d (store_reboot k (s, f)) = store_load d (s, f)"
proof -
  have g: "good f" "good (rst k f)" using inv good_rst by (auto simp: store_inv_def)
  define s' where "s' = mount_slots (slot_of a0 f) (slot_of a1 f)"
  have rb: "store_reboot k (s, f) = (s', rst k f)"
    using mount_rst [OF g(1), of k] by (simp add: store_reboot_def Let_def s'_def)
  have "store_inv n (s', rst k f) \<and> store_load d (s', rst k f) = store_load d (s, f)"
  proof (cases "ss_status s")
    case SECOC_STORE_OK
    with inv have ok: "rec_ok (ss_mirror s)" "unat (rec_seq (ss_mirror s)) + n < 2 ^ 32"
      and c: "ss_newest s = 0 \<and> holds a0 a1 (ss_mirror s) f \<or> ss_newest s = 1 \<and> holds a1 a0 (ss_mirror s) f"
      by (auto simp: store_inv_def)
    from c show ?thesis
      using g ok SECOC_STORE_OK
      by (elim disjE conjE)
         (simp_all add: s'_def mount_holds mount_holds' store_inv_def holds_rst store_load_def usable_def)
  next
    case SECOC_STORE_FACTORY
    with inv have z: "ss_mirror s = rec_zero" "no_record f" "n < 2 ^ 32"
      by (auto simp: store_inv_def)
    have "store_load d (s', rst k f) = None" "store_load d (s, f) = None"
      using z by (simp_all add: s'_def mount_no_record rec_zero_load)
    then show ?thesis
      using z g by (simp add: s'_def mount_no_record store_inv_def no_record_rst) (simp add: rec_zero_def)
  next
    case SECOC_STORE_BROKEN
    with inv have z: "ss_mirror s = rec_zero" "no_record f" "n < 2 ^ 32"
      by (auto simp: store_inv_def)
    have "store_load d (s', rst k f) = None" "store_load d (s, f) = None"
      using z by (simp_all add: s'_def mount_no_record rec_zero_load)
    then show ?thesis
      using z g by (simp add: s'_def mount_no_record store_inv_def no_record_rst) (simp add: rec_zero_def)
  qed
  then show "store_inv n (store_reboot k (s, f))"
    and "store_load d (store_reboot k (s, f)) = store_load d (s, f)" by (simp_all add: rb)
qed

lemma store_inv_less: "store_inv (Suc n) sf \<Longrightarrow> store_inv n sf"
  by (auto simp: store_inv_def split: prod.splits)

text \<open>Mounting a device without records: the store starts as factory or broken, never cold by accident.\<close>

lemma store_inv_first_mount:
  assumes "good f" and "no_record f" and "n < 2 ^ 32"
  shows "store_inv n (store_reboot k (s, f))"
  using assms good_rst [OF assms(1), of k] mount_rst [OF assms(1), of k]
  by (simp add: store_reboot_def Let_def mount_no_record store_inv_def no_record_rst)
     (simp add: rec_zero_def)

lemma first_mount_load:
  assumes "good f" and "no_record f"
  shows "store_load d (store_reboot k (s, f)) = None"
  using assms mount_rst [OF assms(1), of k]
  by (simp add: store_reboot_def Let_def mount_no_record rec_zero_load)

end

text \<open>Over such a flash the store keeps the promises the freshness managers rely on.\<close>

sublocale work_flash \<subseteq> medium: freshness_medium store_load store_commit store_reboot store_inv
proof
  fix n :: nat and w :: "'f store_state \<times> 'f"
  show "store_inv (Suc n) w \<Longrightarrow> store_inv n w" by (rule store_inv_less)
next
  fix n w d e b w'
  assume "store_inv (Suc n) w" and "store_commit d e w = (b, w')"
  then show "store_inv n w'" using store_commit_inv(1) by (cases w; cases w') blast
next
  fix n w d e w'
  assume "store_inv (Suc n) w" and "store_commit d e w = (True, w')"
  then show "store_load d w' = Some e" using store_commit_inv(2) by (cases w; cases w') blast
next
  fix n w d e w'
  assume "store_inv (Suc n) w" and "store_commit d e w = (False, w')"
  then show "store_load d w' = store_load d w"
    using store_commit_inv(3) by (cases w; cases w') (fastforce simp: store_load_def)
next
  fix n w d e b w' d'
  assume "store_inv (Suc n) w" and "store_commit d e w = (b, w')" and "d' \<noteq> d"
  then show "store_load d' w' = store_load d' w" using store_commit_inv(4) by (cases w; cases w') blast
next
  fix n w k
  assume "store_inv n w"
  then show "store_inv n (store_reboot k w)" using store_reboot_inv(1) by (cases w) blast
next
  fix n w d k
  assume "store_inv n w"
  then show "store_load d (store_reboot k w) = store_load d w" using store_reboot_inv(2) by (cases w) blast
qed

end
