(* ===== verification/Work_Flash.thy ===== *)
theory Work_Flash imports Secoc_Store begin

text \<open>
  The repository's own model of the TRAVEO T2G work flash,
  \<open>shared/secoc_store/tests/wflash_fake.c\<close>: 32-bit program units that are erased, programmed or torn,
  steps that a power loss interrupts, a checked read that fails on erased and torn words, and a
  torn mode in which a torn word reads as wrong bits instead. Its slots satisfy the laws the store
  relies on (\<open>work_flash\<close>), with the power failing at any step.
\<close>

section \<open>State\<close>

definition WF_BASE :: u32 where "WF_BASE = 0x14018000"
definition WF_SECTOR_SIZE :: nat where "WF_SECTOR_SIZE = 128"
definition WF_SECTORS :: nat where "WF_SECTORS = 4"
definition WF_SIZE :: nat where "WF_SIZE = WF_SECTOR_SIZE * WF_SECTORS"
definition WF_WORDS :: nat where "WF_WORDS = WF_SIZE div 4"

lemmas wf_consts = WF_BASE_def WF_SECTOR_SIZE_def WF_SECTORS_def WF_SIZE_def WF_WORDS_def

datatype wstate = W_ERASED | W_PROGRAMMED | W_TORN
datatype wf_step = STEP_OK | STEP_INTERRUPTED | STEP_OFF
datatype wf_torn_mode = WF_TORN_ECC | WF_TORN_GARBAGE

record wflash =
  wf_state :: "wstate list"
  wf_value :: "u32 list"
  wf_mode :: wf_torn_mode
  wf_budget :: int
  wf_powered :: bool
  wf_steps :: nat
  wf_erases :: "nat list"
  wf_cpu_reads :: nat
  wf_reprogram :: nat

section \<open>Operations\<close>

definition in_range :: "u32 \<Rightarrow> nat \<Rightarrow> bool" where
  "in_range addr len \<longleftrightarrow> addr \<ge> WF_BASE \<and> unat (addr - WF_BASE) + len \<le> WF_SIZE \<and>
     addr AND 3 = 0 \<and> len mod 4 = 0"

definition word_index :: "u32 \<Rightarrow> nat" where
  "word_index addr = unat (addr - WF_BASE) div 4"

definition flash_step :: "wflash \<Rightarrow> wf_step \<times> wflash" where
  "flash_step f =
     (if \<not> wf_powered f then (STEP_OFF, f)
      else
        let f1 = f\<lparr>wf_steps := wf_steps f + 1\<rparr> in
        if wf_budget f1 = 0 then (STEP_INTERRUPTED, f1\<lparr>wf_powered := False\<rparr>)
        else if wf_budget f1 > 0 then (STEP_OK, f1\<lparr>wf_budget := wf_budget f1 - 1\<rparr>)
        else (STEP_OK, f1))"

definition fake_erase_sector :: "u32 \<Rightarrow> wflash \<Rightarrow> int \<times> wflash" where
  "fake_erase_sector addr f =
     (if \<not> in_range addr WF_SECTOR_SIZE \<or> unat (addr - WF_BASE) mod WF_SECTOR_SIZE \<noteq> 0 then (- 1, f)
      else case flash_step f of (s, f1) \<Rightarrow>
        if s = STEP_OFF then (- 1, f1)
        else
          let first = word_index addr; n = WF_SECTOR_SIZE div 4;
              st = (if s = STEP_INTERRUPTED then W_TORN else W_ERASED);
              k = unat (addr - WF_BASE) div WF_SECTOR_SIZE in
          (if s = STEP_INTERRUPTED then - 1 else 0,
           f1\<lparr>wf_state := overwrite first (replicate n st) (wf_state f1),
              wf_value := overwrite first (replicate n 0xFFFFFFFF) (wf_value f1),
              wf_erases := (wf_erases f1)[k := wf_erases f1 ! k + 1]\<rparr>))"

fun write_loop :: "u32 \<Rightarrow> bytes \<Rightarrow> nat list \<Rightarrow> wflash \<Rightarrow> int \<times> wflash" where
  "write_loop addr src [] f = (0, f)"
| "write_loop addr src (off # offs) f =
     (let w = word_index (addr + of_nat off) in
      if wf_state f ! w \<noteq> W_ERASED then (- 1, f\<lparr>wf_reprogram := wf_reprogram f + 1\<rparr>)
      else case flash_step f of (s, f1) \<Rightarrow>
        if s = STEP_OFF then (- 1, f1)
        else if s = STEP_INTERRUPTED then (- 1, f1\<lparr>wf_state := (wf_state f1)[w := W_TORN]\<rparr>)
        else write_loop addr src offs
          (f1\<lparr>wf_value := (wf_value f1)[w := un_le32 (src ! off) (src ! (off + 1)) (src ! (off + 2)) (src ! (off + 3))],
              wf_state := (wf_state f1)[w := W_PROGRAMMED]\<rparr>))"

text \<open>The offsets of \<open>for (off = 0; off < len; off += 4)\<close>.\<close>

definition word_offsets :: "nat \<Rightarrow> nat list" where
  "word_offsets len = map (\<lambda>i. 4 * i) [0..<(len + 3) div 4]"

definition fake_write :: "u32 \<Rightarrow> bytes option \<Rightarrow> wflash \<Rightarrow> int \<times> wflash" where
  "fake_write addr src f = (case src of
     None \<Rightarrow> (- 1, f)
   | Some x \<Rightarrow> if \<not> in_range addr (length x) then (- 1, f)
       else write_loop addr x (word_offsets (length x)) f)"

definition fake_blank_check :: "u32 \<Rightarrow> nat \<Rightarrow> wflash \<Rightarrow> int" where
  "fake_blank_check addr len f =
     (if \<not> wf_powered f \<or> \<not> in_range addr len then - 1
      else if list_ex (\<lambda>off. wf_state f ! word_index (addr + of_nat off) \<noteq> W_ERASED) (word_offsets len) then 0
      else 1)"

fun read_loop :: "u32 \<Rightarrow> nat list \<Rightarrow> wflash \<Rightarrow> bytes option" where
  "read_loop addr [] f = Some []"
| "read_loop addr (off # offs) f =
     (let w = word_index (addr + of_nat off) in
      if wf_state f ! w = W_ERASED then None
      else if wf_state f ! w = W_TORN \<and> wf_mode f = WF_TORN_ECC then None
      else
        let v = (if wf_state f ! w = W_TORN then 0x5A5A0000 OR of_nat w else wf_value f ! w) in
        map_option ((@) [ucast v, ucast (drop_bit 8 v), ucast (drop_bit 16 v), ucast (drop_bit 24 v)])
          (read_loop addr offs f))"

definition fake_read_checked :: "u32 \<Rightarrow> nat \<Rightarrow> wflash \<Rightarrow> bytes option" where
  "fake_read_checked addr len f =
     (if \<not> wf_powered f \<or> \<not> in_range addr len then None
      else read_loop addr (word_offsets len) f)"

definition fake_cpu_read :: "u32 \<Rightarrow> nat \<Rightarrow> wflash \<Rightarrow> bytes option \<times> wflash" where
  "fake_cpu_read addr len f = (None, f\<lparr>wf_cpu_reads := wf_cpu_reads f + 1\<rparr>)"

definition wflash_fake_reset :: wflash where
  "wflash_fake_reset =
     \<lparr>wf_state = replicate WF_WORDS W_ERASED, wf_value = replicate WF_WORDS 0xFFFFFFFF,
      wf_mode = WF_TORN_ECC, wf_budget = - 1, wf_powered = True, wf_steps = 0,
      wf_erases = replicate WF_SECTORS 0, wf_cpu_reads = 0, wf_reprogram = 0\<rparr>"

definition wflash_fake_fail_after :: "int \<Rightarrow> wflash \<Rightarrow> wflash" where
  "wflash_fake_fail_after n f = f\<lparr>wf_budget := n\<rparr>"

definition wflash_fake_power_cycle :: "wflash \<Rightarrow> wflash" where
  "wflash_fake_power_cycle f = f\<lparr>wf_powered := True, wf_budget := - 1\<rparr>"

definition g_wflash_fake :: "wflash hal_flash_if" where
  "g_wflash_fake = \<lparr>fl_read = Some fake_cpu_read, fl_write = Some fake_write,
     fl_erase_sector = Some fake_erase_sector, fl_erase_range = None,
     fl_sector_size = of_nat WF_SECTOR_SIZE, fl_program_row_size = 4,
     fl_blank_check = Some fake_blank_check, fl_read_checked = Some fake_read_checked\<rparr>"

section \<open>What the loops touch\<close>

text \<open>The words an operation names, and the part of the device that holds the contents.\<close>

definition words_of :: "u32 \<Rightarrow> nat list \<Rightarrow> nat list" where
  "words_of addr offs = map (\<lambda>off. word_index (addr + of_nat off)) offs"

definition same_word :: "nat \<Rightarrow> wflash \<Rightarrow> wflash \<Rightarrow> bool" where
  "same_word k f f' \<longleftrightarrow> wf_state f' ! k = wf_state f ! k \<and> wf_value f' ! k = wf_value f ! k"

definition wf_good :: "wflash \<Rightarrow> bool" where
  "wf_good f \<longleftrightarrow> length (wf_state f) = WF_WORDS \<and> length (wf_value f) = WF_WORDS"

lemma flash_step_frame:
  "flash_step f = (s, f') \<Longrightarrow> wf_state f' = wf_state f \<and> wf_value f' = wf_value f \<and>
     wf_mode f' = wf_mode f \<and> wf_erases f' = wf_erases f \<and> (s = STEP_OK \<longrightarrow> wf_powered f')"
  by (auto simp: flash_step_def Let_def split: if_splits)

lemma write_loop_frame:
  "write_loop addr src offs f = (r, f') \<Longrightarrow>
     length (wf_state f') = length (wf_state f) \<and> length (wf_value f') = length (wf_value f) \<and>
     wf_mode f' = wf_mode f \<and> (\<forall>k. k \<notin> set (words_of addr offs) \<longrightarrow> same_word k f f') \<and>
     (r = 0 \<longrightarrow> wf_powered f \<longrightarrow> wf_powered f')"
proof (induction addr src offs f arbitrary: r f' rule: write_loop.induct)
  case (1 addr src f)
  then show ?case by (simp add: same_word_def)
next
  case (2 addr src off offs f)
  let ?w = "word_index (addr + of_nat off)"
  obtain s f1 where st: "flash_step f = (s, f1)" by fastforce
  note fr = flash_step_frame [OF st]
  let ?f2 = "f1\<lparr>wf_value := (wf_value f1)[?w := un_le32 (src ! off) (src ! (off + 1)) (src ! (off + 2)) (src ! (off + 3))],
              wf_state := (wf_state f1)[?w := W_PROGRAMMED]\<rparr>"
  show ?case
  proof (cases "wf_state f ! ?w = W_ERASED \<and> s = STEP_OK")
    case True
    then have "write_loop addr src offs ?f2 = (r, f')" using 2(2) st by (simp add: Let_def)
    then have "length (wf_state f') = length (wf_state ?f2) \<and> length (wf_value f') = length (wf_value ?f2) \<and>
     wf_mode f' = wf_mode ?f2 \<and> (\<forall>k. k \<notin> set (words_of addr offs) \<longrightarrow> same_word k ?f2 f') \<and>
     (r = 0 \<longrightarrow> wf_powered ?f2 \<longrightarrow> wf_powered f')"
      using 2(1) [OF refl _ st [symmetric]] True by simp
    then show ?thesis using fr True by (auto simp: words_of_def same_word_def)
  next
    case False
    then show ?thesis using 2(2) st fr
      by (cases s) (auto simp: words_of_def same_word_def Let_def split: if_splits)
  qed
qed

lemma write_loop_done:
  "write_loop addr src offs f = (0, f') \<Longrightarrow> distinct (words_of addr offs) \<Longrightarrow>
     \<forall>k \<in> set (words_of addr offs). k < length (wf_state f) \<and> k < length (wf_value f) \<Longrightarrow>
     off \<in> set offs \<Longrightarrow>
     wf_state f' ! word_index (addr + of_nat off) = W_PROGRAMMED \<and>
     wf_value f' ! word_index (addr + of_nat off) =
       un_le32 (src ! off) (src ! (off + 1)) (src ! (off + 2)) (src ! (off + 3))"
proof (induction addr src offs f arbitrary: f' rule: write_loop.induct)
  case (1 addr src f)
  then show ?case by simp
next
  case (2 addr src o1 offs f)
  let ?w = "word_index (addr + of_nat o1)"
  obtain s f1 where st: "flash_step f = (s, f1)" by fastforce
  note fr = flash_step_frame [OF st]
  let ?f2 = "f1\<lparr>wf_value := (wf_value f1)[?w := un_le32 (src ! o1) (src ! (o1 + 1)) (src ! (o1 + 2)) (src ! (o1 + 3))],
              wf_state := (wf_state f1)[?w := W_PROGRAMMED]\<rparr>"
  have er: "wf_state f ! ?w = W_ERASED" and ok: "s = STEP_OK"
    using 2(2) st by (cases s; auto simp: Let_def split: if_splits)+
  have rest: "write_loop addr src offs ?f2 = (0, f')" using 2(2) st er ok by (simp add: Let_def)
  show ?case
  proof (cases "off = o1")
    case True
    have "?w \<notin> set (words_of addr offs)" using 2(3) by (simp add: words_of_def)
    then have "same_word ?w ?f2 f'" using write_loop_frame [OF rest] by blast
    moreover have "?w < length (wf_state f1)" "?w < length (wf_value f1)"
      using 2(4) fr by (auto simp: words_of_def)
    ultimately show ?thesis using True by (simp add: same_word_def)
  next
    case False
    show ?thesis
    proof (rule 2(1) [OF refl _ st [symmetric]])
      show "write_loop addr src offs ?f2 = (0, f')" by (rule rest)
    qed (use 2(3-5) fr er ok False in \<open>auto simp: words_of_def\<close>)
  qed
qed

lemma read_loop_cong:
  "\<forall>k \<in> set (words_of addr offs). same_word k f f' \<Longrightarrow> wf_mode f' = wf_mode f \<Longrightarrow>
     read_loop addr offs f' = read_loop addr offs f"
  by (induction addr offs f rule: read_loop.induct) (simp_all add: words_of_def same_word_def Let_def)

lemma read_loop_programmed:
  "\<forall>off \<in> set offs. wf_state f ! word_index (addr + of_nat off) = W_PROGRAMMED \<and>
      wf_value f ! word_index (addr + of_nat off) = v off \<Longrightarrow>
   read_loop addr offs f = Some (concat (map (\<lambda>off. le32 (v off)) offs))"
  by (induction addr offs f rule: read_loop.induct) (simp_all add: Let_def le32_def [symmetric])

section \<open>The two slots\<close>

text \<open>The sectors the repository's store tests use.\<close>

definition SLOT0 :: u32 where "SLOT0 = WF_BASE + 128"
definition SLOT1 :: u32 where "SLOT1 = WF_BASE + 384"

lemmas slot_consts = SLOT0_def SLOT1_def wf_consts

lemma word_offsets_simps [simp]:
  "word_offsets 4 = [0]" "word_offsets 16 = [0, 4, 8, 12]" "word_offsets 20 = [0, 4, 8, 12, 16]"
  by (simp_all add: word_offsets_def upt_rec)

lemma slot_geometry:
  assumes "a \<in> {SLOT0, SLOT1}"
  shows "in_range a WF_SECTOR_SIZE" "unat (a - WF_BASE) mod WF_SECTOR_SIZE = 0"
    "in_range a 16" "in_range a 20" "in_range (a + 16) 4"
    "words_of a [0, 4, 8, 12, 16] = [word_index a, word_index a + 1, word_index a + 2, word_index a + 3, word_index a + 4]"
    "words_of a [0, 4, 8, 12] = [word_index a, word_index a + 1, word_index a + 2, word_index a + 3]"
    "words_of (a + 16) [0] = [word_index a + 4]"
    "word_index a = 32 \<or> word_index a = 96"
    "word_index SLOT0 = 32" "word_index SLOT1 = 96"
  using assms by (auto simp: slot_consts in_range_def word_index_def words_of_def)

lemma slot_words:
  assumes "{a, b} = {SLOT0, SLOT1}"
  shows "k < 5 \<Longrightarrow> j < 32 \<Longrightarrow> word_index b + k \<noteq> word_index a + j" "word_index a + 32 \<le> WF_WORDS"
proof -
  have "a \<in> {SLOT0, SLOT1}" using assms by blast
  note g = slot_geometry(9-11) [OF this]
  have "word_index a = 32 \<and> word_index b = 96 \<or> word_index a = 96 \<and> word_index b = 32"
    using assms g by (auto simp: doubleton_eq_iff)
  then show "k < 5 \<Longrightarrow> j < 32 \<Longrightarrow> word_index b + k \<noteq> word_index a + j" "word_index a + 32 \<le> WF_WORDS"
    by (auto simp: wf_consts)
qed

definition mark_blank :: "u32 \<Rightarrow> wflash \<Rightarrow> bool" where
  "mark_blank a f \<longleftrightarrow> wf_state f ! (word_index a + 4) = W_ERASED"

definition contents :: "u32 \<Rightarrow> wflash \<Rightarrow> bytes option" where
  "contents a f = read_loop a [0, 4, 8, 12, 16] f"

definition flash_reset :: "int \<Rightarrow> wflash \<Rightarrow> wflash" where
  "flash_reset k f = wflash_fake_fail_after k (wflash_fake_power_cycle f)"

lemma slot_unchanged:
  assumes "a \<in> {SLOT0, SLOT1}" and "\<forall>k < 5. same_word (word_index a + k) f f'" and "wf_mode f' = wf_mode f"
  shows "mark_blank a f' = mark_blank a f \<and> contents a f' = contents a f"
proof -
  have "\<forall>k \<in> set (words_of a [0, 4, 8, 12, 16]). same_word k f f'"
    using assms(2) unfolding slot_geometry(6) [OF assms(1)]
    by (auto dest: spec [of _ 0] spec [of _ "1 :: nat"] spec [of _ "2 :: nat"] spec [of _ "3 :: nat"] spec [of _ "4 :: nat"])
  then have "contents a f' = contents a f"
    unfolding contents_def using assms(3) by (rule read_loop_cong)
  moreover have "same_word (word_index a + 4) f f'" using assms(2) by simp
  ultimately show ?thesis by (simp add: mark_blank_def same_word_def)
qed

lemma erase_cases:
  assumes "fake_erase_sector a f = (r, f')" and "a \<in> {SLOT0, SLOT1}" and "wf_good f"
  obtains (off) "r \<noteq> 0" "f' = f"
  | (finished) "r = 0" "wf_powered f'" "wf_mode f' = wf_mode f" "wf_good f'"
      "wf_state f' = overwrite (word_index a) (replicate 32 W_ERASED) (wf_state f)"
      "wf_value f' = overwrite (word_index a) (replicate 32 0xFFFFFFFF) (wf_value f)"
  | (torn) "r \<noteq> 0" "wf_mode f' = wf_mode f" "wf_good f'"
      "wf_state f' = overwrite (word_index a) (replicate 32 W_TORN) (wf_state f)"
      "wf_value f' = overwrite (word_index a) (replicate 32 0xFFFFFFFF) (wf_value f)"
proof -
  obtain s f1 where st: "flash_step f = (s, f1)" by fastforce
  note fr = flash_step_frame [OF st]
  have le: "word_index a + 32 \<le> WF_WORDS"
    using slot_geometry(9) [OF assms(2)] by (auto simp: wf_consts)
  have g: "\<not> (\<not> in_range a WF_SECTOR_SIZE \<or> unat (a - WF_BASE) mod WF_SECTOR_SIZE \<noteq> 0)"
    using slot_geometry(1,2) [OF assms(2)] by simp
  have n: "WF_SECTOR_SIZE div 4 = 32" by (simp add: wf_consts)
  have off': "s = STEP_OFF \<Longrightarrow> f1 = f" using st by (auto simp: flash_step_def Let_def split: if_splits)
  show ?thesis
    using assms(1,3) fr le off' unfolding fake_erase_sector_def if_not_P [OF g] st prod.case Let_def n
    by (cases s) (auto simp: wf_good_def intro: off finished torn)
qed

lemma erase_other:
  assumes "wf_good f" and "{a, b} = {SLOT0, SLOT1}" and "fake_erase_sector a f = (r, f')"
  shows "mark_blank b f' = mark_blank b f \<and> contents b f' = contents b f"
proof -
  have a: "a \<in> {SLOT0, SLOT1}" and b: "b \<in> {SLOT0, SLOT1}" using assms(2) by auto
  have far: "word_index b + k < word_index a \<or> word_index a + 32 \<le> word_index b + k" if "k < 5" for k
    using slot_words(1) [OF assms(2) that, of "word_index b + k - word_index a"] by arith
  have bnd: "word_index b + k < WF_WORDS" if "k < 5" for k
    using slot_geometry(9) [OF b] that by (auto simp: wf_consts)
  have "wf_mode f' = wf_mode f \<and> (\<forall>k < 5. same_word (word_index b + k) f f')"
    using assms(3) a assms(1)
  proof (cases rule: erase_cases)
    case off
    then show ?thesis by (simp add: same_word_def)
  qed (use far bnd slot_words(2) [OF assms(2)] assms(1) in
        \<open>auto simp: same_word_def nth_overwrite wf_good_def not_le [symmetric]\<close>)
  then show ?thesis using slot_unchanged [OF b] by blast
qed

lemma write_at_slot:
  assumes "wf_good f" and "a \<in> {SLOT0, SLOT1}" and "fake_write a (Some x) f = (r, f')" and "length x = 16"
  shows "write_loop a x [0, 4, 8, 12] f = (r, f')"
  using assms slot_geometry(3) [OF assms(2)] by (simp add: fake_write_def)

lemma write_at_mark:
  assumes "wf_good f" and "a \<in> {SLOT0, SLOT1}" and "fake_write (a + 16) (Some x) f = (r, f')" and "length x = 4"
  shows "write_loop (a + 16) x [0] f = (r, f')"
  using assms slot_geometry(5) [OF assms(2)] by (simp add: fake_write_def)

lemma write_other:
  assumes "wf_good f" and "{a, b} = {SLOT0, SLOT1}" and "fake_write a (Some x) f = (r, f')" and "length x = 16"
  shows "mark_blank b f' = mark_blank b f \<and> contents b f' = contents b f"
proof -
  have a: "a \<in> {SLOT0, SLOT1}" and b: "b \<in> {SLOT0, SLOT1}" using assms(2) by auto
  note fr = write_loop_frame [OF write_at_slot [OF assms(1) a assms(3,4)], unfolded slot_geometry(7) [OF a]]
  have "\<forall>k < 5. same_word (word_index b + k) f f'"
    using fr slot_words(1) [OF assms(2), of _ 0] slot_words(1) [OF assms(2), of _ 1]
      slot_words(1) [OF assms(2), of _ 2] slot_words(1) [OF assms(2), of _ 3] by auto
  then show ?thesis using slot_unchanged [OF b] fr by blast
qed

lemma mark_other:
  assumes "wf_good f" and "{a, b} = {SLOT0, SLOT1}" and "fake_write (a + 16) (Some x) f = (r, f')"
    and "length x = 4"
  shows "mark_blank b f' = mark_blank b f \<and> contents b f' = contents b f"
proof -
  have a: "a \<in> {SLOT0, SLOT1}" and b: "b \<in> {SLOT0, SLOT1}" using assms(2) by auto
  note fr = write_loop_frame [OF write_at_mark [OF assms(1) a assms(3,4)], unfolded slot_geometry(8) [OF a]]
  have "\<forall>k < 5. same_word (word_index b + k) f f'"
    using fr slot_words(1) [OF assms(2), of _ 4] by auto
  then show ?thesis using slot_unchanged [OF b] fr by blast
qed

lemma write_good:
  assumes "wf_good f" and "a \<in> {SLOT0, SLOT1}" and "b \<in> {a, a + 16}" and "fake_write b (Some x) f = (r, f')"
  shows "wf_good f'"
  using assms(1,4) write_loop_frame by (fastforce simp: fake_write_def wf_good_def split: if_splits)

lemma erase_good:
  assumes "wf_good f" and "a \<in> {SLOT0, SLOT1}" and "fake_erase_sector a f = (r, f')"
  shows "wf_good f'"
  using assms(3,2,1) by (cases rule: erase_cases) (use assms(1) in auto)

lemma slot_mark_bound: "a \<in> {SLOT0, SLOT1} \<Longrightarrow> word_index a + 32 \<le> WF_WORDS"
  using slot_geometry(9) [of a] by (auto simp: wf_consts)

lemma erase_blank:
  assumes "wf_good f" and a: "a \<in> {SLOT0, SLOT1}" and "fake_erase_sector a f = (0, f')"
  shows "mark_blank a f'"
  using assms(3) a assms(1)
proof (cases rule: erase_cases)
  case finished
  then show ?thesis using assms(1) slot_mark_bound [OF a]
    by (auto simp: mark_blank_def nth_overwrite wf_good_def)
qed auto

lemma read_loop_append:
  "read_loop a (xs @ ys) f = (case read_loop a xs f of None \<Rightarrow> None
     | Some y \<Rightarrow> map_option ((@) y) (read_loop a ys f))"
proof (induction xs)
  case Nil
  then show ?case by (cases "read_loop a ys f") auto
next
  case (Cons x xs)
  then show ?case
    by (cases "read_loop a xs f"; cases "read_loop a ys f") (simp_all add: Let_def)
qed

lemma read_loop_length: "read_loop a xs f = Some y \<Longrightarrow> length y = 4 * length xs"
  by (induction xs arbitrary: y) (auto simp: Let_def split: if_splits)

text \<open>A torn word never reads as the commit mark.\<close>

lemma torn_no_mark:
  assumes "wf_state f ! (word_index a + 4) = W_TORN" and "a \<in> {SLOT0, SLOT1}"
  shows "no_mark (contents a f)"
proof (cases "contents a f")
  case (Some x)
  have w: "word_index (a + 16) = word_index a + 4" using slot_geometry(8) [OF assms(2)] by (simp add: words_of_def)
  have split: "[0, 4, 8, 12, 16] = [0, 4, 8, 12] @ [16 :: nat]" by simp
  obtain y z where yz: "read_loop a [0, 4, 8, 12] f = Some y" "read_loop a [16] f = Some z" "x = y @ z"
    using Some unfolding contents_def split read_loop_append
    by (cases "read_loop a [0, 4, 8, 12] f") (auto simp del: read_loop.simps)
  have y: "length y = 16" using read_loop_length [OF yz(1)] by simp
  obtain v where v: "z = le32 v" "v = 0x5A5A0000 OR of_nat (word_index a + 4)"
    using yz(2) assms(1) by (auto simp: Let_def w le32_def split: if_splits)
  have "get_u32 (drop 16 x) = v" using y yz(3) v(1) by simp
  moreover have "v \<noteq> SECOC_STORE_COMMIT_MARK"
    using slot_geometry(9) [OF assms(2)] v(2) by (auto simp: SECOC_STORE_COMMIT_MARK_def)
  ultimately show ?thesis using Some by (simp add: no_mark_def)
qed (simp add: no_mark_def)

lemma erase_failed:
  assumes "wf_good f" and a: "a \<in> {SLOT0, SLOT1}" and "fake_erase_sector a f = (r, f')" and "r \<noteq> 0"
  shows "mark_blank a f' = mark_blank a f \<and> contents a f' = contents a f \<or>
    \<not> mark_blank a f' \<and> no_mark (contents a f')"
  using assms(3) a assms(1)
proof (cases rule: erase_cases)
  case torn
  then have "wf_state f' ! (word_index a + 4) = W_TORN"
    using assms(1) slot_mark_bound [OF a] by (auto simp: nth_overwrite wf_good_def)
  then show ?thesis using torn_no_mark [OF _ a] by (simp add: mark_blank_def)
qed (use assms(4) in auto)

lemma body_keeps_mark:
  assumes "wf_good f" and a: "a \<in> {SLOT0, SLOT1}" and "fake_write a (Some x) f = (r, f')"
    and "length x = 16" and "mark_blank a f"
  shows "mark_blank a f'"
  using write_loop_frame [OF write_at_slot [OF assms(1) a assms(3,4)], unfolded slot_geometry(7) [OF a]] assms(5)
  by (auto simp: mark_blank_def same_word_def)

lemma mark_failed:
  assumes g: "wf_good f" and a: "a \<in> {SLOT0, SLOT1}" and w: "fake_write (a + 16) (Some x) f = (r, f')"
    and "length x = 4" and m: "mark_blank a f" and "r \<noteq> 0"
  shows "mark_blank a f' \<or> no_mark (contents a f')"
proof -
  have wi: "word_index (a + 16) = word_index a + 4" using slot_geometry(8) [OF a] by (simp add: words_of_def)
  obtain s f1 where st: "flash_step f = (s, f1)" by fastforce
  have "word_index a + 4 < length (wf_state f)" using g slot_mark_bound [OF a] by (simp add: wf_good_def)
  then have "wf_state f' ! (word_index a + 4) = W_ERASED \<or> wf_state f' ! (word_index a + 4) = W_TORN"
    using write_at_mark [OF g a w assms(4)] m assms(6) st flash_step_frame [OF st]
    by (cases s) (auto simp: mark_blank_def wi Let_def)
  then show ?thesis using torn_no_mark [OF _ a] by (auto simp: mark_blank_def)
qed

lemma program_reads_back:
  assumes g: "wf_good f" and a: "a \<in> {SLOT0, SLOT1}" and e: "fake_erase_sector a f = (0, f1)"
    and w1: "fake_write a (Some x) f1 = (0, f2)" and x: "length x = 16"
    and w2: "fake_write (a + 16) (Some y) f2 = (0, f3)" and y: "length y = 4"
  shows "fake_blank_check (a + 16) 4 f3 = 0 \<and> fake_read_checked a 20 f3 = Some (x @ y) \<and>
    \<not> mark_blank a f3 \<and> contents a f3 = Some (x @ y)"
proof -
  have g1: "wf_good f1" by (rule erase_good [OF g a e])
  have g2: "wf_good f2" using write_good [OF g1 a _ w1] by simp
  have p1: "wf_powered f1" using e a g by (cases rule: erase_cases) auto
  note l1 = write_at_slot [OF g1 a w1 x]
  note l2 = write_at_mark [OF g2 a w2 y]
  have p3: "wf_powered f3" using write_loop_frame [OF l1] write_loop_frame [OF l2] p1 by blast
  have b: "word_index a + 32 \<le> WF_WORDS" by (rule slot_mark_bound [OF a])
  have wi: "word_index (a + 16) = word_index a + 4" using slot_geometry(8) [OF a] by (simp add: words_of_def)
  have ws: "map (\<lambda>off. word_index (a + of_nat off)) [0, 4, 8, 12] =
      [word_index a, word_index a + 1, word_index a + 2, word_index a + 3]"
    using slot_geometry(7) [OF a] by (simp add: words_of_def)
  have d1: "wf_state f2 ! word_index (a + of_nat off) = W_PROGRAMMED \<and>
      wf_value f2 ! word_index (a + of_nat off) = un_le32 (x ! off) (x ! (off + 1)) (x ! (off + 2)) (x ! (off + 3))"
    if "off \<in> set [0, 4, 8, 12]" for off
    using write_loop_done [OF l1 _ _ that] g1 b unfolding slot_geometry(7) [OF a] by (simp add: wf_good_def)
  have d2: "wf_state f3 ! (word_index a + 4) = W_PROGRAMMED \<and>
      wf_value f3 ! (word_index a + 4) = un_le32 (y ! 0) (y ! 1) (y ! 2) (y ! 3)"
    using write_loop_done [OF l2, of 0] g2 b unfolding slot_geometry(8) [OF a] by (simp add: wf_good_def wi numeral_2_eq_2)
  have keep: "same_word (word_index a + k) f2 f3" if "k < 4" for k
    using write_loop_frame [OF l2] that unfolding slot_geometry(8) [OF a] by simp
  have k4: "word_index (a + of_nat off) \<in> {word_index a + k | k. k < 4}" if "off \<in> set [0, 4, 8, 12]" for off
  proof -
    have "word_index (a + of_nat off) \<in> set (map (\<lambda>off. word_index (a + of_nat off)) [0, 4, 8, 12])"
      using that unfolding set_map by (rule imageI)
    then have "word_index (a + of_nat off) \<in> set [word_index a, word_index a + 1, word_index a + 2, word_index a + 3]"
      unfolding ws .
    then show ?thesis by (auto intro: exI [of _ 0] exI [of _ 1] exI [of _ 2] exI [of _ 3])
  qed
  let ?v = "\<lambda>off. if off < 16 then un_le32 (x ! off) (x ! (off + 1)) (x ! (off + 2)) (x ! (off + 3))
      else un_le32 (y ! 0) (y ! 1) (y ! 2) (y ! 3)"
  have all: "\<forall>off \<in> set [0, 4, 8, 12, 16]. wf_state f3 ! word_index (a + of_nat off) = W_PROGRAMMED \<and>
      wf_value f3 ! word_index (a + of_nat off) = ?v off"
  proof
    fix off assume o: "off \<in> set [0, 4, 8, 12, 16 :: nat]"
    show "wf_state f3 ! word_index (a + of_nat off) = W_PROGRAMMED \<and>
      wf_value f3 ! word_index (a + of_nat off) = ?v off"
    proof (cases "off = 16")
      case True
      then show ?thesis using d2 wi by simp
    next
      case False
      then have o': "off \<in> set [0, 4, 8, 12]" and "off < 16" using o by auto
      from k4 [OF o'] obtain k where "word_index (a + of_nat off) = word_index a + k" "k < 4" by auto
      then show ?thesis using d1 [OF o'] keep [of k] \<open>off < 16\<close> by (simp add: same_word_def)
    qed
  qed
  obtain y0 y1 y2 y3 where yy: "y = [y0, y1, y2, y3]"
    using y by (auto simp: numeral_eq_Suc length_Suc_conv)
  have xx: "[x ! 0, x ! 1, x ! 2, x ! 3, x ! 4, x ! 5, x ! 6, x ! 7, x ! 8, x ! 9, x ! 10, x ! 11,
      x ! 12, x ! 13, x ! 14, x ! 15] = x"
    using map_nth [of x, unfolded x] by (simp add: upt_rec eval_nat_numeral)
  have "read_loop a [0, 4, 8, 12, 16] f3 = Some (concat (map (\<lambda>off. le32 (?v off)) [0, 4, 8, 12, 16]))"
    by (rule read_loop_programmed [OF all])
  also have "concat (map (\<lambda>off. le32 (?v off)) [0, 4, 8, 12, 16]) =
     [x ! 0, x ! 1, x ! 2, x ! 3, x ! 4, x ! 5, x ! 6, x ! 7, x ! 8, x ! 9, x ! 10, x ! 11,
      x ! 12, x ! 13, x ! 14, x ! 15] @ y"
    by (simp add: yy numeral_2_eq_2)
  finally have r: "read_loop a [0, 4, 8, 12, 16] f3 = Some (x @ y)" by (simp only: xx)
  show ?thesis
    using r p3 d2 slot_geometry(4,5) [OF a]
    by (simp add: fake_blank_check_def fake_read_checked_def contents_def mark_blank_def wi)
qed

lemma flash_reset_simps:
  "wf_state (flash_reset k f) = wf_state f" "wf_value (flash_reset k f) = wf_value f"
  "wf_mode (flash_reset k f) = wf_mode f" "wf_powered (flash_reset k f)"
  "read_loop a offs (flash_reset k f) = read_loop a offs f"
  by (simp_all add: flash_reset_def wflash_fake_fail_after_def wflash_fake_power_cycle_def
      read_loop_cong same_word_def)

section \<open>The store over the fake flash\<close>

text \<open>
  The laws hold for the two slots, whatever step the power fails at (\<open>flash_reset k\<close> restores the
  power and lets it fail again after \<open>k\<close> steps, never if \<open>k < 0\<close>).
\<close>

interpretation flash: work_flash g_wflash_fake fake_erase_sector fake_write fake_blank_check
  fake_read_checked "of_nat WF_SECTOR_SIZE" SLOT0 SLOT1 flash_reset mark_blank contents wf_good
proof (unfold_locales, goal_cases)
  case (10 f a r f')
  then show ?case by (rule erase_good)
next
  case (11 f a b x r f')
  show ?case by (rule write_good [OF 11(1-3,5)])
next
  case (13 f a b r f')
  then show ?case by (rule erase_other)
next
  case (14 f a b x r f')
  then show ?case by (rule write_other)
next
  case (15 f a b x r f')
  then show ?case by (rule mark_other)
next
  case (16 f a f')
  then show ?case by (rule erase_blank)
next
  case (17 f a r f')
  then show ?case by (rule erase_failed)
next
  case (18 f a x r f')
  then show ?case by (rule body_keeps_mark)
next
  case (19 f a x r f')
  then show ?case by (rule mark_failed)
next
  case (20 f a f1 x f2 y f3)
  then show ?case by (rule program_reads_back)
next
  case (21 f a k)
  then show ?case
    using slot_geometry(5,8) [OF 21(2)]
    by (simp add: fake_blank_check_def mark_blank_def words_of_def flash_reset_simps)
next
  case (22 f a k)
  then show ?case
    using slot_geometry(4) [OF 22(2)] by (simp add: fake_read_checked_def contents_def flash_reset_simps)
qed (auto simp: g_wflash_fake_def slot_consts wf_good_def mark_blank_def contents_def flash_reset_simps)

end
