(* ===== verification/Node_World.thy ===== *)
theory Node_World imports Crypto_Link Secoc_Rx Work_Flash begin

text \<open>
  A whole node below the application: the link to its security core and the freshness store over the
  work flash, as one world. The MAC oracle moves the first half and the store the second, and a
  reboot remounts the store over whatever flash the power cut left, with any state of the link.
  The locale \<open>protected_receiver\<close> is interpreted here, so what it proves holds of the composition
  \<open>secoc_rx\<close> / \<open>secoc\<close> / \<open>crypto_service\<close> / mailbox / \<open>crypto_dispatch\<close> on one side and
  \<open>secoc_freshness\<close> / \<open>secoc_store\<close> / work flash on the other.
\<close>

section \<open>The world\<close>

type_synonym 'h node = "'h link \<times> wflash store_state \<times> wflash"

definition node_mac :: "'h link mac_fn \<Rightarrow> 'h node mac_fn" where
  "node_mac m key msg w = (case w of (lk, sf) \<Rightarrow> (case m key msg lk of (t, lk') \<Rightarrow> (t, lk', sf)))"

definition node_load :: "u8 \<Rightarrow> 'h node \<Rightarrow> u16 option" where
  "node_load d w = store_load d (snd w)"

definition node_commit :: "u8 \<Rightarrow> u16 \<Rightarrow> 'h node \<Rightarrow> bool \<times> 'h node" where
  "node_commit d e w = (case store_commit d e (snd w) of (b, sf') \<Rightarrow> (b, fst w, sf'))"

definition node_store :: "'h node freshness_store_if" where
  "node_store = \<lparr>st_load = Some node_load, st_commit = Some node_commit\<rparr>"

text \<open>The store's configuration, as the nodes mount it (\<open>secoc_app_init\<close>).\<close>

definition node_store_cfg :: "wflash store_cfg" where
  "node_store_cfg = \<lparr>cfg_flash = Some g_wflash_fake, cfg_slot_addr = [SLOT0, SLOT1]\<rparr>"

text \<open>\<open>(lk, k)\<close>: the link after the reboot, and the flash step at which the power fails next.\<close>

definition node_reboot :: "'h link \<times> int \<Rightarrow> 'h node \<Rightarrow> 'h node" where
  "node_reboot lkk w = (let f = flash_reset (snd lkk) (snd (snd w)) in
     (fst lkk, snd (secoc_store_mount (Some node_store_cfg) store_state0 f), f))"

lemma node_reboot_eq: "node_reboot lkk w = (fst lkk, flash.store_reboot (snd lkk) (snd w))"
  by (simp add: node_reboot_def flash.store_reboot_def flash.cfg_def node_store_cfg_def Let_def)

definition node_ok :: "nat \<Rightarrow> 'h node \<Rightarrow> bool" where
  "node_ok n w = flash.store_inv n (snd w)"

text \<open>A node with an erased work flash, at its first boot.\<close>

definition factory_node :: "'h link \<times> int \<Rightarrow> 'h node" where
  "factory_node lkk = node_reboot lkk (fst lkk, store_state0, wflash_fake_reset)"

lemma erased_good: "wf_good wflash_fake_reset"
  by (simp add: wf_good_def wflash_fake_reset_def)

lemma erased_slot: "a \<in> {SLOT0, SLOT1} \<Longrightarrow> fst (flash.slot_of a wflash_fake_reset) \<noteq> SLOT_VALID"
  by (rule flash.mblank_not_VALID) (auto simp: mark_blank_def wflash_fake_reset_def word_index_def slot_consts)

lemma erased_no_record: "flash.no_record wflash_fake_reset"
  by (auto simp: flash.no_record_def erased_slot)

lemma factory_ok: "n < 2 ^ 32 \<Longrightarrow> node_ok n (factory_node lkk)"
  unfolding node_ok_def factory_node_def node_reboot_eq snd_conv
  by (rule flash.store_inv_first_mount [OF erased_good erased_no_record])

section \<open>The store as the freshness managers see it\<close>

interpretation node: freshness_medium node_load node_commit node_reboot node_ok
proof
  fix n :: nat and w w' :: "'h node" and d d' :: u8 and e b k
  show "node_ok (Suc n) w \<Longrightarrow> node_ok n w"
    unfolding node_ok_def by (rule flash.medium.ok_less)
  show "node_ok (Suc n) w \<Longrightarrow> node_commit d e w = (b, w') \<Longrightarrow> node_ok n w'"
    unfolding node_ok_def node_commit_def by (auto split: prod.splits dest: flash.medium.commit_ok)
  show "node_ok (Suc n) w \<Longrightarrow> node_commit d e w = (True, w') \<Longrightarrow> node_load d w' = Some e"
    unfolding node_ok_def node_commit_def node_load_def
    by (auto split: prod.splits dest: flash.medium.commit_done)
  show "node_ok (Suc n) w \<Longrightarrow> node_commit d e w = (False, w') \<Longrightarrow> node_load d w' = node_load d w"
    unfolding node_ok_def node_commit_def node_load_def
    by (auto split: prod.splits dest: flash.medium.commit_failed)
  show "node_ok (Suc n) w \<Longrightarrow> node_commit d e w = (b, w') \<Longrightarrow> d' \<noteq> d \<Longrightarrow> node_load d' w' = node_load d' w"
    unfolding node_ok_def node_commit_def node_load_def
    by (auto split: prod.splits dest: flash.medium.commit_other)
  show "node_ok n w \<Longrightarrow> node_ok n (node_reboot k w)"
    unfolding node_ok_def node_reboot_eq snd_conv by (rule flash.medium.reboot_ok)
  show "node_ok n w \<Longrightarrow> node_load d (node_reboot k w) = node_load d w"
    unfolding node_ok_def node_reboot_eq node_load_def snd_conv by (rule flash.medium.reboot_load)
qed

lemma node_port: "node.port = node_store"
  by (simp add: node.port_def node_store_def)

lemma factory_load: "node_load d (factory_node lkk) = None"
  by (simp add: node_load_def factory_node_def node_reboot_eq
      flash.first_mount_load [OF erased_good erased_no_record])

lemma factory_persisted: "node.persisted d (factory_node lkk) = 0"
  by (simp add: node.persisted_def factory_load)

section \<open>The whole receive path\<close>

sublocale mac_server \<subseteq> node: protected_receiver "node_mac (link_mac fuel table)"
  "mac_tag_of aes keys" node_load node_commit node_reboot node_ok
  for fuel
proof
  note l = served_tag [where fuel = fuel]
  fix k d n msg t and w w' :: "'h node"
  show "node_mac (link_mac fuel table) k msg w = (Some t, w') \<Longrightarrow> t = mac_tag_of aes keys k msg" for t
    using l by (auto simp: node_mac_def split: prod.splits)
  show "full_tags (node_mac (link_mac fuel table))"
    using l by (auto simp: node_mac_def full_tags_def secoc_consts split: prod.splits)
  show "node_ok n w \<Longrightarrow> node_mac (link_mac fuel table) k msg w = (t, w') \<Longrightarrow> node_ok n w'"
    by (auto simp: node_mac_def node_ok_def split: prod.splits)
  show "node_mac (link_mac fuel table) k msg w = (t, w') \<Longrightarrow> node_load d w' = node_load d w"
    by (auto simp: node_mac_def node_load_def split: prod.splits)
qed

context mac_server
begin

lemmas link_secure = link.secure_then_verify_core

lemmas link_full_tags = link.mac_len

lemmas accepted_authentic = node.rx_process_authentic

lemmas node_full_tags = node.mac_len

text \<open>A receiver booted on an erased device.\<close>

lemma factory_receiver:
  assumes "ids \<noteq> []" and "length ids \<le> SECOC_MAX_IDS" and "n < 2 ^ 32"
  shows "node.receiver_ok n cy d ids (rx_start cy plen node_store d ids (factory_node lkk)) (factory_node lkk) {}"
proof -
  let ?w = "factory_node lkk :: 'h node"
  have "node_reboot lkk ?w = ?w"
    unfolding factory_node_def node_reboot_eq
    by (simp add: flash.store_reboot_def Let_def flash_reset_def wflash_fake_fail_after_def
        wflash_fake_power_cycle_def)
  then show ?thesis
    using node.receiver_ok_first [OF factory_ok [OF assms(3)] factory_persisted assms(1,2), of cy d plen lkk lkk]
    by (simp add: node_port)
qed

lemma factory_life:
  assumes "ids \<noteq> []" and "length ids \<le> SECOC_MAX_IDS" and "length evs < 2 ^ 32"
    and "crypto_mac_of (Some cy) = Some (key, node_mac (link_mac fuel table))"
  shows "\<exists>outs hist. rx_life cy plen node_store node_reboot d ids buf evs
      (rx_start cy plen node_store d ids (factory_node lkk), factory_node lkk) = Some (outs, hist) \<and>
    (0xFFFF \<in> set hist \<or> distinct outs)"
proof -
  have so: "store_ok (Some (node_store :: 'h node freshness_store_if))"
    by (simp add: store_ok_def node_store_def)
  from rx_life_total [OF rx_start_bound [OF so assms(1,2)] so assms(1,2)]
  obtain outs hist where r: "rx_life cy plen node_store node_reboot d ids buf evs
      (rx_start cy plen node_store d ids (factory_node lkk), factory_node lkk) = Some (outs, hist)"
    by blast
  show ?thesis
  proof (cases "0xFFFF \<in> set hist")
    case True
    with r show ?thesis by blast
  next
    case False
    from node.rx_life_distinct [OF r [folded node_port] False
        factory_receiver [OF assms(1-3), folded node_port] assms(4,1,2)]
    have "distinct outs" by blast
    with r show ?thesis by blast
  qed
qed

end

end
