(* ===== verification/Sample_Node.thy ===== *)
theory Sample_Node imports Node_World begin

text \<open>
  One concrete node: a crypto block with a toy cipher, a key table, a mailbox that the security core
  serves after three polls, and a receiver with one protected identifier. The properties are
  general; this is the input on which their witnesses are evaluated.
\<close>

text \<open>A concrete link and its hardware block, used by the witnesses.\<close>

definition sample_hw :: "crypto_block crypto_hw" where
  "sample_hw = block_hw (\<lambda>k d. [of_nat (length d), of_nat (length k)]) (\<lambda>_. []) (\<lambda>_ _ _ _. True)"

definition sample_keys :: "crypto_key_entry list option" where
  "sample_keys = Some (g_keys (replicate 64 0) (replicate 16 7))"

definition sample_link :: "crypto_block link" where
  "sample_link = \<lparr>lk_status = IPC_MBX_IDLE, lk_len = 0, lk_mem = (\<lambda>_. 0), lk_locked = False,
     lk_clock = 0, lk_tick = 1, lk_delay = Some 3,
     lk_hw = \<lparr>cb_mem = (\<lambda>_. 0), cb_open = False, cb_key = [], cb_data = [], cb_err = 0\<rparr>\<rparr>"

definition sample_mac :: "crypto_block link mac_fn" where
  "sample_mac = link_mac 10 (g_handlers sample_hw sample_keys)"

definition sample_cy :: "crypto_block node secoc_crypto" where
  "sample_cy = \<lparr>cy_oracle = Some \<lparr>if_mac = Some (node_mac sample_mac)\<rparr>, cy_key_id = SECOC_MAC_KEY_ID\<rparr>"

lemma sample_engine: "cmac_engine sample_hw (\<lambda>k d. pad16 [of_nat (length d), of_nat (length k)])"
  unfolding sample_hw_def by (rule block.cmac_engine_axioms)

lemma sample_cy_mac: "crypto_mac_of (Some sample_cy) =
    Some (SECOC_MAC_KEY_ID, node_mac (link_mac 10 (g_handlers sample_hw sample_keys)))"
  by (simp add: crypto_mac_of_def sample_cy_def sample_mac_def)

text \<open>The sample link answers, so a frame with the right tag is accepted on it.\<close>

lemma sample_key: "mac_key sample_keys SECOC_MAC_KEY_ID = Some (replicate 16 7)"
  by (simp add: mac_key_def sample_keys_def crypto_keystore_lookup_def g_keys_def
      CRYPTO_DEV_KEY_ID_def SECOC_MAC_KEY_ID_def SECOC_AES128_KEY_BYTES_def)

lemma sample_server: "mac_server sample_hw (\<lambda>k d. pad16 [of_nat (length d), of_nat (length k)])
    (g_handlers sample_hw sample_keys) sample_keys"
  by (rule mac_server_tables [OF sample_engine]) simp

lemma sample_answers:
  assumes "length msg \<le> 119"
  shows "\<exists>lk'. sample_mac SECOC_MAC_KEY_ID msg sample_link = (Some (pad16 [of_nat (length msg), 16]), lk')"
proof -
  show ?thesis
    using mac_server.served_answer [OF sample_server _ _ _ _ assms sample_key, of sample_link 3 10]
    by (simp add: sample_mac_def sample_link_def sample_hw_def block_cmac)
qed

definition sample_frame :: bytes where
  "sample_frame = wire_frame [1, 2, 3] 1 1 [9, 16, 0, 0, 0, 0, 0, 0]"

definition sample_rx :: "crypto_block node secoc_rx" where
  "sample_rx = \<lparr>r_cy = Some sample_cy,
     r_fresh = Some \<lparr>rx_store = Some node_store, rx_domain = 1, rx_floor = 1, rx_current = 1,
       rx_ids = [0x100], rx_high = [0], rx_id_count = 1\<rparr>,
     r_pdu_len_of = None, r_n_accept = 0, r_n_drop_mac = 0, r_n_drop_fresh = 0\<rparr>"

lemma sample_accepts:
  "\<exists>x. secoc_rx_process (Some sample_rx) 0x100 (Some sample_frame) (Some (replicate 8 0)) (Some 0) (sample_link, sf) = Some x
     \<and> rr_verdict x = SECOC_RX_ACCEPT \<and> rr_pdu_len x = Some 3"
proof -
  obtain lk' where m: "sample_mac SECOC_MAC_KEY_ID (mac_input 0x100 1 1 [1, 2, 3]) sample_link = (Some (pad16 [9, 16]), lk')"
    using sample_answers [of "mac_input 0x100 1 1 [1, 2, 3]"] by (auto simp: mac_input_def)
  have cy: "crypto_mac_of (Some sample_cy) = Some (SECOC_MAC_KEY_ID, node_mac sample_mac)"
    by (simp add: crypto_mac_of_def sample_cy_def)
  have f: "full_tags (node_mac sample_mac)"
    unfolding sample_mac_def by (rule mac_server.node_full_tags [OF sample_server])
  have z: "replicate 6 (0 :: u8) = [0, 0, 0, 0, 0, 0]" "replicate 5 (0 :: u8) = [0, 0, 0, 0, 0]"
    by (simp_all add: eval_nat_numeral)
  let ?o = "\<lparr>o_epoch = Some 0, o_counter = Some 0, o_pdu = Some (replicate 8 0), o_pdu_len = Some 0\<rparr>"
  have "secoc_verify (Some sample_cy) 0x100 (Some sample_frame) ?o (sample_link, sf) =
     (SECOC_OK, ?o\<lparr>o_pdu := Some [1, 2, 3, 0, 0, 0, 0, 0], o_pdu_len := Some 3, o_epoch := Some 1,
        o_counter := Some 1\<rparr>, lk', sf)"
    unfolding sample_frame_def
    using m verify_core_wire [OF _ f, of "[9, 16, 0, 0, 0, 0, 0, 0]" SECOC_MAC_KEY_ID "0x100" "[1, 2, 3]" 1 1 "[]" ?o "(sample_link, sf)"]
    by (subst secoc_verify_wire [OF cy]) (simp_all add: outs_ok_def node_mac_def pad16_def secoc_consts overwrite_def z)
  then show ?thesis
    by (simp add: secoc_rx_process_def sample_rx_def rx_verify_def Let_def secoc_rx_check_def
        secoc_rx_accept_def find_slot_def rx_return_simps)
qed

definition sample_mac_b :: "crypto_block link mac_fn" where
  "sample_mac_b = link_mac 10 (g_handlers_b sample_hw sample_keys)"

lemma sample_answers_b:
  assumes "length msg \<le> 119"
  shows "\<exists>lk'. sample_mac_b SECOC_MAC_KEY_ID msg sample_link = (Some (pad16 [of_nat (length msg), 16]), lk')"
proof -
  have srv: "mac_server sample_hw (\<lambda>k d. pad16 [of_nat (length d), of_nat (length k)])
      (g_handlers_b sample_hw sample_keys) sample_keys"
    by (rule mac_server_tables [OF sample_engine]) simp
  show ?thesis
    using mac_server.served_answer [OF srv _ _ _ _ assms sample_key, of sample_link 3 10]
    by (simp add: sample_mac_b_def sample_link_def sample_hw_def block_cmac)
qed

end
