(* ===== verification/Can_Frame.thy ===== *)
theory Can_Frame imports Prelude begin

text \<open>
  CAN frames: \<open>shared/can/include/can_hal.h\<close>, and the glue that both nodes' \<open>can_task.c\<close> and the
  bootloader's \<open>port_can.c\<close> have between such a frame and the controller's message buffers. The bus
  is a record of what a message buffer holds; the controller itself is not modelled.
\<close>

section \<open>Frames\<close>

definition CAN_MAX_DLEN :: nat where "CAN_MAX_DLEN = 64"
definition CAN_FLAG_IDE :: u8 where "CAN_FLAG_IDE = 1"
definition CAN_FLAG_RTR :: u8 where "CAN_FLAG_RTR = 2"
definition CAN_FLAG_FDF :: u8 where "CAN_FLAG_FDF = 4"
definition CAN_FLAG_BRS :: u8 where "CAN_FLAG_BRS = 8"

lemmas can_flags = CAN_FLAG_IDE_def CAN_FLAG_RTR_def CAN_FLAG_FDF_def CAN_FLAG_BRS_def

record can_raw_frame =
  cf_id :: u32
  cf_flags :: u8
  cf_len :: u8
  cf_data :: bytes

text \<open>\<open>memcpy\<close> into a buffer: \<open>None\<close> when it would read or write outside its operands.\<close>

definition copy_in :: "nat \<Rightarrow> bytes \<Rightarrow> nat \<Rightarrow> nat \<Rightarrow> bytes \<Rightarrow> bytes option" where
  "copy_in dst_off src src_off n dst =
     (if src_off + n \<le> length src \<and> dst_off + n \<le> length dst
      then Some (overwrite dst_off (take n (drop src_off src)) dst) else None)"

section \<open>Data length codes\<close>

definition dlc_lut :: "u8 list" where
  "dlc_lut = [0, 1, 2, 3, 4, 5, 6, 7, 8, 12, 16, 20, 24, 32, 48, 64]"

definition dlc_to_len :: "u32 \<Rightarrow> u8" where
  "dlc_to_len dlc = dlc_lut ! unat (dlc AND 0x0F)"

definition len_to_dlc :: "u8 \<Rightarrow> u32" where
  "len_to_dlc len =
     (if len \<le> 8 then ucast len else if len \<le> 12 then 9 else if len \<le> 16 then 10
      else if len \<le> 20 then 11 else if len \<le> 24 then 12 else if len \<le> 32 then 13
      else if len \<le> 48 then 14 else 15)"

section \<open>Message buffers\<close>

record bus_frame =
  bf_id :: u32
  bf_xtd :: bool
  bf_rtr :: bool
  bf_fdf :: bool
  bf_brs :: bool
  bf_dlc :: u32
  bf_data :: bytes

text \<open>What \<open>can_tx\<close> hands to the controller; the data area is zeroed before the copy.\<close>

definition can_tx :: "can_raw_frame \<Rightarrow> bus_frame option" where
  "can_tx f =
     map_option (\<lambda>d. \<lparr>bf_id = cf_id f, bf_xtd = (cf_flags f AND CAN_FLAG_IDE \<noteq> 0),
       bf_rtr = (cf_flags f AND CAN_FLAG_RTR \<noteq> 0), bf_fdf = (cf_flags f AND CAN_FLAG_FDF \<noteq> 0),
       bf_brs = (cf_flags f AND CAN_FLAG_BRS \<noteq> 0), bf_dlc = len_to_dlc (cf_len f), bf_data = d\<rparr>)
     (copy_in 0 (cf_data f) 0 (unat (cf_len f)) (replicate CAN_MAX_DLEN 0))"

text \<open>What the receive callback builds; \<open>junk\<close> is what the frame on its stack held before.\<close>

definition rx_flags :: "bus_frame \<Rightarrow> u8" where
  "rx_flags b = (if bf_xtd b then CAN_FLAG_IDE else 0) OR (if bf_rtr b then CAN_FLAG_RTR else 0) OR
     (if bf_fdf b then CAN_FLAG_FDF else 0) OR (if bf_brs b then CAN_FLAG_BRS else 0)"

definition can_rx_callback :: "bytes \<Rightarrow> bus_frame \<Rightarrow> can_raw_frame option" where
  "can_rx_callback junk b =
     (let len = dlc_to_len (bf_dlc b) in
      map_option (\<lambda>d. \<lparr>cf_id = bf_id b, cf_flags = rx_flags b, cf_len = len, cf_data = d\<rparr>)
        (copy_in 0 (bf_data b) 0 (unat len) junk))"

text \<open>The bytes of a frame: \<open>data\<close> with \<open>len\<close>, the two arguments every consumer passes on.\<close>

definition frame_bytes :: "can_raw_frame \<Rightarrow> bytes" where
  "frame_bytes f = take (unat (cf_len f)) (cf_data f)"

section \<open>Lengths on the wire\<close>

lemma len_to_dlc_le: "len_to_dlc len \<le> 15"
proof (cases "len \<le> 8")
  case True
  then have "unat len \<le> 8" by (simp add: word_le_nat_alt)
  then show ?thesis using True by (simp add: len_to_dlc_def word_le_nat_alt)
qed (simp add: len_to_dlc_def word_le_nat_alt)

lemma dlc_AND: "dlc \<le> 15 \<Longrightarrow> dlc AND 0x0F = (dlc :: u32)"
proof -
  assume "dlc \<le> 15"
  then have d: "unat dlc < 2 ^ 4" by (simp add: word_le_nat_alt)
  have "dlc AND 0x0F = take_bit 4 dlc" by (simp add: take_bit_eq_mask mask_eq_exp_minus_1)
  moreover have "unat (take_bit 4 dlc) = unat dlc" using d by (simp add: take_bit_eq_mod unat_mod)
  ultimately show ?thesis by (simp add: word_unat_eq_iff)
qed

text \<open>The length after the wire is the smallest CAN FD length that holds the frame.\<close>

lemma wire_len:
  "unat (dlc_to_len (len_to_dlc len)) =
     (let n = unat len in if n \<le> 8 then n else if n \<le> 12 then 12 else if n \<le> 16 then 16 else if n \<le> 20 then 20
      else if n \<le> 24 then 24 else if n \<le> 32 then 32 else if n \<le> 48 then 48 else 64)"
proof (cases "unat len \<le> 8")
  case True
  then have "unat len \<in> {0, 1, 2, 3, 4, 5, 6, 7, 8}" by auto
  then have "dlc_lut ! unat len = len"
    by (auto simp: dlc_lut_def word_unat_eq_iff)
  then show ?thesis using True
    by (simp add: dlc_to_len_def dlc_AND [OF len_to_dlc_le]) (simp add: len_to_dlc_def word_le_nat_alt)
next
  case False
  then show ?thesis
    by (simp add: dlc_to_len_def dlc_AND [OF len_to_dlc_le] Let_def)
      (simp add: len_to_dlc_def word_le_nat_alt dlc_lut_def)
qed

lemma dlc_round_trip: "dlc \<le> 15 \<Longrightarrow> len_to_dlc (dlc_to_len dlc) = dlc"
proof -
  assume d: "dlc \<le> 15"
  then have "unat dlc \<in> set [0..<16]" by (simp add: word_le_nat_alt)
  moreover have "\<forall>k \<in> set [0..<16]. len_to_dlc (dlc_lut ! k) = of_nat k"
    by (simp add: upt_rec dlc_lut_def len_to_dlc_def word_le_nat_alt)
  ultimately have "len_to_dlc (dlc_lut ! unat dlc) = of_nat (unat dlc)" by blast
  then show ?thesis using d by (simp add: dlc_to_len_def dlc_AND)
qed

lemma wire_len_bounds: "unat len \<le> 64 \<Longrightarrow> unat len \<le> unat (dlc_to_len (len_to_dlc len))"
  "unat (dlc_to_len (len_to_dlc len)) \<le> 64"
  by (simp_all add: wire_len Let_def)

lemma flags_wire:
  "rx_flags \<lparr>bf_id = i, bf_xtd = (fl AND CAN_FLAG_IDE \<noteq> 0), bf_rtr = (fl AND CAN_FLAG_RTR \<noteq> 0),
     bf_fdf = (fl AND CAN_FLAG_FDF \<noteq> 0), bf_brs = (fl AND CAN_FLAG_BRS \<noteq> 0), bf_dlc = m, bf_data = d\<rparr> = fl AND 0x0F"
proof -
  have b: "(fl AND CAN_FLAG_IDE \<noteq> 0) = bit fl 0" "(fl AND CAN_FLAG_RTR \<noteq> 0) = bit fl 1"
    "(fl AND CAN_FLAG_FDF \<noteq> 0) = bit fl 2" "(fl AND CAN_FLAG_BRS \<noteq> 0) = bit fl 3"
    using and_exp_eq_0_iff_not_bit [of fl 0] and_exp_eq_0_iff_not_bit [of fl 1]
      and_exp_eq_0_iff_not_bit [of fl 2] and_exp_eq_0_iff_not_bit [of fl 3]
    by (simp_all add: can_flags)
  show ?thesis
  proof (rule bit_word_eqI)
    fix n assume "n < LENGTH(8)"
    then have "n = 0 \<or> n = 1 \<or> n = 2 \<or> n = 3 \<or> n = 4 \<or> n = 5 \<or> n = 6 \<or> n = 7" by simp arith
    then show "bit (rx_flags \<lparr>bf_id = i, bf_xtd = (fl AND CAN_FLAG_IDE \<noteq> 0), bf_rtr = (fl AND CAN_FLAG_RTR \<noteq> 0),
        bf_fdf = (fl AND CAN_FLAG_FDF \<noteq> 0), bf_brs = (fl AND CAN_FLAG_BRS \<noteq> 0), bf_dlc = m, bf_data = d\<rparr>) n \<longleftrightarrow>
      bit (fl AND 0x0F) n"
      unfolding rx_flags_def bus_frame.select_convs b unfolding can_flags
      by (elim disjE) (simp_all add: bit_or_iff bit_and_iff)
  qed
qed

text \<open>
  Over the bus a frame keeps its identifier and its flags, and its bytes are padded with zeros to the
  length of its code.
\<close>

lemma frame_over_bus:
  assumes "can_tx f = Some b" and "length junk = CAN_MAX_DLEN"
  shows "\<exists>g. can_rx_callback junk b = Some g \<and> cf_id g = cf_id f \<and> cf_flags g = cf_flags f AND 0x0F \<and>
    length (cf_data g) = CAN_MAX_DLEN \<and>
    frame_bytes g = frame_bytes f @ replicate (unat (dlc_to_len (len_to_dlc (cf_len f))) - unat (cf_len f)) 0"
proof -
  let ?n = "unat (cf_len f)" and ?l = "unat (dlc_to_len (len_to_dlc (cf_len f)))"
  have n: "?n \<le> length (cf_data f)" "?n \<le> 64"
    using assms(1) by (auto simp: can_tx_def copy_in_def CAN_MAX_DLEN_def split: if_splits)
  let ?d = "take ?n (cf_data f) @ replicate (64 - ?n) 0"
  have b: "b = \<lparr>bf_id = cf_id f, bf_xtd = (cf_flags f AND CAN_FLAG_IDE \<noteq> 0),
       bf_rtr = (cf_flags f AND CAN_FLAG_RTR \<noteq> 0), bf_fdf = (cf_flags f AND CAN_FLAG_FDF \<noteq> 0),
       bf_brs = (cf_flags f AND CAN_FLAG_BRS \<noteq> 0), bf_dlc = len_to_dlc (cf_len f), bf_data = ?d\<rparr>"
    using assms(1) n by (simp add: can_tx_def copy_in_def CAN_MAX_DLEN_def overwrite_def)
  have l: "?l \<le> 64" "?n \<le> ?l" using wire_len_bounds n(2) by auto
  have "take ?l ?d = take ?n (cf_data f) @ replicate (?l - ?n) 0"
    using n l by (simp add: min_def)
  then show ?thesis
    using assms(2) n l flags_wire
    by (simp add: b can_rx_callback_def Let_def copy_in_def CAN_MAX_DLEN_def overwrite_def frame_bytes_def)
qed

end
