(* ===== verification/Isotp.thy ===== *)
theory Isotp imports Can_Frame begin

text \<open>
  The ISO-TP transport of \<open>shared/diag/src/isotp.c\<close> (with \<open>isotp_types.h\<close> and the frame of
  \<open>shared/can/include/can_hal.h\<close>).

  The file-scope variables are the record \<open>isotp\<close>. A poll takes the frames that \<open>recv\<close> yields until
  it reports none; the frames handed to \<open>send\<close>, whose result the code ignores, are collected in
  \<open>is_out\<close>.
\<close>

section \<open>Types\<close>

definition ISOTP_MAX_PAYLOAD :: nat where "ISOTP_MAX_PAYLOAD = 4096"
definition ISOTP_BLOCK_SIZE :: u8 where "ISOTP_BLOCK_SIZE = 8"
definition ISOTP_STMIN_MS :: u8 where "ISOTP_STMIN_MS = 0"
definition ISOTP_N_CR_MS :: u32 where "ISOTP_N_CR_MS = 1000"
definition ISOTP_PCI_TYPE_SF :: u8 where "ISOTP_PCI_TYPE_SF = 0x00"
definition ISOTP_PCI_TYPE_FF :: u8 where "ISOTP_PCI_TYPE_FF = 0x10"
definition ISOTP_PCI_TYPE_CF :: u8 where "ISOTP_PCI_TYPE_CF = 0x20"
definition ISOTP_PCI_TYPE_FC :: u8 where "ISOTP_PCI_TYPE_FC = 0x30"
definition ISOTP_FC_STATUS_CTS :: u8 where "ISOTP_FC_STATUS_CTS = 0"
definition ISOTP_FC_STATUS_OVERFLOW :: u8 where "ISOTP_FC_STATUS_OVERFLOW = 2"
definition ISOTP_FF_INITIAL_LEN :: nat where "ISOTP_FF_INITIAL_LEN = 59"

lemmas isotp_consts = CAN_MAX_DLEN_def CAN_FLAG_FDF_def ISOTP_MAX_PAYLOAD_def ISOTP_BLOCK_SIZE_def
  ISOTP_STMIN_MS_def ISOTP_N_CR_MS_def ISOTP_PCI_TYPE_SF_def ISOTP_PCI_TYPE_FF_def
  ISOTP_PCI_TYPE_CF_def ISOTP_PCI_TYPE_FC_def ISOTP_FC_STATUS_CTS_def ISOTP_FC_STATUS_OVERFLOW_def
  ISOTP_FF_INITIAL_LEN_def

datatype isotp_state = ISOTP_IDLE | ISOTP_RX_IN_PROGRESS | ISOTP_TX_IN_PROGRESS | ISOTP_RX_COMPLETE
  | ISOTP_ERROR_TIMEOUT | ISOTP_ERROR_FLOW | ISOTP_ERROR_OVERFLOW

record isotp =
  is_tx_id :: u32
  is_state :: isotp_state
  is_rx_buf :: bytes
  is_rx_total_len :: u32
  is_rx_received_len :: u32
  is_rx_next_seq :: u8
  is_rx_last_activity_ms :: u32
  is_rx_complete :: bool
  is_tx_data :: bytes
  is_tx_total_len :: u32
  is_tx_sent_len :: u32
  is_tx_next_seq :: u8
  is_tx_pending :: bool
  is_tx_block_remaining :: u16
  is_out :: "can_raw_frame list"

text \<open>A zeroed frame with the given head of its data.\<close>

definition fd_frame :: "u32 \<Rightarrow> bytes \<Rightarrow> can_raw_frame" where
  "fd_frame tx_id d = \<lparr>cf_id = tx_id, cf_flags = CAN_FLAG_FDF, cf_len = of_nat (length d),
     cf_data = overwrite 0 d (replicate CAN_MAX_DLEN 0)\<rparr>"

definition can_send :: "can_raw_frame \<Rightarrow> isotp \<Rightarrow> isotp" where
  "can_send f s = s\<lparr>is_out := is_out s @ [f]\<rparr>"

section \<open>Operations\<close>

definition isotp_init :: "u32 \<Rightarrow> isotp \<Rightarrow> isotp" where
  "isotp_init tx_id s = s\<lparr>is_tx_id := tx_id, is_state := ISOTP_IDLE, is_rx_total_len := 0,
     is_rx_received_len := 0, is_rx_next_seq := 0, is_rx_last_activity_ms := 0,
     is_rx_complete := False, is_tx_total_len := 0, is_tx_sent_len := 0, is_tx_next_seq := 0,
     is_tx_pending := False, is_tx_block_remaining := 0\<rparr>"

definition send_fc :: "u8 \<Rightarrow> u8 \<Rightarrow> u8 \<Rightarrow> isotp \<Rightarrow> isotp" where
  "send_fc status bs stmin s =
     can_send (fd_frame (is_tx_id s) [ISOTP_PCI_TYPE_FC OR (status AND 0x0F), bs, stmin]) s"

text \<open>The chunk of a consecutive frame: at most 63 of the remaining bytes.\<close>

definition cf_chunk_len :: "u32 \<Rightarrow> u8" where
  "cf_chunk_len remaining = (if remaining > 63 then 63 else ucast remaining)"

text \<open>The loop of \<open>tx_send_block\<close> and its body: the block count falls by one in each round.\<close>

definition tx_send_cf :: "isotp \<Rightarrow> isotp" where
  "tx_send_cf s =
     (let remaining = is_tx_total_len s - is_tx_sent_len s;
          chunk = cf_chunk_len remaining;
          f = fd_frame (is_tx_id s)
                ((ISOTP_PCI_TYPE_CF OR (is_tx_next_seq s AND 0x0F)) #
                 take (unat chunk) (drop (unat (is_tx_sent_len s)) (is_tx_data s))) in
      (can_send f s)\<lparr>is_tx_sent_len := is_tx_sent_len s + ucast chunk,
        is_tx_next_seq := (is_tx_next_seq s + 1) AND 0x0F,
        is_tx_block_remaining := is_tx_block_remaining s - 1\<rparr>)"

primrec tx_block_loop :: "nat \<Rightarrow> isotp \<Rightarrow> isotp" where
  "tx_block_loop 0 s = s"
| "tx_block_loop (Suc k) s =
     (if is_tx_sent_len s < is_tx_total_len s then tx_block_loop k (tx_send_cf s) else s)"

definition tx_send_block :: "isotp \<Rightarrow> isotp" where
  "tx_send_block s =
     (let s1 = tx_block_loop (unat (is_tx_block_remaining s)) s in
      if is_tx_sent_len s1 \<ge> is_tx_total_len s1 then s1\<lparr>is_tx_pending := False\<rparr> else s1)"

definition isotp_send :: "bytes \<Rightarrow> isotp \<Rightarrow> int \<times> isotp" where
  "isotp_send buf s =
     (let len = length buf in
      if len > ISOTP_MAX_PAYLOAD \<or> is_tx_pending s then (- 1, s)
      else if len \<le> 62 then
        (0, can_send (fd_frame (is_tx_id s) (ISOTP_PCI_TYPE_SF # of_nat len # buf)) s)
      else
        let total = of_nat len :: u32;
            data = overwrite 0 buf (is_tx_data s);
            f = fd_frame (is_tx_id s)
                  ([ISOTP_PCI_TYPE_FF, ucast (drop_bit 24 total), ucast (drop_bit 16 total),
                    ucast (drop_bit 8 total), ucast total] @ take ISOTP_FF_INITIAL_LEN data) in
        (0, (can_send f s)\<lparr>is_tx_data := data, is_tx_total_len := total,
              is_tx_sent_len := of_nat ISOTP_FF_INITIAL_LEN, is_tx_next_seq := 1,
              is_tx_pending := True, is_tx_block_remaining := 0\<rparr>))"

definition handle_sf :: "can_raw_frame \<Rightarrow> isotp \<Rightarrow> isotp option" where
  "handle_sf f s =
     (let len = cf_data f ! 1 in
      map_option (\<lambda>b. s\<lparr>is_rx_buf := b, is_rx_received_len := ucast len, is_rx_complete := True,
                        is_state := ISOTP_RX_COMPLETE\<rparr>)
        (copy_in 0 (cf_data f) 2 (unat len) (is_rx_buf s)))"

definition handle_ff :: "can_raw_frame \<Rightarrow> u32 \<Rightarrow> isotp \<Rightarrow> isotp option" where
  "handle_ff f now_ms s =
     (let d = cf_data f;
          total_len = push_bit 24 (ucast (d ! 1)) OR push_bit 16 (ucast (d ! 2)) OR
                      push_bit 8 (ucast (d ! 3)) OR ucast (d ! 4) :: u32 in
      if unat total_len > ISOTP_MAX_PAYLOAD then Some (s\<lparr>is_state := ISOTP_ERROR_OVERFLOW\<rparr>)
      else
        map_option (\<lambda>b. send_fc ISOTP_FC_STATUS_CTS ISOTP_BLOCK_SIZE ISOTP_STMIN_MS
            (s\<lparr>is_rx_buf := b, is_rx_received_len := of_nat ISOTP_FF_INITIAL_LEN,
               is_rx_total_len := total_len, is_rx_next_seq := 1, is_rx_last_activity_ms := now_ms,
               is_state := ISOTP_RX_IN_PROGRESS\<rparr>))
          (copy_in 0 d 5 ISOTP_FF_INITIAL_LEN (is_rx_buf s)))"

definition handle_cf :: "can_raw_frame \<Rightarrow> u32 \<Rightarrow> isotp \<Rightarrow> isotp option" where
  "handle_cf f now_ms s =
     (if is_state s \<noteq> ISOTP_RX_IN_PROGRESS then Some s
      else if cf_data f ! 0 AND 0x0F \<noteq> is_rx_next_seq s then Some (s\<lparr>is_state := ISOTP_ERROR_FLOW\<rparr>)
      else
        let remaining_needed = is_rx_total_len s - is_rx_received_len s;
            payload_len = cf_chunk_len remaining_needed in
        (case copy_in (unat (is_rx_received_len s)) (cf_data f) 1 (unat payload_len) (is_rx_buf s) of
           None \<Rightarrow> None
         | Some b \<Rightarrow>
             let s1 = s\<lparr>is_rx_buf := b,
                        is_rx_received_len := is_rx_received_len s + ucast payload_len,
                        is_rx_next_seq := (is_rx_next_seq s + 1) AND 0x0F,
                        is_rx_last_activity_ms := now_ms\<rparr> in
             Some (if is_rx_received_len s1 \<ge> is_rx_total_len s1
                   then s1\<lparr>is_rx_complete := True, is_state := ISOTP_RX_COMPLETE\<rparr> else s1)))"

definition handle_fc :: "can_raw_frame \<Rightarrow> isotp \<Rightarrow> isotp" where
  "handle_fc f s =
     (if \<not> is_tx_pending s then s
      else
        let status = cf_data f ! 0 AND 0x0F in
        if status = ISOTP_FC_STATUS_CTS then
          let bs = cf_data f ! 1 in
          tx_send_block (s\<lparr>is_tx_block_remaining := (if bs = 0 then 0xFFFF else ucast bs)\<rparr>)
        else if status = ISOTP_FC_STATUS_OVERFLOW then
          s\<lparr>is_tx_pending := False, is_state := ISOTP_ERROR_OVERFLOW\<rparr>
        else s)"

definition handle_frame :: "u32 \<Rightarrow> can_raw_frame \<Rightarrow> isotp \<Rightarrow> isotp option" where
  "handle_frame now_ms f s =
     (let type = cf_data f ! 0 AND 0xF0 in
      if type = ISOTP_PCI_TYPE_SF then handle_sf f s
      else if type = ISOTP_PCI_TYPE_FF then handle_ff f now_ms s
      else if type = ISOTP_PCI_TYPE_CF then handle_cf f now_ms s
      else if type = ISOTP_PCI_TYPE_FC then Some (handle_fc f s)
      else Some s)"

fun handle_frames :: "u32 \<Rightarrow> can_raw_frame list \<Rightarrow> isotp \<Rightarrow> isotp option" where
  "handle_frames now_ms [] s = Some s"
| "handle_frames now_ms (f # fs) s =
     (case handle_frame now_ms f s of None \<Rightarrow> None | Some s1 \<Rightarrow> handle_frames now_ms fs s1)"

definition isotp_poll :: "u32 \<Rightarrow> can_raw_frame list \<Rightarrow> isotp \<Rightarrow> isotp option" where
  "isotp_poll now_ms pending s =
     map_option (\<lambda>s1. if is_state s1 = ISOTP_RX_IN_PROGRESS \<and>
                        now_ms - is_rx_last_activity_ms s1 \<ge> ISOTP_N_CR_MS
                     then s1\<lparr>is_state := ISOTP_ERROR_TIMEOUT\<rparr> else s1)
       (handle_frames now_ms pending s)"

text \<open>The message taken, or \<open>None\<close> for \<open>false\<close>.\<close>

definition isotp_take_received :: "nat \<Rightarrow> isotp \<Rightarrow> bytes option \<times> isotp" where
  "isotp_take_received buf_cap s =
     (if \<not> is_rx_complete s then (None, s)
      else if unat (is_rx_received_len s) > buf_cap then (None, s)
      else (Some (take (unat (is_rx_received_len s)) (is_rx_buf s)),
            s\<lparr>is_rx_complete := False, is_state := ISOTP_IDLE\<rparr>))"

definition isotp_current_state :: "isotp \<Rightarrow> isotp_state" where
  "isotp_current_state s = is_state s"

section \<open>Bounds\<close>

definition frame_ok :: "can_raw_frame \<Rightarrow> bool" where
  "frame_ok f \<longleftrightarrow> length (cf_data f) = CAN_MAX_DLEN"

text \<open>A single frame whose length byte is more than the frame can hold.\<close>

definition overlong_sf :: "can_raw_frame \<Rightarrow> bool" where
  "overlong_sf f \<longleftrightarrow> cf_data f ! 0 AND 0xF0 = ISOTP_PCI_TYPE_SF \<and> 62 < unat (cf_data f ! 1)"

definition isotp_ok :: "isotp \<Rightarrow> bool" where
  "isotp_ok s \<longleftrightarrow> length (is_rx_buf s) = ISOTP_MAX_PAYLOAD \<and> length (is_tx_data s) = ISOTP_MAX_PAYLOAD \<and>
     unat (is_rx_received_len s) \<le> ISOTP_MAX_PAYLOAD \<and>
     (is_state s = ISOTP_RX_IN_PROGRESS \<longrightarrow> unat (is_rx_total_len s) \<le> ISOTP_MAX_PAYLOAD \<and>
        (is_rx_received_len s \<le> is_rx_total_len s \<or> is_rx_received_len s = 59)) \<and>
     (is_tx_pending s \<longrightarrow> unat (is_tx_total_len s) \<le> ISOTP_MAX_PAYLOAD \<and> is_tx_sent_len s \<le> is_tx_total_len s)"

lemma copy_in_Some:
  "copy_in i src j n dst = Some b \<Longrightarrow> length b = length dst"
  by (auto simp: copy_in_def split: if_splits)

lemma handle_sf_ok:
  assumes "isotp_ok s" and "frame_ok f" and "unat (cf_data f ! 1) \<le> 62"
  shows "\<exists>s'. handle_sf f s = Some s' \<and> isotp_ok s'"
  using assms
  by (auto simp: handle_sf_def copy_in_def isotp_ok_def frame_ok_def isotp_consts Let_def)

lemma handle_ff_ok:
  assumes "isotp_ok s" and "frame_ok f"
  shows "\<exists>s'. handle_ff f now s = Some s' \<and> isotp_ok s'"
proof (cases "\<exists>s'. handle_ff f now s = Some s' \<and> is_state s' = ISOTP_ERROR_OVERFLOW")
  case True
  then show ?thesis
    using assms by (auto simp: handle_ff_def isotp_ok_def Let_def send_fc_def can_send_def split: if_splits)
next
  case False
  then show ?thesis
    using assms
    by (auto simp: handle_ff_def isotp_ok_def Let_def send_fc_def can_send_def copy_in_def frame_ok_def
        isotp_consts split: if_splits)
qed

lemma cf_chunk:
  "unat (cf_chunk_len r) = (if unat r > 63 then 63 else unat r)" "unat (cf_chunk_len r) \<le> 63"
  by (auto simp: cf_chunk_len_def word_less_nat_alt not_less)

lemma handle_cf_ok:
  assumes ok: "isotp_ok s" and f: "frame_ok f"
  shows "\<exists>s'. handle_cf f now s = Some s' \<and> isotp_ok s'"
proof (cases "is_state s \<noteq> ISOTP_RX_IN_PROGRESS \<or> cf_data f ! 0 AND 0x0F \<noteq> is_rx_next_seq s")
  case True
  then show ?thesis using ok by (auto simp: handle_cf_def isotp_ok_def)
next
  case False
  define r where "r = is_rx_total_len s - is_rx_received_len s"
  define n where "n = cf_chunk_len r"
  note n = cf_chunk [of r, folded n_def]
  have fit: "unat (is_rx_received_len s) + unat n \<le> 4096 \<and>
      (is_rx_received_len s + ucast n \<le> is_rx_total_len s \<or> is_rx_total_len s \<le> is_rx_received_len s + ucast n)"
  proof (cases "is_rx_received_len s \<le> is_rx_total_len s")
    case True
    then have "unat r = unat (is_rx_total_len s) - unat (is_rx_received_len s)"
      by (simp add: r_def unat_sub)
    then show ?thesis using n ok False True by (auto simp: isotp_ok_def isotp_consts word_le_nat_alt)
  next
    case F: False
    then have "is_rx_received_len s = 59" using ok False by (auto simp: isotp_ok_def)
    then show ?thesis using n(2) by auto
  qed
  have "copy_in (unat (is_rx_received_len s)) (cf_data f) 1 (unat n) (is_rx_buf s) \<noteq> None"
    using fit n(2) ok f by (simp add: copy_in_def isotp_ok_def frame_ok_def isotp_consts)
  then obtain b where b: "copy_in (unat (is_rx_received_len s)) (cf_data f) 1 (unat n) (is_rx_buf s) = Some b"
    by blast
  have u: "unat (is_rx_received_len s + ucast n) = unat (is_rx_received_len s) + unat n"
    using fit by (simp add: unat_word_ariths)
  show ?thesis
    using False b copy_in_Some [OF b] ok fit u
    by (auto simp: handle_cf_def Let_def r_def [symmetric] n_def [symmetric] isotp_ok_def isotp_consts)
qed

lemma tx_send_cf_simps [simp]:
  "is_rx_buf (tx_send_cf s) = is_rx_buf s" "is_tx_data (tx_send_cf s) = is_tx_data s"
  "is_rx_received_len (tx_send_cf s) = is_rx_received_len s" "is_state (tx_send_cf s) = is_state s"
  "is_rx_total_len (tx_send_cf s) = is_rx_total_len s" "is_tx_total_len (tx_send_cf s) = is_tx_total_len s"
  "is_rx_complete (tx_send_cf s) = is_rx_complete s" "is_tx_pending (tx_send_cf s) = is_tx_pending s"
  "is_tx_id (tx_send_cf s) = is_tx_id s"
  "is_tx_sent_len (tx_send_cf s) =
     is_tx_sent_len s + ucast (cf_chunk_len (is_tx_total_len s - is_tx_sent_len s))"
  "is_tx_next_seq (tx_send_cf s) = (is_tx_next_seq s + 1) AND 0x0F"
  by (simp_all add: tx_send_cf_def can_send_def Let_def)

lemma tx_block_loop_frame [simp]:
  "is_rx_buf (tx_block_loop k s) = is_rx_buf s" "is_tx_data (tx_block_loop k s) = is_tx_data s"
  "is_rx_received_len (tx_block_loop k s) = is_rx_received_len s" "is_state (tx_block_loop k s) = is_state s"
  "is_rx_total_len (tx_block_loop k s) = is_rx_total_len s" "is_tx_total_len (tx_block_loop k s) = is_tx_total_len s"
  "is_rx_complete (tx_block_loop k s) = is_rx_complete s" "is_tx_pending (tx_block_loop k s) = is_tx_pending s"
  "is_tx_id (tx_block_loop k s) = is_tx_id s"
  by (induction k arbitrary: s) simp_all

lemma tx_chunk_fits:
  fixes sent total :: u32
  assumes "sent < total"
  defines "n \<equiv> cf_chunk_len (total - sent)"
  shows "sent + ucast n \<le> total" and "unat (sent + ucast n) = unat sent + unat n"
    and "unat n = min 63 (unat total - unat sent)"
proof -
  note n = cf_chunk [of "total - sent", folded n_def]
  have d: "unat (total - sent) = unat total - unat sent" using assms(1) by (simp add: unat_sub)
  show m: "unat n = min 63 (unat total - unat sent)" using n(1) d by (auto simp: min_def)
  have lt: "unat sent < unat total" "unat total < 2 ^ 32"
    using assms(1) unsigned_less [of total] by (simp_all add: word_less_nat_alt)
  show u: "unat (sent + ucast n) = unat sent + unat n"
    using m lt by (simp add: unat_word_ariths)
  show "sent + ucast n \<le> total" using u m lt by (simp add: word_le_nat_alt)
qed

lemma tx_block_loop_sent:
  "is_tx_sent_len s \<le> t \<Longrightarrow> t = is_tx_total_len s \<Longrightarrow> is_tx_sent_len (tx_block_loop k s) \<le> t"
proof (induction k arbitrary: s)
  case (Suc k)
  show ?case
  proof (cases "is_tx_sent_len s < is_tx_total_len s")
    case True
    then show ?thesis
      using Suc.IH [of "tx_send_cf s"] tx_chunk_fits(1) [OF True] Suc.prems(2) by simp
  qed (use Suc.prems in simp)
qed simp

lemma handle_fc_ok: "isotp_ok s \<Longrightarrow> isotp_ok (handle_fc f s)"
  using tx_block_loop_sent [OF _ refl]
  by (auto simp: handle_fc_def tx_send_block_def isotp_ok_def Let_def)

lemma handle_frame_ok:
  assumes "isotp_ok s" and "frame_ok f" and "\<not> overlong_sf f"
  shows "\<exists>s'. handle_frame now f s = Some s' \<and> isotp_ok s'"
  using assms handle_sf_ok [OF assms(1,2)] handle_ff_ok [OF assms(1,2)] handle_cf_ok [OF assms(1,2)]
    handle_fc_ok [OF assms(1)]
  by (auto simp: handle_frame_def Let_def overlong_sf_def not_less)

lemma handle_frames_ok:
  "isotp_ok s \<Longrightarrow> (\<And>f. f \<in> set fs \<Longrightarrow> frame_ok f \<and> \<not> overlong_sf f) \<Longrightarrow>
     \<exists>s'. handle_frames now fs s = Some s' \<and> isotp_ok s'"
proof (induction fs arbitrary: s)
  case Nil
  then show ?case by simp
next
  case (Cons f fs)
  obtain s1 where "handle_frame now f s = Some s1" "isotp_ok s1"
    using handle_frame_ok [OF Cons.prems(1), of f now] Cons.prems(2) [of f] by auto
  then show ?case using Cons.IH [of s1] Cons.prems(2) by simp
qed

lemma isotp_poll_ok:
  assumes "isotp_ok s" and "\<And>f. f \<in> set fs \<Longrightarrow> frame_ok f \<and> \<not> overlong_sf f"
  shows "\<exists>s'. isotp_poll now fs s = Some s' \<and> isotp_ok s'"
proof -
  obtain s1 where s1: "handle_frames now fs s = Some s1" "isotp_ok s1"
    using handle_frames_ok [of s fs now] assms by metis
  have "isotp_ok (s1\<lparr>is_state := ISOTP_ERROR_TIMEOUT\<rparr>)"
    using s1(2) by (simp add: isotp_ok_def)
  then show ?thesis using s1 by (auto simp: isotp_poll_def)
qed

lemma overlong_sf_faults: "frame_ok f \<Longrightarrow> overlong_sf f \<Longrightarrow> handle_frame now f s = None"
  by (simp add: handle_frame_def overlong_sf_def handle_sf_def copy_in_def frame_ok_def isotp_consts Let_def)

section \<open>Segmentation and reassembly\<close>

text \<open>The consecutive frames of what is left of a message, from a sequence number on.\<close>

function cf_frames :: "u32 \<Rightarrow> u8 \<Rightarrow> bytes \<Rightarrow> can_raw_frame list" where
  "cf_frames tx_id q d =
     (if d = [] then []
      else fd_frame tx_id ((ISOTP_PCI_TYPE_CF OR (q AND 0x0F)) # take 63 d) #
           cf_frames tx_id ((q + 1) AND 0x0F) (drop 63 d))"
  by auto
termination by (relation "measure (\<lambda>(_, _, d). length d)") auto

declare cf_frames.simps [simp del]

lemma cf_frames_Nil [simp]: "cf_frames tx_id q [] = []"
  by (simp add: cf_frames.simps)

lemma length_cf_frames: "length (cf_frames tx_id q d) = (length d + 62) div 63"
proof (induction d arbitrary: q rule: length_induct)
  case (1 d)
  show ?case
  proof (cases "d = []")
    case False
    then have "length (drop 63 d) < length d" by simp
    with 1 have ih: "length (cf_frames tx_id q' (drop 63 d)) = (length (drop 63 d) + 62) div 63" for q' by blast
    have "length (cf_frames tx_id q d) = Suc ((length (drop 63 d) + 62) div 63)"
      using False by (subst cf_frames.simps) (simp add: ih)
    also have "\<dots> = (length d + 62) div 63"
      using False by (cases "length d \<le> 63") (auto simp: le_div_geq)
    finally show ?thesis .
  qed simp
qed

text \<open>The sender's loop emits them.\<close>

lemma tx_send_cf_out:
  assumes "is_tx_sent_len s < is_tx_total_len s" and "unat (is_tx_total_len s) \<le> length (is_tx_data s)"
    and "d = drop (unat (is_tx_sent_len s)) (take (unat (is_tx_total_len s)) (is_tx_data s))"
  shows "is_out (tx_send_cf s) = is_out s @
      [fd_frame (is_tx_id s) ((ISOTP_PCI_TYPE_CF OR (is_tx_next_seq s AND 0x0F)) # take 63 d)]"
    and "drop 63 d = drop (unat (is_tx_sent_len (tx_send_cf s))) (take (unat (is_tx_total_len s)) (is_tx_data s))"
    and "d \<noteq> []"
proof -
  note n = tx_chunk_fits [OF assms(1)]
  let ?n = "unat (cf_chunk_len (is_tx_total_len s - is_tx_sent_len s))"
  have lt: "unat (is_tx_sent_len s) < unat (is_tx_total_len s)"
    using assms(1) by (simp add: word_less_nat_alt)
  have "take ?n (drop (unat (is_tx_sent_len s)) (is_tx_data s)) = take 63 d"
    unfolding assms(3) n(3) by (simp add: drop_take min_def)
  then show "is_out (tx_send_cf s) = is_out s @
      [fd_frame (is_tx_id s) ((ISOTP_PCI_TYPE_CF OR (is_tx_next_seq s AND 0x0F)) # take 63 d)]"
    by (simp add: tx_send_cf_def can_send_def Let_def)
  have ld: "length d = unat (is_tx_total_len s) - unat (is_tx_sent_len s)" using assms(2,3) by simp
  show "drop 63 d = drop (unat (is_tx_sent_len (tx_send_cf s))) (take (unat (is_tx_total_len s)) (is_tx_data s))"
  proof (cases "63 \<le> length d")
    case True
    then show ?thesis using n(2,3) ld by (simp add: assms(3) min_def add.commute)
  next
    case False
    then show ?thesis using n(2,3) ld assms(2) by (simp add: min_def)
  qed
  show "d \<noteq> []" using ld lt by auto
qed

lemma tx_block_loop_out:
  "unat (is_tx_total_len s) \<le> length (is_tx_data s) \<Longrightarrow> is_tx_sent_len s \<le> is_tx_total_len s \<Longrightarrow>
   d = drop (unat (is_tx_sent_len s)) (take (unat (is_tx_total_len s)) (is_tx_data s)) \<Longrightarrow>
     is_out (tx_block_loop k s) = is_out s @ take k (cf_frames (is_tx_id s) (is_tx_next_seq s) d) \<and>
     unat (is_tx_sent_len (tx_block_loop k s)) = min (unat (is_tx_total_len s)) (unat (is_tx_sent_len s) + 63 * k)"
proof (induction k arbitrary: s d)
  case 0
  then show ?case by (simp add: word_le_nat_alt)
next
  case (Suc k)
  show ?case
  proof (cases "is_tx_sent_len s < is_tx_total_len s")
    case True
    note o = tx_send_cf_out [OF True Suc.prems(1,3)] and n = tx_chunk_fits [OF True]
    have "is_out (tx_block_loop k (tx_send_cf s)) = is_out (tx_send_cf s) @
        take k (cf_frames (is_tx_id s) ((is_tx_next_seq s + 1) AND 0x0F) (drop 63 d)) \<and>
      unat (is_tx_sent_len (tx_block_loop k (tx_send_cf s))) =
        min (unat (is_tx_total_len s)) (unat (is_tx_sent_len (tx_send_cf s)) + 63 * k)"
      using Suc.IH [of "tx_send_cf s" "drop 63 d"] Suc.prems(1) n(1) o(2) by simp
    then show ?thesis
      using True o(1,3) n(2,3) by (subst cf_frames.simps) (auto simp: min_def)
  next
    case False
    then have "is_tx_sent_len s = is_tx_total_len s" using Suc.prems(2) by simp
    then show ?thesis using Suc.prems(1,3) by simp
  qed
qed

text \<open>The receiver in the middle of a message: \<open>pre\<close> is in, \<open>d\<close> is still to come, \<open>q\<close> comes next.\<close>

definition receiving :: "isotp \<Rightarrow> u8 \<Rightarrow> bytes \<Rightarrow> bytes \<Rightarrow> bool" where
  "receiving s q pre d \<longleftrightarrow> is_state s = ISOTP_RX_IN_PROGRESS \<and> is_rx_next_seq s = q \<and> q AND 0x0F = q \<and>
     length (is_rx_buf s) = ISOTP_MAX_PAYLOAD \<and> unat (is_rx_received_len s) = length pre \<and>
     unat (is_rx_total_len s) = length pre + length d \<and> length pre + length d \<le> ISOTP_MAX_PAYLOAD \<and>
     take (length pre) (is_rx_buf s) = pre"

definition received :: "isotp \<Rightarrow> bytes \<Rightarrow> bool" where
  "received s m \<longleftrightarrow> is_rx_complete s \<and> is_state s = ISOTP_RX_COMPLETE \<and>
     unat (is_rx_received_len s) = length m \<and> take (length m) (is_rx_buf s) = m"

lemma take_overwrite_append:
  "take i b = pre \<Longrightarrow> i = length pre \<Longrightarrow> i + length xs \<le> length b \<Longrightarrow>
     take (i + length xs) (overwrite i xs b) = pre @ xs"
  by (simp add: take_overwrite_upto)

lemma seq_nibble: "(ISOTP_PCI_TYPE_CF OR (q AND 0x0F)) AND 0xF0 = ISOTP_PCI_TYPE_CF"
  "(ISOTP_PCI_TYPE_CF OR (q AND 0x0F)) AND 0x0F = q AND 0x0F"
  by (simp_all add: isotp_consts word_bw_lcs bit.conj_disj_distrib2 and.assoc)

lemma fd_frame_data:
  assumes "length d \<le> CAN_MAX_DLEN"
  shows "cf_data (fd_frame i d) = d @ replicate (64 - length d) 0"
  using assms by (simp add: fd_frame_def overwrite_def isotp_consts)

lemma frame_ok_fd [simp]: "length d \<le> CAN_MAX_DLEN \<Longrightarrow> frame_ok (fd_frame i d)"
  by (simp add: frame_ok_def fd_frame_data isotp_consts)

lemma receive_cf:
  assumes r: "receiving s q pre d" and d: "d \<noteq> []"
  shows "\<exists>s'. handle_frame now (fd_frame i ((ISOTP_PCI_TYPE_CF OR (q AND 0x0F)) # take 63 d)) s = Some s' \<and>
    is_out s' = is_out s \<and>
    (if length d \<le> 63 then received s' (pre @ d)
     else receiving s' ((q + 1) AND 0x0F) (pre @ take 63 d) (drop 63 d) \<and> is_rx_complete s' = is_rx_complete s \<and>
       is_rx_last_activity_ms s' = now)"
proof -
  let ?f = "fd_frame i ((ISOTP_PCI_TYPE_CF OR (q AND 0x0F)) # take 63 d)"
  let ?n = "cf_chunk_len (is_rx_total_len s - is_rx_received_len s)"
  have l: "length ((ISOTP_PCI_TYPE_CF OR (q AND 0x0F)) # take 63 d) \<le> CAN_MAX_DLEN"
    by (simp add: isotp_consts)
  note data = fd_frame_data [OF l, of i]
  have lt: "is_rx_received_len s < is_rx_total_len s"
    using r d by (simp add: receiving_def word_less_nat_alt)
  note n = tx_chunk_fits [OF lt]
  have un: "unat ?n = length (take 63 d)" using n(3) r by (simp add: receiving_def min_def)
  have src: "take (unat ?n) (drop 1 (cf_data ?f)) = take 63 d"
  proof -
    have "take (length xs) (drop 1 ((x # xs) @ ys)) = xs" for x and xs ys :: bytes by simp
    then show ?thesis unfolding data un .
  qed
  have c: "copy_in (unat (is_rx_received_len s)) (cf_data ?f) 1 (unat ?n) (is_rx_buf s) =
      Some (overwrite (length pre) (take 63 d) (is_rx_buf s))"
  proof -
    have "length (cf_data ?f) = 64"
      using frame_ok_fd [OF l, of i] by (simp add: frame_ok_def isotp_consts)
    then show ?thesis unfolding copy_in_def src using r un
      by (simp add: receiving_def isotp_consts min_def)
  qed
  have nib: "cf_data ?f ! 0 AND 0xF0 = ISOTP_PCI_TYPE_CF" "cf_data ?f ! 0 AND 0x0F = is_rx_next_seq s"
  proof -
    have "q AND 0x0F = q" "is_rx_next_seq s = q" using r by (simp_all add: receiving_def)
    then show "cf_data ?f ! 0 AND 0xF0 = ISOTP_PCI_TYPE_CF" "cf_data ?f ! 0 AND 0x0F = is_rx_next_seq s"
      unfolding data using seq_nibble [of q] by simp_all
  qed
  have ne: "ISOTP_PCI_TYPE_CF \<noteq> ISOTP_PCI_TYPE_SF" "ISOTP_PCI_TYPE_CF \<noteq> ISOTP_PCI_TYPE_FF"
    by (simp_all add: isotp_consts)
  have st: "is_state s = ISOTP_RX_IN_PROGRESS" using r by (simp add: receiving_def)
  let ?s1 = "s\<lparr>is_rx_buf := overwrite (length pre) (take 63 d) (is_rx_buf s),
      is_rx_received_len := is_rx_received_len s + ucast ?n,
      is_rx_next_seq := (is_rx_next_seq s + 1) AND 0x0F, is_rx_last_activity_ms := now\<rparr>"
  have h: "handle_frame now ?f s = Some (if is_rx_received_len s + ucast ?n \<ge> is_rx_total_len s
      then ?s1\<lparr>is_rx_complete := True, is_state := ISOTP_RX_COMPLETE\<rparr> else ?s1)"
    using nib ne st c by (simp add: handle_frame_def handle_cf_def Let_def)
  have ge: "is_rx_received_len s + ucast ?n \<ge> is_rx_total_len s \<longleftrightarrow> length d \<le> 63"
    using n(2) un r by (auto simp: word_le_nat_alt receiving_def min_def)
  have buf: "take (length pre + length (take 63 d)) (overwrite (length pre) (take 63 d) (is_rx_buf s)) = pre @ take 63 d"
    using r by (intro take_overwrite_append) (auto simp: receiving_def)
  show ?thesis
  proof (cases "length d \<le> 63")
    case True
    then have "received (?s1\<lparr>is_rx_complete := True, is_state := ISOTP_RX_COMPLETE\<rparr>) (pre @ d)"
      using n(2) un buf r by (simp add: received_def receiving_def)
    then show ?thesis using h ge True by simp
  next
    case False
    then have "receiving ?s1 ((q + 1) AND 0x0F) (pre @ take 63 d) (drop 63 d)"
      using n(2) un buf r by (simp add: receiving_def and.assoc)
    then show ?thesis using h ge False by simp
  qed
qed

lemma receive_cfs:
  "receiving s q pre d \<Longrightarrow> d \<noteq> [] \<Longrightarrow>
   \<exists>s'. handle_frames now (take k (cf_frames i q d)) s = Some s' \<and> is_out s' = is_out s \<and>
    (if length d \<le> 63 * k then received s' (pre @ d)
     else (\<exists>q'. receiving s' q' (pre @ take (63 * k) d) (drop (63 * k) d)) \<and> is_rx_complete s' = is_rx_complete s \<and>
       (is_rx_last_activity_ms s = now \<longrightarrow> is_rx_last_activity_ms s' = now))"
proof (induction k arbitrary: s q pre d)
  case 0
  then show ?case by auto
next
  case (Suc k)
  obtain s1 where s1: "handle_frame now (fd_frame i ((ISOTP_PCI_TYPE_CF OR (q AND 0x0F)) # take 63 d)) s = Some s1"
    "is_out s1 = is_out s" "if length d \<le> 63 then received s1 (pre @ d)
     else receiving s1 ((q + 1) AND 0x0F) (pre @ take 63 d) (drop 63 d) \<and> is_rx_complete s1 = is_rx_complete s \<and>
       is_rx_last_activity_ms s1 = now"
    using receive_cf [OF Suc.prems] by blast
  have cfs: "cf_frames i q d = fd_frame i ((ISOTP_PCI_TYPE_CF OR (q AND 0x0F)) # take 63 d) #
      cf_frames i ((q + 1) AND 0x0F) (drop 63 d)"
    using Suc.prems(2) by (subst cf_frames.simps) simp
  show ?case
  proof (cases "length d \<le> 63")
    case True
    then show ?thesis using s1 by (simp add: cfs)
  next
    case False
    then have ne: "drop 63 d \<noteq> []" by simp
    have le: "length (drop 63 d) \<le> 63 * k \<longleftrightarrow> length d \<le> 63 * Suc k" using False by auto
    have sp: "(pre @ take 63 d) @ drop 63 d = pre @ d"
      "(pre @ take 63 d) @ take (63 * k) (drop 63 d) = pre @ take (63 * Suc k) d"
      "drop (63 * k) (drop 63 d) = drop (63 * Suc k) d"
      by (simp_all add: take_add add.commute)
    have "receiving s1 ((q + 1) AND 0x0F) (pre @ take 63 d) (drop 63 d)" using s1(3) False by simp
    from Suc.IH [OF this ne] s1 False show ?thesis
      unfolding le sp cfs by (auto cong: if_cong split: if_splits)
  qed
qed

text \<open>The first frame, and the receiver's answer to it.\<close>

definition ff_frame :: "u32 \<Rightarrow> bytes \<Rightarrow> can_raw_frame" where
  "ff_frame i m = fd_frame i (ISOTP_PCI_TYPE_FF # be32 (of_nat (length m)) @ take ISOTP_FF_INITIAL_LEN m)"

definition fc_frame :: "u32 \<Rightarrow> u8 \<Rightarrow> can_raw_frame" where
  "fc_frame i bs = fd_frame i [ISOTP_PCI_TYPE_FC, bs, ISOTP_STMIN_MS]"

lemma un_be32_be32:
  "push_bit 24 (ucast (ucast (drop_bit 24 v) :: u8)) OR push_bit 16 (ucast (ucast (drop_bit 16 v) :: u8)) OR
     push_bit 8 (ucast (ucast (drop_bit 8 v) :: u8)) OR ucast (ucast v :: u8) = (v :: u32)"
  using un_le32_le32 [of v] by (simp add: un_le32_def or.commute or.left_commute)

lemma receive_ff:
  assumes b: "length (is_rx_buf s) = ISOTP_MAX_PAYLOAD" and l: "62 < length m" "length m \<le> ISOTP_MAX_PAYLOAD"
  shows "\<exists>s'. handle_frame now (ff_frame i m) s = Some s' \<and>
    is_out s' = is_out s @ [fc_frame (is_tx_id s) ISOTP_BLOCK_SIZE] \<and>
    receiving s' 1 (take 59 m) (drop 59 m) \<and> is_rx_complete s' = is_rx_complete s \<and>
    is_rx_last_activity_ms s' = now"
proof -
  let ?f = "ff_frame i m"
  have d: "cf_data ?f = ISOTP_PCI_TYPE_FF # be32 (of_nat (length m)) @ take 59 m"
    unfolding ff_frame_def using l by (subst fd_frame_data) (simp_all add: isotp_consts be32_def)
  have t: "handle_frame now ?f s = handle_ff ?f now s"
    by (simp add: handle_frame_def d isotp_consts)
  have total: "push_bit 24 (ucast (cf_data ?f ! 1)) OR push_bit 16 (ucast (cf_data ?f ! 2)) OR
      push_bit 8 (ucast (cf_data ?f ! 3)) OR ucast (cf_data ?f ! 4) = (of_nat (length m) :: u32)"
    by (simp add: d be32_def le32_def un_be32_be32)
  have u: "unat (of_nat (length m) :: u32) = length m"
    using l(2) by (simp add: unat_of_nat isotp_consts)
  have c: "copy_in 0 (cf_data ?f) 5 ISOTP_FF_INITIAL_LEN (is_rx_buf s) = Some (overwrite 0 (take 59 m) (is_rx_buf s))"
    using b l(1) by (simp add: copy_in_def d be32_def le32_def isotp_consts)
  have p: "take 59 (overwrite 0 (take 59 m) (is_rx_buf s)) = take 59 m"
    using take_overwrite_0 [of "take 59 m" "is_rx_buf s"] l by simp
  show ?thesis
    unfolding t handle_ff_def Let_def total c u
    using l b p
    by (simp add: send_fc_def can_send_def receiving_def fc_frame_def u isotp_consts min_def)
qed

text \<open>The sender after its first frame, and its reaction to a clear-to-send.\<close>

definition sending :: "isotp \<Rightarrow> bytes \<Rightarrow> bool" where
  "sending s m \<longleftrightarrow> is_tx_pending s \<and> is_tx_sent_len s = 59 \<and> is_tx_next_seq s = 1 \<and>
     is_tx_total_len s = of_nat (length m) \<and> length (is_tx_data s) = ISOTP_MAX_PAYLOAD \<and>
     take (length m) (is_tx_data s) = m"

lemma send_first_frame:
  assumes "length (is_tx_data s) = ISOTP_MAX_PAYLOAD" and "\<not> is_tx_pending s"
    and l: "62 < length m" "length m \<le> ISOTP_MAX_PAYLOAD"
  shows "\<exists>s'. isotp_send m s = (0, s') \<and> is_out s' = is_out s @ [ff_frame (is_tx_id s) m] \<and> sending s' m \<and>
    is_tx_id s' = is_tx_id s \<and> is_state s' = is_state s"
  using assms
  by (simp add: isotp_send_def Let_def can_send_def sending_def ff_frame_def be32_def le32_def isotp_consts
      overwrite_def)

lemma block_on_cts:
  assumes s: "sending s m" and l: "62 < length m" "length m \<le> ISOTP_MAX_PAYLOAD"
    and n: "n = (if bs = 0 then 65535 else unat bs)"
  shows "\<exists>s'. handle_frame now (fc_frame i bs) s = Some s' \<and>
    is_out s' = is_out s @ take n (cf_frames (is_tx_id s) 1 (drop 59 m)) \<and>
    (is_tx_pending s' \<longleftrightarrow> 59 + 63 * n < length m) \<and> is_state s' = is_state s"
proof -
  let ?s1 = "s\<lparr>is_tx_block_remaining := (if bs = 0 then 0xFFFF else ucast bs)\<rparr>"
  let ?s2 = "tx_block_loop n ?s1"
  have u: "unat (is_tx_total_len ?s1) = length m"
    using s l by (simp add: sending_def unat_of_nat isotp_consts)
  have rem: "unat (is_tx_block_remaining ?s1) = n"
    using unsigned_less [of bs, where 'a = nat] by (simp add: n unsigned_ucast_eq take_bit_eq_mod)
  have d: "cf_data (fc_frame i bs) = [ISOTP_PCI_TYPE_FC, bs, ISOTP_STMIN_MS] @ replicate 61 0"
    unfolding fc_frame_def by (subst fd_frame_data) (simp_all add: isotp_consts)
  have h: "handle_frame now (fc_frame i bs) s = Some (tx_send_block ?s1)"
    using s by (simp add: handle_frame_def d isotp_consts handle_fc_def sending_def Let_def)
  have "is_out ?s2 = is_out ?s1 @ take n (cf_frames (is_tx_id ?s1) (is_tx_next_seq ?s1) (drop 59 m)) \<and>
     unat (is_tx_sent_len ?s2) = min (unat (is_tx_total_len ?s1)) (unat (is_tx_sent_len ?s1) + 63 * n)"
  proof (rule tx_block_loop_out)
    show "unat (is_tx_total_len ?s1) \<le> length (is_tx_data ?s1)"
      using u s l by (simp add: sending_def)
    show "is_tx_sent_len ?s1 \<le> is_tx_total_len ?s1"
      using u s l by (simp add: sending_def word_le_nat_alt)
    show "drop 59 m = drop (unat (is_tx_sent_len ?s1)) (take (unat (is_tx_total_len ?s1)) (is_tx_data ?s1))"
      unfolding u using s by (simp add: sending_def)
  qed
  then show ?thesis
    unfolding h tx_send_block_def rem Let_def using s u l
    by (auto simp: sending_def word_le_nat_alt)
qed

text \<open>
  Two endpoints of this module wired to each other: in a round the left one's frames reach the
  right one, whose poll takes them all, and then the other way round.
\<close>

definition isotp_pass :: "u32 \<Rightarrow> isotp \<Rightarrow> isotp \<Rightarrow> (isotp \<times> isotp) option" where
  "isotp_pass now src dst = map_option (\<lambda>d. (src\<lparr>is_out := []\<rparr>, d)) (isotp_poll now (is_out src) dst)"

definition isotp_round :: "u32 \<Rightarrow> isotp \<times> isotp \<Rightarrow> (isotp \<times> isotp) option" where
  "isotp_round now ab =
     (case isotp_pass now (fst ab) (snd ab) of None \<Rightarrow> None
      | Some (a, b) \<Rightarrow> map_option (\<lambda>(b', a'). (a', b')) (isotp_pass now b a))"

primrec isotp_rounds :: "u32 \<Rightarrow> nat \<Rightarrow> isotp \<times> isotp \<Rightarrow> (isotp \<times> isotp) option" where
  "isotp_rounds now 0 ab = Some ab"
| "isotp_rounds now (Suc n) ab =
     (case isotp_round now ab of None \<Rightarrow> None | Some ab' \<Rightarrow> isotp_rounds now n ab')"

text \<open>An endpoint before a transfer: its buffers in place and nothing in flight.\<close>

definition isotp_idle :: "isotp \<Rightarrow> bool" where
  "isotp_idle s \<longleftrightarrow> length (is_rx_buf s) = ISOTP_MAX_PAYLOAD \<and> length (is_tx_data s) = ISOTP_MAX_PAYLOAD \<and>
     is_state s = ISOTP_IDLE \<and> \<not> is_rx_complete s \<and> \<not> is_tx_pending s \<and> is_out s = []"

lemma isotp_poll_quiet:
  "handle_frames now fs s = Some s' \<Longrightarrow>
     \<not> (is_state s' = ISOTP_RX_IN_PROGRESS \<and> now - is_rx_last_activity_ms s' \<ge> ISOTP_N_CR_MS) \<Longrightarrow>
     isotp_poll now fs s = Some s'"
  by (auto simp: isotp_poll_def)

lemma take_received:
  "received s m \<Longrightarrow> length m \<le> cap \<Longrightarrow> fst (isotp_take_received cap s) = Some m"
  by (simp add: received_def isotp_take_received_def)

lemma receive_sf:
  assumes "length (is_rx_buf s) = ISOTP_MAX_PAYLOAD" and "length m \<le> 62"
  shows "\<exists>s'. handle_frame now (fd_frame i (ISOTP_PCI_TYPE_SF # of_nat (length m) # m)) s = Some s' \<and>
    received s' m \<and> is_out s' = is_out s \<and> length (is_rx_buf s') = length (is_rx_buf s)"
proof -
  let ?f = "fd_frame i (ISOTP_PCI_TYPE_SF # of_nat (length m) # m)"
  have d: "cf_data ?f = (ISOTP_PCI_TYPE_SF # of_nat (length m) # m) @ replicate (62 - length m) 0"
    using assms by (subst fd_frame_data) (simp_all add: isotp_consts)
  have u: "unat (of_nat (length m) :: u8) = length m" using assms(2) by (simp add: unat_of_nat)
  show ?thesis using assms
    unfolding handle_frame_def handle_sf_def Let_def d
    by (simp add: u copy_in_def received_def isotp_consts overwrite_def)
qed

text \<open>Both ends up to the first block, which is all that the receiver ever asks for.\<close>

lemma first_block:
  assumes a: "isotp_idle a" and b: "isotp_idle b"
    and l: "62 < length m" "length m \<le> ISOTP_MAX_PAYLOAD" and send: "isotp_send m a = (r, a1)"
  shows "r = 0" and "\<exists>a2 b1. isotp_round now (a1, b) = Some (a2, b1) \<and> is_out b1 = [] \<and>
    is_out a2 = take 8 (cf_frames (is_tx_id a) 1 (drop 59 m)) \<and>
    (is_tx_pending a2 \<longleftrightarrow> 563 < length m) \<and> receiving b1 1 (take 59 m) (drop 59 m) \<and>
    \<not> is_rx_complete b1 \<and> is_rx_last_activity_ms b1 = now \<and> is_state a2 = ISOTP_IDLE"
proof -
  obtain s where s: "isotp_send m a = (0, s)" "is_out s = [ff_frame (is_tx_id a) m]" "sending s m"
    "is_tx_id s = is_tx_id a" "is_state s = ISOTP_IDLE"
    using send_first_frame [of a m] a l by (auto simp: isotp_idle_def)
  then show "r = 0" using send by simp
  have a1: "a1 = s" using s(1) send by simp
  obtain b1 where b1: "handle_frame now (ff_frame (is_tx_id a) m) b = Some b1"
    "is_out b1 = [fc_frame (is_tx_id b) ISOTP_BLOCK_SIZE]" "receiving b1 1 (take 59 m) (drop 59 m)"
    "\<not> is_rx_complete b1" "is_rx_last_activity_ms b1 = now"
    using receive_ff [of b m now "is_tx_id a"] b l by (auto simp: isotp_idle_def)
  have p1: "isotp_pass now a1 b = Some (a1\<lparr>is_out := []\<rparr>, b1)"
    unfolding isotp_pass_def a1 s(2) by (subst isotp_poll_quiet) (simp_all add: b1 isotp_consts)
  have "sending (a1\<lparr>is_out := []\<rparr>) m" using s(3) a1 by (simp add: sending_def)
  from block_on_cts [OF this l refl, of now "is_tx_id b" ISOTP_BLOCK_SIZE]
  obtain a2 where a2: "handle_frame now (fc_frame (is_tx_id b) ISOTP_BLOCK_SIZE) (a1\<lparr>is_out := []\<rparr>) = Some a2"
    "is_out a2 = take 8 (cf_frames (is_tx_id a) 1 (drop 59 m))" "is_tx_pending a2 \<longleftrightarrow> 563 < length m"
    "is_state a2 = ISOTP_IDLE"
    using s(4,5) a1 by (auto simp: isotp_consts)
  have p2: "isotp_pass now b1 (a1\<lparr>is_out := []\<rparr>) = Some (b1\<lparr>is_out := []\<rparr>, a2)"
    unfolding isotp_pass_def b1(2) by (subst isotp_poll_quiet) (simp_all add: a2)
  have "receiving (b1\<lparr>is_out := []\<rparr>) 1 (take 59 m) (drop 59 m)" using b1(3) by (simp add: receiving_def)
  then show "\<exists>a2 b1. isotp_round now (a1, b) = Some (a2, b1) \<and> is_out b1 = [] \<and>
    is_out a2 = take 8 (cf_frames (is_tx_id a) 1 (drop 59 m)) \<and>
    (is_tx_pending a2 \<longleftrightarrow> 563 < length m) \<and> receiving b1 1 (take 59 m) (drop 59 m) \<and>
    \<not> is_rx_complete b1 \<and> is_rx_last_activity_ms b1 = now \<and> is_state a2 = ISOTP_IDLE"
    using p1 p2 a2 b1 by (simp add: isotp_round_def)
qed

lemma received_sfd [simp]: "received (s\<lparr>is_out := xs\<rparr>) m \<longleftrightarrow> received s m"
  by (simp add: received_def)

lemma receiving_out [simp]: "receiving (s\<lparr>is_out := xs\<rparr>) q pre d \<longleftrightarrow> receiving s q pre d"
  by (simp add: receiving_def)

lemma receiving_state: "receiving s q pre d \<Longrightarrow> is_state s = ISOTP_RX_IN_PROGRESS"
  by (simp add: receiving_def)

text \<open>A round in which nothing is in flight and no timer runs changes nothing.\<close>

definition isotp_quiet :: "u32 \<Rightarrow> isotp \<Rightarrow> bool" where
  "isotp_quiet now s \<longleftrightarrow> is_out s = [] \<and>
     \<not> (is_state s = ISOTP_RX_IN_PROGRESS \<and> now - is_rx_last_activity_ms s \<ge> ISOTP_N_CR_MS)"

lemma quiet_round: "isotp_quiet now a \<Longrightarrow> isotp_quiet now b \<Longrightarrow> isotp_round now (a, b) = Some (a, b)"
  by (auto simp: isotp_quiet_def isotp_round_def isotp_pass_def isotp_poll_def)

lemma quiet_rounds: "isotp_quiet now a \<Longrightarrow> isotp_quiet now b \<Longrightarrow> isotp_rounds now n (a, b) = Some (a, b)"
  by (induction n) (simp_all add: quiet_round)

lemma isotp_rounds_Suc:
  "isotp_round now ab = Some ab1 \<Longrightarrow> isotp_rounds now (Suc n) ab = isotp_rounds now n ab1"
  by simp

lemma last_block:
  assumes a: "is_out a = take 8 (cf_frames i 1 (drop 59 m))" "is_state a = ISOTP_IDLE"
    and b: "receiving b 1 (take 59 m) (drop 59 m)" "is_out b = []" "\<not> is_rx_complete b"
      "is_rx_last_activity_ms b = now" and l: "62 < length m"
  shows "\<exists>b'. isotp_rounds now (Suc n) (a, b) = Some (a\<lparr>is_out := []\<rparr>, b') \<and> is_out b' = [] \<and>
    (if length m \<le> 563 then received b' m
     else is_state b' = ISOTP_RX_IN_PROGRESS \<and> \<not> is_rx_complete b')"
proof -
  have ne: "drop 59 m \<noteq> []" using l by simp
  have le: "length (drop 59 m) \<le> 63 * 8 \<longleftrightarrow> length m \<le> 563" using l by auto
  from receive_cfs [OF b(1) ne, where k = 8 and i = i and now = now, unfolded le append_take_drop_id]
  obtain b' where b': "handle_frames now (is_out a) b = Some b'" "is_out b' = []"
    "if length m \<le> 563 then received b' m
     else is_state b' = ISOTP_RX_IN_PROGRESS \<and> \<not> is_rx_complete b' \<and> is_rx_last_activity_ms b' = now"
    unfolding a(1) using b(2,3,4) by (auto split: if_splits dest: receiving_state)
  have q: "isotp_quiet now b'" "isotp_quiet now (a\<lparr>is_out := []\<rparr>)"
    using b' a(2) by (auto simp: isotp_quiet_def received_def isotp_consts split: if_splits)
  have "isotp_pass now a b = Some (a\<lparr>is_out := []\<rparr>, b')"
    unfolding isotp_pass_def using q(1) by (subst isotp_poll_quiet [OF b'(1)]) (simp_all add: isotp_quiet_def)
  moreover have "isotp_pass now b' (a\<lparr>is_out := []\<rparr>) = Some (b', a\<lparr>is_out := []\<rparr>)"
    using b'(2) a(2) by (simp add: isotp_pass_def isotp_poll_def)
  ultimately have "isotp_round now (a, b) = Some (a\<lparr>is_out := []\<rparr>, b')"
    by (simp add: isotp_round_def)
  then show ?thesis using quiet_rounds [OF q(2,1), of n] b'(2,3) by auto
qed

lemma exchange_long:
  assumes "isotp_idle a" and "isotp_idle b" and l: "62 < length m" "length m \<le> ISOTP_MAX_PAYLOAD"
  shows "\<exists>a' b'. isotp_rounds now (Suc (Suc n)) (snd (isotp_send m a), b) = Some (a', b') \<and>
    is_out a' = [] \<and> is_out b' = [] \<and> (is_tx_pending a' \<longleftrightarrow> 563 < length m) \<and>
    (if length m \<le> 563 then received b' m
     else is_state b' = ISOTP_RX_IN_PROGRESS \<and> \<not> is_rx_complete b')"
proof -
  obtain r a1 where send: "isotp_send m a = (r, a1)" by (metis surj_pair)
  from first_block(2) [OF assms send, of now] obtain a2 b1 where
    ab: "isotp_round now (a1, b) = Some (a2, b1)" "is_out b1 = []"
    "is_out a2 = take 8 (cf_frames (is_tx_id a) 1 (drop 59 m))" "is_tx_pending a2 \<longleftrightarrow> 563 < length m"
    "receiving b1 1 (take 59 m) (drop 59 m)" "\<not> is_rx_complete b1"
    "is_rx_last_activity_ms b1 = now" "is_state a2 = ISOTP_IDLE" by blast
  from last_block [OF ab(3,8,5,2,6,7) l(1), of n] obtain b' where
    b': "isotp_rounds now (Suc n) (a2, b1) = Some (a2\<lparr>is_out := []\<rparr>, b')" "is_out b' = []"
    "if length m \<le> 563 then received b' m
     else is_state b' = ISOTP_RX_IN_PROGRESS \<and> \<not> is_rx_complete b'" by blast
  have "isotp_rounds now (Suc (Suc n)) (snd (isotp_send m a), b) = Some (a2\<lparr>is_out := []\<rparr>, b')"
    unfolding send snd_conv isotp_rounds_Suc [OF ab(1)] by (rule b'(1))
  then show ?thesis using b'(2,3) ab(4) by auto
qed

lemma exchange_short:
  assumes a: "isotp_idle a" and b: "isotp_idle b" and l: "length m \<le> 62"
  shows "\<exists>a' b'. isotp_rounds now (Suc n) (snd (isotp_send m a), b) = Some (a', b') \<and>
    \<not> is_tx_pending a' \<and> received b' m"
proof -
  let ?f = "fd_frame (is_tx_id a) (ISOTP_PCI_TYPE_SF # of_nat (length m) # m)"
  have send: "snd (isotp_send m a) = a\<lparr>is_out := [?f]\<rparr>"
    unfolding isotp_send_def Let_def using a l by (simp add: isotp_idle_def can_send_def ISOTP_MAX_PAYLOAD_def)
  obtain b' where b': "handle_frame now ?f b = Some b'" "received b' m" "is_out b' = []"
    using receive_sf [of b m now "is_tx_id a"] b l by (auto simp: isotp_idle_def)
  have st: "is_state b' = ISOTP_RX_COMPLETE" using b'(2) by (simp add: received_def)
  have idle: "is_state a = ISOTP_IDLE" "is_out a = []" "\<not> is_tx_pending a" using a by (simp_all add: isotp_idle_def)
  have p: "isotp_poll now [?f] b = Some b'"
    by (intro isotp_poll_quiet) (simp_all add: b'(1) st)
  have "isotp_round now (a\<lparr>is_out := [?f]\<rparr>, b) = Some (a\<lparr>is_out := []\<rparr>, b'\<lparr>is_out := []\<rparr>)"
    using p by (simp add: isotp_round_def isotp_pass_def idle b'(3)) (simp add: isotp_poll_def idle)
  moreover have "isotp_rounds now n (a\<lparr>is_out := []\<rparr>, b'\<lparr>is_out := []\<rparr>) = Some (a\<lparr>is_out := []\<rparr>, b'\<lparr>is_out := []\<rparr>)"
    using st idle by (intro quiet_rounds) (simp_all add: isotp_quiet_def)
  ultimately show ?thesis unfolding send using b'(2) idle by simp
qed

text \<open>A peer that answers with block size 0, as a tester may, gets the whole message at once.\<close>

lemma whole_message:
  assumes a: "isotp_idle a" and b: "isotp_idle b" and l: "62 < length m" "length m \<le> ISOTP_MAX_PAYLOAD"
  shows "\<exists>a1 a2 b1 b2. isotp_send m a = (0, a1) \<and>
    isotp_poll now [fc_frame i 0] a1 = Some a2 \<and> isotp_poll now (is_out a2) b = Some b2 \<and>
    \<not> is_tx_pending a2 \<and> received b2 m"
proof -
  obtain s where s: "isotp_send m a = (0, s)" "is_out s = [ff_frame (is_tx_id a) m]" "sending s m"
    "is_tx_id s = is_tx_id a" "is_state s = ISOTP_IDLE"
    using send_first_frame [of a m] a l by (auto simp: isotp_idle_def)
  let ?n = "65535 :: nat"
  have fits: "length (cf_frames (is_tx_id a) 1 (drop 59 m)) \<le> ?n"
    using l by (simp add: length_cf_frames isotp_consts)
  obtain a2 where a2: "handle_frame now (fc_frame i 0) s = Some a2" "is_state a2 = ISOTP_IDLE"
    "is_out a2 = ff_frame (is_tx_id a) m # cf_frames (is_tx_id a) 1 (drop 59 m)" "\<not> is_tx_pending a2"
    using block_on_cts [OF s(3) l, of ?n 0 now i] s(2,4,5) l fits by (auto simp: isotp_consts)
  obtain b1 where b1: "handle_frame now (ff_frame (is_tx_id a) m) b = Some b1"
    "receiving b1 1 (take 59 m) (drop 59 m)"
    using receive_ff [of b m now "is_tx_id a"] b l by (auto simp: isotp_idle_def)
  have ne: "drop 59 m \<noteq> []" using l by simp
  obtain b2 where b2: "handle_frames now (cf_frames (is_tx_id a) 1 (drop 59 m)) b1 = Some b2" "received b2 m"
    using receive_cfs [OF b1(2) ne, where k = ?n and i = "is_tx_id a" and now = now] fits l
    by (auto simp: isotp_consts split: if_splits)
  have "isotp_poll now (is_out a2) b = Some b2"
    using b1(1) b2 by (intro isotp_poll_quiet) (simp_all add: a2(3) received_def)
  moreover have "isotp_poll now [fc_frame i 0] s = Some a2"
    by (intro isotp_poll_quiet) (simp_all add: a2(1,2))
  ultimately show ?thesis using s(1) a2(4) b2(2) by blast
qed

lemma exchange_arrives:
  assumes "isotp_idle a" and "isotp_idle b" and "length m \<le> 563"
  shows "\<exists>a' b'. isotp_rounds now 2 (snd (isotp_send m a), b) = Some (a', b') \<and> \<not> is_tx_pending a' \<and>
    fst (isotp_take_received ISOTP_MAX_PAYLOAD b') = Some m"
proof -
  have two: "2 = Suc (Suc 0)" by simp
  have "\<exists>a' b'. isotp_rounds now 2 (snd (isotp_send m a), b) = Some (a', b') \<and> \<not> is_tx_pending a' \<and> received b' m"
    using exchange_short [OF assms(1,2), of m now 1] exchange_long [OF assms(1,2), of m now 0] assms(3)
    unfolding two One_nat_def by (cases "length m \<le> 62") (auto simp: ISOTP_MAX_PAYLOAD_def)
  moreover have "length m \<le> ISOTP_MAX_PAYLOAD" using assms(3) by (simp add: ISOTP_MAX_PAYLOAD_def)
  ultimately show ?thesis using take_received by blast
qed

end
