(* ===== verification/Boot.thy ===== *)
theory Boot imports Crypto_Service begin

text \<open>
  The boot core of the first-stage bootloader, \<open>shared/boot/src/boot.c\<close>, with the types of
  \<open>boot_types.h\<close>: reset-cause classification, the retained handshake between application and
  bootloader, the boot-loop counter, image validity, the knock dwell and the boot decision.

  The port \<open>fbl_port.h\<close> is a record of functions over a world. Memory-mapped flash is a function
  from addresses. The build switch \<open>FBL_DIGEST_ALGO\<close> is the parameter \<open>alg\<close>, so both builds are
  modelled; in the SHA-256 build the verdict comes from \<open>fp_verify\<close>, to which \<open>crypto_verify_image\<close>
  is bound. The dwell loop runs on fuel.
\<close>

section \<open>Types and configuration\<close>

definition FBL_BOOTLOOP_THRESHOLD :: u32 where "FBL_BOOTLOOP_THRESHOLD = 3"
definition FBL_KNOCK_WINDOW_MS :: u32 where "FBL_KNOCK_WINDOW_MS = 2000"
definition FBL_APP_HEADER_OFFSET :: u32 where "FBL_APP_HEADER_OFFSET = 0x100"
definition FBL_HANDSHAKE_MAGIC :: u32 where "FBL_HANDSHAKE_MAGIC = 0xB007C0DE"
definition FBL_BACKUP_MAGIC :: u32 where "FBL_BACKUP_MAGIC = 0xB00710AD"
definition FBL_APP_HEADER_MAGIC :: u32 where "FBL_APP_HEADER_MAGIC = 0xA9900D01"
definition FBL_BREG_MAGIC_IDX :: u8 where "FBL_BREG_MAGIC_IDX = 0"
definition FBL_BREG_COUNTER_IDX :: u8 where "FBL_BREG_COUNTER_IDX = 1"
definition FBL_SRAM_BASE :: u32 where "FBL_SRAM_BASE = 0x08000000"
definition FBL_SRAM_SIZE :: u32 where "FBL_SRAM_SIZE = 128 * 1024"
definition FBL_APP_FLASH_BASE :: u32 where "FBL_APP_FLASH_BASE = 0x10040000"
definition FBL_APP_FLASH_SIZE :: u32 where "FBL_APP_FLASH_SIZE = 832 * 1024"
definition FBL_APP_HEADER_SIZE :: u32 where "FBL_APP_HEADER_SIZE = 12"

lemmas fbl_consts = FBL_BOOTLOOP_THRESHOLD_def FBL_KNOCK_WINDOW_MS_def FBL_APP_HEADER_OFFSET_def
  FBL_HANDSHAKE_MAGIC_def FBL_BACKUP_MAGIC_def FBL_APP_HEADER_MAGIC_def FBL_BREG_MAGIC_IDX_def
  FBL_BREG_COUNTER_IDX_def FBL_SRAM_BASE_def FBL_SRAM_SIZE_def FBL_APP_FLASH_BASE_def
  FBL_APP_FLASH_SIZE_def FBL_APP_HEADER_SIZE_def

datatype fbl_digest_algo = FBL_DIGEST_CRC32 | FBL_DIGEST_SHA256

fun FBL_DIGEST_SIZE :: "fbl_digest_algo \<Rightarrow> u32" where
  "FBL_DIGEST_SIZE FBL_DIGEST_CRC32 = 4"
| "FBL_DIGEST_SIZE FBL_DIGEST_SHA256 = 32"

fun FBL_SIG_SIZE :: "fbl_digest_algo \<Rightarrow> u32" where
  "FBL_SIG_SIZE FBL_DIGEST_CRC32 = 0"
| "FBL_SIG_SIZE FBL_DIGEST_SHA256 = 64"

fun FBL_KEY_ID_SIZE :: "fbl_digest_algo \<Rightarrow> u32" where
  "FBL_KEY_ID_SIZE FBL_DIGEST_CRC32 = 0"
| "FBL_KEY_ID_SIZE FBL_DIGEST_SHA256 = 4"

definition FBL_TRAILER_SIZE :: "fbl_digest_algo \<Rightarrow> u32" where
  "FBL_TRAILER_SIZE alg = FBL_DIGEST_SIZE alg + FBL_SIG_SIZE alg + FBL_KEY_ID_SIZE alg"

datatype fbl_reset_cause = FBL_RST_POWER_ON | FBL_RST_SOFTWARE | FBL_RST_WATCHDOG | FBL_RST_DEBUG
  | FBL_RST_HIBERNATE | FBL_RST_OTHER

datatype fbl_noinit_action = FBL_NOINIT_READ | FBL_NOINIT_PRIME

datatype fbl_lifecycle = FBL_LC_NORMAL | FBL_LC_TRANSITION_TO_SECURE | FBL_LC_SECURE | FBL_LC_RMA

datatype fbl_boot_mode = FBL_BOOT_APP | FBL_PROGRAMMING_REQUESTED

fun boot_mode_code :: "fbl_boot_mode \<Rightarrow> u8" where
  "boot_mode_code FBL_BOOT_APP = 0"
| "boot_mode_code FBL_PROGRAMMING_REQUESTED = 1"

record fbl_handshake =
  hs_magic :: u32
  hs_version :: u16
  hs_mode :: u8
  hs_reserved :: u8
  hs_crc32 :: u32

record fbl_app_header =
  ah_magic :: u32
  ah_hdr_version :: u16
  ah_hdr_size :: u16
  ah_image_len :: u32

datatype fbl_boot_action = FBL_ACTION_JUMP_APP | FBL_ACTION_PROGRAMMING_MODE

record 'w fbl_port =
  fp_reset_cause :: "'w \<Rightarrow> fbl_reset_cause"
  fp_clear_reset_cause :: "'w \<Rightarrow> 'w"
  fp_lifecycle :: "'w \<Rightarrow> fbl_lifecycle"
  fp_noinit :: "'w \<Rightarrow> fbl_handshake"
  fp_noinit_write :: "fbl_handshake \<Rightarrow> 'w \<Rightarrow> 'w"
  fp_prime_noinit :: "'w \<Rightarrow> 'w"
  fp_backup_read :: "u8 \<Rightarrow> 'w \<Rightarrow> u32"
  fp_backup_write :: "u8 \<Rightarrow> u32 \<Rightarrow> 'w \<Rightarrow> 'w"
  fp_now_ms :: "'w \<Rightarrow> u32 \<times> 'w"
  fp_tool_contact :: "'w \<Rightarrow> bool \<times> 'w"
  fp_app_image_base :: "u32 option"
  fp_app_region_len :: u32
  fp_mem :: "'w \<Rightarrow> u32 \<Rightarrow> u8"
  fp_verify :: "u32 \<Rightarrow> u32 \<Rightarrow> u32 \<Rightarrow> 'w \<Rightarrow> (crypto_verdict \<times> log_call list \<times> 'w) option"

section \<open>CRC-32\<close>

definition boot_crc32_bit :: "u32 \<Rightarrow> u32" where
  "boot_crc32_bit crc = drop_bit 1 crc XOR (0xEDB88320 AND (0 - (crc AND 1)))"

definition boot_crc32 :: "bytes \<Rightarrow> u32" where
  "boot_crc32 d = NOT (foldl (\<lambda>crc b. (boot_crc32_bit ^^ 8) (crc XOR ucast b)) 0xFFFFFFFF d)"

section \<open>Reset cause and handshake\<close>

fun fbl_classify_noinit :: "fbl_reset_cause \<Rightarrow> fbl_noinit_action" where
  "fbl_classify_noinit FBL_RST_SOFTWARE = FBL_NOINIT_READ"
| "fbl_classify_noinit FBL_RST_WATCHDOG = FBL_NOINIT_READ"
| "fbl_classify_noinit FBL_RST_DEBUG = FBL_NOINIT_READ"
| "fbl_classify_noinit FBL_RST_POWER_ON = FBL_NOINIT_PRIME"
| "fbl_classify_noinit FBL_RST_HIBERNATE = FBL_NOINIT_PRIME"
| "fbl_classify_noinit FBL_RST_OTHER = FBL_NOINIT_PRIME"

text \<open>The bytes before \<open>crc32\<close>, little-endian and without padding.\<close>

definition fbl_handshake_crc :: "fbl_handshake \<Rightarrow> u32" where
  "fbl_handshake_crc h =
     boot_crc32 (le32 (hs_magic h) @ le16 (hs_version h) @ [hs_mode h, hs_reserved h])"

definition fbl_handshake_valid :: "fbl_handshake \<Rightarrow> bool" where
  "fbl_handshake_valid h \<longleftrightarrow>
     (if hs_magic h \<noteq> FBL_HANDSHAKE_MAGIC then False else hs_crc32 h = fbl_handshake_crc h)"

definition boot_handshake_encode :: "fbl_handshake \<Rightarrow> fbl_boot_mode \<Rightarrow> fbl_handshake" where
  "boot_handshake_encode h mode =
     (let h1 = h\<lparr>hs_magic := FBL_HANDSHAKE_MAGIC, hs_version := 1, hs_mode := boot_mode_code mode,
                 hs_reserved := 0\<rparr> in
      h1\<lparr>hs_crc32 := fbl_handshake_crc h1\<rparr>)"

definition fbl_handshake_init_default :: "fbl_handshake \<Rightarrow> fbl_handshake" where
  "fbl_handshake_init_default h = boot_handshake_encode h FBL_BOOT_APP"

section \<open>The boot-loop counter\<close>

fun fbl_counter_update :: "fbl_reset_cause \<Rightarrow> bool \<Rightarrow> u32 \<Rightarrow> u32" where
  "fbl_counter_update FBL_RST_POWER_ON programming_requested current = 0"
| "fbl_counter_update FBL_RST_OTHER programming_requested current = 0"
| "fbl_counter_update FBL_RST_SOFTWARE programming_requested current =
     (if programming_requested then 0 else current + 1)"
| "fbl_counter_update FBL_RST_WATCHDOG programming_requested current = current + 1"
| "fbl_counter_update FBL_RST_DEBUG programming_requested current = current"
| "fbl_counter_update FBL_RST_HIBERNATE programming_requested current = current"

section \<open>Image validity\<close>

definition fbl_digest :: "fbl_digest_algo \<Rightarrow> bytes \<Rightarrow> bytes" where
  "fbl_digest alg d = (case alg of
     FBL_DIGEST_CRC32 \<Rightarrow>
       (let crc = boot_crc32 d in
        [ucast (crc AND 0xFF), ucast (drop_bit 8 crc AND 0xFF), ucast (drop_bit 16 crc AND 0xFF),
         ucast (drop_bit 24 crc AND 0xFF)])
   | FBL_DIGEST_SHA256 \<Rightarrow> replicate 32 0)"

definition fbl_vector_sane :: "u32 \<Rightarrow> u32 \<Rightarrow> bool" where
  "fbl_vector_sane msp reset =
     (let msp_ok = msp > FBL_SRAM_BASE \<and> msp \<le> FBL_SRAM_BASE + FBL_SRAM_SIZE \<and> msp AND 7 = 0;
          reset_ok = reset \<ge> FBL_APP_FLASH_BASE \<and> reset < FBL_APP_FLASH_BASE + FBL_APP_FLASH_SIZE \<and>
                     reset AND 1 = 1 in
      msp_ok \<and> reset_ok)"

text \<open>\<open>n\<close> bytes of memory from \<open>base + off\<close>.\<close>

definition mem_range :: "(u32 \<Rightarrow> u8) \<Rightarrow> u32 \<Rightarrow> u32 \<Rightarrow> nat \<Rightarrow> bytes" where
  "mem_range mem base off n = map (\<lambda>i. mem (base + off + of_nat i)) [0..<n]"

definition mem_u32 :: "(u32 \<Rightarrow> u8) \<Rightarrow> u32 \<Rightarrow> u32 \<Rightarrow> u32" where
  "mem_u32 mem base off = (let b = mem_range mem base off 4 in un_le32 (b ! 0) (b ! 1) (b ! 2) (b ! 3))"

definition read_app_header :: "(u32 \<Rightarrow> u8) \<Rightarrow> u32 \<Rightarrow> fbl_app_header" where
  "read_app_header mem base =
     (let b = mem_range mem base FBL_APP_HEADER_OFFSET 12 in
      \<lparr>ah_magic = un_le32 (b ! 0) (b ! 1) (b ! 2) (b ! 3), ah_hdr_version = un_le16 (b ! 4) (b ! 5),
       ah_hdr_size = un_le16 (b ! 6) (b ! 7), ah_image_len = un_le32 (b ! 8) (b ! 9) (b ! 10) (b ! 11)\<rparr>)"

definition fbl_app_image_valid ::
  "fbl_digest_algo \<Rightarrow> 'w fbl_port \<Rightarrow> u32 option \<Rightarrow> u32 \<Rightarrow> 'w \<Rightarrow> (bool \<times> log_call list \<times> 'w) option" where
  "fbl_app_image_valid alg p base region_len w = (case base of
     None \<Rightarrow> Some (False, [], w)
   | Some b \<Rightarrow>
       let mem = fp_mem p w;
           min_len = FBL_APP_HEADER_OFFSET + FBL_APP_HEADER_SIZE + FBL_TRAILER_SIZE alg in
       if region_len < min_len then Some (False, [], w)
       else
         let hdr = read_app_header mem b in
         if ah_magic hdr \<noteq> FBL_APP_HEADER_MAGIC then Some (False, [], w)
         else
           let image_len = ah_image_len hdr;
               vectors = (\<lambda>w. fbl_vector_sane (mem_u32 (fp_mem p w) b 0) (mem_u32 (fp_mem p w) b 4)) in
           if image_len < FBL_APP_HEADER_OFFSET + FBL_APP_HEADER_SIZE then Some (False, [], w)
           else if image_len > region_len - FBL_TRAILER_SIZE alg then Some (False, [], w)
           else (case alg of
               FBL_DIGEST_CRC32 \<Rightarrow>
                 if fbl_digest alg (mem_range mem b 0 (unat image_len)) \<noteq> mem_range mem b image_len 4
                 then Some (False, [], w) else Some (vectors w, [], w)
             | FBL_DIGEST_SHA256 \<Rightarrow>
                 let key_id = mem_u32 mem b (image_len + FBL_DIGEST_SIZE alg + FBL_SIG_SIZE alg) in
                 (case fp_verify p b image_len key_id w of
                    None \<Rightarrow> None
                  | Some (v, log, w1) \<Rightarrow>
                      if v \<noteq> CRYPTO_VERDICT_VALID then Some (False, log, w1)
                      else Some (vectors w1, log, w1))))"

section \<open>Knock dwell\<close>

primrec dwell_loop :: "'w fbl_port \<Rightarrow> nat \<Rightarrow> u32 \<Rightarrow> u32 \<Rightarrow> 'w \<Rightarrow> (bool \<times> 'w) option" where
  "dwell_loop p 0 start window_ms w = None"
| "dwell_loop p (Suc fuel) start window_ms w =
     (case fp_tool_contact p w of (contacted, w1) \<Rightarrow>
        (case fp_now_ms p w1 of (now, w2) \<Rightarrow>
           let expired = now - start \<ge> window_ms in
           if \<not> contacted \<and> \<not> expired then dwell_loop p fuel start window_ms w2
           else Some (contacted, w2)))"

definition fbl_dwell_for_tool :: "'w fbl_port \<Rightarrow> nat \<Rightarrow> u32 \<Rightarrow> 'w \<Rightarrow> (bool \<times> 'w) option" where
  "fbl_dwell_for_tool p fuel window_ms w =
     (case fp_now_ms p w of (start, w1) \<Rightarrow> dwell_loop p fuel start window_ms w1)"

section \<open>The decision\<close>

fun fbl_knock_allowed :: "fbl_lifecycle \<Rightarrow> bool" where
  "fbl_knock_allowed FBL_LC_NORMAL = True"
| "fbl_knock_allowed FBL_LC_TRANSITION_TO_SECURE = True"
| "fbl_knock_allowed FBL_LC_SECURE = False"
| "fbl_knock_allowed FBL_LC_RMA = False"

text \<open>The reconciliation of the retained region and the counter, then the tree.\<close>

definition reconcile_noinit :: "'w fbl_port \<Rightarrow> fbl_reset_cause \<Rightarrow> 'w \<Rightarrow> 'w" where
  "reconcile_noinit p cause w =
     (if fbl_classify_noinit cause = FBL_NOINIT_PRIME then
        let w1 = fp_prime_noinit p w in
        fp_noinit_write p (fbl_handshake_init_default (fp_noinit p w1)) w1
      else if \<not> fbl_handshake_valid (fp_noinit p w) then
        fp_noinit_write p (fbl_handshake_init_default (fp_noinit p w)) w
      else w)"

definition update_counter :: "'w fbl_port \<Rightarrow> fbl_reset_cause \<Rightarrow> bool \<Rightarrow> 'w \<Rightarrow> u32 \<times> 'w" where
  "update_counter p cause requested w =
     (let c0 = (if fp_backup_read p FBL_BREG_MAGIC_IDX w = FBL_BACKUP_MAGIC
                then fp_backup_read p FBL_BREG_COUNTER_IDX w else 0);
          c = fbl_counter_update cause requested c0;
          w1 = fp_backup_write p FBL_BREG_MAGIC_IDX FBL_BACKUP_MAGIC w in
      (c, fp_backup_write p FBL_BREG_COUNTER_IDX c w1))"

definition fbl_run_boot ::
  "fbl_digest_algo \<Rightarrow> 'w fbl_port \<Rightarrow> nat \<Rightarrow> 'w \<Rightarrow> (fbl_boot_action \<times> log_call list \<times> 'w) option" where
  "fbl_run_boot alg p fuel w =
     (let cause = fp_reset_cause p w;
          w2 = reconcile_noinit p cause (fp_clear_reset_cause p w);
          requested = hs_mode (fp_noinit p w2) = boot_mode_code FBL_PROGRAMMING_REQUESTED in
      case update_counter p cause requested w2 of (counter, w3) \<Rightarrow>
        if requested then Some (FBL_ACTION_PROGRAMMING_MODE, [], w3)
        else if counter > FBL_BOOTLOOP_THRESHOLD then Some (FBL_ACTION_PROGRAMMING_MODE, [], w3)
        else
          (case (if cause = FBL_RST_POWER_ON \<and> fbl_knock_allowed (fp_lifecycle p w3)
                 then fbl_dwell_for_tool p fuel FBL_KNOCK_WINDOW_MS w3 else Some (False, w3)) of
             None \<Rightarrow> None
           | Some (True, w4) \<Rightarrow> Some (FBL_ACTION_PROGRAMMING_MODE, [], w4)
           | Some (False, w4) \<Rightarrow>
               (case fbl_app_image_valid alg p (fp_app_image_base p) (fp_app_region_len p) w4 of
                  None \<Rightarrow> None
                | Some (valid, log, w5) \<Rightarrow>
                    Some (if valid then FBL_ACTION_JUMP_APP else FBL_ACTION_PROGRAMMING_MODE, log, w5))))"

section \<open>Digest and handshake\<close>

lemma handshake_encode_valid:
  "fbl_handshake_valid (boot_handshake_encode h mode) \<and>
   hs_mode (boot_handshake_encode h mode) = boot_mode_code mode"
  by (simp add: fbl_handshake_valid_def boot_handshake_encode_def Let_def fbl_handshake_crc_def)

lemma boot_mode_code_inject: "boot_mode_code a = boot_mode_code b \<longleftrightarrow> a = b"
  by (cases a; cases b) simp_all

text \<open>The mask form of the CRC step is the branching form.\<close>

lemma boot_crc32_bit_eq:
  "boot_crc32_bit crc = (if crc AND 1 \<noteq> 0 then drop_bit 1 crc XOR 0xEDB88320 else drop_bit 1 crc)"
proof (cases "bit crc 0")
  case True
  then have "crc AND 1 = 1" by (auto intro!: bit_word_eqI simp: bit_simps)
  then show ?thesis by (simp add: boot_crc32_bit_def)
next
  case False
  then have "crc AND 1 = 0" by (auto intro!: bit_word_eqI simp: bit_simps)
  then show ?thesis by (simp add: boot_crc32_bit_def)
qed

section \<open>What a jump implies\<close>

text \<open>The header, the image and its trailer lie inside the region; the vectors point where they must.\<close>

definition image_fits :: "fbl_digest_algo \<Rightarrow> u32 \<Rightarrow> fbl_app_header \<Rightarrow> bool" where
  "image_fits alg region_len hdr \<longleftrightarrow> ah_magic hdr = FBL_APP_HEADER_MAGIC \<and>
     unat FBL_APP_HEADER_OFFSET + 12 \<le> unat (ah_image_len hdr) \<and>
     unat (ah_image_len hdr) + unat (FBL_TRAILER_SIZE alg) \<le> unat region_len"

lemma trailer_size: "unat (FBL_TRAILER_SIZE alg) \<le> 100"
  by (cases alg) (simp_all add: FBL_TRAILER_SIZE_def)

lemma image_valid_cases:
  assumes "fbl_app_image_valid alg p base region_len w = Some (True, log, w')"
  obtains b where "base = Some b" "image_fits alg region_len (read_app_header (fp_mem p w) b)"
    "fbl_vector_sane (mem_u32 (fp_mem p w') b 0) (mem_u32 (fp_mem p w') b 4)"
    "alg = FBL_DIGEST_CRC32 \<longrightarrow> w' = w \<and>
       fbl_digest alg (mem_range (fp_mem p w) b 0 (unat (ah_image_len (read_app_header (fp_mem p w) b)))) =
         mem_range (fp_mem p w) b (ah_image_len (read_app_header (fp_mem p w) b)) 4"
    "alg = FBL_DIGEST_SHA256 \<longrightarrow>
       fp_verify p b (ah_image_len (read_app_header (fp_mem p w) b))
         (mem_u32 (fp_mem p w) b (96 + ah_image_len (read_app_header (fp_mem p w) b))) w =
         Some (CRYPTO_VERDICT_VALID, log, w')"
proof -
  from assms obtain b where b: "base = Some b" by (auto simp: fbl_app_image_valid_def split: option.splits)
  let ?h = "read_app_header (fp_mem p w) b"
  have ge: "\<not> region_len < FBL_APP_HEADER_OFFSET + FBL_APP_HEADER_SIZE + FBL_TRAILER_SIZE alg"
    and mg: "ah_magic ?h = FBL_APP_HEADER_MAGIC"
    and lo: "\<not> ah_image_len ?h < FBL_APP_HEADER_OFFSET + FBL_APP_HEADER_SIZE"
    and hi: "\<not> ah_image_len ?h > region_len - FBL_TRAILER_SIZE alg"
    using assms by (auto simp: fbl_app_image_valid_def b Let_def split: if_splits)
  have t: "FBL_TRAILER_SIZE alg \<le> region_len"
    using ge by (cases alg) (simp_all add: FBL_TRAILER_SIZE_def fbl_consts not_less word_le_nat_alt)
  have fits: "image_fits alg region_len ?h"
    using mg lo hi t
    by (simp add: image_fits_def not_less word_le_nat_alt unat_sub fbl_consts)
  show ?thesis
  proof (cases alg)
    case FBL_DIGEST_CRC32
    then show ?thesis
      using assms b ge mg lo hi fits by (intro that) (auto simp: fbl_app_image_valid_def Let_def split: if_splits)
  next
    case FBL_DIGEST_SHA256
    have vr: "fp_verify p b (ah_image_len ?h) (mem_u32 (fp_mem p w) b (96 + ah_image_len ?h)) w =
        Some (CRYPTO_VERDICT_VALID, log, w') \<and>
        fbl_vector_sane (mem_u32 (fp_mem p w') b 0) (mem_u32 (fp_mem p w') b 4)"
      using assms b ge mg lo hi FBL_DIGEST_SHA256
      by (auto simp: fbl_app_image_valid_def Let_def split: if_splits option.splits)
    then show ?thesis using b fits FBL_DIGEST_SHA256 by (intro that) auto
  qed
qed

lemma run_boot_jump:
  assumes "fbl_run_boot alg p fuel w = Some (FBL_ACTION_JUMP_APP, log, w')"
  obtains w2 c w3 w4 where "w2 = reconcile_noinit p (fp_reset_cause p w) (fp_clear_reset_cause p w)"
    "hs_mode (fp_noinit p w2) \<noteq> boot_mode_code FBL_PROGRAMMING_REQUESTED"
    "update_counter p (fp_reset_cause p w) False w2 = (c, w3)" "c \<le> FBL_BOOTLOOP_THRESHOLD"
    "w4 = w3 \<or> fp_reset_cause p w = FBL_RST_POWER_ON \<and> fbl_knock_allowed (fp_lifecycle p w3) \<and>
       fbl_dwell_for_tool p fuel FBL_KNOCK_WINDOW_MS w3 = Some (False, w4)"
    "fbl_app_image_valid alg p (fp_app_image_base p) (fp_app_region_len p) w4 = Some (True, log, w')"
proof -
  let ?w2 = "reconcile_noinit p (fp_reset_cause p w) (fp_clear_reset_cause p w)"
  have r: "hs_mode (fp_noinit p ?w2) \<noteq> boot_mode_code FBL_PROGRAMMING_REQUESTED"
    using assms by (auto simp: fbl_run_boot_def Let_def split: prod.splits)
  obtain c w3 where u: "update_counter p (fp_reset_cause p w) False ?w2 = (c, w3)" by (metis surj_pair)
  have c: "c \<le> FBL_BOOTLOOP_THRESHOLD"
    using assms r u by (auto simp: fbl_run_boot_def Let_def split: if_splits)
  obtain w4 where w4: "(if fp_reset_cause p w = FBL_RST_POWER_ON \<and> fbl_knock_allowed (fp_lifecycle p w3)
        then fbl_dwell_for_tool p fuel FBL_KNOCK_WINDOW_MS w3 else Some (False, w3)) = Some (False, w4)"
    and v: "fbl_app_image_valid alg p (fp_app_image_base p) (fp_app_region_len p) w4 = Some (True, log, w')"
    using assms r u c
    by (auto simp: fbl_run_boot_def Let_def split: option.splits bool.splits prod.splits if_splits)
  show ?thesis
    by (rule that [OF refl r u c _ v]) (use w4 in \<open>auto split: if_splits\<close>)
qed

section \<open>What a boot leaves behind\<close>

text \<open>
  The port keeps the retained handshake and the backup registers apart: a write to one is read back
  from it and leaves the others alone, and nothing else the boot core calls touches them.
\<close>

locale retained_port =
  fixes p :: "'w fbl_port"
  assumes noinit_write [simp]: "fp_noinit p (fp_noinit_write p h w) = h"
    and backup_of_noinit [simp]: "fp_backup_read p i (fp_noinit_write p h w) = fp_backup_read p i w"
    and backup_of_prime [simp]: "fp_backup_read p i (fp_prime_noinit p w) = fp_backup_read p i w"
    and noinit_of_clear [simp]: "fp_noinit p (fp_clear_reset_cause p w) = fp_noinit p w"
    and backup_of_clear [simp]: "fp_backup_read p i (fp_clear_reset_cause p w) = fp_backup_read p i w"
    and backup_write: "fp_backup_read p i (fp_backup_write p j v w) = (if i = j then v else fp_backup_read p i w)"
    and noinit_of_backup [simp]: "fp_noinit p (fp_backup_write p j v w) = fp_noinit p w"
    and noinit_of_contact: "fp_tool_contact p w = (b, w') \<Longrightarrow> fp_noinit p w' = fp_noinit p w \<and>
      fp_backup_read p i w' = fp_backup_read p i w"
    and noinit_of_now: "fp_now_ms p w = (t, w') \<Longrightarrow> fp_noinit p w' = fp_noinit p w \<and>
      fp_backup_read p i w' = fp_backup_read p i w"
    and noinit_of_verify: "fp_verify p a n k w = Some (vd, log, w') \<Longrightarrow> fp_noinit p w' = fp_noinit p w \<and>
      fp_backup_read p i w' = fp_backup_read p i w"
begin

definition boot_counter :: "'w \<Rightarrow> u32" where
  "boot_counter w = (if fp_backup_read p FBL_BREG_MAGIC_IDX w = FBL_BACKUP_MAGIC
     then fp_backup_read p FBL_BREG_COUNTER_IDX w else 0)"

definition requests_programming :: "'w \<Rightarrow> bool" where
  "requests_programming w \<longleftrightarrow> fbl_handshake_valid (fp_noinit p w) \<and>
     hs_mode (fp_noinit p w) = boot_mode_code FBL_PROGRAMMING_REQUESTED"

lemma reconciled:
  "fbl_handshake_valid (fp_noinit p (reconcile_noinit p cause w))"
  "hs_mode (fp_noinit p (reconcile_noinit p cause w)) = boot_mode_code FBL_PROGRAMMING_REQUESTED \<longleftrightarrow>
     fbl_classify_noinit cause = FBL_NOINIT_READ \<and> requests_programming w"
  "fp_backup_read p i (reconcile_noinit p cause w) = fp_backup_read p i w"
proof -
  note e = handshake_encode_valid [of _ FBL_BOOT_APP]
  show "fbl_handshake_valid (fp_noinit p (reconcile_noinit p cause w))"
    using e by (simp add: reconcile_noinit_def fbl_handshake_init_default_def Let_def)
  show "hs_mode (fp_noinit p (reconcile_noinit p cause w)) = boot_mode_code FBL_PROGRAMMING_REQUESTED \<longleftrightarrow>
     fbl_classify_noinit cause = FBL_NOINIT_READ \<and> requests_programming w"
    using e by (cases "fbl_classify_noinit cause")
      (simp_all add: reconcile_noinit_def fbl_handshake_init_default_def Let_def requests_programming_def)
  show "fp_backup_read p i (reconcile_noinit p cause w) = fp_backup_read p i w"
    by (simp add: reconcile_noinit_def Let_def)
qed

lemma counter_updated:
  assumes "update_counter p cause r w = (c, w')"
  shows "c = fbl_counter_update cause r (boot_counter w)" and "boot_counter w' = c"
    and "fp_backup_read p FBL_BREG_MAGIC_IDX w' = FBL_BACKUP_MAGIC"
    and "fp_noinit p w' = fp_noinit p w"
  using assms by (auto simp: update_counter_def Let_def boot_counter_def backup_write fbl_consts)

lemma boot_counter_of_reconcile [simp]: "boot_counter (reconcile_noinit p cause w) = boot_counter w"
  by (simp add: boot_counter_def reconciled)

lemma dwell_silent:
  "dwell_loop p fuel start win w = Some (b, w') \<Longrightarrow> fp_noinit p w' = fp_noinit p w \<and>
     fp_backup_read p i w' = fp_backup_read p i w"
proof (induction fuel arbitrary: w)
  case 0
  then show ?case by simp
next
  case (Suc fuel)
  obtain c w1 where c: "fp_tool_contact p w = (c, w1)" by (metis surj_pair)
  obtain t w2 where t: "fp_now_ms p w1 = (t, w2)" by (metis surj_pair)
  from Suc.prems c t Suc.IH [of w2] noinit_of_contact [OF c] noinit_of_now [OF t]
  show ?case by (auto simp: Let_def split: if_splits)
qed

lemma fbl_dwell_silent:
  assumes "fbl_dwell_for_tool p fuel win w = Some (b, w')"
  shows "fp_noinit p w' = fp_noinit p w" and "fp_backup_read p i w' = fp_backup_read p i w"
proof -
  obtain t w1 where t: "fp_now_ms p w = (t, w1)" by (metis surj_pair)
  then show "fp_noinit p w' = fp_noinit p w" and "fp_backup_read p i w' = fp_backup_read p i w"
    using assms noinit_of_now [OF t] dwell_silent [of fuel t win w1 b w']
    by (auto simp: fbl_dwell_for_tool_def)
qed

lemma image_valid_silent:
  assumes "fbl_app_image_valid alg p base len w = Some (r, log, w')"
  shows "fp_noinit p w' = fp_noinit p w" and "fp_backup_read p i w' = fp_backup_read p i w"
proof -
  have "w' = w \<or> (\<exists>a n k v log. fp_verify p a n k w = Some (v, log, w'))"
    using assms
    by (auto simp: fbl_app_image_valid_def Let_def split: option.splits if_splits fbl_digest_algo.splits)
  then show "fp_noinit p w' = fp_noinit p w" and "fp_backup_read p i w' = fp_backup_read p i w"
    using noinit_of_verify by blast+
qed

text \<open>
  Whatever it decides, a boot leaves a valid handshake and the counter the rule prescribes; the
  request it found is honoured before anything else, then the boot-loop threshold.
\<close>

lemma run_boot_leaves:
  assumes "fbl_run_boot alg p fuel w = Some (act, log, w')"
  defines "req \<equiv> fbl_classify_noinit (fp_reset_cause p w) = FBL_NOINIT_READ \<and> requests_programming w"
  shows "fbl_handshake_valid (fp_noinit p w')"
    and "boot_counter w' = fbl_counter_update (fp_reset_cause p w) req (boot_counter w)"
    and "req \<or> FBL_BOOTLOOP_THRESHOLD < boot_counter w' \<Longrightarrow> act = FBL_ACTION_PROGRAMMING_MODE"
proof -
  let ?w1 = "fp_clear_reset_cause p w"
  let ?w2 = "reconcile_noinit p (fp_reset_cause p w) ?w1"
  have rq: "hs_mode (fp_noinit p ?w2) = boot_mode_code FBL_PROGRAMMING_REQUESTED \<longleftrightarrow> req"
    unfolding reconciled(2) req_def by (simp add: requests_programming_def)
  obtain c w3 where u: "update_counter p (fp_reset_cause p w) req ?w2 = (c, w3)" by (metis surj_pair)
  note cu = counter_updated [OF u]
  have bc: "boot_counter ?w1 = boot_counter w" by (simp add: boot_counter_def)
  have c: "c = fbl_counter_update (fp_reset_cause p w) req (boot_counter w)" using cu(1) bc by simp
  have same: "fp_noinit p w' = fp_noinit p w3 \<and> boot_counter w' = boot_counter w3 \<and>
      (req \<or> FBL_BOOTLOOP_THRESHOLD < c \<longrightarrow> act = FBL_ACTION_PROGRAMMING_MODE)"
  proof (cases "req \<or> FBL_BOOTLOOP_THRESHOLD < c")
    case True
    then show ?thesis using assms(1) rq u by (auto simp: fbl_run_boot_def Let_def split: if_splits)
  next
    case False
    then obtain b w4 where d: "(if fp_reset_cause p w = FBL_RST_POWER_ON \<and> fbl_knock_allowed (fp_lifecycle p w3)
        then fbl_dwell_for_tool p fuel FBL_KNOCK_WINDOW_MS w3 else Some (False, w3)) = Some (b, w4)"
      and e: "w' = w4 \<or> (\<exists>r. fbl_app_image_valid alg p (fp_app_image_base p) (fp_app_region_len p) w4 =
        Some (r, log, w'))"
      using assms(1) rq u
      by (auto simp: fbl_run_boot_def Let_def split: option.splits bool.splits prod.splits if_splits)
    have 1: "fp_noinit p w4 = fp_noinit p w3 \<and> fp_backup_read p i w4 = fp_backup_read p i w3" for i
      using d fbl_dwell_silent by (auto split: if_splits)
    have 2: "fp_noinit p w' = fp_noinit p w4 \<and> fp_backup_read p i w' = fp_backup_read p i w4" for i
      using e image_valid_silent by blast
    show ?thesis using False 1 2 by (simp add: boot_counter_def)
  qed
  show "fbl_handshake_valid (fp_noinit p w')" using same cu(4) reconciled(1) by simp
  show "boot_counter w' = fbl_counter_update (fp_reset_cause p w) req (boot_counter w)"
    using same cu(2) c by simp
  show "req \<or> FBL_BOOTLOOP_THRESHOLD < boot_counter w' \<Longrightarrow> act = FBL_ACTION_PROGRAMMING_MODE"
    using same cu(2) by simp
qed

end

end
