(* ===== verification/Flash_Mem.thy ===== *)
theory Flash_Mem imports Boot Hal begin

text \<open>
  Flash as memory: blocks of addresses, reading across neighbouring blocks, and the contract
  \<open>image_flash\<close> of a flash an image can be downloaded to: a write that reports success leaves the
  data at the address, and no write changes anything outside its own block.
\<close>

text \<open>The addresses of a block of \<open>n\<close> bytes from \<open>base\<close>.\<close>

definition block_of :: "u32 \<Rightarrow> nat \<Rightarrow> u32 \<Rightarrow> bool" where
  "block_of base n a \<longleftrightarrow> unat (a - base) < n"

lemma block_split:
  assumes "n + m < 2 ^ 32" and "n = unat nn"
  shows "block_of base n a \<or> block_of (base + nn) m a \<longleftrightarrow> block_of base (n + m) a"
proof -
  have e: "a - (base + nn) = (a - base) - nn" by simp
  show ?thesis
  proof (cases "nn \<le> a - base")
    case True
    then have "unat ((a - base) - nn) = unat (a - base) - n" using assms(2) by (simp only: unat_sub)
    then show ?thesis using True assms(2) by (auto simp: block_of_def e word_le_nat_alt)
  next
    case False
    then show ?thesis using assms(2) by (simp add: block_of_def word_le_nat_alt)
  qed
qed

lemma block_disjoint:
  assumes "n + m < 2 ^ 32" and "n = unat nn" and "block_of base n a"
  shows "\<not> block_of (base + nn) m a"
proof -
  have e: "a - (base + nn) = (a - base) - nn" by simp
  have lt: "unat (a - base) < unat nn" using assms by (simp add: block_of_def)
  then have "\<not> nn \<le> a - base" by (simp add: word_le_nat_alt)
  then have "unat ((a - base) - nn) = unat (a - base) + 2 ^ 32 - n"
    using assms(2) by (simp add: unat_sub_if' word_le_nat_alt)
  then show ?thesis using assms(1) lt by (simp add: block_of_def e)
qed

lemma mem_range_append:
  "n = unat nn \<Longrightarrow> mem_range m base 0 (n + k) = mem_range m base 0 n @ mem_range m (base + nn) 0 k"
  by (rule nth_equalityI) (auto simp: mem_range_def nth_append algebra_simps of_nat_diff)

lemma mem_range_cong:
  assumes "\<And>a. block_of base n a \<Longrightarrow> m a = m' a" and "n < 2 ^ 32"
  shows "mem_range m base 0 n = mem_range m' base 0 n"
proof -
  have "block_of base n (base + of_nat i)" if "i < n" for i
    using that assms(2) by (simp add: block_of_def unat_of_nat)
  then show ?thesis using assms(1) by (simp add: mem_range_def)
qed

locale image_flash =
  fixes wr :: "u32 \<Rightarrow> bytes option \<Rightarrow> 'f \<Rightarrow> int \<times> 'f"
    and view :: "'f \<Rightarrow> u32 \<Rightarrow> u8"
  assumes wr_data: "length d \<le> 4096 \<Longrightarrow> wr a (Some d) f = (0, f') \<Longrightarrow> mem_range (view f') a 0 (length d) = d"
    and wr_frame: "length d \<le> 4096 \<Longrightarrow> wr a (Some d) f = (rc, f') \<Longrightarrow> \<not> block_of a (length d) x \<Longrightarrow>
      view f' x = view f x"
begin

text \<open>Writing behind what is already there appends to it.\<close>

lemma wr_appends:
  assumes "mem_range (view f) base 0 (unat n) = pre" and "length d \<le> 4096"
    and "wr (base + n) (Some d) f = (0, f')" and "unat n + length d < 2 ^ 32"
  shows "mem_range (view f') base 0 (unat n + length d) = pre @ d"
proof -
  have "view f' x = view f x" if "block_of base (unat n) x" for x
    using wr_frame [OF assms(2,3)] block_disjoint [OF assms(4) refl that] by blast
  then have "mem_range (view f') base 0 (unat n) = pre"
    using mem_range_cong [of base "unat n" "view f'" "view f"] assms(1,4) by simp
  then show ?thesis using wr_data [OF assms(2,3)] mem_range_append [of "unat n" n "view f'" base "length d"]
    by simp
qed

end

end
