(* ===== verification/Uds.thy ===== *)
theory Uds imports Isotp Flash_Mem begin

text \<open>
  The UDS diagnostic server of \<open>shared/diag/src\<close>: the handlers \<open>uds_session_control.c\<close>,
  \<open>uds_ecu_reset.c\<close>, \<open>uds_security_access.c\<close>, \<open>uds_download.c\<close> and \<open>uds_routine_control.c\<close>, and
  the session layer \<open>uds_session.c\<close> that dispatches a request received over ISO-TP.

  The modules' file-scope variables are the record \<open>uds\<close>; the flash and everything else a handler
  can reach is \<open>us_dev\<close>. A handler answers \<open>Inl nrc\<close>, or \<open>Inr body\<close> for a positive response;
  \<open>None\<close> is a call that does not return (a null function pointer, an endless loop). The request is
  the message without its service byte, \<open>cap\<close> the room for the body.
\<close>

section \<open>Types\<close>

definition UDS_SID_DIAGNOSTIC_SESSION_CONTROL :: u8 where "UDS_SID_DIAGNOSTIC_SESSION_CONTROL = 0x10"
definition UDS_SID_ECU_RESET :: u8 where "UDS_SID_ECU_RESET = 0x11"
definition UDS_SID_SECURITY_ACCESS :: u8 where "UDS_SID_SECURITY_ACCESS = 0x27"
definition UDS_SID_ROUTINE_CONTROL :: u8 where "UDS_SID_ROUTINE_CONTROL = 0x31"
definition UDS_SID_REQUEST_DOWNLOAD :: u8 where "UDS_SID_REQUEST_DOWNLOAD = 0x34"
definition UDS_SID_TRANSFER_DATA :: u8 where "UDS_SID_TRANSFER_DATA = 0x36"
definition UDS_SID_REQUEST_TRANSFER_EXIT :: u8 where "UDS_SID_REQUEST_TRANSFER_EXIT = 0x37"
definition UDS_SID_NEGATIVE_RESPONSE :: u8 where "UDS_SID_NEGATIVE_RESPONSE = 0x7F"
definition UDS_SECURITY_KEY_XOR_CONST :: u32 where "UDS_SECURITY_KEY_XOR_CONST = 0xA5A5A5A5"
definition UDS_S3_SERVER_MS :: u32 where "UDS_S3_SERVER_MS = 5000"
definition UDS_ROUTINE_ERASE_MEMORY :: u16 where "UDS_ROUTINE_ERASE_MEMORY = 0xFF00"
definition UDS_ROUTINE_CHECK_PROGRAMMED_IMAGE :: u16 where "UDS_ROUTINE_CHECK_PROGRAMMED_IMAGE = 0xFF01"

lemmas uds_sids = UDS_SID_DIAGNOSTIC_SESSION_CONTROL_def UDS_SID_ECU_RESET_def UDS_SID_SECURITY_ACCESS_def
  UDS_SID_ROUTINE_CONTROL_def UDS_SID_REQUEST_DOWNLOAD_def UDS_SID_TRANSFER_DATA_def
  UDS_SID_REQUEST_TRANSFER_EXIT_def UDS_SID_NEGATIVE_RESPONSE_def

datatype uds_nrc = UDS_NRC_GENERAL_REJECT | UDS_NRC_SERVICE_NOT_SUPPORTED | UDS_NRC_CONDITIONS_NOT_CORRECT
  | UDS_NRC_REQUEST_SEQUENCE_ERROR | UDS_NRC_REQUEST_OUT_OF_RANGE | UDS_NRC_SECURITY_ACCESS_DENIED
  | UDS_NRC_INVALID_KEY | UDS_NRC_TRANSFER_DATA_SUSPENDED | UDS_NRC_GENERAL_PROGRAMMING_FAILURE
  | UDS_NRC_WRONG_BLOCK_SEQUENCE_COUNTER | UDS_NRC_RESPONSE_PENDING

fun nrc_code :: "uds_nrc \<Rightarrow> u8" where
  "nrc_code UDS_NRC_GENERAL_REJECT = 0x10"
| "nrc_code UDS_NRC_SERVICE_NOT_SUPPORTED = 0x11"
| "nrc_code UDS_NRC_CONDITIONS_NOT_CORRECT = 0x22"
| "nrc_code UDS_NRC_REQUEST_SEQUENCE_ERROR = 0x24"
| "nrc_code UDS_NRC_REQUEST_OUT_OF_RANGE = 0x31"
| "nrc_code UDS_NRC_SECURITY_ACCESS_DENIED = 0x33"
| "nrc_code UDS_NRC_INVALID_KEY = 0x35"
| "nrc_code UDS_NRC_TRANSFER_DATA_SUSPENDED = 0x71"
| "nrc_code UDS_NRC_GENERAL_PROGRAMMING_FAILURE = 0x72"
| "nrc_code UDS_NRC_WRONG_BLOCK_SEQUENCE_COUNTER = 0x73"
| "nrc_code UDS_NRC_RESPONSE_PENDING = 0x78"

datatype uds_session_state = UDS_SESS_DEFAULT | UDS_SESS_PROGRAMMING
datatype uds_security_state = UDS_SEC_LOCKED | UDS_SEC_SEED_SENT | UDS_SEC_UNLOCKED
datatype uds_download_state = UDS_DOWNLOAD_IDLE | UDS_DOWNLOAD_ACTIVE | UDS_DOWNLOAD_DONE
datatype uds_session_event = UDS_SESSION_EVENT_NONE | UDS_SESSION_EVENT_RESET_REQUESTED

record 'f uds =
  us_session :: uds_session_state
  us_last_activity_ms :: u32
  us_isotp :: isotp
  sa_state :: uds_security_state
  sa_seed :: u32
  sa_seed_counter :: u32
  dl_state :: uds_download_state
  dl_addr :: u32
  dl_total_len :: u32
  dl_written_len :: u32
  dl_next_seq :: u8
  us_log :: "log_call list"
  us_dev :: 'f

type_synonym 'f uds_result = "((uds_nrc + bytes) \<times> 'f uds) option"

record 'f uds_handler =
  uh_sid :: u8
  uh_handle :: "bytes \<Rightarrow> nat \<Rightarrow> 'f uds \<Rightarrow> 'f uds_result"

section \<open>Handlers\<close>

definition uds_session_control :: "bytes \<Rightarrow> nat \<Rightarrow> 'f uds \<Rightarrow> 'f uds_result" where
  "uds_session_control req cap s =
     (if length req < 1 then Some (Inl UDS_NRC_REQUEST_OUT_OF_RANGE, s)
      else
        let subfunction = req ! 0 in
        if subfunction \<noteq> 1 \<and> subfunction \<noteq> 2 then Some (Inl UDS_NRC_REQUEST_OUT_OF_RANGE, s)
        else if cap < 1 then Some (Inl UDS_NRC_GENERAL_REJECT, s)
        else Some (Inr [subfunction], s))"

definition uds_ecu_reset :: "bytes \<Rightarrow> nat \<Rightarrow> 'f uds \<Rightarrow> 'f uds_result" where
  "uds_ecu_reset req cap s =
     (if length req < 1 then Some (Inl UDS_NRC_REQUEST_OUT_OF_RANGE, s)
      else if cap < 1 then Some (Inl UDS_NRC_GENERAL_REJECT, s)
      else Some (Inr [req ! 0], s))"

definition request_seed :: "nat \<Rightarrow> 'f uds \<Rightarrow> (uds_nrc + bytes) \<times> 'f uds" where
  "request_seed cap s =
     (let seed = sa_seed_counter s;
          s1 = s\<lparr>sa_seed := seed, sa_seed_counter := sa_seed_counter s + 1, sa_state := UDS_SEC_SEED_SENT\<rparr> in
      if cap < 5 then (Inl UDS_NRC_GENERAL_REJECT, s1)
      else (Inr [1, ucast (drop_bit 24 seed), ucast (drop_bit 16 seed), ucast (drop_bit 8 seed), ucast seed], s1))"

definition send_key :: "bytes \<Rightarrow> nat \<Rightarrow> 'f uds \<Rightarrow> (uds_nrc + bytes) \<times> 'f uds" where
  "send_key req cap s =
     (if sa_state s \<noteq> UDS_SEC_SEED_SENT then
        (Inl UDS_NRC_REQUEST_SEQUENCE_ERROR, s\<lparr>sa_state := UDS_SEC_LOCKED\<rparr>)
      else if length req < 5 then (Inl UDS_NRC_INVALID_KEY, s\<lparr>sa_state := UDS_SEC_LOCKED\<rparr>)
      else
        let key = push_bit 24 (ucast (req ! 1)) OR push_bit 16 (ucast (req ! 2)) OR
                  push_bit 8 (ucast (req ! 3)) OR ucast (req ! 4);
            expected = sa_seed s XOR UDS_SECURITY_KEY_XOR_CONST in
        if key \<noteq> expected then (Inl UDS_NRC_INVALID_KEY, s\<lparr>sa_state := UDS_SEC_LOCKED\<rparr>)
        else
          let s1 = s\<lparr>sa_state := UDS_SEC_UNLOCKED\<rparr> in
          if cap < 1 then (Inl UDS_NRC_GENERAL_REJECT, s1) else (Inr [2], s1))"

definition uds_security_access :: "bytes \<Rightarrow> nat \<Rightarrow> 'f uds \<Rightarrow> 'f uds_result" where
  "uds_security_access req cap s =
     (if length req < 1 then Some (Inl UDS_NRC_REQUEST_OUT_OF_RANGE, s)
      else if req ! 0 = 1 then Some (request_seed cap s)
      else if req ! 0 = 2 then Some (send_key req cap s)
      else Some (Inl UDS_NRC_REQUEST_OUT_OF_RANGE, s))"

definition uds_security_access_is_unlocked :: "'f uds \<Rightarrow> bool" where
  "uds_security_access_is_unlocked s \<longleftrightarrow> sa_state s = UDS_SEC_UNLOCKED"

definition uds_security_access_relock :: "'f uds \<Rightarrow> 'f uds" where
  "uds_security_access_relock s = s\<lparr>sa_state := UDS_SEC_LOCKED\<rparr>"

definition uds_download_init :: "'f uds \<Rightarrow> 'f uds" where
  "uds_download_init s = s\<lparr>dl_state := UDS_DOWNLOAD_IDLE\<rparr>"

definition request_download_handle :: "bytes \<Rightarrow> nat \<Rightarrow> 'f uds \<Rightarrow> 'f uds_result" where
  "request_download_handle req cap s =
     (if length req < 8 then Some (Inl UDS_NRC_REQUEST_OUT_OF_RANGE, s)
      else
        let s1 = s\<lparr>dl_addr := push_bit 24 (ucast (req ! 0)) OR push_bit 16 (ucast (req ! 1)) OR
                              push_bit 8 (ucast (req ! 2)) OR ucast (req ! 3),
                   dl_total_len := push_bit 24 (ucast (req ! 4)) OR push_bit 16 (ucast (req ! 5)) OR
                              push_bit 8 (ucast (req ! 6)) OR ucast (req ! 7),
                   dl_written_len := 0, dl_next_seq := 1, dl_state := UDS_DOWNLOAD_ACTIVE\<rparr> in
        if cap < 2 then Some (Inl UDS_NRC_GENERAL_REJECT, s1)
        else let max_block = 2048 :: u16 in Some (Inr [ucast (drop_bit 8 max_block), ucast max_block], s1))"

definition transfer_data_handle :: "'f hal_flash_if \<Rightarrow> bytes \<Rightarrow> nat \<Rightarrow> 'f uds \<Rightarrow> 'f uds_result" where
  "transfer_data_handle flash req cap s =
     (if dl_state s \<noteq> UDS_DOWNLOAD_ACTIVE then Some (Inl UDS_NRC_REQUEST_SEQUENCE_ERROR, s)
      else if length req < 1 then Some (Inl UDS_NRC_REQUEST_OUT_OF_RANGE, s)
      else
        let seq = req ! 0 in
        if seq \<noteq> dl_next_seq s then Some (Inl UDS_NRC_WRONG_BLOCK_SEQUENCE_COUNTER, s)
        else
          let data_len = length req - 1 in
          if dl_written_len s + of_nat data_len > dl_total_len s then Some (Inl UDS_NRC_REQUEST_OUT_OF_RANGE, s)
          else (case fl_write flash of
              None \<Rightarrow> None
            | Some wr \<Rightarrow>
                (case wr (dl_addr s + dl_written_len s) (Some (tl req)) (us_dev s) of (rc, d) \<Rightarrow>
                   let s1 = s\<lparr>us_dev := d\<rparr> in
                   if rc \<noteq> 0 then Some (Inl UDS_NRC_GENERAL_PROGRAMMING_FAILURE, s1)
                   else
                     let s2 = s1\<lparr>dl_written_len := dl_written_len s + of_nat data_len,
                                 dl_next_seq := dl_next_seq s + 1\<rparr> in
                     if cap < 1 then Some (Inl UDS_NRC_GENERAL_REJECT, s2) else Some (Inr [seq], s2))))"

definition request_transfer_exit_handle :: "bytes \<Rightarrow> nat \<Rightarrow> 'f uds \<Rightarrow> 'f uds_result" where
  "request_transfer_exit_handle req cap s =
     (if dl_state s \<noteq> UDS_DOWNLOAD_ACTIVE then Some (Inl UDS_NRC_REQUEST_SEQUENCE_ERROR, s)
      else if dl_written_len s \<noteq> dl_total_len s then
        Some (Inl UDS_NRC_REQUEST_SEQUENCE_ERROR, s\<lparr>dl_state := UDS_DOWNLOAD_IDLE\<rparr>)
      else Some (Inr [], s\<lparr>dl_state := UDS_DOWNLOAD_DONE\<rparr>))"

text \<open>The sector-by-sector erase of a flash without \<open>erase_range\<close>; it may run forever.\<close>

partial_function (option) erase_sectors ::
  "(u32 \<Rightarrow> 'f \<Rightarrow> int \<times> 'f) \<Rightarrow> u32 \<Rightarrow> u32 \<Rightarrow> u32 \<Rightarrow> u32 \<Rightarrow> 'f \<Rightarrow> (int \<times> 'f) option" where
  "erase_sectors es addr len sector off d =
     (if off < len then
        (case es (addr + off) d of (rc, d1) \<Rightarrow>
           if rc \<noteq> 0 then Some (- 1, d1) else erase_sectors es addr len sector (off + sector) d1)
      else Some (0, d))"

definition do_erase :: "'f hal_flash_if \<Rightarrow> bytes \<Rightarrow> nat \<Rightarrow> 'f uds \<Rightarrow> 'f uds_result" where
  "do_erase flash req cap s =
     (if length req < 11 then Some (Inl UDS_NRC_REQUEST_OUT_OF_RANGE, s)
      else
        let addr = push_bit 24 (ucast (req ! 3)) OR push_bit 16 (ucast (req ! 4)) OR
                   push_bit 8 (ucast (req ! 5)) OR ucast (req ! 6);
            len = push_bit 24 (ucast (req ! 7)) OR push_bit 16 (ucast (req ! 8)) OR
                  push_bit 8 (ucast (req ! 9)) OR ucast (req ! 10) in
        (case (case fl_erase_range flash of
                 Some er \<Rightarrow> Some (er addr len (us_dev s))
               | None \<Rightarrow> (case fl_erase_sector flash of
                     Some es \<Rightarrow> erase_sectors es addr len (fl_sector_size flash) 0 (us_dev s)
                   | None \<Rightarrow> if 0 < len then None else Some (0, us_dev s))) of
           None \<Rightarrow> None
         | Some (rc, d) \<Rightarrow>
             let s1 = s\<lparr>us_dev := d\<rparr> in
             if rc \<noteq> 0 then Some (Inl UDS_NRC_GENERAL_PROGRAMMING_FAILURE, s1)
             else if cap < 3 then Some (Inl UDS_NRC_GENERAL_REJECT, s1)
             else Some (Inr [req ! 0, req ! 1, req ! 2], s1)))"

definition do_check_image ::
  "fbl_digest_algo \<Rightarrow> 'f fbl_port \<Rightarrow> u32 option \<Rightarrow> u32 \<Rightarrow> bytes \<Rightarrow> nat \<Rightarrow> 'f uds \<Rightarrow> 'f uds_result" where
  "do_check_image alg p base region_len req cap s =
     (case fbl_app_image_valid alg p base region_len (us_dev s) of
        None \<Rightarrow> None
      | Some (valid, log, d) \<Rightarrow>
          let s1 = s\<lparr>us_dev := d, us_log := us_log s @ log\<rparr> in
          if \<not> valid then Some (Inl UDS_NRC_GENERAL_PROGRAMMING_FAILURE, s1)
          else if cap < 4 then Some (Inl UDS_NRC_GENERAL_REJECT, s1)
          else Some (Inr [req ! 0, req ! 1, req ! 2, 0], s1))"

definition uds_routine_control ::
  "'f hal_flash_if \<Rightarrow> fbl_digest_algo \<Rightarrow> 'f fbl_port \<Rightarrow> u32 option \<Rightarrow> u32 \<Rightarrow>
   bytes \<Rightarrow> nat \<Rightarrow> 'f uds \<Rightarrow> 'f uds_result" where
  "uds_routine_control flash alg p base region_len req cap s =
     (if length req < 3 then Some (Inl UDS_NRC_REQUEST_OUT_OF_RANGE, s)
      else if req ! 0 \<noteq> 1 then Some (Inl UDS_NRC_REQUEST_OUT_OF_RANGE, s)
      else
        let routine_id = push_bit 8 (ucast (req ! 1)) OR ucast (req ! 2) in
        if routine_id = UDS_ROUTINE_ERASE_MEMORY then do_erase flash req cap s
        else if routine_id = UDS_ROUTINE_CHECK_PROGRAMMED_IMAGE then
          do_check_image alg p base region_len req cap s
        else Some (Inl UDS_NRC_REQUEST_OUT_OF_RANGE, s))"

section \<open>Session\<close>

definition uds_session_init :: "'f uds \<Rightarrow> 'f uds" where
  "uds_session_init s = s\<lparr>us_session := UDS_SESS_DEFAULT, us_last_activity_ms := 0\<rparr>"

definition uds_find_handler :: "'f uds_handler list \<Rightarrow> u8 \<Rightarrow> 'f uds_handler option" where
  "uds_find_handler table sid = map_option (nth table) (first_index (\<lambda>h. uh_sid h = sid) table)"

definition uds_respond :: "bytes \<Rightarrow> 'f uds \<Rightarrow> 'f uds" where
  "uds_respond msg s = s\<lparr>us_isotp := snd (isotp_send msg (us_isotp s))\<rparr>"

definition send_negative :: "u8 \<Rightarrow> uds_nrc \<Rightarrow> 'f uds \<Rightarrow> 'f uds" where
  "send_negative sid nrc s = uds_respond [UDS_SID_NEGATIVE_RESPONSE, sid, nrc_code nrc] s"

text \<open>After a positive response: the session transition or the reset event.\<close>

definition session_followup :: "u8 \<Rightarrow> bytes \<Rightarrow> 'f uds \<Rightarrow> uds_session_event \<times> 'f uds" where
  "session_followup sid body s =
     (if sid = UDS_SID_DIAGNOSTIC_SESSION_CONTROL then
        (UDS_SESSION_EVENT_NONE,
         if body ! 0 = 1 then uds_security_access_relock (s\<lparr>us_session := UDS_SESS_DEFAULT\<rparr>)
         else if body ! 0 = 2 then s\<lparr>us_session := UDS_SESS_PROGRAMMING\<rparr>
         else s)
      else if sid = UDS_SID_ECU_RESET then (UDS_SESSION_EVENT_RESET_REQUESTED, s)
      else (UDS_SESSION_EVENT_NONE, s))"

definition uds_dispatch ::
  "'f uds_handler list \<Rightarrow> u32 \<Rightarrow> bytes \<Rightarrow> 'f uds \<Rightarrow> (uds_session_event \<times> 'f uds) option" where
  "uds_dispatch table now_ms msg s =
     (let sid = msg ! 0 in
      case uds_find_handler table sid of
        None \<Rightarrow> Some (UDS_SESSION_EVENT_NONE, send_negative sid UDS_NRC_SERVICE_NOT_SUPPORTED s)
      | Some h \<Rightarrow>
          (case uh_handle h (tl msg) (ISOTP_MAX_PAYLOAD - 1) s of
             None \<Rightarrow> None
           | Some (Inl nrc, s1) \<Rightarrow> Some (UDS_SESSION_EVENT_NONE, send_negative sid nrc s1)
           | Some (Inr body, s1) \<Rightarrow>
               Some (session_followup sid body
                       ((uds_respond (sid # body) s1)\<lparr>us_last_activity_ms := now_ms\<rparr>))))"

text \<open>The S3 server timer.\<close>

definition s3_check :: "u32 \<Rightarrow> 'f uds \<Rightarrow> 'f uds" where
  "s3_check now_ms s =
     (if us_session s \<noteq> UDS_SESS_DEFAULT \<and> now_ms - us_last_activity_ms s \<ge> UDS_S3_SERVER_MS
      then uds_security_access_relock (s\<lparr>us_session := UDS_SESS_DEFAULT\<rparr>) else s)"

definition uds_session_tick ::
  "'f uds_handler list \<Rightarrow> u32 \<Rightarrow> can_raw_frame list \<Rightarrow> 'f uds \<Rightarrow> (uds_session_event \<times> 'f uds) option" where
  "uds_session_tick table now_ms frames s =
     (case isotp_poll now_ms frames (us_isotp s) of
        None \<Rightarrow> None
      | Some i \<Rightarrow>
          let s1 = s3_check now_ms (s\<lparr>us_isotp := i\<rparr>) in
          (case isotp_take_received ISOTP_MAX_PAYLOAD (us_isotp s1) of
             (None, i1) \<Rightarrow> Some (UDS_SESSION_EVENT_NONE, s1\<lparr>us_isotp := i1\<rparr>)
           | (Some msg, i1) \<Rightarrow>
               let s2 = s1\<lparr>us_isotp := i1\<rparr> in
               if length msg < 1 then Some (UDS_SESSION_EVENT_NONE, s2)
               else uds_dispatch table now_ms msg s2))"

definition uds_session_current :: "'f uds \<Rightarrow> uds_session_state" where
  "uds_session_current s = us_session s"

definition uds_session_is_unlocked :: "'f uds \<Rightarrow> bool" where
  "uds_session_is_unlocked s = uds_security_access_is_unlocked s"

definition uds_download_current_state :: "'f uds \<Rightarrow> uds_download_state" where
  "uds_download_current_state s = dl_state s"

section \<open>Download\<close>

text \<open>A whole transfer as a client makes it: the request, the blocks in order, the exit.\<close>

primrec transfer_all :: "'f hal_flash_if \<Rightarrow> nat \<Rightarrow> bytes list \<Rightarrow> 'f uds \<Rightarrow> 'f uds option" where
  "transfer_all flash cap [] s = Some s"
| "transfer_all flash cap (b # bs) s =
     (case transfer_data_handle flash (dl_next_seq s # b) cap s of
        Some (Inr _, s1) \<Rightarrow> transfer_all flash cap bs s1
      | _ \<Rightarrow> None)"

definition download :: "'f hal_flash_if \<Rightarrow> nat \<Rightarrow> u32 \<Rightarrow> u32 \<Rightarrow> bytes list \<Rightarrow> 'f uds \<Rightarrow> 'f uds option" where
  "download flash cap addr image_len blocks s =
     (case request_download_handle (be32 addr @ be32 image_len) cap s of
        Some (Inr _, s1) \<Rightarrow>
          (case transfer_all flash cap blocks s1 of
             None \<Rightarrow> None
           | Some s2 \<Rightarrow>
               (case request_transfer_exit_handle [] cap s2 of Some (Inr _, s3) \<Rightarrow> Some s3 | _ \<Rightarrow> None))
      | _ \<Rightarrow> None)"

lemma be32_word:
  "push_bit 24 (ucast (be32 v ! 0)) OR push_bit 16 (ucast (be32 v ! 1)) OR
     push_bit 8 (ucast (be32 v ! 2)) OR ucast (be32 v ! 3) = v"
  by (simp add: be32_def le32_def un_be32_be32)

lemma length_be32 [simp]: "length (be32 v) = 4"
  by (simp add: be32_def)

lemma request_download_starts:
  assumes "request_download_handle (be32 addr @ be32 image_len) cap s = Some (Inr r, s1)"
  shows "s1 = s\<lparr>dl_addr := addr, dl_total_len := image_len, dl_written_len := 0, dl_next_seq := 1,
    dl_state := UDS_DOWNLOAD_ACTIVE\<rparr>"
proof -
  let ?r = "be32 addr @ be32 image_len"
  have n: "?r ! 0 = be32 addr ! 0" "?r ! 1 = be32 addr ! 1" "?r ! 2 = be32 addr ! 2" "?r ! 3 = be32 addr ! 3"
    "?r ! 4 = be32 image_len ! 0" "?r ! 5 = be32 image_len ! 1" "?r ! 6 = be32 image_len ! 2" "?r ! 7 = be32 image_len ! 3"
    by (simp_all add: nth_append)
  show ?thesis using assms unfolding request_download_handle_def n be32_word
    by (auto simp: Let_def split: if_splits)
qed

lemma transfer_data_cases:
  assumes "transfer_data_handle flash (q # b) cap s = Some (Inr r, s1)"
  obtains wr d where "dl_state s = UDS_DOWNLOAD_ACTIVE" "q = dl_next_seq s" "fl_write flash = Some wr"
    "wr (dl_addr s + dl_written_len s) (Some b) (us_dev s) = (0, d)"
    "dl_written_len s + of_nat (length b) \<le> dl_total_len s"
    "s1 = s\<lparr>us_dev := d, dl_written_len := dl_written_len s + of_nat (length b), dl_next_seq := dl_next_seq s + 1\<rparr>"
  using assms
  by (auto simp: transfer_data_handle_def Let_def not_less split: if_splits option.splits prod.splits)

context image_flash begin

lemma transfer_all_data:
  "fl_write flash = Some wr \<Longrightarrow> transfer_all flash cap blocks s = Some s' \<Longrightarrow>
   (\<And>b. b \<in> set blocks \<Longrightarrow> length b \<le> 4096) \<Longrightarrow> unat (dl_total_len s) + 4096 < 2 ^ 32 \<Longrightarrow>
   dl_written_len s \<le> dl_total_len s \<Longrightarrow>
   mem_range (view (us_dev s)) (dl_addr s) 0 (unat (dl_written_len s)) = pre \<Longrightarrow>
     dl_addr s' = dl_addr s \<and> dl_total_len s' = dl_total_len s \<and>
     mem_range (view (us_dev s')) (dl_addr s) 0 (unat (dl_written_len s')) = pre @ concat blocks"
proof (induction blocks arbitrary: s pre)
  case Nil
  then show ?case by simp
next
  case (Cons b bs)
  obtain r s1 where s1: "transfer_data_handle flash (dl_next_seq s # b) cap s = Some (Inr r, s1)"
    "transfer_all flash cap bs s1 = Some s'"
    using Cons.prems(2) by (auto split: option.splits sum.splits prod.splits)
  obtain d where d: "wr (dl_addr s + dl_written_len s) (Some b) (us_dev s) = (0, d)"
    "dl_written_len s + of_nat (length b) \<le> dl_total_len s"
    "s1 = s\<lparr>us_dev := d, dl_written_len := dl_written_len s + of_nat (length b), dl_next_seq := dl_next_seq s + 1\<rparr>"
    using transfer_data_cases [OF s1(1)] Cons.prems(1) by (metis option.inject)
  have b: "length b \<le> 4096" using Cons.prems(3) by simp
  have w: "unat (dl_written_len s) \<le> unat (dl_total_len s)" using Cons.prems(5) by (simp add: word_le_nat_alt)
  have fit: "unat (dl_written_len s) + length b < 2 ^ 32" using w b Cons.prems(4) by simp
  then have u: "unat (dl_written_len s + of_nat (length b)) = unat (dl_written_len s) + length b"
    by (simp add: unat_word_ariths unat_of_nat)
  have "mem_range (view d) (dl_addr s) 0 (unat (dl_written_len s) + length b) = pre @ b"
    by (rule wr_appends [OF Cons.prems(6) b d(1) fit])
  then have "dl_addr s' = dl_addr s1 \<and> dl_total_len s' = dl_total_len s1 \<and>
      mem_range (view (us_dev s')) (dl_addr s1) 0 (unat (dl_written_len s')) = (pre @ b) @ concat bs"
    by (intro Cons.IH [OF Cons.prems(1) s1(2)])
       (use Cons.prems(3,4) d(2) u in \<open>simp_all add: d(3)\<close>)
  then show ?case using d(3) by simp
qed

lemma download_data:
  assumes "fl_write flash = Some wr" and "download flash cap addr image_len blocks s = Some s'"
    and "\<And>b. b \<in> set blocks \<Longrightarrow> length b \<le> 4096" and "unat image_len + 4096 < 2 ^ 32"
  shows "mem_range (view (us_dev s')) addr 0 (unat image_len) = concat blocks"
    and "dl_state s' = UDS_DOWNLOAD_DONE" and "length (concat blocks) = unat image_len"
proof -
  from assms(2) obtain r1 s1 s2 r3 where s1: "request_download_handle (be32 addr @ be32 image_len) cap s = Some (Inr r1, s1)"
    and s2: "transfer_all flash cap blocks s1 = Some s2"
    and s3: "request_transfer_exit_handle [] cap s2 = Some (Inr r3, s')"
    by (auto simp: download_def split: option.splits sum.splits prod.splits)
  note st = request_download_starts [OF s1]
  have "dl_addr s2 = dl_addr s1 \<and> dl_total_len s2 = dl_total_len s1 \<and>
      mem_range (view (us_dev s2)) (dl_addr s1) 0 (unat (dl_written_len s2)) = [] @ concat blocks"
    using assms(3,4) st by (intro transfer_all_data [OF assms(1) s2]) (auto simp: mem_range_def)
  moreover have e: "dl_written_len s2 = dl_total_len s2 \<and> s' = s2\<lparr>dl_state := UDS_DOWNLOAD_DONE\<rparr>"
    using s3 by (auto simp: request_transfer_exit_handle_def split: if_splits)
  ultimately show m: "mem_range (view (us_dev s')) addr 0 (unat image_len) = concat blocks"
    and "dl_state s' = UDS_DOWNLOAD_DONE" using st by auto
  show "length (concat blocks) = unat image_len"
    using arg_cong [OF m, of length] by (simp add: mem_range_def)
qed

end

section \<open>Ticks\<close>

text \<open>What every handler keeps and the session layer's own updates keep, a tick keeps.\<close>

lemma uds_find_handler_in: "uds_find_handler table sid = Some h \<Longrightarrow> h \<in> set table \<and> uh_sid h = sid"
  by (auto simp: uds_find_handler_def dest: first_index_Some_D)

lemma s3_check_cases:
  "s3_check now s = s \<or> s3_check now s = s\<lparr>us_session := UDS_SESS_DEFAULT, sa_state := UDS_SEC_LOCKED\<rparr>"
  by (simp add: s3_check_def uds_security_access_relock_def)

lemma followup_cases:
  "snd (session_followup sid body s) = s \<or>
   snd (session_followup sid body s) = s\<lparr>us_session := UDS_SESS_DEFAULT, sa_state := UDS_SEC_LOCKED\<rparr> \<or>
   snd (session_followup sid body s) = s\<lparr>us_session := UDS_SESS_PROGRAMMING\<rparr>"
  by (simp add: session_followup_def uds_security_access_relock_def)

text \<open>The message a tick serves, and the state it is served in.\<close>

definition tick_request :: "u32 \<Rightarrow> can_raw_frame list \<Rightarrow> 'f uds \<Rightarrow> (bytes option \<times> 'f uds) option" where
  "tick_request now_ms frames s =
     (case isotp_poll now_ms frames (us_isotp s) of
        None \<Rightarrow> None
      | Some i \<Rightarrow>
          let s1 = s3_check now_ms (s\<lparr>us_isotp := i\<rparr>);
              t = isotp_take_received ISOTP_MAX_PAYLOAD (us_isotp s1) in
          Some (case fst t of None \<Rightarrow> None | Some msg \<Rightarrow> if msg = [] then None else Some msg,
                s1\<lparr>us_isotp := snd t\<rparr>))"

lemma tick_eq:
  "uds_session_tick table now_ms frames s =
     (case tick_request now_ms frames s of
        None \<Rightarrow> None
      | Some (None, s1) \<Rightarrow> Some (UDS_SESSION_EVENT_NONE, s1)
      | Some (Some msg, s1) \<Rightarrow> uds_dispatch table now_ms msg s1)"
  by (auto simp: uds_session_tick_def tick_request_def Let_def split: option.splits prod.splits)

lemma take_received_bound: "fst (isotp_take_received cap i) = Some msg \<Longrightarrow> length msg \<le> cap"
  by (auto simp: isotp_take_received_def split: if_splits)

lemma tick_request_state:
  assumes "tick_request now frames s = Some (m, s1)"
  obtains i i1 where "s1 = (s3_check now (s\<lparr>us_isotp := i\<rparr>))\<lparr>us_isotp := i1\<rparr>"
  using assms by (auto simp: tick_request_def Let_def split: option.splits)

lemma tick_request_len: "tick_request now frames s = Some (Some msg, s1) \<Longrightarrow> msg \<noteq> [] \<and> length msg \<le> 4096"
  by (auto simp: tick_request_def Let_def ISOTP_MAX_PAYLOAD_def split: option.splits if_splits
      dest!: take_received_bound)

lemma tick_keeps:
  assumes tick: "uds_session_tick table now frames s = Some (e, s')" and "I s"
    and iso: "\<And>s i. I s \<Longrightarrow> I (s\<lparr>us_isotp := i\<rparr>)"
    and lock: "\<And>s. I s \<Longrightarrow> I (s\<lparr>us_session := UDS_SESS_DEFAULT, sa_state := UDS_SEC_LOCKED\<rparr>)"
    and prog: "\<And>s. I s \<Longrightarrow> I (s\<lparr>us_session := UDS_SESS_PROGRAMMING\<rparr>)"
    and act: "\<And>s t. I s \<Longrightarrow> I (s\<lparr>us_last_activity_ms := t\<rparr>)"
    and handler: "\<And>h req r s s'. h \<in> set table \<Longrightarrow> length req \<le> 4095 \<Longrightarrow> I s \<Longrightarrow>
      uh_handle h req (ISOTP_MAX_PAYLOAD - 1) s = Some (r, s') \<Longrightarrow> I s'"
  shows "I s'"
proof -
  obtain m s1 where m: "tick_request now frames s = Some (m, s1)"
    using tick by (auto simp: tick_eq split: option.splits)
  obtain i i1 where s1: "s1 = (s3_check now (s\<lparr>us_isotp := i\<rparr>))\<lparr>us_isotp := i1\<rparr>"
    using tick_request_state [OF m] .
  have "I (s\<lparr>us_isotp := i\<rparr>)" using iso \<open>I s\<close> by blast
  then have "I (s3_check now (s\<lparr>us_isotp := i\<rparr>))"
    using s3_check_cases [of now "s\<lparr>us_isotp := i\<rparr>"] lock by metis
  then have I1: "I s1" unfolding s1 by (rule iso)
  show ?thesis
  proof (cases m)
    case None
    then show ?thesis using tick m I1 by (simp add: tick_eq)
  next
    case (Some msg)
    then have d: "uds_dispatch table now msg s1 = Some (e, s')" using tick m by (simp add: tick_eq)
    show ?thesis
    proof (cases "uds_find_handler table (msg ! 0)")
      case None
      then show ?thesis using d I1 iso by (auto simp: uds_dispatch_def Let_def send_negative_def uds_respond_def)
    next
      case h: (Some h)
      have l: "length (tl msg) \<le> 4095" using tick_request_len [of now frames s msg s1] m Some by auto
      from d h obtain r s2 where r: "uh_handle h (tl msg) (ISOTP_MAX_PAYLOAD - 1) s1 = Some (r, s2)"
        by (auto simp: uds_dispatch_def Let_def split: option.splits)
      have I2: "I s2" using handler [OF conjunct1 [OF uds_find_handler_in [OF h]] l I1 r] .
      show ?thesis
      proof (cases r)
        case (Inl nrc)
        then show ?thesis using d h r I2 iso
          by (auto simp: uds_dispatch_def Let_def send_negative_def uds_respond_def)
      next
        case (Inr body)
        let ?s3 = "(uds_respond (msg ! 0 # body) s2)\<lparr>us_last_activity_ms := now\<rparr>"
        have I3: "I ?s3" using I2 iso act by (simp add: uds_respond_def)
        have "session_followup (msg ! 0) body ?s3 = (e, s')"
          using d h r Inr by (simp add: uds_dispatch_def Let_def)
        then have s': "s' = snd (session_followup (msg ! 0) body ?s3)" by simp
        show ?thesis unfolding s'
          using followup_cases [of "msg ! 0" body ?s3] I3 lock prog by metis
      qed
    qed
  qed
qed

text \<open>The S3 timer.\<close>

lemma s3_relocks:
  assumes "us_session s \<noteq> UDS_SESS_DEFAULT" and "now - us_last_activity_ms s \<ge> UDS_S3_SERVER_MS"
    and "tick_request now frames s = Some (m, s1)"
  shows "us_session s1 = UDS_SESS_DEFAULT \<and> sa_state s1 = UDS_SEC_LOCKED"
  using assms by (auto simp: tick_request_def Let_def s3_check_def uds_security_access_relock_def
      split: option.splits if_splits)

text \<open>A single-frame request in the default session.\<close>

lemma tick_request_sf:
  assumes b: "length (is_rx_buf (us_isotp s)) = ISOTP_MAX_PAYLOAD" and d: "us_session s = UDS_SESS_DEFAULT"
    and m: "m \<noteq> []" "length m \<le> 62"
  shows "\<exists>i. tick_request now [fd_frame j (ISOTP_PCI_TYPE_SF # of_nat (length m) # m)] s =
    Some (Some m, s\<lparr>us_isotp := i\<rparr>) \<and> length (is_rx_buf i) = ISOTP_MAX_PAYLOAD"
proof -
  let ?f = "fd_frame j (ISOTP_PCI_TYPE_SF # of_nat (length m) # m)"
  obtain i where i: "handle_frame now ?f (us_isotp s) = Some i" "received i m"
    "length (is_rx_buf i) = ISOTP_MAX_PAYLOAD"
    using receive_sf [OF b m(2), of now j] b by auto
  have p: "isotp_poll now [?f] (us_isotp s) = Some i"
    by (rule isotp_poll_quiet) (use i in \<open>simp_all add: received_def\<close>)
  have "fst (isotp_take_received ISOTP_MAX_PAYLOAD i) = Some m"
    by (rule take_received [OF i(2)]) (use m in \<open>simp add: ISOTP_MAX_PAYLOAD_def\<close>)
  moreover have "is_rx_buf (snd (isotp_take_received c i)) = is_rx_buf i" for c
    by (simp add: isotp_take_received_def)
  ultimately show ?thesis using d m i(3) by (auto simp: tick_request_def p Let_def s3_check_def)
qed

end
