(* ===== verification/Fbl_Port.thy ===== *)
theory Fbl_Port imports Boot Crypto_Link begin

text \<open>
  The bootloader's target port of the boot core (\<open>node_a_gateway/bootloader/proj_cm4/src\<close>):
  \<open>port_reset.c\<close>, \<open>port_noinit.c\<close>, \<open>port_backup.c\<close>, \<open>port_security.c\<close>, \<open>port_time.c\<close>,
  \<open>port_image.c\<close>, the tool-contact poll of \<open>port_can.c\<close>, and the reset sequence of \<open>fbl_diag.c\<close>,
  over a world that holds the registers, the retained memory, the code flash and the link to the
  security core. The reset-reason bits are constants of the vendor library: the record \<open>bits\<close>.
\<close>

section \<open>The world\<close>

record cy_reset_bits =
  HIB_WAKEUP :: u32
  PORVDDD :: u32
  BODVDDD :: u32
  BODVDDA :: u32
  BODVCCD :: u32
  XRES :: u32
  PXRES :: u32
  SOFT :: u32
  HWWDT :: u32
  SWWDT0 :: u32
  SWWDT1 :: u32
  SWWDT2 :: u32
  SWWDT3 :: u32
  TC_DBGRESET :: u32

text \<open>
  \<open>fw_rx\<close>: the identifiers of the frames waiting at each look at the receive FIFO.
\<close>

record 'h fbl_world =
  fw_reason :: u32
  fw_handshake :: fbl_handshake
  fw_breg :: "u8 \<Rightarrow> u32"
  fw_protection :: u32
  fw_clock :: u32
  fw_tick :: u32
  fw_rx :: "u32 list list"
  fw_flash :: "u32 \<Rightarrow> u8"
  fw_link :: "'h link"
  fw_raw_erase_status :: u32
  fw_raw_program_status :: u32

section \<open>The port\<close>

definition FBL_KNOCK_CAN_ID :: u32 where "FBL_KNOCK_CAN_ID = 0x7A0"

definition FBL_RST_COLD_MASK :: "cy_reset_bits \<Rightarrow> u32" where
  "FBL_RST_COLD_MASK b = PORVDDD b OR BODVDDD b OR BODVDDA b OR BODVCCD b OR XRES b OR PXRES b"

definition FBL_RST_WDT_MASK :: "cy_reset_bits \<Rightarrow> u32" where
  "FBL_RST_WDT_MASK b = HWWDT b OR SWWDT0 b OR SWWDT1 b OR SWWDT2 b OR SWWDT3 b"

definition fbl_port_reset_cause :: "cy_reset_bits \<Rightarrow> 'h fbl_world \<Rightarrow> fbl_reset_cause" where
  "fbl_port_reset_cause b w =
     (let reason = fw_reason w in
      if reason AND HIB_WAKEUP b \<noteq> 0 then FBL_RST_HIBERNATE
      else if reason AND FBL_RST_COLD_MASK b \<noteq> 0 then FBL_RST_POWER_ON
      else if reason AND SOFT b \<noteq> 0 then FBL_RST_SOFTWARE
      else if reason AND FBL_RST_WDT_MASK b \<noteq> 0 then FBL_RST_WATCHDOG
      else if reason AND TC_DBGRESET b \<noteq> 0 then FBL_RST_DEBUG
      else FBL_RST_OTHER)"

definition fbl_port_clear_reset_cause :: "'h fbl_world \<Rightarrow> 'h fbl_world" where
  "fbl_port_clear_reset_cause w = w\<lparr>fw_reason := 0\<rparr>"

definition fbl_port_lifecycle :: "'h fbl_world \<Rightarrow> fbl_lifecycle" where
  "fbl_port_lifecycle w =
     (let state = fw_protection w in
      if state = 1 \<or> state = 2 then FBL_LC_NORMAL
      else if state = 3 then FBL_LC_SECURE
      else FBL_LC_SECURE)"

definition fbl_port_noinit :: "'h fbl_world \<Rightarrow> fbl_handshake" where
  "fbl_port_noinit w = fw_handshake w"

definition fbl_port_prime_noinit :: "'h fbl_world \<Rightarrow> 'h fbl_world" where
  "fbl_port_prime_noinit w = w\<lparr>fw_handshake :=
     \<lparr>hs_magic = 0, hs_version = 0, hs_mode = 0, hs_reserved = 0, hs_crc32 = 0\<rparr>\<rparr>"

definition fbl_port_backup_read :: "u8 \<Rightarrow> 'h fbl_world \<Rightarrow> u32" where
  "fbl_port_backup_read idx w = fw_breg w idx"

definition fbl_port_backup_write :: "u8 \<Rightarrow> u32 \<Rightarrow> 'h fbl_world \<Rightarrow> 'h fbl_world" where
  "fbl_port_backup_write idx v w = w\<lparr>fw_breg := (fw_breg w)(idx := v)\<rparr>"

text \<open>The tick interrupt advances the clock between two reads.\<close>

definition fbl_port_now_ms :: "'h fbl_world \<Rightarrow> u32 \<times> 'h fbl_world" where
  "fbl_port_now_ms w = (fw_clock w, w\<lparr>fw_clock := fw_clock w + fw_tick w\<rparr>)"

definition fbl_port_tool_contact :: "'h fbl_world \<Rightarrow> bool \<times> 'h fbl_world" where
  "fbl_port_tool_contact w = (case fw_rx w of
     [] \<Rightarrow> (False, w)
   | ids # later \<Rightarrow>
       (foldl (\<lambda>contact i. if i = FBL_KNOCK_CAN_ID then True else contact) False ids, w\<lparr>fw_rx := later\<rparr>))"

definition fbl_port_app_image_base :: "u32 option" where
  "fbl_port_app_image_base = Some FBL_APP_FLASH_BASE"

definition fbl_port_app_region_len :: u32 where
  "fbl_port_app_region_len = FBL_APP_FLASH_SIZE"

text \<open>\<open>crypto_verify_image\<close> through the port bound by \<open>crypto_service_init(fbl_crypto_port())\<close>.\<close>

definition fbl_verify_image ::
  "nat \<Rightarrow> 'h crypto_handler_if list \<Rightarrow> u32 \<Rightarrow> u32 \<Rightarrow> u32 \<Rightarrow> 'h fbl_world \<Rightarrow>
   (crypto_verdict \<times> log_call list \<times> 'h fbl_world) option" where
  "fbl_verify_image fuel table base len key w =
     (case crypto_verify_image fuel (Some (g_crypto_port table)) base len key (fw_link w) of
        None \<Rightarrow> None
      | Some (v, log, lk) \<Rightarrow> Some (v, log, w\<lparr>fw_link := lk\<rparr>))"

definition fbl_target :: "cy_reset_bits \<Rightarrow> nat \<Rightarrow> 'h crypto_handler_if list \<Rightarrow> 'h fbl_world fbl_port" where
  "fbl_target b fuel table =
     \<lparr>fp_reset_cause = fbl_port_reset_cause b, fp_clear_reset_cause = fbl_port_clear_reset_cause,
      fp_lifecycle = fbl_port_lifecycle, fp_noinit = fbl_port_noinit,
      fp_noinit_write = (\<lambda>h w. w\<lparr>fw_handshake := h\<rparr>), fp_prime_noinit = fbl_port_prime_noinit,
      fp_backup_read = fbl_port_backup_read, fp_backup_write = fbl_port_backup_write,
      fp_now_ms = fbl_port_now_ms, fp_tool_contact = fbl_port_tool_contact,
      fp_app_image_base = fbl_port_app_image_base, fp_app_region_len = fbl_port_app_region_len,
      fp_mem = fw_flash, fp_verify = fbl_verify_image fuel table\<rparr>"

text \<open>The sequence after a requested ECU reset, up to the reset itself.\<close>

definition fbl_diag_reset :: "fbl_handshake \<Rightarrow> 'h fbl_world \<Rightarrow> 'h fbl_world" where
  "fbl_diag_reset h w =
     (let h1 = boot_handshake_encode h FBL_BOOT_APP;
          w1 = w\<lparr>fw_handshake := h1\<rparr> in
      fbl_port_backup_write FBL_BREG_COUNTER_IDX 0 w1)"

text \<open>The application's request, written before its own system reset (\<open>reprogram.c\<close>).\<close>

definition fbl_port_system_reset :: "cy_reset_bits \<Rightarrow> 'h fbl_world \<Rightarrow> 'h fbl_world" where
  "fbl_port_system_reset b w = w\<lparr>fw_reason := SOFT b\<rparr>"

section \<open>The port keeps the contract\<close>

lemmas fbl_port_defs = fbl_target_def fbl_port_noinit_def fbl_port_prime_noinit_def
  fbl_port_backup_read_def fbl_port_backup_write_def fbl_port_clear_reset_cause_def
  fbl_port_now_ms_def fbl_port_tool_contact_def fbl_verify_image_def

interpretation target: retained_port "fbl_target b fuel table" for b fuel table
  by unfold_locales (auto simp: fbl_port_defs split: list.splits option.splits)

lemma boot_counter_target:
  "target.boot_counter b fuel table w =
     (if fw_breg w FBL_BREG_MAGIC_IDX = FBL_BACKUP_MAGIC then fw_breg w FBL_BREG_COUNTER_IDX else 0)"
  unfolding target.boot_counter_def by (simp add: fbl_target_def fbl_port_backup_read_def)

lemma requests_target:
  "target.requests_programming b fuel table w \<longleftrightarrow> fbl_handshake_valid (fw_handshake w) \<and>
     hs_mode (fw_handshake w) = boot_mode_code FBL_PROGRAMMING_REQUESTED"
  unfolding target.requests_programming_def by (simp add: fbl_target_def fbl_port_noinit_def)

section \<open>Knock dwell\<close>

text \<open>While the clock runs, the dwell ends: one poll per tick of the window is enough.\<close>

lemma dwell_loop_ends:
  "0 < fw_tick w \<Longrightarrow> fw_tick w < 0x80000000 \<Longrightarrow> window_ms \<le> 0x80000000 \<Longrightarrow> 0 < fuel \<Longrightarrow>
   unat window_ms < unat (fw_clock w - start) + fuel \<Longrightarrow>
     \<exists>c w'. dwell_loop (fbl_target b vf table) fuel start window_ms w = Some (c, w')"
proof (induction fuel arbitrary: w)
  case 0
  then show ?case by simp
next
  case (Suc fuel)
  let ?p = "fbl_target b vf table :: 'a fbl_world fbl_port"
  obtain c w1 where c: "fp_tool_contact ?p w = (c, w1)" by (metis surj_pair)
  then have w1: "fw_clock w1 = fw_clock w" "fw_tick w1 = fw_tick w"
    by (auto simp: fbl_port_defs split: list.splits)
  let ?w2 = "w1\<lparr>fw_clock := fw_clock w1 + fw_tick w1\<rparr>"
  have now: "fp_now_ms ?p w1 = (fw_clock w1, ?w2)" by (simp add: fbl_port_defs)
  show ?case
  proof (cases "c \<or> fw_clock w - start \<ge> window_ms")
    case True
    then show ?thesis using c now w1 by auto
  next
    case False
    have e: "unat (fw_clock w - start) < 2 ^ 31" "unat (fw_tick w) < 2 ^ 31" "0 < unat (fw_tick w)"
      using False Suc.prems by (auto simp: word_less_nat_alt word_le_nat_alt)
    have d: "fw_clock ?w2 - start = (fw_clock w - start) + fw_tick w" using w1 by simp
    have u: "unat (fw_clock ?w2 - start) = unat (fw_clock w - start) + unat (fw_tick w)"
      unfolding d using e by (simp only: unat_word_ariths) simp
    have f: "unat window_ms < unat (fw_clock ?w2 - start) + fuel" using Suc.prems(5) u e by simp
    have n: "0 < fuel"
    proof (rule ccontr)
      assume "\<not> 0 < fuel"
      then have "unat window_ms < unat (fw_clock w - start) + 1" using Suc.prems(5) by simp
      then show False using False by (simp add: word_le_nat_alt)
    qed
    obtain c' w' where "dwell_loop ?p fuel start window_ms ?w2 = Some (c', w')"
      using Suc.IH [of ?w2] Suc.prems(1-3) n f w1 by auto
    then show ?thesis using c now False w1 by auto
  qed
qed

lemma fbl_dwell_ends:
  assumes "0 < fw_tick w" and "fw_tick w < 0x80000000" and "2001 \<le> fuel"
  shows "\<exists>c w'. fbl_dwell_for_tool (fbl_target b vf table) fuel FBL_KNOCK_WINDOW_MS w = Some (c, w')"
proof -
  let ?p = "fbl_target b vf table :: 'a fbl_world fbl_port"
  let ?w1 = "w\<lparr>fw_clock := fw_clock w + fw_tick w\<rparr>"
  have now: "fp_now_ms ?p w = (fw_clock w, ?w1)" by (simp add: fbl_port_defs)
  have "\<exists>c w'. dwell_loop ?p fuel (fw_clock w) FBL_KNOCK_WINDOW_MS ?w1 = Some (c, w')"
    by (rule dwell_loop_ends) (use assms in \<open>simp_all add: fbl_consts\<close>)
  then show ?thesis by (simp add: fbl_dwell_for_tool_def now)
qed

section \<open>Secure boot\<close>

text \<open>
  In the SHA-256 build a jump has the security core's VALID verdict on the image in code flash
  behind it: the stored hash is the hash of the image and the signature check passed.
\<close>

lemma do_verify_VALID:
  assumes "fst (do_verify_image hw base len pub h) = CRYPTO_VERDICT_VALID"
  obtains digest h1 h2 where "hw_sha hw (mem_bytes hw h base (unat len)) h = (Some digest, h1)"
    "digest = mem_bytes hw h (base + len) 32"
    "hw_ecc_verify hw (reverse32 (mem_bytes hw h (base + len + 32) 64) @
        reverse32 (drop 32 (mem_bytes hw h (base + len + 32) 64))) digest
       (reverse32 pub) (reverse32 (drop 32 pub)) h1 = (Some 1, h2)"
  using assms
  by (auto simp: do_verify_image_def Let_def TRAILER_HASH_OFF_def TRAILER_SIG_OFF_def ECC_P256_BYTES_def
      split: prod.splits option.splits if_splits)

text \<open>Nothing before the image check touches the code flash or the link.\<close>

definition keeps_image :: "'h fbl_world \<Rightarrow> 'h fbl_world \<Rightarrow> bool" where
  "keeps_image w w' \<longleftrightarrow> fw_flash w' = fw_flash w \<and> fw_link w' = fw_link w"

lemma keeps_dwell:
  "dwell_loop (fbl_target b fuel table) n start win w = Some (c, w') \<Longrightarrow> keeps_image w w'"
  by (induction n arbitrary: w)
     (auto simp: keeps_image_def fbl_port_defs Let_def split: list.splits if_splits)

lemma keeps_boot:
  assumes "w2 = reconcile_noinit (fbl_target b fuel table) cause (fp_clear_reset_cause (fbl_target b fuel table) w)"
    and "update_counter (fbl_target b fuel table) cause r w2 = (c, w3)"
    and "w4 = w3 \<or> x \<and> y \<and> fbl_dwell_for_tool (fbl_target b fuel table) n win w3 = Some (False, w4)"
  shows "keeps_image w w4"
proof -
  have "keeps_image w w2" using assms(1)
    by (auto simp: keeps_image_def reconcile_noinit_def Let_def fbl_port_defs)
  moreover have "keeps_image w2 w3" using assms(2)
    by (auto simp: keeps_image_def update_counter_def Let_def fbl_port_defs)
  moreover have "keeps_image w3 w4"
  proof (cases "w4 = w3")
    case True
    then show ?thesis by (simp add: keeps_image_def)
  next
    case False
    then have d: "fbl_dwell_for_tool (fbl_target b fuel table) n win w3 = Some (False, w4)"
      using assms(3) by blast
    have now: "fp_now_ms (fbl_target b fuel table) w3 = (fw_clock w3, w3\<lparr>fw_clock := fw_clock w3 + fw_tick w3\<rparr>)"
      by (simp add: fbl_target_def fbl_port_now_ms_def)
    show ?thesis using keeps_dwell [OF d [unfolded fbl_dwell_for_tool_def now prod.case]]
      by (simp add: keeps_image_def)
  qed
  ultimately show ?thesis by (simp add: keeps_image_def)
qed

lemma secure_jump:
  assumes "fbl_run_boot FBL_DIGEST_SHA256 (fbl_target b fuel (g_handlers hw keys)) fuel' w =
      Some (FBL_ACTION_JUMP_APP, log, w')"
  defines "hdr \<equiv> read_app_header (fw_flash w) FBL_APP_FLASH_BASE"
  shows "image_fits FBL_DIGEST_SHA256 FBL_APP_FLASH_SIZE hdr"
    and "fst (verify_verdict hw keys FBL_APP_FLASH_BASE (ah_image_len hdr)
      (mem_u32 (fw_flash w) FBL_APP_FLASH_BASE (96 + ah_image_len hdr)) (lk_hw (fw_link w))) = CRYPTO_VERDICT_VALID"
    and "fbl_vector_sane (mem_u32 (fw_flash w) FBL_APP_FLASH_BASE 0) (mem_u32 (fw_flash w) FBL_APP_FLASH_BASE 4)"
proof -
  let ?p = "fbl_target b fuel (g_handlers hw keys)"
  from run_boot_jump [OF assms(1)] obtain w2 c w3 w4 where
    w: "w2 = reconcile_noinit ?p (fp_reset_cause ?p w) (fp_clear_reset_cause ?p w)"
      "update_counter ?p (fp_reset_cause ?p w) False w2 = (c, w3)"
      "w4 = w3 \<or> fp_reset_cause ?p w = FBL_RST_POWER_ON \<and> fbl_knock_allowed (fp_lifecycle ?p w3) \<and>
       fbl_dwell_for_tool ?p fuel' FBL_KNOCK_WINDOW_MS w3 = Some (False, w4)"
    and v: "fbl_app_image_valid FBL_DIGEST_SHA256 ?p (fp_app_image_base ?p) (fp_app_region_len ?p) w4 =
      Some (True, log, w')" by metis
  have k: "fw_flash w4 = fw_flash w" "fw_link w4 = fw_link w"
    using keeps_boot [OF w] by (simp_all add: keeps_image_def)
  have sel: "fp_mem ?p = fw_flash" "fp_app_image_base ?p = Some FBL_APP_FLASH_BASE"
    "fp_app_region_len ?p = FBL_APP_FLASH_SIZE" "fp_verify ?p = fbl_verify_image fuel (g_handlers hw keys)"
    by (simp_all add: fbl_target_def fbl_port_app_image_base_def fbl_port_app_region_len_def)
  from image_valid_cases [OF v] sel k have fit: "image_fits FBL_DIGEST_SHA256 FBL_APP_FLASH_SIZE hdr"
    and vec: "fbl_vector_sane (mem_u32 (fw_flash w') FBL_APP_FLASH_BASE 0) (mem_u32 (fw_flash w') FBL_APP_FLASH_BASE 4)"
    and ver: "fbl_verify_image fuel (g_handlers hw keys) FBL_APP_FLASH_BASE (ah_image_len hdr)
       (mem_u32 (fw_flash w) FBL_APP_FLASH_BASE (96 + ah_image_len hdr)) w4 = Some (CRYPTO_VERDICT_VALID, log, w')"
    unfolding hdr_def by (metis option.inject)+
  show "image_fits FBL_DIGEST_SHA256 FBL_APP_FLASH_SIZE hdr" by (rule fit)
  from ver obtain lk where vi: "crypto_verify_image fuel (Some (g_crypto_port (g_handlers hw keys)))
      FBL_APP_FLASH_BASE (ah_image_len hdr) (mem_u32 (fw_flash w) FBL_APP_FLASH_BASE (96 + ah_image_len hdr))
      (fw_link w) = Some (CRYPTO_VERDICT_VALID, log, lk)" and w': "w' = w4\<lparr>fw_link := lk\<rparr>"
    by (auto simp: fbl_verify_image_def k split: option.splits)
  show "fst (verify_verdict hw keys FBL_APP_FLASH_BASE (ah_image_len hdr)
      (mem_u32 (fw_flash w) FBL_APP_FLASH_BASE (96 + ah_image_len hdr)) (lk_hw (fw_link w))) = CRYPTO_VERDICT_VALID"
    by (rule verify_image_served [OF vi]) simp
  show "fbl_vector_sane (mem_u32 (fw_flash w) FBL_APP_FLASH_BASE 0) (mem_u32 (fw_flash w) FBL_APP_FLASH_BASE 4)"
    using vec w' k by simp
qed

section \<open>Resets\<close>

text \<open>The bits of the vendor library: a software reset is none of the causes tested before it.\<close>

definition soft_distinct :: "cy_reset_bits \<Rightarrow> bool" where
  "soft_distinct b \<longleftrightarrow> SOFT b \<noteq> 0 \<and> SOFT b AND HIB_WAKEUP b = 0 \<and> SOFT b AND FBL_RST_COLD_MASK b = 0"

lemma soft_cause:
  "soft_distinct b \<Longrightarrow> fbl_port_reset_cause b (fbl_port_system_reset b w) = FBL_RST_SOFTWARE"
  by (simp add: soft_distinct_def fbl_port_reset_cause_def fbl_port_system_reset_def Let_def)

text \<open>A request written by the application survives its reset and keeps the bootloader in control.\<close>

lemma programming_request:
  assumes "soft_distinct b" and "fw_handshake w = boot_handshake_encode h FBL_PROGRAMMING_REQUESTED"
    and "fbl_run_boot alg (fbl_target b fuel table) fuel' (fbl_port_system_reset b w) = Some (act, log, w')"
  shows "act = FBL_ACTION_PROGRAMMING_MODE"
proof -
  let ?w = "fbl_port_system_reset b w"
  have c: "fp_reset_cause (fbl_target b fuel table) ?w = FBL_RST_SOFTWARE"
    using soft_cause [OF assms(1)] by (simp add: fbl_target_def)
  have r: "target.requests_programming b fuel table ?w"
    unfolding requests_target
    using assms(2) handshake_encode_valid [of h FBL_PROGRAMMING_REQUESTED] by (simp add: fbl_port_system_reset_def)
  show ?thesis using target.run_boot_leaves(3) [OF assms(3)] c r by simp
qed

text \<open>After an ECU reset the decision is the image check alone: no request, no fallback, no dwell.\<close>

lemma ecu_reset_boot:
  fixes w :: "'h fbl_world" and table b fuel
  defines "p \<equiv> fbl_target b fuel table"
  assumes "soft_distinct b"
  shows "\<exists>w4. keeps_image w w4 \<and>
    fbl_run_boot alg p fuel' (fbl_port_system_reset b (fbl_diag_reset h w)) =
      (case fbl_app_image_valid alg p (Some FBL_APP_FLASH_BASE) FBL_APP_FLASH_SIZE w4 of
         None \<Rightarrow> None
       | Some (valid, log, w5) \<Rightarrow>
           Some (if valid then FBL_ACTION_JUMP_APP else FBL_ACTION_PROGRAMMING_MODE, log, w5))"
proof -
  let ?w = "fbl_port_system_reset b (fbl_diag_reset h w)"
  let ?w1 = "fp_clear_reset_cause p ?w"
  have hs: "fbl_handshake_valid (fw_handshake ?w)" "hs_mode (fw_handshake ?w) = 0"
    using handshake_encode_valid [of h FBL_BOOT_APP]
    by (simp_all add: fbl_port_system_reset_def fbl_diag_reset_def fbl_port_backup_write_def Let_def)
  have cause: "fp_reset_cause p ?w = FBL_RST_SOFTWARE"
    using soft_cause [OF assms(2)] by (simp add: p_def fbl_target_def)
  have rec: "reconcile_noinit p FBL_RST_SOFTWARE ?w1 = ?w1"
    using hs by (simp add: p_def reconcile_noinit_def fbl_port_defs)
  have req: "(hs_mode (fp_noinit p ?w1) = boot_mode_code FBL_PROGRAMMING_REQUESTED) = False"
    using hs by (simp add: p_def fbl_port_defs)
  obtain c w3 where u: "update_counter p FBL_RST_SOFTWARE False ?w1 = (c, w3)" by (metis surj_pair)
  have c: "c = 1"
    using u by (auto simp: p_def update_counter_def Let_def fbl_port_defs fbl_port_system_reset_def
        fbl_diag_reset_def fbl_consts)
  have k: "keeps_image w w3"
    using u by (auto simp: p_def update_counter_def Let_def fbl_port_defs fbl_port_system_reset_def
        fbl_diag_reset_def keeps_image_def)
  have len: "fp_app_image_base p = Some FBL_APP_FLASH_BASE" "fp_app_region_len p = FBL_APP_FLASH_SIZE"
    by (simp_all add: p_def fbl_target_def fbl_port_app_image_base_def fbl_port_app_region_len_def)
  have "(1 > FBL_BOOTLOOP_THRESHOLD) = False" by (simp add: fbl_consts)
  then have "fbl_run_boot alg p fuel' ?w =
      (case fbl_app_image_valid alg p (Some FBL_APP_FLASH_BASE) FBL_APP_FLASH_SIZE w3 of
         None \<Rightarrow> None
       | Some (valid, log, w5) \<Rightarrow>
           Some (if valid then FBL_ACTION_JUMP_APP else FBL_ACTION_PROGRAMMING_MODE, log, w5))"
    unfolding fbl_run_boot_def Let_def cause rec req u c len prod.case by simp
  with k show ?thesis by blast
qed

text \<open>Boots after watchdog resets, one after the other.\<close>

fun watchdog_boots ::
  "fbl_digest_algo \<Rightarrow> 'h fbl_world fbl_port \<Rightarrow> nat \<Rightarrow> u32 \<Rightarrow> nat \<Rightarrow> 'h fbl_world \<Rightarrow> fbl_boot_action list option"
  where
  "watchdog_boots alg p fuel reason 0 w = Some []"
| "watchdog_boots alg p fuel reason (Suc n) w =
     (case fbl_run_boot alg p fuel (w\<lparr>fw_reason := reason\<rparr>) of
        None \<Rightarrow> None
      | Some (a, _, w1) \<Rightarrow>
          (case watchdog_boots alg p fuel reason n w1 of None \<Rightarrow> None | Some as \<Rightarrow> Some (a # as)))"

lemma watchdog_boots_fallback:
  assumes "fbl_port_reset_cause b (w\<lparr>fw_reason := reason\<rparr>) = FBL_RST_WATCHDOG"
    and "watchdog_boots alg (fbl_target b fuel table) fuel' reason n w = Some as"
    and "unat (target.boot_counter b fuel table w) + n < 2 ^ 32" and "i < n"
    and "3 \<le> unat (target.boot_counter b fuel table w) + i"
  shows "as ! i = FBL_ACTION_PROGRAMMING_MODE"
  using assms
proof (induction n arbitrary: w as i)
  case 0
  then show ?case by simp
next
  case (Suc n)
  let ?p = "fbl_target b fuel table" and ?w = "w\<lparr>fw_reason := reason\<rparr>"
  let ?c = "target.boot_counter b fuel table"
  from Suc.prems(2) obtain a log w1 as' where
    boot: "fbl_run_boot alg ?p fuel' ?w = Some (a, log, w1)" and
    rest: "watchdog_boots alg ?p fuel' reason n w1 = Some as'" and as: "as = a # as'"
    by (auto split: option.splits)
  have cause: "fp_reset_cause ?p ?w = FBL_RST_WATCHDOG" using Suc.prems(1) by (simp add: fbl_target_def)
  have cw: "?c ?w = ?c w" by (simp only: boot_counter_target) simp
  have c1: "?c w1 = ?c w + 1" using target.run_boot_leaves(2) [OF boot] cause cw by simp
  then have u: "unat (?c w1) = unat (?c w) + 1"
    using Suc.prems(3) by (simp add: unat_word_ariths)
  show ?case
  proof (cases i)
    case 0
    then have "FBL_BOOTLOOP_THRESHOLD < ?c w1"
      using Suc.prems(5) u by (simp add: fbl_consts word_less_nat_alt)
    then show ?thesis using target.run_boot_leaves(3) [OF boot] as 0 by simp
  next
    case (Suc j)
    have c': "fbl_port_reset_cause b (w1\<lparr>fw_reason := reason\<rparr>) = FBL_RST_WATCHDOG"
      using Suc.prems(1) by (simp add: fbl_port_reset_cause_def)
    show ?thesis
      using Suc.IH [OF c' rest, of j] Suc.prems(3-5) u Suc as by simp
  qed
qed

text \<open>Without the security core and outside the dwell a boot always decides.\<close>

lemma crc_boot_decides:
  assumes "fp_reset_cause p w \<noteq> FBL_RST_POWER_ON"
  shows "\<exists>act log w'. fbl_run_boot FBL_DIGEST_CRC32 p fuel w = Some (act, log, w')"
proof -
  have "\<exists>v log w'. fbl_app_image_valid FBL_DIGEST_CRC32 p base len w4 = Some (v, log, w')" for base len w4
    by (auto simp: fbl_app_image_valid_def Let_def split: option.splits)
  then obtain v log w' where v: "fbl_app_image_valid FBL_DIGEST_CRC32 p (fp_app_image_base p) (fp_app_region_len p) w4 =
      Some (v w4, log w4, w' w4)" for w4 by metis
  let ?w2 = "reconcile_noinit p (fp_reset_cause p w) (fp_clear_reset_cause p w)"
  let ?r = "hs_mode (fp_noinit p ?w2) = boot_mode_code FBL_PROGRAMMING_REQUESTED"
  obtain c w3 where u: "update_counter p (fp_reset_cause p w) ?r ?w2 = (c, w3)" by (metis surj_pair)
  have nd: "(fp_reset_cause p w = FBL_RST_POWER_ON \<and> x) = False" for x using assms by simp
  show ?thesis unfolding fbl_run_boot_def Let_def u prod.case nd if_False option.case bool.case v by simp
qed

lemma crc_watchdog_boots:
  "fbl_port_reset_cause b (w\<lparr>fw_reason := reason\<rparr>) = FBL_RST_WATCHDOG \<Longrightarrow>
     \<exists>as. watchdog_boots FBL_DIGEST_CRC32 (fbl_target b fuel table) fuel' reason n w = Some as"
proof (induction n arbitrary: w)
  case 0
  then show ?case by simp
next
  case (Suc n)
  let ?p = "fbl_target b fuel table"
  have "fp_reset_cause ?p (w\<lparr>fw_reason := reason\<rparr>) \<noteq> FBL_RST_POWER_ON"
    using Suc.prems by (simp add: fbl_target_def)
  from crc_boot_decides [OF this] obtain act log w1 where
    r: "fbl_run_boot FBL_DIGEST_CRC32 ?p fuel' (w\<lparr>fw_reason := reason\<rparr>) = Some (act, log, w1)" by blast
  have "fbl_port_reset_cause b (w1\<lparr>fw_reason := reason\<rparr>) = FBL_RST_WATCHDOG"
    using Suc.prems by (simp add: fbl_port_reset_cause_def)
  from Suc.IH [OF this] r show ?case by auto
qed

end
