(* ===== verification/Fbl_Flash.thy ===== *)
theory Fbl_Flash imports Fbl_Port Flash_Mem begin

text \<open>
  The bootloader's flash driver \<open>node_a_gateway/bootloader/proj_cm4/src/port_flash.c\<close>: reads, row
  programming and sector erase of the application region of code flash, whose sectors are 32 KB
  below \<open>0x100F_0000\<close> and 8 KB from there on.

  The vendor calls \<open>Cy_Flash_ProgramRow\<close> and \<open>Cy_Flash_EraseSector\<close> are the parameter \<open>drv\<close>;
  \<open>driver_confined\<close> and \<open>driver_programs\<close> say what the driver relies on: a row program touches its
  row only, a sector erase its sector only, a successful program leaves the row's data. Masking the
  interrupts and clearing the flash cache have no effect on the values modelled here.
\<close>

record 'w cy_flash =
  Cy_Flash_ProgramRow :: "u32 \<Rightarrow> bytes \<Rightarrow> 'w \<Rightarrow> u32 \<times> 'w"
  Cy_Flash_EraseSector :: "u32 \<Rightarrow> 'w \<Rightarrow> u32 \<times> 'w"

definition FLASH_PROGRAM_ROW_SIZE :: u32 where "FLASH_PROGRAM_ROW_SIZE = 512"
definition FLASH_SMALL_SECTOR_SIZE :: u32 where "FLASH_SMALL_SECTOR_SIZE = 8 * 1024"
definition FLASH_LARGE_SECTOR_SIZE :: u32 where "FLASH_LARGE_SECTOR_SIZE = 32 * 1024"
definition FLASH_SMALL_REGION_START :: u32 where
  "FLASH_SMALL_REGION_START = 0x10000000 + 30 * FLASH_LARGE_SECTOR_SIZE"
definition CY_FLASH_DRV_SUCCESS :: u32 where "CY_FLASH_DRV_SUCCESS = 0"

lemmas flash_consts = FLASH_PROGRAM_ROW_SIZE_def FLASH_SMALL_SECTOR_SIZE_def FLASH_LARGE_SECTOR_SIZE_def
  FLASH_SMALL_REGION_START_def CY_FLASH_DRV_SUCCESS_def

section \<open>Operations\<close>

definition fbl_flash_sector_size :: "u32 \<Rightarrow> u32" where
  "fbl_flash_sector_size addr =
     (if addr \<ge> FLASH_SMALL_REGION_START then FLASH_SMALL_SECTOR_SIZE else FLASH_LARGE_SECTOR_SIZE)"

definition in_app_region :: "u32 \<Rightarrow> u32 \<Rightarrow> bool" where
  "in_app_region addr len =
     (if len = 0 then False
      else if addr < FBL_APP_FLASH_BASE then False
      else if len > FBL_APP_FLASH_SIZE then False
      else addr - FBL_APP_FLASH_BASE \<le> FBL_APP_FLASH_SIZE - len)"

definition fbl_hal_read :: "u32 \<Rightarrow> nat \<Rightarrow> 'h fbl_world \<Rightarrow> bytes option \<times> 'h fbl_world" where
  "fbl_hal_read addr len w =
     (if \<not> in_app_region addr (of_nat len) then (None, w)
      else (Some (mem_range (fw_flash w) addr 0 len), w))"

text \<open>The rows of a write, from the byte offset on.\<close>

primrec write_rows ::
  "'h fbl_world cy_flash \<Rightarrow> u32 \<Rightarrow> bytes \<Rightarrow> nat \<Rightarrow> 'h fbl_world \<Rightarrow> int \<times> 'h fbl_world" where
  "write_rows drv addr src 0 w = (0, w)"
| "write_rows drv addr src (Suc k) w =
     (case Cy_Flash_ProgramRow drv addr (take 512 src) w of (status, w1) \<Rightarrow>
        let w2 = w1\<lparr>fw_raw_program_status := status\<rparr> in
        if status \<noteq> CY_FLASH_DRV_SUCCESS then (- 1, w2)
        else write_rows drv (addr + FLASH_PROGRAM_ROW_SIZE) (drop 512 src) k w2)"

definition fbl_hal_write ::
  "'h fbl_world cy_flash \<Rightarrow> u32 \<Rightarrow> bytes \<Rightarrow> 'h fbl_world \<Rightarrow> int \<times> 'h fbl_world" where
  "fbl_hal_write drv addr src w =
     (let len = length src in
      if \<not> in_app_region addr (of_nat len) then (- 1, w)
      else if addr mod FLASH_PROGRAM_ROW_SIZE \<noteq> 0 then (- 1, w)
      else if len mod unat FLASH_PROGRAM_ROW_SIZE \<noteq> 0 then (- 1, w)
      else write_rows drv addr src (len div unat FLASH_PROGRAM_ROW_SIZE) w)"

definition fbl_hal_erase_sector ::
  "'h fbl_world cy_flash \<Rightarrow> u32 \<Rightarrow> 'h fbl_world \<Rightarrow> int \<times> 'h fbl_world" where
  "fbl_hal_erase_sector drv sector_addr w =
     (let ssz = fbl_flash_sector_size sector_addr in
      if \<not> in_app_region sector_addr ssz then (- 1, w)
      else if sector_addr mod ssz \<noteq> 0 then (- 1, w)
      else (case Cy_Flash_EraseSector drv sector_addr w of (status, w1) \<Rightarrow>
        (if status = CY_FLASH_DRV_SUCCESS then 0 else - 1, w1\<lparr>fw_raw_erase_status := status\<rparr>)))"

lemma sector_size_pos: "0 < unat (fbl_flash_sector_size addr)"
  by (simp add: fbl_flash_sector_size_def flash_consts)

function erase_loop ::
  "'h fbl_world cy_flash \<Rightarrow> u32 \<Rightarrow> u32 \<Rightarrow> 'h fbl_world \<Rightarrow> int \<times> 'h fbl_world" where
  "erase_loop drv pos end w =
     (if pos < end then
        if end - pos < fbl_flash_sector_size pos then (- 1, w)
        else
          let r = Cy_Flash_EraseSector drv pos w in
          if fst r \<noteq> CY_FLASH_DRV_SUCCESS then (- 1, snd r)
          else erase_loop drv (pos + fbl_flash_sector_size pos) end (snd r)
      else (0, w))"
  by auto
termination
proof (relation "measure (\<lambda>(_, pos, end, _). unat (end - pos))", goal_cases)
  case (2 drv pos "end" w r)
  have e: "end - (pos + fbl_flash_sector_size pos) = (end - pos) - fbl_flash_sector_size pos" by simp
  have "fbl_flash_sector_size pos \<le> end - pos" using 2(2) by simp
  then have "unat (end - (pos + fbl_flash_sector_size pos)) =
      unat (end - pos) - unat (fbl_flash_sector_size pos)"
    unfolding e by (simp only: unat_sub)
  moreover have "unat (fbl_flash_sector_size pos) \<le> unat (end - pos)"
    using 2(2) by (simp only: not_less word_le_nat_alt)
  ultimately show ?case using sector_size_pos [of pos] by simp
qed simp

declare erase_loop.simps [simp del]

definition fbl_hal_erase_range ::
  "'h fbl_world cy_flash \<Rightarrow> u32 \<Rightarrow> u32 \<Rightarrow> 'h fbl_world \<Rightarrow> int \<times> 'h fbl_world" where
  "fbl_hal_erase_range drv addr len w =
     (if \<not> in_app_region addr len then (- 1, w)
      else if addr mod FLASH_LARGE_SECTOR_SIZE \<noteq> 0 then (- 1, w)
      else if len mod FLASH_LARGE_SECTOR_SIZE \<noteq> 0 then (- 1, w)
      else erase_loop drv addr (addr + len) w)"

definition g_fbl_flash_hal :: "'h fbl_world cy_flash \<Rightarrow> 'h fbl_world hal_flash_if" where
  "g_fbl_flash_hal drv =
     \<lparr>fl_read = Some fbl_hal_read,
      fl_write = Some (\<lambda>addr src. fbl_hal_write drv addr (case src of None \<Rightarrow> [] | Some d \<Rightarrow> d)),
      fl_erase_sector = Some (fbl_hal_erase_sector drv),
      fl_erase_range = Some (fbl_hal_erase_range drv),
      fl_sector_size = FLASH_LARGE_SECTOR_SIZE, fl_program_row_size = FLASH_PROGRAM_ROW_SIZE,
      fl_blank_check = None, fl_read_checked = None\<rparr>"

section \<open>What the driver relies on\<close>

text \<open>Only code flash inside the block, and the driver's status words, may differ.\<close>

definition flash_within :: "(u32 \<Rightarrow> bool) \<Rightarrow> 'h fbl_world \<Rightarrow> 'h fbl_world \<Rightarrow> bool" where
  "flash_within A w w' \<longleftrightarrow>
     w'\<lparr>fw_flash := fw_flash w, fw_raw_erase_status := fw_raw_erase_status w,
        fw_raw_program_status := fw_raw_program_status w\<rparr> = w \<and>
     (\<forall>a. A a \<or> fw_flash w' a = fw_flash w a)"

definition driver_confined :: "'h fbl_world cy_flash \<Rightarrow> bool" where
  "driver_confined drv \<longleftrightarrow>
     (\<forall>addr d w. unat addr mod 512 = 0 \<longrightarrow>
        flash_within (block_of addr 512) w (snd (Cy_Flash_ProgramRow drv addr d w))) \<and>
     (\<forall>addr w. unat addr mod unat (fbl_flash_sector_size addr) = 0 \<longrightarrow>
        flash_within (block_of addr (unat (fbl_flash_sector_size addr))) w (snd (Cy_Flash_EraseSector drv addr w)))"

definition driver_programs :: "'h fbl_world cy_flash \<Rightarrow> bool" where
  "driver_programs drv \<longleftrightarrow>
     (\<forall>addr d w w'. unat addr mod 512 = 0 \<longrightarrow> length d = 512 \<longrightarrow>
        Cy_Flash_ProgramRow drv addr d w = (CY_FLASH_DRV_SUCCESS, w') \<longrightarrow>
        mem_range (fw_flash w') addr 0 512 = d)"

definition app_region :: "u32 \<Rightarrow> bool" where
  "app_region = block_of FBL_APP_FLASH_BASE (unat FBL_APP_FLASH_SIZE)"

lemma flash_within_refl [simp]: "flash_within A w w"
  by (simp add: flash_within_def)

lemma flash_within_status [simp]:
  "flash_within A w (w'\<lparr>fw_raw_program_status := s\<rparr>) \<longleftrightarrow> flash_within A w w'"
  "flash_within A w (w'\<lparr>fw_raw_erase_status := s\<rparr>) \<longleftrightarrow> flash_within A w w'"
  by (simp_all add: flash_within_def)

lemma flash_within_trans:
  assumes "flash_within A w w1" and "flash_within B w1 w2" and C: "\<And>a. A a \<or> B a \<Longrightarrow> C a"
  shows "flash_within C w w2"
proof -
  let ?r = "\<lambda>v :: 'a fbl_world. \<lambda>x. x\<lparr>fw_flash := fw_flash v, fw_raw_erase_status := fw_raw_erase_status v,
        fw_raw_program_status := fw_raw_program_status v\<rparr>"
  have "?r w w2 = ?r w (?r w1 w2)" by simp
  also have "\<dots> = ?r w w1" using assms(2) by (simp only: flash_within_def)
  also have "\<dots> = w" using assms(1) by (simp only: flash_within_def)
  finally have "?r w w2 = w" .
  moreover have "C a \<or> fw_flash w2 a = fw_flash w a" for a
    using assms(1,2) C [of a] unfolding flash_within_def by metis
  ultimately show ?thesis by (simp add: flash_within_def)
qed

lemma flash_within_mono: "flash_within A w w' \<Longrightarrow> (\<And>a. A a \<Longrightarrow> C a) \<Longrightarrow> flash_within C w w'"
  using flash_within_trans [of A w w' A w' C] by simp

lemma flash_within_same: "flash_within A w w' \<Longrightarrow> \<not> A a \<Longrightarrow> fw_flash w' a = fw_flash w a"
  by (auto simp: flash_within_def)

lemma flash_within_rest:
  assumes "flash_within A w w'"
  shows "fw_link w' = fw_link w" and "fw_handshake w' = fw_handshake w" and "fw_breg w' = fw_breg w"
proof -
  have r: "w'\<lparr>fw_flash := fw_flash w, fw_raw_erase_status := fw_raw_erase_status w,
        fw_raw_program_status := fw_raw_program_status w\<rparr> = w" using assms by (simp only: flash_within_def)
  show "fw_link w' = fw_link w" using arg_cong [OF r, of fw_link] by simp
  show "fw_handshake w' = fw_handshake w" using arg_cong [OF r, of fw_handshake] by simp
  show "fw_breg w' = fw_breg w" using arg_cong [OF r, of fw_breg] by simp
qed

section \<open>Address arithmetic\<close>

lemma block_in_region:
  assumes "in_app_region addr len" and "block_of addr (unat len) a"
  shows "app_region a"
proof -
  have e: "a - FBL_APP_FLASH_BASE = (a - addr) + (addr - FBL_APP_FLASH_BASE)" by simp
  have r: "unat (addr - FBL_APP_FLASH_BASE) + unat len \<le> unat FBL_APP_FLASH_SIZE"
    using assms(1) by (auto simp: in_app_region_def word_le_nat_alt unat_sub not_less split: if_splits)
  have "unat FBL_APP_FLASH_SIZE < 2 ^ 31" by (simp add: fbl_consts)
  then have "unat (a - addr) + unat (addr - FBL_APP_FLASH_BASE) < 2 ^ LENGTH(32)"
    using r assms(2) by (simp add: block_of_def)
  then have "unat (a - FBL_APP_FLASH_BASE) = unat (a - addr) + unat (addr - FBL_APP_FLASH_BASE)"
    unfolding e by (simp only: unat_add_lem)
  then show ?thesis using r assms(2) by (simp add: app_region_def block_of_def)
qed

section \<open>Programming\<close>

lemma row_aligned_next: "unat (addr :: u32) mod 512 = 0 \<Longrightarrow> unat (addr + 512) mod 512 = 0"
  by (simp add: unat_word_ariths mod_mod_cancel)

lemma write_rows_within:
  "driver_confined drv \<Longrightarrow> unat addr mod 512 = 0 \<Longrightarrow> 512 * k < 2 ^ 31 \<Longrightarrow>
     flash_within (block_of addr (512 * k)) w (snd (write_rows drv addr src k w))"
proof (induction k arbitrary: addr src w)
  case 0
  then show ?case by simp
next
  case (Suc k)
  obtain st w1 where r: "Cy_Flash_ProgramRow drv addr (take 512 src) w = (st, w1)" by (metis surj_pair)
  have c: "flash_within (block_of addr 512) w (w1\<lparr>fw_raw_program_status := st\<rparr>)"
    using Suc.prems(1,2) r unfolding driver_confined_def by (metis flash_within_status(1) snd_conv)
  have bs: "block_of addr 512 a \<or> block_of (addr + 512) (512 * k) a \<longleftrightarrow> block_of addr (512 * Suc k) a" for a
  proof -
    have "512 + 512 * k < 2 ^ 32" "512 = unat (512 :: u32)" using Suc.prems(3) by simp_all
    from block_split [OF this, of addr a] show ?thesis by (simp only: mult_Suc_right)
  qed
  show ?case
  proof (cases "st = CY_FLASH_DRV_SUCCESS")
    case True
    have "flash_within (block_of (addr + 512) (512 * k)) (w1\<lparr>fw_raw_program_status := st\<rparr>)
        (snd (write_rows drv (addr + 512) (drop 512 src) k (w1\<lparr>fw_raw_program_status := st\<rparr>)))"
      using Suc.prems by (intro Suc.IH row_aligned_next) simp_all
    moreover have "block_of addr (512 * Suc k) a" if "block_of addr 512 a \<or> block_of (addr + 512) (512 * k) a" for a
      using bs that by blast
    ultimately have "flash_within (block_of addr (512 * Suc k)) w
        (snd (write_rows drv (addr + 512) (drop 512 src) k (w1\<lparr>fw_raw_program_status := st\<rparr>)))"
      by (rule flash_within_trans [OF c])
    then show ?thesis using True by (simp add: r Let_def FLASH_PROGRAM_ROW_SIZE_def)
  next
    case False
    have "flash_within (block_of addr (512 * Suc k)) w (w1\<lparr>fw_raw_program_status := st\<rparr>)"
      by (rule flash_within_mono [OF c]) (use bs in blast)
    then show ?thesis using False by (simp add: r Let_def)
  qed
qed

lemma write_rows_data:
  "driver_confined drv \<Longrightarrow> driver_programs drv \<Longrightarrow> unat addr mod 512 = 0 \<Longrightarrow> 512 * k < 2 ^ 31 \<Longrightarrow>
   length src = 512 * k \<Longrightarrow> write_rows drv addr src k w = (0, w') \<Longrightarrow>
     mem_range (fw_flash w') addr 0 (length src) = src"
proof (induction k arbitrary: addr src w)
  case 0
  then show ?case by (simp add: mem_range_def)
next
  case (Suc k)
  obtain st w1 where r: "Cy_Flash_ProgramRow drv addr (take 512 src) w = (st, w1)" by (metis surj_pair)
  have st: "st = CY_FLASH_DRV_SUCCESS" and
    rest: "write_rows drv (addr + 512) (drop 512 src) k (w1\<lparr>fw_raw_program_status := st\<rparr>) = (0, w')"
    using Suc.prems(6) r by (auto simp: Let_def FLASH_PROGRAM_ROW_SIZE_def split: if_splits)
  have row: "mem_range (fw_flash w1) addr 0 512 = take 512 src"
    using Suc.prems(2,3,5) r st unfolding driver_programs_def by force
  have tail: "mem_range (fw_flash w') (addr + 512) 0 (length (drop 512 src)) = drop 512 src"
    by (rule Suc.IH [OF _ _ row_aligned_next _ _ rest]) (use Suc.prems in simp_all)
  have "flash_within (block_of (addr + 512) (512 * k)) (w1\<lparr>fw_raw_program_status := st\<rparr>) w'"
    using write_rows_within [OF Suc.prems(1) row_aligned_next [OF Suc.prems(3)], of k
        "w1\<lparr>fw_raw_program_status := st\<rparr>" "drop 512 src"] rest Suc.prems(4) by simp
  then have "fw_flash w' a = fw_flash w1 a" if "block_of addr 512 a" for a
    using flash_within_same block_disjoint [of 512 "512 * k" "512 :: u32" addr a] that Suc.prems(4) by fastforce
  then have "mem_range (fw_flash w') addr 0 512 = take 512 src"
    using mem_range_cong [of addr 512 "fw_flash w'" "fw_flash w1"] row by simp
  moreover have "mem_range (fw_flash w') addr 0 (512 + length (drop 512 src)) =
      mem_range (fw_flash w') addr 0 512 @ mem_range (fw_flash w') (addr + 512) 0 (length (drop 512 src))"
    by (rule mem_range_append) simp
  ultimately show ?case using tail Suc.prems(5) by simp
qed

text \<open>A length is a \<open>size_t\<close> of the 32-bit target.\<close>

lemma region_len:
  assumes "in_app_region addr (of_nat n)" and "n < 2 ^ 32"
  shows "unat (of_nat n :: u32) = n" and "n \<le> 832 * 1024"
proof -
  show u: "unat (of_nat n :: u32) = n" using assms(2) by (simp add: unat_of_nat)
  have "(of_nat n :: u32) \<le> FBL_APP_FLASH_SIZE"
    using assms(1) by (auto simp: in_app_region_def split: if_splits)
  then have "unat (of_nat n :: u32) \<le> unat FBL_APP_FLASH_SIZE" by (simp only: word_le_nat_alt)
  then show "n \<le> 832 * 1024" unfolding u by (simp add: fbl_consts)
qed

lemma word_aligned: "(addr :: u32) mod m = 0 \<Longrightarrow> unat addr mod unat m = 0"
  by (metis unat_mod unat_0)

lemma hal_write_accepts:
  assumes "length src < 2 ^ 32" and "\<not> (in_app_region addr (of_nat (length src)) \<and>
    addr mod FLASH_PROGRAM_ROW_SIZE = 0 \<and> length src mod unat FLASH_PROGRAM_ROW_SIZE = 0)"
  shows "fbl_hal_write drv addr src w = (- 1, w)"
  using assms by (auto simp: fbl_hal_write_def Let_def)

lemma hal_write_rows:
  assumes "in_app_region addr (of_nat (length src))" and "addr mod FLASH_PROGRAM_ROW_SIZE = 0"
    and "length src mod unat FLASH_PROGRAM_ROW_SIZE = 0" and "length src < 2 ^ 32"
  shows "unat addr mod 512 = 0" and "512 * (length src div 512) = length src" and "length src < 2 ^ 31"
    and "block_of addr (length src) a \<Longrightarrow> app_region a"
    and "fbl_hal_write drv addr src w = write_rows drv addr src (length src div 512) w"
proof -
  show "unat addr mod 512 = 0" using word_aligned [OF assms(2)] by (simp add: flash_consts)
  show "512 * (length src div 512) = length src" using assms(3) by (auto simp: flash_consts)
  show "length src < 2 ^ 31" using region_len(2) [OF assms(1,4)] by simp
  show "block_of addr (length src) a \<Longrightarrow> app_region a"
    using block_in_region [OF assms(1), of a] region_len(1) [OF assms(1,4)] by simp
  show "fbl_hal_write drv addr src w = write_rows drv addr src (length src div 512) w"
    using assms by (simp add: fbl_hal_write_def Let_def flash_consts)
qed

lemma hal_write_within:
  assumes "driver_confined drv" and "length src < 2 ^ 32"
  shows "flash_within (\<lambda>a. app_region a \<and> block_of addr (length src) a) w (snd (fbl_hal_write drv addr src w))"
proof (cases "in_app_region addr (of_nat (length src)) \<and> addr mod FLASH_PROGRAM_ROW_SIZE = 0 \<and>
    length src mod unat FLASH_PROGRAM_ROW_SIZE = 0")
  case True
  note r = hal_write_rows [OF conjunct1 [OF True] conjunct1 [OF conjunct2 [OF True]]
      conjunct2 [OF conjunct2 [OF True]] assms(2)]
  have "flash_within (block_of addr (512 * (length src div 512))) w (snd (write_rows drv addr src (length src div 512) w))"
    by (rule write_rows_within [OF assms(1) r(1)]) (use r(2,3) in simp)
  then show ?thesis unfolding r(2) r(5) by (rule flash_within_mono) (simp add: r(4))
next
  case False
  show ?thesis unfolding hal_write_accepts [OF assms(2) False] by simp
qed

lemma hal_write_data:
  assumes "driver_confined drv" and "driver_programs drv" and "length src < 2 ^ 32"
    and "fbl_hal_write drv addr src w = (0, w')"
  shows "mem_range (fw_flash w') addr 0 (length src) = src"
proof (cases "in_app_region addr (of_nat (length src)) \<and> addr mod FLASH_PROGRAM_ROW_SIZE = 0 \<and>
    length src mod unat FLASH_PROGRAM_ROW_SIZE = 0")
  case True
  note r = hal_write_rows [OF conjunct1 [OF True] conjunct1 [OF conjunct2 [OF True]]
      conjunct2 [OF conjunct2 [OF True]] assms(3)]
  show ?thesis
    by (rule write_rows_data [OF assms(1,2) r(1) _ r(2) [symmetric]])
       (use r(2,3) assms(4) in \<open>simp_all add: r(5)\<close>)
next
  case False
  then show ?thesis using hal_write_accepts [OF assms(3) False, of drv w] assms(4) by simp
qed

section \<open>Erasing\<close>

text \<open>The loop keeps to real sectors: aligned to the sector at hand, inside the range.\<close>

lemma sector_size_unat: "unat (fbl_flash_sector_size p) = (if unat p \<ge> 0x100F0000 then 8192 else 32768)"
  by (simp add: fbl_flash_sector_size_def flash_consts word_le_nat_alt)

lemma sector_next:
  assumes "unat pos mod unat (fbl_flash_sector_size pos) = 0" and "pos < end"
    and "\<not> end - pos < fbl_flash_sector_size pos"
  shows "unat (pos + fbl_flash_sector_size pos) mod unat (fbl_flash_sector_size (pos + fbl_flash_sector_size pos)) = 0"
    and "unat (end - (pos + fbl_flash_sector_size pos)) = unat (end - pos) - unat (fbl_flash_sector_size pos)"
    and "unat (fbl_flash_sector_size pos) \<le> unat (end - pos)"
proof -
  let ?s = "fbl_flash_sector_size pos"
  show le: "unat ?s \<le> unat (end - pos)" using assms(3) by (simp only: not_less word_le_nat_alt)
  have e: "end - (pos + ?s) = (end - pos) - ?s" by simp
  show "unat (end - (pos + ?s)) = unat (end - pos) - unat ?s"
    unfolding e using assms(3) by (simp only: not_less unat_sub)
  have d: "unat (end - pos) = unat end - unat pos" using assms(2) by (simp add: unat_sub)
  have "unat pos + unat ?s < 2 ^ LENGTH(32) \<or> unat (pos + ?s) = 0"
    using le d unsigned_less [of "end", where 'a = nat] assms(2)
    by (auto simp: unat_word_ariths word_less_nat_alt)
  then have u: "unat (pos + ?s) = unat pos + unat ?s \<or> unat (pos + ?s) = 0"
    using unat_add_lem [of pos ?s] by auto
  show "unat (pos + ?s) mod unat (fbl_flash_sector_size (pos + ?s)) = 0"
    using u assms(1) unfolding sector_size_unat [of "pos + ?s"] sector_size_unat [of pos] by (auto split: if_splits; presburger)
qed

lemma erase_loop_within:
  "driver_confined drv \<Longrightarrow> unat pos mod unat (fbl_flash_sector_size pos) = 0 \<Longrightarrow>
     flash_within (block_of pos (unat (end - pos))) w (snd (erase_loop drv pos end w))"
proof (induction drv pos "end" w rule: erase_loop.induct)
  case (1 drv pos "end" w)
  let ?s = "fbl_flash_sector_size pos"
  obtain st w1 where r: "Cy_Flash_EraseSector drv pos w = (st, w1)" by (metis surj_pair)
  have c: "flash_within (block_of pos (unat ?s)) w w1"
    using "1.prems" r unfolding driver_confined_def by (metis snd_conv)
  show ?case
  proof (cases "pos < end \<and> \<not> end - pos < ?s")
    case True
    note nx = sector_next [OF "1.prems"(2) conjunct1 [OF True] conjunct2 [OF True]]
    have sum: "unat ?s + unat (end - (pos + ?s)) = unat (end - pos)" using nx(2,3) by simp
    have bs: "block_of pos (unat ?s) a \<or> block_of (pos + ?s) (unat (end - (pos + ?s))) a \<longleftrightarrow>
        block_of pos (unat (end - pos)) a" for a
      using block_split [of "unat ?s" "unat (end - (pos + ?s))" ?s pos a] sum
        unsigned_less [of "end - pos", where 'a = nat] by simp
    show ?thesis
    proof (cases "st = CY_FLASH_DRV_SUCCESS")
      case s: True
      have "flash_within (block_of (pos + ?s) (unat (end - (pos + ?s)))) w1
          (snd (erase_loop drv (pos + ?s) end w1))"
        using "1.IH" [OF conjunct1 [OF True] conjunct2 [OF True] refl] r s "1.prems"(1) nx(1) by simp
      from flash_within_trans [OF c this, of "block_of pos (unat (end - pos))"] bs True s r
      show ?thesis by (subst erase_loop.simps) (simp add: Let_def)
    next
      case f: False
      have "flash_within (block_of pos (unat (end - pos))) w w1"
        by (rule flash_within_mono [OF c]) (use bs in blast)
      then show ?thesis using f True r by (subst erase_loop.simps) (simp add: Let_def)
    qed
  next
    case False
    then show ?thesis by (subst erase_loop.simps) auto
  qed
qed

lemma hal_erase_range_within:
  assumes "driver_confined drv"
  shows "flash_within app_region w (snd (fbl_hal_erase_range drv addr len w))"
proof (cases "in_app_region addr len \<and> addr mod FLASH_LARGE_SECTOR_SIZE = 0 \<and> len mod FLASH_LARGE_SECTOR_SIZE = 0")
  case True
  have "unat addr mod 32768 = 0" using word_aligned [of addr FLASH_LARGE_SECTOR_SIZE] True
    by (simp add: flash_consts)
  then have al: "unat addr mod unat (fbl_flash_sector_size addr) = 0"
    using dvd_trans [of 8192 32768 "unat addr"] by (simp add: sector_size_unat mod_eq_0_iff_dvd)
  have e: "addr + len - addr = len" by simp
  have "flash_within (block_of addr (unat len)) w (snd (erase_loop drv addr (addr + len) w))"
    using erase_loop_within [OF assms al, of "addr + len" w] unfolding e .
  then have "flash_within app_region w (snd (erase_loop drv addr (addr + len) w))"
    by (rule flash_within_mono) (use block_in_region True in blast)
  then show ?thesis using True by (simp add: fbl_hal_erase_range_def)
next
  case False
  then show ?thesis by (auto simp: fbl_hal_erase_range_def)
qed

lemma hal_erase_sector_within:
  assumes "driver_confined drv"
  shows "flash_within app_region w (snd (fbl_hal_erase_sector drv addr w))"
proof (cases "in_app_region addr (fbl_flash_sector_size addr) \<and> addr mod fbl_flash_sector_size addr = 0")
  case True
  obtain st w1 where r: "Cy_Flash_EraseSector drv addr w = (st, w1)" by (metis surj_pair)
  have "flash_within (block_of addr (unat (fbl_flash_sector_size addr))) w w1"
    using assms r word_aligned [OF conjunct2 [OF True]] unfolding driver_confined_def by (metis snd_conv)
  then have "flash_within app_region w w1"
    by (rule flash_within_mono) (use block_in_region True in blast)
  then show ?thesis using True r by (simp add: fbl_hal_erase_sector_def Let_def)
next
  case False
  then show ?thesis by (auto simp: fbl_hal_erase_sector_def Let_def)
qed

section \<open>The flash of a download\<close>

locale flash_driver =
  fixes drv :: "'h fbl_world cy_flash"
  assumes confined: "driver_confined drv" and programs: "driver_programs drv"

sublocale flash_driver \<subseteq> app: image_flash "\<lambda>a d. fbl_hal_write drv a (case d of None \<Rightarrow> [] | Some x \<Rightarrow> x)" fw_flash
proof
  fix d a and f f' :: "'h fbl_world" and rc x
  assume "length (d :: bytes) \<le> 4096"
  then have l: "length d < 2 ^ 32" by simp
  show "mem_range (fw_flash f') a 0 (length d) = d"
    if "fbl_hal_write drv a (case Some d of None \<Rightarrow> [] | Some x \<Rightarrow> x) f = (0, f')"
    using hal_write_data [OF confined programs l] that by simp
  show "fw_flash f' x = fw_flash f x"
    if "fbl_hal_write drv a (case Some d of None \<Rightarrow> [] | Some x \<Rightarrow> x) f = (rc, f')" and "\<not> block_of a (length d) x"
    using flash_within_same [OF hal_write_within [OF confined l, where w = f and addr = a], of x] that by simp
qed

text \<open>A driver as the vendor documents it: rows are programmed, sectors erased to \<open>0xFF\<close>.\<close>

definition ram_driver :: "'h fbl_world cy_flash" where
  "ram_driver =
     \<lparr>Cy_Flash_ProgramRow = (\<lambda>addr d w. (CY_FLASH_DRV_SUCCESS,
        w\<lparr>fw_flash := (\<lambda>a. if block_of addr (min 512 (length d)) a then d ! unat (a - addr) else fw_flash w a)\<rparr>)),
      Cy_Flash_EraseSector = (\<lambda>addr w. (CY_FLASH_DRV_SUCCESS,
        w\<lparr>fw_flash := (\<lambda>a. if block_of addr (unat (fbl_flash_sector_size addr)) a then 0xFF else fw_flash w a)\<rparr>))\<rparr>"

lemma ram_driver_confined: "driver_confined ram_driver"
  by (auto simp: driver_confined_def ram_driver_def flash_within_def block_of_def)

lemma ram_driver_programs: "driver_programs ram_driver"
proof -
  have "mem_range (\<lambda>a. if block_of addr 512 a then d ! unat (a - addr) else m a) addr 0 512 = d"
    if "length (d :: bytes) = 512" for addr d m
    by (rule nth_equalityI) (use that in \<open>auto simp: mem_range_def block_of_def unat_of_nat\<close>)
  then show ?thesis by (auto simp: driver_programs_def ram_driver_def)
qed

interpretation ram: flash_driver ram_driver
  by unfold_locales (rule ram_driver_confined, rule ram_driver_programs)

end
