(* ===== verification/Fbl_Diag.thy ===== *)
theory Fbl_Diag imports Uds Fbl_Flash begin

text \<open>
  The bootloader's composition of the diagnostic server,
  \<open>node_a_gateway/bootloader/proj_cm4/src/fbl_diag.c\<close>: the handler table over the flash driver of
  \<open>Fbl_Flash\<close> and the boot port of \<open>Fbl_Port\<close>, the tick and its reset sequence. A run is a list of
  ticks, each with its time and the frames that came in before it; it ends at a reset.

  The bounded wait for the response's transmission before the reset only reads hardware and the
  clock; it is \<open>fbl_can_wait_tx_complete\<close> of \<open>Fbl_Can\<close> and leaves the state of the tick as it is.
\<close>

definition FBL_DIAG_RESPONSE_ID :: u32 where "FBL_DIAG_RESPONSE_ID = 0x7A8"

definition g_table ::
  "'h fbl_world cy_flash \<Rightarrow> fbl_digest_algo \<Rightarrow> 'h fbl_world fbl_port \<Rightarrow> 'h fbl_world uds_handler list" where
  "g_table drv alg p =
     [\<lparr>uh_sid = UDS_SID_DIAGNOSTIC_SESSION_CONTROL, uh_handle = uds_session_control\<rparr>,
      \<lparr>uh_sid = UDS_SID_ECU_RESET, uh_handle = uds_ecu_reset\<rparr>,
      \<lparr>uh_sid = UDS_SID_SECURITY_ACCESS, uh_handle = uds_security_access\<rparr>,
      \<lparr>uh_sid = UDS_SID_REQUEST_DOWNLOAD, uh_handle = request_download_handle\<rparr>,
      \<lparr>uh_sid = UDS_SID_TRANSFER_DATA, uh_handle = transfer_data_handle (g_fbl_flash_hal drv)\<rparr>,
      \<lparr>uh_sid = UDS_SID_REQUEST_TRANSFER_EXIT, uh_handle = request_transfer_exit_handle\<rparr>,
      \<lparr>uh_sid = UDS_SID_ROUTINE_CONTROL,
       uh_handle = uds_routine_control (g_fbl_flash_hal drv) alg p (fp_app_image_base p) (fp_app_region_len p)\<rparr>]"

definition fbl_diag_init :: "'h fbl_world uds \<Rightarrow> 'h fbl_world uds" where
  "fbl_diag_init s =
     uds_session_init (uds_download_init (s\<lparr>us_isotp := isotp_init FBL_DIAG_RESPONSE_ID (us_isotp s)\<rparr>))"

text \<open>\<open>True\<close> with the state in which the device restarts. \<open>h\<close> is the uninitialised local record.\<close>

definition fbl_diag_tick ::
  "'h fbl_world cy_flash \<Rightarrow> fbl_digest_algo \<Rightarrow> cy_reset_bits \<Rightarrow> 'h fbl_world fbl_port \<Rightarrow> fbl_handshake \<Rightarrow>
   u32 \<Rightarrow> can_raw_frame list \<Rightarrow> 'h fbl_world uds \<Rightarrow> (bool \<times> 'h fbl_world uds) option" where
  "fbl_diag_tick drv alg bits p h now_ms frames s =
     (case uds_session_tick (g_table drv alg p) now_ms frames s of
        None \<Rightarrow> None
      | Some (UDS_SESSION_EVENT_NONE, s1) \<Rightarrow> Some (False, s1)
      | Some (UDS_SESSION_EVENT_RESET_REQUESTED, s1) \<Rightarrow>
          Some (True, s1\<lparr>us_dev := fbl_port_system_reset bits (fbl_diag_reset h (us_dev s1))\<rparr>))"

fun diag_run ::
  "'h fbl_world cy_flash \<Rightarrow> fbl_digest_algo \<Rightarrow> cy_reset_bits \<Rightarrow> 'h fbl_world fbl_port \<Rightarrow> fbl_handshake \<Rightarrow>
   (u32 \<times> can_raw_frame list) list \<Rightarrow> 'h fbl_world uds \<Rightarrow> (bool \<times> 'h fbl_world uds) option" where
  "diag_run drv alg bits p h [] s = Some (False, s)"
| "diag_run drv alg bits p h (x # xs) s =
     (case fbl_diag_tick drv alg bits p h (fst x) (snd x) s of
        None \<Rightarrow> None
      | Some (True, s1) \<Rightarrow> Some (True, s1)
      | Some (False, s1) \<Rightarrow> diag_run drv alg bits p h xs s1)"

lemma diag_tick_keeps:
  assumes tick: "fbl_diag_tick drv alg bits p h now frames s = Some (b, s')"
    and session: "\<And>e s1. uds_session_tick (g_table drv alg p) now frames s = Some (e, s1) \<Longrightarrow> I s1"
    and reset: "\<And>s w. I s \<Longrightarrow> I (s\<lparr>us_dev := fbl_port_system_reset bits (fbl_diag_reset h (us_dev s))\<rparr>)"
  shows "I s'"
  using tick session reset
  by (auto simp: fbl_diag_tick_def split: option.splits uds_session_event.splits)

lemma diag_run_keeps:
  assumes "\<And>now frames s b s'. I s \<Longrightarrow> fbl_diag_tick drv alg bits p h now frames s = Some (b, s') \<Longrightarrow> I s'"
  shows "I s \<Longrightarrow> diag_run drv alg bits p h xs s = Some (b, s') \<Longrightarrow> I s'"
proof (induction xs arbitrary: s)
  case Nil
  then show ?case by simp
next
  case (Cons x xs)
  then show ?case using assms [of s "fst x" "snd x"]
    by (auto split: option.splits prod.splits bool.splits)
qed

section \<open>Handlers and the flash\<close>

lemma app_write_within:
  assumes "driver_confined drv" and "length d \<le> 4096"
  shows "flash_within app_region w (snd (fbl_hal_write drv a d w))"
proof -
  have "length d < 2 ^ 32" using assms(2) by simp
  from hal_write_within [OF assms(1) this] show ?thesis by (rule flash_within_mono) simp
qed

definition flash_kept :: "'h fbl_world \<Rightarrow> 'h fbl_world \<Rightarrow> bool" where
  "flash_kept w w' \<longleftrightarrow> (\<forall>a. app_region a \<or> fw_flash w' a = fw_flash w a)"

lemma flash_kept_refl [simp]: "flash_kept w w"
  by (simp add: flash_kept_def)

lemma flash_kept_trans: "flash_kept w w1 \<Longrightarrow> flash_kept w1 w2 \<Longrightarrow> flash_kept w w2"
  unfolding flash_kept_def by metis

lemma within_kept: "flash_within app_region w w' \<Longrightarrow> flash_kept w w'"
  by (auto simp: flash_within_def flash_kept_def)

lemma check_keeps_flash:
  assumes "p = fbl_target bits fuel table" and "fbl_app_image_valid alg p base len w = Some (v, log, w')"
  shows "fw_flash w' = fw_flash w"
  using assms
  by (auto simp: fbl_app_image_valid_def Let_def fbl_target_def fbl_verify_image_def
      split: option.splits if_splits fbl_digest_algo.splits prod.splits)

lemma transfer_keeps:
  assumes "driver_confined drv" and "length req \<le> 4095"
    and "transfer_data_handle (g_fbl_flash_hal drv) req cap s = Some (r, s')"
  shows "flash_kept (us_dev s) (us_dev s')"
proof -
  have "length (tl req) \<le> 4096" using assms(2) by simp
  note w = within_kept [OF app_write_within [OF assms(1) this]]
  obtain rc d where rc: "fbl_hal_write drv (dl_addr s + dl_written_len s) (tl req) (us_dev s) = (rc, d)"
    by (metis surj_pair)
  show ?thesis using assms(3) rc w [of "us_dev s" "dl_addr s + dl_written_len s"]
    by (auto simp: transfer_data_handle_def Let_def g_fbl_flash_hal_def split: if_splits)
qed

lemma erase_keeps:
  assumes "driver_confined drv" and "do_erase (g_fbl_flash_hal drv) req cap s = Some (r, s')"
  shows "flash_kept (us_dev s) (us_dev s')"
  using assms(2) within_kept [OF hal_erase_range_within [OF assms(1)]]
  by (auto simp: do_erase_def Let_def g_fbl_flash_hal_def split: if_splits prod.splits) (metis snd_conv)+

lemma handler_keeps:
  assumes "driver_confined drv" and p: "p = fbl_target bits fuel table" and "h \<in> set (g_table drv alg p)"
    and "length req \<le> 4095" and "uh_handle h req cap s = Some (r, s')"
  shows "flash_kept (us_dev s) (us_dev s')"
proof -
  have "uds_routine_control (g_fbl_flash_hal drv) alg p base len req cap s = Some (r, s') \<Longrightarrow>
      flash_kept (us_dev s) (us_dev s')" for base len
    using erase_keeps [OF assms(1), of req cap s r s'] check_keeps_flash [OF p]
    by (auto simp: uds_routine_control_def do_check_image_def Let_def flash_kept_def
        split: if_splits option.splits)
  then show ?thesis
    using assms(3,5) transfer_keeps [OF assms(1,4), of cap s r s']
    by (auto simp: g_table_def uds_session_control_def uds_ecu_reset_def uds_security_access_def
        request_seed_def send_key_def request_download_handle_def request_transfer_exit_handle_def Let_def
        split: if_splits)
qed

lemma diag_tick_confined:
  assumes "driver_confined drv" and p: "p = fbl_target bits fuel table"
    and "fbl_diag_tick drv alg bits' p h now frames s = Some (b, s')"
  shows "flash_kept (us_dev s) (us_dev s')"
proof (rule diag_tick_keeps [OF assms(3), of "\<lambda>x. flash_kept (us_dev s) (us_dev x)"])
  show "flash_kept (us_dev s) (us_dev s1)"
    if t: "uds_session_tick (g_table drv alg p) now frames s = Some (e, s1)" for e s1
    by (rule tick_keeps [OF t]) (auto intro: flash_kept_trans handler_keeps [OF assms(1) p])
qed (auto simp: flash_kept_def fbl_port_system_reset_def fbl_diag_reset_def Let_def fbl_port_backup_write_def)

lemma diag_run_confined:
  assumes "driver_confined drv" and p: "p = fbl_target bits fuel table"
    and "diag_run drv alg bits' p h xs s = Some (b, s')"
  shows "flash_kept (us_dev s) (us_dev s')"
  by (rule diag_run_keeps [OF _ _ assms(3)])
     (auto intro: flash_kept_trans diag_tick_confined [OF assms(1) p])

section \<open>Security access and download state\<close>

text \<open>What a handler other than security access does to its state: nothing.\<close>

lemma fbl_hal_write_fn: "fl_write (g_fbl_flash_hal drv) = Some (\<lambda>addr src. fbl_hal_write drv addr (case src of None \<Rightarrow> [] | Some d \<Rightarrow> d))"
  by (simp add: g_fbl_flash_hal_def)

definition sa_of :: "'f uds \<Rightarrow> uds_security_state \<times> u32 \<times> u32" where
  "sa_of s = (sa_state s, sa_seed s, sa_seed_counter s)"

lemma handler_sa:
  assumes "h \<in> set (g_table drv alg p)" and "uh_handle h req cap s = Some (r, s')"
    and "uh_sid h \<noteq> UDS_SID_SECURITY_ACCESS"
  shows "sa_of s' = sa_of s"
  using assms
  by (auto simp: g_table_def uds_session_control_def uds_ecu_reset_def sa_of_def
      request_download_handle_def request_transfer_exit_handle_def transfer_data_handle_def
      uds_routine_control_def do_erase_def do_check_image_def Let_def
      split: if_splits option.splits prod.splits)

lemma send_key_unlocks:
  assumes "send_key req cap s = (r, s')" and "sa_state s' = UDS_SEC_UNLOCKED"
  shows "sa_state s = UDS_SEC_SEED_SENT" and "5 \<le> length req"
    and "take 4 (tl req) = be32 (sa_seed s XOR UDS_SECURITY_KEY_XOR_CONST)"
proof -
  show st: "sa_state s = UDS_SEC_SEED_SENT" and l: "5 \<le> length req"
    using assms by (auto simp: send_key_def Let_def split: if_splits)
  obtain x0 x1 x2 x3 x4 r' where req: "req = x0 # x1 # x2 # x3 # x4 # r'"
    using l length_ge_4_D [of req] by (cases "drop 4 req") (auto simp: numeral_eq_Suc Suc_le_length_iff)
  have "push_bit 24 (ucast x1) OR push_bit 16 (ucast x2) OR push_bit 8 (ucast x3) OR ucast x4 =
      sa_seed s XOR UDS_SECURITY_KEY_XOR_CONST"
    using assms st l req by (auto simp: send_key_def Let_def split: if_splits)
  then have "un_le32 x4 x3 x2 x1 = sa_seed s XOR UDS_SECURITY_KEY_XOR_CONST"
    by (simp add: un_le32_def or.commute or.left_commute)
  then have "be32 (sa_seed s XOR UDS_SECURITY_KEY_XOR_CONST) = rev (le32 (un_le32 x4 x3 x2 x1))"
    by (simp add: be32_def)
  then show "take 4 (tl req) = be32 (sa_seed s XOR UDS_SECURITY_KEY_XOR_CONST)"
    by (simp add: req)
qed

text \<open>
  A tick that ends unlocked started unlocked, or served a \<open>sendKey\<close> with the key of the seed sent.
\<close>

definition key_message :: "u32 \<Rightarrow> bytes \<Rightarrow> bool" where
  "key_message seed msg \<longleftrightarrow> take 6 msg = [UDS_SID_SECURITY_ACCESS, 2] @ be32 (seed XOR UDS_SECURITY_KEY_XOR_CONST)"

lemma respond_sa [simp]: "sa_of (uds_respond m s) = sa_of s" "sa_state (uds_respond m s) = sa_state s"
  by (simp_all add: uds_respond_def sa_of_def)

lemma followup_sa: "sa_state (snd (session_followup sid body s)) = UDS_SEC_UNLOCKED \<Longrightarrow> sa_state s = UDS_SEC_UNLOCKED"
  using followup_cases [of sid body s] by auto

lemma dispatch_unlock:
  assumes d: "uds_dispatch (g_table drv alg p) now msg s = Some (e, s')" and m: "msg \<noteq> []"
    and u: "sa_state s' = UDS_SEC_UNLOCKED" "sa_state s \<noteq> UDS_SEC_UNLOCKED"
  shows "sa_state s = UDS_SEC_SEED_SENT \<and> key_message (sa_seed s) msg"
proof -
  obtain h where h: "uds_find_handler (g_table drv alg p) (msg ! 0) = Some h"
    using d u by (auto simp: uds_dispatch_def Let_def send_negative_def split: option.splits)
  note hin = uds_find_handler_in [OF h]
  obtain r s1 where r: "uh_handle h (tl msg) (ISOTP_MAX_PAYLOAD - 1) s = Some (r, s1)"
    using d h by (auto simp: uds_dispatch_def Let_def split: option.splits)
  have s1: "sa_state s1 = UDS_SEC_UNLOCKED"
  proof (cases r)
    case (Inl nrc)
    then show ?thesis using d h r u by (auto simp: uds_dispatch_def Let_def send_negative_def)
  next
    case (Inr body)
    then have "session_followup (msg ! 0) body ((uds_respond (msg ! 0 # body) s1)\<lparr>us_last_activity_ms := now\<rparr>) = (e, s')"
      using d h r by (simp add: uds_dispatch_def Let_def)
    then show ?thesis using followup_sa [of "msg ! 0" body "(uds_respond (msg ! 0 # body) s1)\<lparr>us_last_activity_ms := now\<rparr>"] u
      by simp
  qed
  have sid: "msg ! 0 = UDS_SID_SECURITY_ACCESS"
  proof (rule ccontr)
    assume "msg ! 0 \<noteq> UDS_SID_SECURITY_ACCESS"
    then have "sa_of s1 = sa_of s" using handler_sa [OF conjunct1 [OF hin] r] hin by simp
    then show False using s1 u by (simp add: sa_of_def)
  qed
  then have "uds_security_access (tl msg) (ISOTP_MAX_PAYLOAD - 1) s = Some (r, s1)"
    using hin r by (auto simp: g_table_def uds_sids)
  then have k: "send_key (tl msg) (ISOTP_MAX_PAYLOAD - 1) s = (r, s1) \<and> \<not> length (tl msg) < 1 \<and> tl msg ! 0 = 2"
    using s1 u by (simp add: uds_security_access_def request_seed_def Let_def split: if_splits) force+
  note sk = send_key_unlocks [OF conjunct1 [OF k] s1]
  have "take 6 msg = [UDS_SID_SECURITY_ACCESS, 2] @ take 4 (tl (tl msg))"
    using m k sid by (cases msg; cases "tl msg") auto
  then show ?thesis using sk by (simp add: key_message_def)
qed

lemma tick_unlock:
  assumes t: "uds_session_tick (g_table drv alg p) now frames s = Some (e, s')"
    and u: "sa_state s' = UDS_SEC_UNLOCKED" "sa_state s \<noteq> UDS_SEC_UNLOCKED"
  shows "\<exists>msg s1. tick_request now frames s = Some (Some msg, s1) \<and>
    sa_state s = UDS_SEC_SEED_SENT \<and> key_message (sa_seed s) msg"
proof -
  obtain m s1 where m: "tick_request now frames s = Some (m, s1)"
    using t by (auto simp: tick_eq split: option.splits)
  obtain i i1 where s1: "s1 = (s3_check now (s\<lparr>us_isotp := i\<rparr>))\<lparr>us_isotp := i1\<rparr>"
    using tick_request_state [OF m] .
  have sa: "sa_state s1 = sa_state s \<or> sa_state s1 = UDS_SEC_LOCKED" "sa_seed s1 = sa_seed s"
    using s3_check_cases [of now "s\<lparr>us_isotp := i\<rparr>"] s1 by auto
  obtain msg where msg: "m = Some msg"
    using t m u sa by (cases m) (auto simp: tick_eq)
  have d: "uds_dispatch (g_table drv alg p) now msg s1 = Some (e, s')" using t m msg by (simp add: tick_eq)
  have "sa_state s1 = UDS_SEC_SEED_SENT \<and> key_message (sa_seed s1) msg"
    using dispatch_unlock [OF d _ u(1)] tick_request_len [of now frames s msg s1] m msg sa u(2) by auto
  then show ?thesis using m msg sa by auto
qed

text \<open>A finished download is complete.\<close>

definition dl_complete :: "'f uds \<Rightarrow> bool" where
  "dl_complete s \<longleftrightarrow> (dl_state s = UDS_DOWNLOAD_DONE \<longrightarrow> dl_written_len s = dl_total_len s)"

lemma handler_dl:
  assumes "h \<in> set (g_table drv alg p)" and "uh_handle h req cap s = Some (r, s')" and "dl_complete s"
  shows "dl_complete s'"
  using assms
  by (auto simp: g_table_def uds_session_control_def uds_ecu_reset_def uds_security_access_def
      request_seed_def send_key_def dl_complete_def
      request_download_handle_def request_transfer_exit_handle_def transfer_data_handle_def
      uds_routine_control_def do_erase_def do_check_image_def Let_def
      split: if_splits option.splits prod.splits)

lemma run_dl_complete:
  assumes "dl_complete s" and "diag_run drv alg bits p h xs s = Some (b, s')"
  shows "dl_complete s'"
proof (rule diag_run_keeps [where I = dl_complete, OF _ assms])
  fix now frames b and s s' :: "'a fbl_world uds"
  assume s: "dl_complete s" and t: "fbl_diag_tick drv alg bits p h now frames s = Some (b, s')"
  show "dl_complete s'"
  proof (rule diag_tick_keeps [OF t])
    show "dl_complete s1" if "uds_session_tick (g_table drv alg p) now frames s = Some (e, s1)" for e s1
      by (rule tick_keeps [where I = dl_complete, OF that s]; (rule handler_dl, assumption+ | simp add: dl_complete_def))
  qed (simp add: dl_complete_def)
qed

text \<open>No service but security access looks at the session or at the lock.\<close>

definition with_access :: "uds_security_state \<Rightarrow> uds_session_state \<Rightarrow> 'f uds \<Rightarrow> 'f uds" where
  "with_access x y s = s\<lparr>sa_state := x, us_session := y\<rparr>"

lemma access_ignored:
  assumes "h \<in> set (g_table drv alg p)" and "uh_sid h \<noteq> UDS_SID_SECURITY_ACCESS"
  shows "uh_handle h req cap (with_access x y s) =
    map_option (\<lambda>(r, s'). (r, with_access x y s')) (uh_handle h req cap s)"
  using assms
  by (auto simp: g_table_def uds_session_control_def uds_ecu_reset_def with_access_def
      request_download_handle_def request_transfer_exit_handle_def transfer_data_handle_def
      uds_routine_control_def do_erase_def do_check_image_def Let_def
      split: option.splits prod.splits)

section \<open>Reprogramming\<close>

text \<open>What the CRC-32 build accepts, as a condition on the bytes of an image.\<close>

definition img_u32 :: "bytes \<Rightarrow> nat \<Rightarrow> u32" where
  "img_u32 img i = un_le32 (img ! i) (img ! (i + 1)) (img ! (i + 2)) (img ! (i + 3))"

definition image_good :: "bytes \<Rightarrow> bool" where
  "image_good img \<longleftrightarrow>
     (let n = unat (img_u32 img 264) in
      length img \<le> unat FBL_APP_FLASH_SIZE \<and> 268 \<le> n \<and> n + 4 \<le> length img \<and>
      img_u32 img 256 = FBL_APP_HEADER_MAGIC \<and>
      fbl_digest FBL_DIGEST_CRC32 (take n img) = take 4 (drop n img) \<and>
      fbl_vector_sane (img_u32 img 0) (img_u32 img 4))"

lemma mem_range_img:
  assumes "mem_range m base 0 (length img) = img" and "i + n \<le> length img"
  shows "mem_range m base (of_nat i) n = take n (drop i img)"
proof (rule nth_equalityI)
  show "length (mem_range m base (of_nat i) n) = length (take n (drop i img))"
    using assms(2) by (simp add: mem_range_def)
  fix j assume "j < length (mem_range m base (of_nat i) n)"
  then have j: "j < n" by (simp add: mem_range_def)
  have "img ! (i + j) = mem_range m base 0 (length img) ! (i + j)" using assms(1) by simp
  also have "\<dots> = m (base + of_nat (i + j))" using j assms(2) by (simp add: mem_range_def)
  finally show "mem_range m base (of_nat i) n ! j = take n (drop i img) ! j"
    using j assms(2) by (simp add: mem_range_def add.assoc)
qed

lemma img_u32_eq:
  assumes "mem_range m base 0 (length img) = img" and "i + 4 \<le> length img"
  shows "mem_u32 m base (of_nat i) = img_u32 img i"
  using assms(2) unfolding mem_u32_def mem_range_img [OF assms] Let_def img_u32_def by simp

lemma header_of_image:
  assumes "mem_range m base 0 (length img) = img" and "268 \<le> length img"
  shows "ah_magic (read_app_header m base) = img_u32 img 256"
    and "ah_image_len (read_app_header m base) = img_u32 img 264"
proof -
  have hdr: "mem_range m base FBL_APP_HEADER_OFFSET 12 = take 12 (drop 256 img)"
    using mem_range_img [OF assms(1), of 256 12] assms(2) by (simp add: fbl_consts)
  show "ah_magic (read_app_header m base) = img_u32 img 256"
    and "ah_image_len (read_app_header m base) = img_u32 img 264"
    using assms(2) unfolding read_app_header_def hdr Let_def by (simp_all add: img_u32_def)
qed

lemma image_good_valid:
  assumes g: "image_good img" and m: "mem_range (fp_mem p w) base 0 (length img) = img"
  shows "fbl_app_image_valid FBL_DIGEST_CRC32 p (Some base) FBL_APP_FLASH_SIZE w = Some (True, [], w)"
proof -
  let ?n = "img_u32 img 264"
  have g': "length img \<le> unat FBL_APP_FLASH_SIZE" "268 \<le> unat ?n" "unat ?n + 4 \<le> length img"
    "img_u32 img 256 = FBL_APP_HEADER_MAGIC"
    "fbl_digest FBL_DIGEST_CRC32 (take (unat ?n) img) = take 4 (drop (unat ?n) img)"
    "fbl_vector_sane (img_u32 img 0) (img_u32 img 4)"
    using g unfolding image_good_def Let_def by auto
  have len: "length img \<le> 832 * 1024" using g'(1) by (simp add: fbl_consts)
  note header = header_of_image [OF m]
  have magic: "ah_magic (read_app_header (fp_mem p w) base) = FBL_APP_HEADER_MAGIC"
    and il: "ah_image_len (read_app_header (fp_mem p w) base) = ?n"
    using header g'(2,3,4) by simp_all
  have img: "mem_range (fp_mem p w) base 0 (unat ?n) = take (unat ?n) img"
    using mem_range_img [OF m, of 0 "unat ?n"] g'(3) by simp
  have dig: "mem_range (fp_mem p w) base ?n 4 = take 4 (drop (unat ?n) img)"
    using mem_range_img [OF m, of "unat ?n" 4] g'(3) by simp
  have vec: "mem_u32 (fp_mem p w) base 0 = img_u32 img 0" "mem_u32 (fp_mem p w) base 4 = img_u32 img 4"
    using img_u32_eq [OF m, of 0] img_u32_eq [OF m, of 4] g'(2,3) by simp_all
  have lo: "(?n < FBL_APP_HEADER_OFFSET + FBL_APP_HEADER_SIZE) = False"
    using g'(2) by (simp add: fbl_consts word_less_nat_alt not_less)
  have hi: "(?n > FBL_APP_FLASH_SIZE - FBL_TRAILER_SIZE FBL_DIGEST_CRC32) = False"
    using g'(3) len by (simp add: FBL_TRAILER_SIZE_def fbl_consts word_less_nat_alt not_less)
  have reg: "(FBL_APP_FLASH_SIZE < FBL_APP_HEADER_OFFSET + FBL_APP_HEADER_SIZE + FBL_TRAILER_SIZE FBL_DIGEST_CRC32) = False"
    by (simp add: FBL_TRAILER_SIZE_def fbl_consts)
  show ?thesis
    unfolding fbl_app_image_valid_def option.case Let_def reg magic il lo hi img dig vec g'(5) if_False
    using g'(6) by simp
qed

text \<open>An image downloaded and exited, then the reset an ECU reset request makes: the new image runs.\<close>

context flash_driver begin

lemma reprogrammed_boots:
  assumes bits: "soft_distinct bits" and good: "image_good (concat blocks)"
    and n: "image_len = of_nat (length (concat blocks))"
    and dl: "download (g_fbl_flash_hal drv) cap FBL_APP_FLASH_BASE image_len blocks s = Some s'"
    and bl: "\<And>b. b \<in> set blocks \<Longrightarrow> length b \<le> 4096"
  shows "\<exists>w'. fbl_run_boot FBL_DIGEST_CRC32 (fbl_target bits fuel table) fuel'
      (fbl_port_system_reset bits (fbl_diag_reset h (us_dev s'))) = Some (FBL_ACTION_JUMP_APP, [], w')"
proof -
  let ?img = "concat blocks" and ?p = "fbl_target bits fuel table"
  have "length ?img \<le> 832 * 1024" using good by (simp add: image_good_def Let_def fbl_consts)
  then have un: "unat image_len = length ?img" and small: "unat image_len + 4096 < 2 ^ 32"
    using n by (simp_all add: unat_of_nat)
  have m: "mem_range (fw_flash (us_dev s')) FBL_APP_FLASH_BASE 0 (length ?img) = ?img"
    using app.download_data(1) [OF fbl_hal_write_fn dl bl small] unfolding un .
  obtain w4 where k: "keeps_image (us_dev s') w4" and boot: "fbl_run_boot FBL_DIGEST_CRC32 ?p fuel'
      (fbl_port_system_reset bits (fbl_diag_reset h (us_dev s'))) =
      (case fbl_app_image_valid FBL_DIGEST_CRC32 ?p (Some FBL_APP_FLASH_BASE) FBL_APP_FLASH_SIZE w4 of
         None \<Rightarrow> None
       | Some (valid, log, w5) \<Rightarrow>
           Some (if valid then FBL_ACTION_JUMP_APP else FBL_ACTION_PROGRAMMING_MODE, log, w5))"
    using ecu_reset_boot [OF bits, of "us_dev s'" FBL_DIGEST_CRC32 fuel table fuel' h] by blast
  have "fp_mem ?p w4 = fw_flash (us_dev s')" using k by (simp add: keeps_image_def fbl_target_def)
  then have "fbl_app_image_valid FBL_DIGEST_CRC32 ?p (Some FBL_APP_FLASH_BASE) FBL_APP_FLASH_SIZE w4 = Some (True, [], w4)"
    by (intro image_good_valid [OF good]) (simp add: m)
  then show ?thesis unfolding boot by simp
qed

end

end
