(* ===== verification/Sample_Boot.thy ===== *)
theory Sample_Boot imports Sample_Node Fbl_Diag begin

text \<open>
  One concrete bootloader: a reset-reason layout, an application image of each build in code flash,
  and a world that boots it. The properties are general; this is the input of their witnesses.
\<close>

definition sample_bits :: cy_reset_bits where
  "sample_bits = \<lparr>HIB_WAKEUP = 1, PORVDDD = 2, BODVDDD = 4, BODVDDA = 8, BODVCCD = 16, XRES = 32,
     PXRES = 64, SOFT = 128, HWWDT = 256, SWWDT0 = 512, SWWDT1 = 1024, SWWDT2 = 2048, SWWDT3 = 4096,
     TC_DBGRESET = 8192\<rparr>"

text \<open>Vectors, header and code up to the digest: 508 bytes; and the SHA build's 268 bytes with its trailer.\<close>

definition sample_body :: bytes where
  "sample_body = le32 0x08001000 @ le32 0x10040101 @ replicate 248 0 @ le32 FBL_APP_HEADER_MAGIC @
     le16 1 @ le16 12 @ le32 508 @ replicate 240 0"

definition sample_image :: bytes where
  "sample_image = sample_body @ fbl_digest FBL_DIGEST_CRC32 sample_body"

definition sample_signed :: bytes where
  "sample_signed = le32 0x08001000 @ le32 0x10040101 @ replicate 248 0 @ le32 FBL_APP_HEADER_MAGIC @
     le16 1 @ le16 12 @ le32 268 @ replicate 96 0 @ le32 CRYPTO_DEV_KEY_ID"

definition image_mem :: "bytes \<Rightarrow> u32 \<Rightarrow> u8" where
  "image_mem img a = (if unat (a - FBL_APP_FLASH_BASE) < length img then img ! unat (a - FBL_APP_FLASH_BASE) else 0)"

definition sample_boot :: "u32 \<Rightarrow> crypto_block fbl_world" where
  "sample_boot reason = \<lparr>fw_reason = reason,
     fw_handshake = \<lparr>hs_magic = 0, hs_version = 0, hs_mode = 0, hs_reserved = 0, hs_crc32 = 0\<rparr>,
     fw_breg = (\<lambda>_. 0), fw_protection = 3, fw_clock = 0, fw_tick = 1, fw_rx = [],
     fw_flash = image_mem sample_signed, fw_link = sample_link\<lparr>lk_hw := (lk_hw sample_link)\<lparr>cb_mem := image_mem sample_signed\<rparr>\<rparr>,
     fw_raw_erase_status = 0, fw_raw_program_status = 0\<rparr>"

abbreviation sample_target :: "crypto_block fbl_world fbl_port" where
  "sample_target \<equiv> fbl_target sample_bits 10 (g_handlers sample_hw sample_keys)"

lemma sample_soft: "soft_distinct sample_bits"
  by (simp add: soft_distinct_def sample_bits_def FBL_RST_COLD_MASK_def)

lemma image_mem_range: "length img < 2 ^ 32 \<Longrightarrow> mem_range (image_mem img) FBL_APP_FLASH_BASE 0 (length img) = img"
  by (rule nth_equalityI) (simp_all add: mem_range_def image_mem_def unat_of_nat)

lemma length_sample_signed: "length sample_signed = 368"
  by (simp add: sample_signed_def)

lemma img_u32_at: "length pre = i \<Longrightarrow> img_u32 (pre @ le32 v @ post) i = v"
proof -
  assume "length pre = i"
  then have "img_u32 (pre @ le32 v @ post) i =
      un_le32 (ucast v) (ucast (drop_bit 8 v)) (ucast (drop_bit 16 v)) (ucast (drop_bit 24 v))"
    by (simp add: img_u32_def nth_append le32_def)
  then show ?thesis by (simp only: un_le32_le32)
qed

lemma sample_signed_fields:
  "img_u32 sample_signed 0 = 0x08001000" "img_u32 sample_signed 4 = 0x10040101"
  "img_u32 sample_signed 256 = FBL_APP_HEADER_MAGIC" "img_u32 sample_signed 264 = 268"
  "img_u32 sample_signed 364 = CRYPTO_DEV_KEY_ID"
proof -
  let ?v = "le32 0x08001000 :: bytes" and ?r = "le32 0x10040101 :: bytes" and ?z = "replicate 248 0 :: bytes"
    and ?m = "le32 FBL_APP_HEADER_MAGIC" and ?h = "le16 1 @ le16 12 :: bytes" and ?n = "le32 268 :: bytes"
    and ?t = "replicate 96 0 :: bytes" and ?k = "le32 CRYPTO_DEV_KEY_ID"
  have s: "sample_signed = ?v @ ?r @ ?z @ ?m @ ?h @ ?n @ ?t @ ?k" by (simp add: sample_signed_def)
  show "img_u32 sample_signed 0 = 0x08001000" unfolding s using img_u32_at [of "[]" 0] by simp
  show "img_u32 sample_signed 4 = 0x10040101" unfolding s using img_u32_at [of ?v 4] by simp
  show "img_u32 sample_signed 256 = FBL_APP_HEADER_MAGIC" unfolding s using img_u32_at [of "?v @ ?r @ ?z" 256] by simp
  show "img_u32 sample_signed 264 = 268" unfolding s using img_u32_at [of "?v @ ?r @ ?z @ ?m @ ?h" 264] by simp
  show "img_u32 sample_signed 364 = CRYPTO_DEV_KEY_ID"
    unfolding s using img_u32_at [of "?v @ ?r @ ?z @ ?m @ ?h @ ?n @ ?t" 364 _ "[]"] by simp
qed

lemma sample_vectors: "fbl_vector_sane 0x08001000 0x10040101"
  by (simp add: fbl_vector_sane_def fbl_consts)

lemma sample_verdict:
  "fst (verify_verdict sample_hw sample_keys FBL_APP_FLASH_BASE 268 CRYPTO_DEV_KEY_ID
     (lk_hw sample_link\<lparr>cb_mem := image_mem sample_signed\<rparr>)) = CRYPTO_VERDICT_VALID"
proof -
  let ?h = "lk_hw sample_link\<lparr>cb_mem := image_mem sample_signed\<rparr>"
  have m: "mem_range (image_mem sample_signed) FBL_APP_FLASH_BASE 0 (length sample_signed) = sample_signed"
    by (rule image_mem_range) (simp add: length_sample_signed)
  have "mem_bytes sample_hw ?h (FBL_APP_FLASH_BASE + 268) 32 = mem_range (image_mem sample_signed) FBL_APP_FLASH_BASE 268 32"
    by (simp add: mem_bytes_def mem_range_def sample_hw_def block_hw_def)
  also have "\<dots> = take 32 (drop 268 sample_signed)"
    using mem_range_img [OF m, of 268 32] by (simp add: length_sample_signed)
  also have "\<dots> = replicate 32 0" by (simp add: sample_signed_def)
  finally have "mem_bytes sample_hw ?h (FBL_APP_FLASH_BASE + 268) 32 = replicate 32 0" .
  moreover have "cb_err ?h = 0" by (simp add: sample_link_def)
  moreover have "hw_sha sample_hw d ?h = (Some (replicate 32 0), ?h)" for d
    using calculation(2) by (simp add: sample_hw_def block_hw_def)
  moreover have "hw_ecc_verify sample_hw s d x y ?h = (Some 1, ?h)" for s d x y
    using calculation(2) by (simp add: sample_hw_def block_hw_def)
  ultimately show ?thesis
    by (simp add: verify_verdict_def sample_keys_def g_keys_def crypto_keystore_lookup_def
        do_verify_image_def TRAILER_HASH_OFF_def)
qed

lemma sample_sha_valid:
  assumes "fw_flash w = image_mem sample_signed" and "fw_link w = fw_link (sample_boot 0)"
  shows "\<exists>w'. fbl_app_image_valid FBL_DIGEST_SHA256 sample_target (Some FBL_APP_FLASH_BASE) FBL_APP_FLASH_SIZE w =
    Some (True, [], w')"
proof -
  let ?p = "sample_target" and ?m = "image_mem sample_signed"
  have mem: "fp_mem ?p w = ?m" by (simp add: fbl_target_def assms(1))
  have m: "mem_range ?m FBL_APP_FLASH_BASE 0 (length sample_signed) = sample_signed"
    by (rule image_mem_range) (simp add: length_sample_signed)
  have hdr: "ah_magic (read_app_header ?m FBL_APP_FLASH_BASE) = FBL_APP_HEADER_MAGIC"
    "ah_image_len (read_app_header ?m FBL_APP_FLASH_BASE) = 268"
    using header_of_image [OF m] by (simp_all add: length_sample_signed sample_signed_fields)
  have key: "mem_u32 ?m FBL_APP_FLASH_BASE 364 = CRYPTO_DEV_KEY_ID"
    using img_u32_eq [OF m, of 364] by (simp add: length_sample_signed sample_signed_fields)
  have vec: "mem_u32 ?m FBL_APP_FLASH_BASE 0 = 0x08001000" "mem_u32 ?m FBL_APP_FLASH_BASE 4 = 0x10040101"
    using img_u32_eq [OF m, of 0] img_u32_eq [OF m, of 4] by (simp_all add: length_sample_signed sample_signed_fields)
  let ?lk = "fw_link w"
  have lk: "\<not> lk_locked ?lk" "lk_delay ?lk = Some 3" "lk_tick ?lk = 1"
    "lk_hw ?lk = lk_hw sample_link\<lparr>cb_mem := image_mem sample_signed\<rparr>"
    by (simp_all add: assms(2) sample_boot_def sample_link_def)
  have "\<exists>lk'. crypto_verify_image 10 (Some (g_crypto_port (g_handlers sample_hw sample_keys))) FBL_APP_FLASH_BASE 268
      CRYPTO_DEV_KEY_ID ?lk = Some (CRYPTO_VERDICT_VALID, [], lk')"
    by (rule verify_image_answered [OF lk(1,2)])
       (use sample_verdict in \<open>simp_all add: lk CRYPTO_VERIFY_TIMEOUT_MS_def\<close>)
  then obtain lk' where v: "fp_verify ?p FBL_APP_FLASH_BASE 268 CRYPTO_DEV_KEY_ID w =
      Some (CRYPTO_VERDICT_VALID, [], w\<lparr>fw_link := lk'\<rparr>)"
    by (auto simp: fbl_target_def fbl_verify_image_def)
  have mem': "fp_mem ?p (w\<lparr>fw_link := lk'\<rparr>) = ?m" by (simp add: fbl_target_def assms(1))
  have c: "(FBL_APP_FLASH_SIZE < FBL_APP_HEADER_OFFSET + FBL_APP_HEADER_SIZE + FBL_TRAILER_SIZE FBL_DIGEST_SHA256) = False"
    "(268 < FBL_APP_HEADER_OFFSET + FBL_APP_HEADER_SIZE) = False"
    "(268 > FBL_APP_FLASH_SIZE - FBL_TRAILER_SIZE FBL_DIGEST_SHA256) = False"
    "268 + FBL_DIGEST_SIZE FBL_DIGEST_SHA256 + FBL_SIG_SIZE FBL_DIGEST_SHA256 = 364"
    by (simp_all add: FBL_TRAILER_SIZE_def fbl_consts)
  show ?thesis
    unfolding fbl_app_image_valid_def option.case fbl_digest_algo.case Let_def mem hdr c if_False key v prod.case mem' vec
    by (simp add: sample_vectors)
qed

lemma sample_boots:
  "\<exists>log w'. fbl_run_boot FBL_DIGEST_SHA256 sample_target 1 (sample_boot 256) = Some (FBL_ACTION_JUMP_APP, log, w')"
proof -
  let ?p = sample_target and ?w = "sample_boot 256"
  have cause: "fp_reset_cause ?p ?w = FBL_RST_WATCHDOG"
    by (simp add: fbl_target_def fbl_port_reset_cause_def sample_bits_def sample_boot_def FBL_RST_COLD_MASK_def
        FBL_RST_WDT_MASK_def)
  let ?w2 = "reconcile_noinit ?p FBL_RST_WATCHDOG (fp_clear_reset_cause ?p ?w)"
  have nr: "\<not> target.requests_programming sample_bits 10 (g_handlers sample_hw sample_keys) (fp_clear_reset_cause ?p ?w)"
    unfolding requests_target
    by (simp add: fbl_port_defs sample_boot_def fbl_handshake_valid_def fbl_consts)
  then have req: "(hs_mode (fp_noinit ?p ?w2) = boot_mode_code FBL_PROGRAMMING_REQUESTED) = False"
    unfolding target.reconciled(2) by simp
  obtain c w3 where u: "update_counter ?p FBL_RST_WATCHDOG False ?w2 = (c, w3)" by (metis surj_pair)
  have c: "(c > FBL_BOOTLOOP_THRESHOLD) = False"
  proof -
    have "target.boot_counter sample_bits 10 (g_handlers sample_hw sample_keys) (fp_clear_reset_cause ?p ?w) = 0"
      unfolding boot_counter_target by (simp add: fbl_port_defs sample_boot_def fbl_consts)
    then have "c = 1" using target.counter_updated(1) [OF u] unfolding target.boot_counter_of_reconcile by simp
    then show ?thesis by (simp add: fbl_consts)
  qed
  have "keeps_image ?w w3" by (rule keeps_boot [OF refl u]) simp
  then have k: "fw_flash w3 = image_mem sample_signed" "fw_link w3 = fw_link (sample_boot 0)"
    by (simp_all add: keeps_image_def sample_boot_def)
  obtain w' where v: "fbl_app_image_valid FBL_DIGEST_SHA256 ?p (Some FBL_APP_FLASH_BASE) FBL_APP_FLASH_SIZE w3 = Some (True, [], w')"
    using sample_sha_valid [OF k] by blast
  have pp: "fp_app_image_base ?p = Some FBL_APP_FLASH_BASE" "fp_app_region_len ?p = FBL_APP_FLASH_SIZE"
    by (simp_all add: fbl_target_def fbl_port_app_image_base_def fbl_port_app_region_len_def)
  show ?thesis
    unfolding fbl_run_boot_def Let_def cause req u prod.case c if_False pp by (simp add: v)
qed

text \<open>The image of the CRC build, and a download of it in one block.\<close>

lemma sample_image_good: "image_good sample_image"
proof -
  let ?v = "le32 0x08001000 :: bytes" and ?r = "le32 0x10040101 :: bytes" and ?z = "replicate 248 0 :: bytes"
    and ?m = "le32 FBL_APP_HEADER_MAGIC" and ?h = "le16 1 @ le16 12 :: bytes" and ?n = "le32 508 :: bytes"
    and ?t = "replicate 240 0 :: bytes" and ?d = "fbl_digest FBL_DIGEST_CRC32 sample_body"
  have s: "sample_image = ?v @ ?r @ ?z @ ?m @ ?h @ ?n @ ?t @ ?d" by (simp add: sample_image_def sample_body_def)
  have l: "length sample_body = 508" "length ?d = 4" by (simp_all add: sample_body_def fbl_digest_def Let_def)
  have "img_u32 sample_image 0 = 0x08001000" unfolding s using img_u32_at [of "[]" 0] by simp
  moreover have "img_u32 sample_image 4 = 0x10040101" unfolding s using img_u32_at [of ?v 4] by simp
  moreover have "img_u32 sample_image 256 = FBL_APP_HEADER_MAGIC"
    unfolding s using img_u32_at [of "?v @ ?r @ ?z" 256] by simp
  moreover have "img_u32 sample_image 264 = 508"
    unfolding s using img_u32_at [of "?v @ ?r @ ?z @ ?m @ ?h" 264] by simp
  moreover have "take 508 sample_image = sample_body" "take 4 (drop 508 sample_image) = ?d"
    "length sample_image = 512" "take 4 ?d = ?d"
    using l by (simp_all add: sample_image_def)
  ultimately show ?thesis
    unfolding image_good_def Let_def by (simp add: sample_vectors FBL_APP_FLASH_SIZE_def)
qed

definition sample_uds :: "crypto_block fbl_world uds" where
  "sample_uds = \<lparr>us_session = UDS_SESS_DEFAULT, us_last_activity_ms = 0,
     us_isotp = \<lparr>is_tx_id = 0, is_state = ISOTP_IDLE, is_rx_buf = replicate 4096 0, is_rx_total_len = 0,
       is_rx_received_len = 0, is_rx_next_seq = 0, is_rx_last_activity_ms = 0, is_rx_complete = False,
       is_tx_data = replicate 4096 0, is_tx_total_len = 0, is_tx_sent_len = 0, is_tx_next_seq = 0,
       is_tx_pending = False, is_tx_block_remaining = 0, is_out = []\<rparr>,
     sa_state = UDS_SEC_LOCKED, sa_seed = 0, sa_seed_counter = 1, dl_state = UDS_DOWNLOAD_IDLE, dl_addr = 0,
     dl_total_len = 0, dl_written_len = 0, dl_next_seq = 0, us_log = [], us_dev = sample_boot 0\<rparr>"

lemma sample_download:
  "\<exists>s'. download (g_fbl_flash_hal ram_driver) 4095 FBL_APP_FLASH_BASE 512 [sample_image] sample_uds = Some s'"
proof -
  have l: "length sample_image = 512"
    by (simp add: sample_image_def sample_body_def fbl_digest_def Let_def)
  obtain r s1 where r: "request_download_handle (be32 FBL_APP_FLASH_BASE @ be32 512) 4095 sample_uds = Some (Inr r, s1)"
    by (simp add: request_download_handle_def Let_def)
  note s1 = request_download_starts [OF r]
  have "fst (fbl_hal_write ram_driver FBL_APP_FLASH_BASE sample_image (us_dev s1)) = 0"
    using l by (simp add: fbl_hal_write_def in_app_region_def fbl_consts flash_consts ram_driver_def)
  then obtain d where row: "fbl_hal_write ram_driver FBL_APP_FLASH_BASE sample_image (us_dev s1) = (0, d)"
    by (metis prod.collapse)
  have t: "\<exists>s2. transfer_data_handle (g_fbl_flash_hal ram_driver) (1 # sample_image) 4095 s1 = Some (Inr [1], s2) \<and>
      dl_state s2 = UDS_DOWNLOAD_ACTIVE \<and> dl_written_len s2 = dl_total_len s2"
    using row l by (simp add: transfer_data_handle_def s1 g_fbl_flash_hal_def Let_def)
  have "dl_next_seq s1 = 1" by (simp add: s1)
  then show ?thesis using t by (auto simp: download_def r request_transfer_exit_handle_def)
qed

text \<open>Single-frame requests to it.\<close>

abbreviation sample_request :: "bytes \<Rightarrow> can_raw_frame" where
  "sample_request m \<equiv> fd_frame 0x7A0 (ISOTP_PCI_TYPE_SF # of_nat (length m) # m)"

abbreviation sample_table :: "crypto_block fbl_world uds_handler list" where
  "sample_table \<equiv> g_table ram_driver FBL_DIGEST_CRC32 sample_target"

lemma table_lookup:
  "uds_find_handler (g_table drv alg p) UDS_SID_ECU_RESET =
     Some \<lparr>uh_sid = UDS_SID_ECU_RESET, uh_handle = uds_ecu_reset\<rparr>"
  "uds_find_handler (g_table drv alg p) UDS_SID_SECURITY_ACCESS =
     Some \<lparr>uh_sid = UDS_SID_SECURITY_ACCESS, uh_handle = uds_security_access\<rparr>"
  "uds_find_handler (g_table drv alg p) UDS_SID_REQUEST_DOWNLOAD =
     Some \<lparr>uh_sid = UDS_SID_REQUEST_DOWNLOAD, uh_handle = request_download_handle\<rparr>"
  "uds_find_handler (g_table drv alg p) UDS_SID_REQUEST_TRANSFER_EXIT =
     Some \<lparr>uh_sid = UDS_SID_REQUEST_TRANSFER_EXIT, uh_handle = request_transfer_exit_handle\<rparr>"
  by (simp_all add: uds_find_handler_def g_table_def uds_sids)

lemma sample_tick:
  assumes "length (is_rx_buf (us_isotp s)) = ISOTP_MAX_PAYLOAD" and "us_session s = UDS_SESS_DEFAULT"
    and "m \<noteq> []" and "length m \<le> 62"
  shows "\<exists>i. uds_session_tick table now [sample_request m] s = uds_dispatch table now m (s\<lparr>us_isotp := i\<rparr>) \<and>
    length (is_rx_buf i) = ISOTP_MAX_PAYLOAD"
proof -
  obtain i where "tick_request now [sample_request m] s = Some (Some m, s\<lparr>us_isotp := i\<rparr>)"
    "length (is_rx_buf i) = ISOTP_MAX_PAYLOAD"
    using tick_request_sf [OF assms] by blast
  then show ?thesis by (auto simp: tick_eq)
qed

lemma sample_buffers: "length (is_rx_buf (us_isotp sample_uds)) = ISOTP_MAX_PAYLOAD" "us_session sample_uds = UDS_SESS_DEFAULT"
  by (simp_all add: sample_uds_def ISOTP_MAX_PAYLOAD_def)

lemma reset_is_no_session: "UDS_SID_ECU_RESET \<noteq> UDS_SID_DIAGNOSTIC_SESSION_CONTROL"
  by (simp add: uds_sids)

lemma reset_tick:
  assumes "length (is_rx_buf (us_isotp s)) = ISOTP_MAX_PAYLOAD" and "us_session s = UDS_SESS_DEFAULT"
  shows "\<exists>s'. fbl_diag_tick ram_driver FBL_DIGEST_CRC32 sample_bits sample_target h now
      [sample_request [UDS_SID_ECU_RESET, 1]] s = Some (True, s')"
proof -
  obtain i where "uds_session_tick sample_table now [sample_request [UDS_SID_ECU_RESET, 1]] s =
      uds_dispatch sample_table now [UDS_SID_ECU_RESET, 1] (s\<lparr>us_isotp := i\<rparr>)"
    using sample_tick [OF assms, of "[UDS_SID_ECU_RESET, 1]" sample_table now] by auto
  then show ?thesis
    by (simp add: fbl_diag_tick_def uds_dispatch_def table_lookup uds_ecu_reset_def ISOTP_MAX_PAYLOAD_def
        session_followup_def reset_is_no_session Let_def)
qed

lemmas sample_reset_tick = reset_tick [OF sample_buffers]

lemma sample_key_tick:
  "\<exists>e s'. uds_session_tick sample_table 0
      [sample_request ([UDS_SID_SECURITY_ACCESS, 2] @ be32 (7 XOR UDS_SECURITY_KEY_XOR_CONST))]
      (sample_uds\<lparr>sa_state := UDS_SEC_SEED_SENT, sa_seed := 7\<rparr>) = Some (e, s') \<and> uds_session_is_unlocked s'"
proof -
  let ?s = "sample_uds\<lparr>sa_state := UDS_SEC_SEED_SENT, sa_seed := 7\<rparr>"
  let ?k = "be32 (7 XOR UDS_SECURITY_KEY_XOR_CONST)"
  let ?m = "[UDS_SID_SECURITY_ACCESS, 2] @ ?k"
  obtain i where t: "uds_session_tick sample_table 0 [sample_request ?m] ?s = uds_dispatch sample_table 0 ?m (?s\<lparr>us_isotp := i\<rparr>)"
    using sample_tick [of ?s ?m sample_table 0] sample_buffers by auto
  have n: "?m ! 0 = UDS_SID_SECURITY_ACCESS" "tl ?m = 2 # ?k" by simp_all
  have "send_key (2 # ?k) 4095 (?s\<lparr>us_isotp := i\<rparr>) = (Inr [2], ?s\<lparr>us_isotp := i, sa_state := UDS_SEC_UNLOCKED\<rparr>)"
    using be32_word [of "7 XOR UDS_SECURITY_KEY_XOR_CONST"] by (simp add: send_key_def Let_def)
  then have h: "uds_security_access (2 # ?k) 4095 (?s\<lparr>us_isotp := i\<rparr>) =
      Some (Inr [2], ?s\<lparr>us_isotp := i, sa_state := UDS_SEC_UNLOCKED\<rparr>)"
    by (simp add: uds_security_access_def)
  have f: "session_followup UDS_SID_SECURITY_ACCESS b x = (UDS_SESSION_EVENT_NONE, x)" for b and x :: "crypto_block fbl_world uds"
    by (simp add: session_followup_def uds_sids)
  show ?thesis unfolding t uds_dispatch_def n Let_def table_lookup option.case
    using h by (simp add: ISOTP_MAX_PAYLOAD_def f uds_respond_def uds_session_is_unlocked_def
        uds_security_access_is_unlocked_def)
qed

lemma sample_empty_download:
  "\<exists>s'. diag_run ram_driver FBL_DIGEST_CRC32 sample_bits sample_target h
      [(0, [sample_request (UDS_SID_REQUEST_DOWNLOAD # be32 FBL_APP_FLASH_BASE @ be32 0)]),
       (1, [sample_request [UDS_SID_REQUEST_TRANSFER_EXIT]])] (fbl_diag_init sample_uds) = Some (False, s') \<and>
    dl_state s' = UDS_DOWNLOAD_DONE"
proof -
  let ?m1 = "UDS_SID_REQUEST_DOWNLOAD # be32 FBL_APP_FLASH_BASE @ be32 0" and ?m2 = "[UDS_SID_REQUEST_TRANSFER_EXIT]"
  let ?s = "fbl_diag_init sample_uds"
  have s: "length (is_rx_buf (us_isotp ?s)) = ISOTP_MAX_PAYLOAD" "us_session ?s = UDS_SESS_DEFAULT"
    using sample_buffers
    by (simp_all add: fbl_diag_init_def uds_session_init_def uds_download_init_def isotp_init_def)
  obtain i where t1: "uds_session_tick sample_table 0 [sample_request ?m1] ?s = uds_dispatch sample_table 0 ?m1 (?s\<lparr>us_isotp := i\<rparr>)"
    and i: "length (is_rx_buf i) = ISOTP_MAX_PAYLOAD"
    using sample_tick [OF s, of ?m1 sample_table 0] by auto
  obtain r s1 where r: "request_download_handle (be32 FBL_APP_FLASH_BASE @ be32 0) 4095 (?s\<lparr>us_isotp := i\<rparr>) = Some (Inr r, s1)"
    by (simp add: request_download_handle_def Let_def)
  note s1 = request_download_starts [OF r]
  have f: "session_followup UDS_SID_REQUEST_DOWNLOAD b x = (UDS_SESSION_EVENT_NONE, x)"
    "session_followup UDS_SID_REQUEST_TRANSFER_EXIT b x = (UDS_SESSION_EVENT_NONE, x)"
    for b and x :: "crypto_block fbl_world uds" by (simp_all add: session_followup_def uds_sids)
  let ?s2 = "(uds_respond (UDS_SID_REQUEST_DOWNLOAD # r) s1)\<lparr>us_last_activity_ms := 0\<rparr>"
  have d1: "fbl_diag_tick ram_driver FBL_DIGEST_CRC32 sample_bits sample_target h 0 [sample_request ?m1] ?s = Some (False, ?s2)"
    unfolding fbl_diag_tick_def t1 uds_dispatch_def using r by (simp add: table_lookup f ISOTP_MAX_PAYLOAD_def)
  have "is_rx_buf (snd (isotp_send b x)) = is_rx_buf x" for b x
    by (simp add: isotp_send_def Let_def can_send_def)
  then have s2: "length (is_rx_buf (us_isotp ?s2)) = ISOTP_MAX_PAYLOAD" "us_session ?s2 = UDS_SESS_DEFAULT"
    "dl_state ?s2 = UDS_DOWNLOAD_ACTIVE" "dl_written_len ?s2 = dl_total_len ?s2"
    using i s(2) by (simp_all add: uds_respond_def s1)
  obtain j where t2: "uds_session_tick sample_table 1 [sample_request ?m2] ?s2 = uds_dispatch sample_table 1 ?m2 (?s2\<lparr>us_isotp := j\<rparr>)"
    using sample_tick [OF s2(1,2), of ?m2 sample_table 1] by auto
  have x: "request_transfer_exit_handle [] c (?s2\<lparr>us_isotp := j\<rparr>) =
      Some (Inr [], ?s2\<lparr>us_isotp := j, dl_state := UDS_DOWNLOAD_DONE\<rparr>)" for c
    using s2(3,4) by (simp add: request_transfer_exit_handle_def)
  let ?s3 = "(uds_respond [UDS_SID_REQUEST_TRANSFER_EXIT] (?s2\<lparr>us_isotp := j, dl_state := UDS_DOWNLOAD_DONE\<rparr>))
      \<lparr>us_last_activity_ms := 1\<rparr>"
  have "fbl_diag_tick ram_driver FBL_DIGEST_CRC32 sample_bits sample_target h 1 [sample_request ?m2] ?s2 = Some (False, ?s3)"
    unfolding fbl_diag_tick_def t2 uds_dispatch_def by (simp add: table_lookup f x del: One_nat_def)
  moreover have "dl_state ?s3 = UDS_DOWNLOAD_DONE" by (simp add: uds_respond_def)
  ultimately show ?thesis using d1 by auto
qed

end
