(* ===== verification/Log.thy ===== *)
theory Log imports Log_Events begin

text \<open>
  The logging channel: \<open>shared/log/src/log.c\<close>. Producers encode a 16-byte record, or up to 64 bytes of
  ASCII, into a byte ring with free-running 32-bit head and tail; a drain task hands the ring to
  the sink in pieces that stop at the wrap.

  The module's static variables and the ring (its bytes, head and tail, which \<open>log_port_*\<close> hands
  out) are the record \<open>log_state\<close>; the ring's capacity is the list's length. The clock and the sink
  are the record \<open>log_port\<close> of functions over a world \<open>'w\<close>. The lock around an enqueue makes it one
  step, which is what a HOL function is; the publish barriers have no effect on one core's state.
\<close>

section \<open>Types and constants\<close>

definition LOG_REC_SIZE :: nat where "LOG_REC_SIZE = 16"
definition LOG_SYNC :: u8 where "LOG_SYNC = 0xA5"
definition LOG_CORE_SHIFT :: nat where "LOG_CORE_SHIFT = 6"
definition LOG_SEQ_MASK :: u8 where "LOG_SEQ_MASK = 0x3F"
definition LOG_TEXT_MAX :: nat where "LOG_TEXT_MAX = 64"
definition LOG_FLUSH_MAX_STALL :: u32 where "LOG_FLUSH_MAX_STALL = 1000"
definition LOG_OFF_CRC :: nat where "LOG_OFF_CRC = 14"

lemmas log_consts = LOG_REC_SIZE_def LOG_SYNC_def LOG_CORE_SHIFT_def LOG_SEQ_MASK_def
  LOG_TEXT_MAX_def LOG_OFF_CRC_def

datatype log_core = LOG_CORE_APP | LOG_CORE_SECURITY

fun core_code :: "log_core \<Rightarrow> u8" where
  "core_code LOG_CORE_APP = 0"
| "core_code LOG_CORE_SECURITY = 1"

datatype log_drain_res = LOG_DRAIN_IDLE | LOG_DRAIN_SENT | LOG_DRAIN_BLOCKED

record log_state =
  lg_core :: log_core
  lg_seq :: u8
  lg_dropped :: u32
  lg_pending :: u32
  lg_head :: u32
  lg_tail :: u32
  lg_ring :: bytes

record 'w log_port =
  lp_now_ms :: "'w \<Rightarrow> u32 \<times> 'w"
  lp_tx :: "bytes \<Rightarrow> 'w \<Rightarrow> nat \<times> 'w"
  lp_sink_ready :: "'w \<Rightarrow> bool"
  lp_sink_idle :: "'w \<Rightarrow> bool"

section \<open>Records\<close>

definition log_wr16 :: "nat \<Rightarrow> u16 \<Rightarrow> bytes \<Rightarrow> bytes" where
  "log_wr16 off v out = overwrite off [ucast (v AND 0x00FF), ucast (drop_bit 8 v AND 0x00FF)] out"

definition log_wr32 :: "nat \<Rightarrow> u32 \<Rightarrow> bytes \<Rightarrow> bytes" where
  "log_wr32 off v out = overwrite off
     [ucast (v AND 0x000000FF), ucast (drop_bit 8 v AND 0x000000FF),
      ucast (drop_bit 16 v AND 0x000000FF), ucast (drop_bit 24 v AND 0x000000FF)] out"

definition crc16_bit :: "u16 \<Rightarrow> u16" where
  "crc16_bit crc = (if crc AND 0x8000 \<noteq> 0 then push_bit 1 crc XOR 0x1021 else push_bit 1 crc)"

definition log_crc16 :: "bytes \<Rightarrow> nat \<Rightarrow> u16" where
  "log_crc16 data len =
     foldl (\<lambda>crc b. (crc16_bit ^^ 8) (crc XOR push_bit 8 (ucast b))) 0xFFFF (take len data)"

definition log_rec_encode ::
  "bytes \<Rightarrow> log_core \<Rightarrow> u8 \<Rightarrow> u16 \<Rightarrow> u32 \<Rightarrow> u32 \<Rightarrow> u16 \<Rightarrow> bytes" where
  "log_rec_encode out core seq evt ts_ms arg0 arg1 =
     (let o1 = out[0 := LOG_SYNC];
          o2 = o1[1 := push_bit LOG_CORE_SHIFT (core_code core) OR (seq AND LOG_SEQ_MASK)];
          o3 = log_wr16 2 evt o2;
          o4 = log_wr32 4 ts_ms o3;
          o5 = log_wr32 8 arg0 o4;
          o6 = log_wr16 12 arg1 o5;
          crc16 = log_crc16 o6 LOG_OFF_CRC in
      log_wr16 LOG_OFF_CRC crc16 o6)"

section \<open>The ring\<close>

definition ring_cap :: "log_state \<Rightarrow> nat" where
  "ring_cap s = length (lg_ring s)"

definition log_ring_copy_in :: "u32 \<Rightarrow> bytes \<Rightarrow> bytes \<Rightarrow> bytes" where
  "log_ring_copy_in start src ring =
     (let cap = length ring; idx = unat start AND (cap - 1); len = length src in
      if len = 0 then ring
      else
        let first = min len (cap - idx); r1 = overwrite idx (take first src) ring in
        if len > first then overwrite 0 (drop first src) r1 else r1)"

definition log_try_enqueue :: "bytes \<Rightarrow> bytes \<Rightarrow> log_state \<Rightarrow> bool \<times> log_state" where
  "log_try_enqueue first second s =
     (let cap = ring_cap s; need = length first + length second in
      if need = 0 then (True, s)
      else
        let start = lg_head s; used = unat (start - lg_tail s) in
        if need > cap \<or> cap - used < need then (False, s)
        else
          let r1 = log_ring_copy_in start first (lg_ring s);
              r2 = log_ring_copy_in (start + of_nat (length first)) second r1 in
          (True, s\<lparr>lg_ring := r2, lg_head := start + of_nat need\<rparr>))"

definition log_note_drop :: "log_state \<Rightarrow> log_state" where
  "log_note_drop s = s\<lparr>lg_dropped := lg_dropped s + 1, lg_pending := lg_pending s + 1\<rparr>"

section \<open>Producers\<close>

definition log_evt ::
  "'w log_port \<Rightarrow> u16 \<Rightarrow> u32 \<Rightarrow> u16 \<Rightarrow> log_state \<Rightarrow> 'w \<Rightarrow> log_state \<times> 'w" where
  "log_evt p evt arg0 arg1 s w = (case lp_now_ms p w of (now_ms, w') \<Rightarrow>
     let blank = replicate LOG_REC_SIZE 0;
         report = lg_pending s \<noteq> 0;
         overflow = (if report
           then log_rec_encode blank (lg_core s) (lg_seq s) LOG_EVT_OVERFLOW now_ms (lg_pending s) 0
           else []);
         seq = (if report then (lg_seq s + 1) AND LOG_SEQ_MASK else lg_seq s);
         event = log_rec_encode blank (lg_core s) seq evt now_ms arg0 arg1 in
     case log_try_enqueue overflow event s of
       (False, s1) \<Rightarrow> (log_note_drop s1, w')
     | (True, s1) \<Rightarrow>
         (if report then s1\<lparr>lg_seq := (lg_seq s1 + 2) AND LOG_SEQ_MASK, lg_pending := 0\<rparr>
          else s1\<lparr>lg_seq := (lg_seq s1 + 1) AND LOG_SEQ_MASK\<rparr>, w'))"

text \<open>
  The scan of \<open>log_text\<close> over a string's bytes, its NUL included or not (the list's end counts as
  one): the length, or \<open>None\<close> when a byte above 127 comes first.
\<close>

fun text_len :: "nat \<Rightarrow> bytes \<Rightarrow> nat option" where
  "text_len 0 s = Some 0"
| "text_len (Suc n) [] = Some 0"
| "text_len (Suc n) (c # s) =
     (if c = 0 then Some 0 else if c AND 0x80 \<noteq> 0 then None else map_option Suc (text_len n s))"

definition log_text :: "bytes option \<Rightarrow> log_state \<Rightarrow> log_state" where
  "log_text str s = (case str of None \<Rightarrow> s | Some t \<Rightarrow>
     (case text_len LOG_TEXT_MAX t of None \<Rightarrow> s | Some len \<Rightarrow>
       (case log_try_enqueue (take len t) [] s of
          (False, s1) \<Rightarrow> log_note_drop s1 | (True, s1) \<Rightarrow> s1)))"

text \<open>The string literals of the banner, around the image name and build identity of the build.\<close>

definition ascii :: "string \<Rightarrow> bytes" where
  "ascii = map (\<lambda>c. of_char c)"

definition log_banner :: "string \<Rightarrow> string \<Rightarrow> log_state \<Rightarrow> log_state" where
  "log_banner img build s =
     (if lg_core s = LOG_CORE_SECURITY
      then log_text (Some (10 # ascii (''--- '' @ img @ ''/sec '' @ build @ '' ---'') @ [10])) s
      else log_text (Some (10 # ascii (''--- '' @ img @ '' '' @ build @ '' ---'') @ [10])) s)"

definition log_init :: "string \<Rightarrow> string \<Rightarrow> log_core \<Rightarrow> log_state \<Rightarrow> log_state" where
  "log_init img build core s =
     (let s1 = s\<lparr>lg_core := core, lg_seq := 0, lg_dropped := 0, lg_pending := 0,
                 lg_head := 0, lg_tail := 0\<rparr> in
      if core = LOG_CORE_APP then log_banner img build s1 else s1)"

definition log_dropped :: "log_state \<Rightarrow> u32" where
  "log_dropped s = lg_dropped s"

definition log_panic :: "'w log_port \<Rightarrow> u16 \<Rightarrow> u32 \<Rightarrow> u16 \<Rightarrow> log_state \<Rightarrow> 'w \<Rightarrow> bytes \<times> 'w" where
  "log_panic p evt arg0 arg1 s w = (case lp_now_ms p w of (now, w') \<Rightarrow>
     (log_rec_encode (replicate LOG_REC_SIZE 0) (lg_core s) (lg_seq s) evt now arg0 arg1, w'))"

section \<open>Draining\<close>

text \<open>The next piece of a pass: where it starts in the ring, and how long it is.\<close>

definition drain_idx :: "log_state \<Rightarrow> nat" where
  "drain_idx s = unat (lg_tail s) AND (ring_cap s - 1)"

definition drain_chunk :: "nat \<Rightarrow> nat \<Rightarrow> log_state \<Rightarrow> nat" where
  "drain_chunk max_bytes remaining s =
     (let used = unat (lg_head s - lg_tail s); chunk = min used (ring_cap s - drain_idx s) in
      if max_bytes \<noteq> 0 \<and> chunk > remaining then remaining else chunk)"

text \<open>
  The loop of \<open>log_drain\<close>, with fuel for its iterations: \<open>None\<close> is running out of it. Each pass that
  goes round again has handed at least one byte over, so one more than the queued bytes is enough.
\<close>

primrec drain_loop ::
  "'w log_port \<Rightarrow> nat \<Rightarrow> nat \<Rightarrow> nat \<Rightarrow> bool \<Rightarrow> log_state \<Rightarrow> 'w \<Rightarrow> (log_drain_res \<times> log_state \<times> 'w) option"
  where
  "drain_loop p 0 max_bytes remaining sent_any s w = None"
| "drain_loop p (Suc fuel) max_bytes remaining sent_any s w =
     (let used = unat (lg_head s - lg_tail s) in
      if used = 0 then Some (if sent_any then LOG_DRAIN_SENT else LOG_DRAIN_IDLE, s, w)
      else if max_bytes \<noteq> 0 \<and> remaining = 0
        then Some (if sent_any then LOG_DRAIN_SENT else LOG_DRAIN_IDLE, s, w)
      else if \<not> lp_sink_ready p w then Some (LOG_DRAIN_BLOCKED, s, w)
      else
        let chunk = drain_chunk max_bytes remaining s in
        case lp_tx p (take chunk (drop (drain_idx s) (lg_ring s))) w of (sent, w1) \<Rightarrow>
          if sent = 0 then Some (LOG_DRAIN_BLOCKED, s, w1)
          else
            let s1 = s\<lparr>lg_tail := lg_tail s + of_nat sent\<rparr>;
                remaining1 = (if max_bytes \<noteq> 0 then remaining - sent else remaining) in
            if sent < chunk then Some (LOG_DRAIN_BLOCKED, s1, w1)
            else drain_loop p fuel max_bytes remaining1 True s1 w1)"

definition log_drain ::
  "'w log_port \<Rightarrow> nat \<Rightarrow> log_state \<Rightarrow> 'w \<Rightarrow> (log_drain_res \<times> log_state \<times> 'w) option" where
  "log_drain p max_bytes s w =
     drain_loop p (Suc (unat (lg_head s - lg_tail s))) max_bytes max_bytes False s w"

text \<open>The loop of \<open>log_flush\<close>, one pass per unit of fuel.\<close>

primrec flush_loop ::
  "'w log_port \<Rightarrow> nat \<Rightarrow> u32 \<Rightarrow> u32 \<Rightarrow> u32 \<Rightarrow> bool \<Rightarrow> log_state \<Rightarrow> 'w \<Rightarrow> (bool \<times> log_state \<times> 'w) option"
  where
  "flush_loop p 0 timeout_ms start stalled drained s w = None"
| "flush_loop p (Suc fuel) timeout_ms start stalled drained s w =
     (case (if drained then Some (True, False, s, w)
            else case log_drain p 0 s w of
                None \<Rightarrow> None
              | Some (LOG_DRAIN_IDLE, s1, w1) \<Rightarrow> Some (True, True, s1, w1)
              | Some (LOG_DRAIN_SENT, s1, w1) \<Rightarrow> Some (False, True, s1, w1)
              | Some (LOG_DRAIN_BLOCKED, s1, w1) \<Rightarrow> Some (False, False, s1, w1)) of
        None \<Rightarrow> None
      | Some (drained1, progress, s1, w1) \<Rightarrow>
          if drained1 \<and> lp_sink_idle p w1 then Some (True, s1, w1)
          else
            let stalled1 = (if progress then 0 else stalled + 1) in
            if stalled1 \<ge> LOG_FLUSH_MAX_STALL then Some (False, s1, w1)
            else case lp_now_ms p w1 of (now, w2) \<Rightarrow>
              if now - start \<ge> timeout_ms then Some (False, s1, w2)
              else flush_loop p fuel timeout_ms start stalled1 drained1 s1 w2)"

definition log_flush :: "'w log_port \<Rightarrow> nat \<Rightarrow> u32 \<Rightarrow> log_state \<Rightarrow> 'w \<Rightarrow> (bool \<times> log_state \<times> 'w) option"
  where
  "log_flush p fuel timeout_ms s w = (case lp_now_ms p w of (start, w1) \<Rightarrow>
     flush_loop p fuel timeout_ms start 0 False s w1)"

section \<open>The ring is a queue of bytes\<close>

text \<open>A power of two of bytes below \<open>2 ^ 32\<close>, and at most that many queued.\<close>

definition ring_ok :: "log_state \<Rightarrow> bool" where
  "ring_ok s \<longleftrightarrow> (\<exists>k < 32. ring_cap s = 2 ^ k) \<and> unat (lg_head s - lg_tail s) \<le> ring_cap s"

definition log_queue :: "log_state \<Rightarrow> bytes" where
  "log_queue s = map (\<lambda>i. lg_ring s ! ((unat (lg_tail s) + i) mod ring_cap s))
     [0..<unat (lg_head s - lg_tail s)]"

lemma length_log_queue [simp]: "length (log_queue s) = unat (lg_head s - lg_tail s)"
  by (simp add: log_queue_def)

lemma mask_idx: "n AND (2 ^ k - 1) = n mod (2 ^ k :: nat)"
  by (simp only: take_bit_eq_mod [symmetric] take_bit_eq_mask mask_eq_exp_minus_1)

lemmas mask_idx' = mask_idx [simplified One_nat_def]

lemma unat_plus_mod:
  assumes "k < 32"
  shows "unat (x + y :: u32) mod 2 ^ k = (unat x + unat y) mod 2 ^ k"
proof -
  have "(2 :: nat) ^ k dvd 2 ^ 32" using assms by (intro le_imp_power_dvd) simp
  then show ?thesis by (simp add: unat_word_ariths mod_mod_cancel)
qed

lemma unat_of_nat_mod: "k < 32 \<Longrightarrow> unat (of_nat n :: u32) mod 2 ^ k = n mod 2 ^ k"
proof -
  assume "k < 32"
  then have "(2 :: nat) ^ k dvd 2 ^ 32" by (intro le_imp_power_dvd) simp
  then show ?thesis by (simp add: unat_of_nat mod_mod_cancel)
qed

lemma copy_in_length [simp]:
  assumes "length ring = 2 ^ k" and "length src \<le> length ring"
  shows "length (log_ring_copy_in start src ring) = length ring"
proof -
  have i: "unat start mod 2 ^ k < 2 ^ k" by simp
  show ?thesis
  proof (cases "length src \<le> 2 ^ k - unat start mod 2 ^ k")
    case True
    then have "unat start mod 2 ^ k + length src \<le> 2 ^ k" using i by linarith
    then show ?thesis using True assms
      by (simp add: log_ring_copy_in_def Let_def mask_idx' min_absorb1 length_overwrite)
  next
    case False
    then have m: "min (length src) (2 ^ k - unat start mod 2 ^ k) = 2 ^ k - unat start mod 2 ^ k" by simp
    define r1 where "r1 = overwrite (unat start mod 2 ^ k) (take (2 ^ k - unat start mod 2 ^ k) src) ring"
    have r1: "length r1 = 2 ^ k"
      unfolding r1_def using i False assms(1) by (subst length_overwrite) (simp_all add: min_absorb2)
    have "log_ring_copy_in start src ring =
        (if src = [] then ring else overwrite 0 (drop (2 ^ k - unat start mod 2 ^ k) src) r1)"
      using assms(1) m False by (simp add: log_ring_copy_in_def Let_def mask_idx' r1_def)
    moreover have "length (overwrite 0 (drop (2 ^ k - unat start mod 2 ^ k) src) r1) = length r1"
    proof (rule length_overwrite)
      have "length (drop (2 ^ k - unat start mod 2 ^ k) src) \<le> length src"
        unfolding length_drop by (rule diff_le_self)
      then show "0 + length (drop (2 ^ k - unat start mod 2 ^ k) src) \<le> length r1"
        using assms unfolding r1 by linarith
    qed
    ultimately show ?thesis using assms(1) r1 by simp
  qed
qed

lemma copy_in_nth:
  assumes cap: "length ring = 2 ^ k" and len: "length src \<le> length ring" and i: "i < length ring"
  shows "log_ring_copy_in start src ring ! ((unat start + i) mod length ring) =
    (if i < length src then src ! i else ring ! ((unat start + i) mod length ring))"
proof -
  let ?c = "length ring" and ?x = "unat start mod length ring"
  let ?first = "min (length src) (?c - ?x)"
  let ?r1 = "overwrite ?x (take ?first src) ring"
  have x: "?x < ?c" using cap by simp
  have l1: "length ?r1 = ?c" using x by (intro length_overwrite) simp
  have p: "(unat start + i) mod ?c = (if ?x + i < ?c then ?x + i else ?x + i - ?c)"
  proof -
    have "(unat start + i) mod ?c = (?x + i) mod ?c" by (simp add: mod_add_left_eq)
    then show ?thesis using x i by (simp add: mod_if [of "?x + i"])
  qed
  have pc: "(unat start + i) mod ?c < ?c" using cap by simp
  have r1: "?r1 ! q = (if ?x \<le> q \<and> q < ?x + ?first then src ! (q - ?x) else ring ! q)" if "q < ?c" for q
  proof -
    have "take ?first src ! (q - ?x) = src ! (q - ?x)" if "?x \<le> q" "q < ?x + ?first"
      using that by (intro nth_take) arith
    then show ?thesis using x that by (subst nth_overwrite) auto
  qed
  have def: "log_ring_copy_in start src ring = (if length src = 0 then ring
      else if ?first < length src then overwrite 0 (drop ?first src) ?r1 else ?r1)"
    by (simp add: log_ring_copy_in_def Let_def cap mask_idx')
  show ?thesis
  proof (cases "?first < length src")
    case True
    then have f: "?first = ?c - ?x" by simp
    have "overwrite 0 (drop ?first src) ?r1 ! q =
      (if q < length src - ?first then src ! (?first + q) else ?r1 ! q)" if "q < ?c" for q
      using that len x l1 f by (subst nth_overwrite) auto
    then show ?thesis using True pc r1 [OF pc] p x f len i unfolding def by auto
  next
    case False
    then show ?thesis using pc r1 [OF pc] p x i len unfolding def by auto
  qed
qed

lemma mod_add_cong_left: "a mod c = b mod c \<Longrightarrow> (a + i) mod c = (b + i) mod (c :: nat)"
  by (rule mod_add_cong) auto

text \<open>The same, counted from the tail: \<open>u\<close> bytes are queued and the copy goes behind them.\<close>

lemma copy_in_from_tail:
  assumes cap: "length ring = 2 ^ k" and start: "unat start mod 2 ^ k = (t + u) mod 2 ^ k"
    and room: "u + length src \<le> length ring" and j: "j < length ring"
  shows "log_ring_copy_in start src ring ! ((t + j) mod length ring) =
    (if u \<le> j \<and> j < u + length src then src ! (j - u) else ring ! ((t + j) mod length ring))"
proof (cases "u \<le> j")
  case True
  then have "(unat start + (j - u)) mod length ring = (t + j) mod length ring"
    using mod_add_cong_left [OF start, of "j - u"] cap by simp
  then show ?thesis using copy_in_nth [OF cap, of src "j - u" start] True room j by auto
next
  case False
  have "(unat start + (length ring - u + j)) mod length ring = (t + u + (length ring - u + j)) mod length ring"
    using mod_add_cong_left [OF start, of "length ring - u + j"] cap by simp
  also have "t + u + (length ring - u + j) = t + j + length ring" using False room by simp
  finally have "(unat start + (length ring - u + j)) mod length ring = (t + j) mod length ring" by simp
  then show ?thesis using copy_in_nth [OF cap, of src "length ring - u + j" start] False room j by auto
qed

lemma enqueue_refused:
  "log_try_enqueue first second s = (False, s') \<Longrightarrow> s' = s \<and>
     ring_cap s < length (log_queue s) + length first + length second"
  by (auto simp: log_try_enqueue_def Let_def ring_cap_def split: if_splits)

lemma ring_okD:
  assumes "ring_ok s"
  obtains k where "k < 32" "ring_cap s = 2 ^ k" "unat (lg_head s - lg_tail s) \<le> 2 ^ k"
    "unat (lg_head s) mod 2 ^ k = (unat (lg_tail s) + unat (lg_head s - lg_tail s)) mod 2 ^ k"
proof -
  from assms obtain k where k: "k < 32" "ring_cap s = 2 ^ k" "unat (lg_head s - lg_tail s) \<le> 2 ^ k"
    by (auto simp: ring_ok_def)
  have "unat (lg_head s) mod 2 ^ k = (unat (lg_tail s) + unat (lg_head s - lg_tail s)) mod 2 ^ k"
    using unat_plus_mod [OF k(1), of "lg_tail s" "lg_head s - lg_tail s"] by simp
  with k show ?thesis by (intro that)
qed

lemma unat_add_below:
  assumes "unat x + n \<le> 2 ^ k" and "k < 32"
  shows "unat (x + of_nat n :: u32) = unat x + n"
proof -
  have "(2 :: nat) ^ k < 2 ^ 32" using assms(2) by (intro power_strict_increasing) auto
  then have "unat x + n < 2 ^ 32" using assms(1) by linarith
  then show ?thesis by (simp add: unat_word_ariths unat_of_nat mod_add_right_eq)
qed

text \<open>An accepted enqueue appends both pieces, whole; no queued byte is overwritten.\<close>

lemma enqueue_accepted:
  assumes ok: "ring_ok s" and enq: "log_try_enqueue first second s = (True, s')"
  shows "log_queue s' = log_queue s @ first @ second" and "ring_ok s'"
    and "ring_cap s' = ring_cap s"
proof -
  have "log_queue s' = log_queue s @ first @ second \<and> ring_ok s' \<and> ring_cap s' = ring_cap s"
  proof (cases "length first + length second = 0")
    case True
    then show ?thesis using ok enq by (simp add: log_try_enqueue_def Let_def)
  next
    case False
    let ?u = "unat (lg_head s - lg_tail s)" and ?need = "length first + length second"
    obtain k where k: "k < 32" "ring_cap s = 2 ^ k" "?u \<le> 2 ^ k"
      "unat (lg_head s) mod 2 ^ k = (unat (lg_tail s) + ?u) mod 2 ^ k" by (rule ring_okD [OF ok])
    let ?c = "2 ^ k :: nat" and ?t = "unat (lg_tail s)"
    define r1 where "r1 = log_ring_copy_in (lg_head s) first (lg_ring s)"
    define r2 where "r2 = log_ring_copy_in (lg_head s + of_nat (length first)) second r1"
    have room: "?u + ?need \<le> ?c"
      and s': "s' = s\<lparr>lg_ring := r2, lg_head := lg_head s + of_nat ?need\<rparr>"
      using enq False k(2,3)
      by (auto simp: log_try_enqueue_def Let_def r1_def r2_def split: if_splits)
    have c0: "length (lg_ring s) = ?c" using k(2) by (simp add: ring_cap_def)
    have c1: "length r1 = ?c" unfolding r1_def using copy_in_length [OF c0] c0 room by simp
    have c2: "length r2 = ?c" unfolding r2_def using copy_in_length [OF c1] c1 room by simp
    have h2: "unat (lg_head s + of_nat (length first)) mod ?c = (?t + (?u + length first)) mod ?c"
    proof -
      have "unat (lg_head s + of_nat (length first)) mod ?c =
          (unat (lg_head s) + unat (of_nat (length first) :: u32)) mod ?c" by (rule unat_plus_mod [OF k(1)])
      also have "\<dots> = (?t + ?u + length first) mod ?c"
        by (rule mod_add_cong [OF k(4) unat_of_nat_mod [OF k(1)]])
      finally show ?thesis by (simp add: add.assoc)
    qed
    have u': "unat (lg_head s' - lg_tail s') = ?u + ?need"
      using unat_add_below [OF room k(1)] by (simp add: s' algebra_simps)
    have cap': "ring_cap s' = ?c" using c2 by (simp add: s' ring_cap_def)
    have "log_queue s' ! i = (log_queue s @ first @ second) ! i" if i: "i < ?u + ?need" for i
    proof -
      have ic: "i < ?c" using i room by simp
      have n1: "r1 ! ((?t + i) mod ?c) = (if ?u \<le> i \<and> i < ?u + length first then first ! (i - ?u)
          else lg_ring s ! ((?t + i) mod ?c))"
        using copy_in_from_tail [OF c0 k(4), of first i] room ic by (simp add: r1_def c0)
      have n2: "r2 ! ((?t + i) mod ?c) = (if ?u + length first \<le> i \<and> i < ?u + length first + length second
          then second ! (i - (?u + length first)) else r1 ! ((?t + i) mod ?c))"
        using copy_in_from_tail [OF c1 h2, of second i] room ic by (simp add: r2_def c1)
      have "log_queue s' ! i = r2 ! ((?t + i) mod ?c)"
        using i u' cap' by (simp add: log_queue_def s')
      also have "\<dots> = (log_queue s @ first @ second) ! i"
        using n1 n2 i k(2) by (auto simp: nth_append log_queue_def)
      finally show ?thesis .
    qed
    then have "log_queue s' = log_queue s @ first @ second"
      by (intro nth_equalityI) (simp_all add: u')
    then show ?thesis using k(1,2) cap' u' room by (auto simp: ring_ok_def)
  qed
  then show "log_queue s' = log_queue s @ first @ second" and "ring_ok s'"
    and "ring_cap s' = ring_cap s" by blast+
qed

section \<open>Draining\<close>

text \<open>A chunk handed to the sink is the front of the queue, and advancing the tail drops it.\<close>

lemma queue_chunk:
  assumes "ring_ok s" and "n \<le> unat (lg_head s - lg_tail s)"
    and "n \<le> ring_cap s - drain_idx s"
  shows "take n (drop (drain_idx s) (lg_ring s)) = take n (log_queue s)"
proof -
  obtain k where k: "k < 32" "ring_cap s = 2 ^ k" using assms(1) by (auto simp: ring_ok_def)
  let ?x = "unat (lg_tail s) mod 2 ^ k"
  have x: "drain_idx s = ?x" unfolding drain_idx_def k(2) by (rule mask_idx)
  have len: "length (lg_ring s) = 2 ^ k" using k(2) by (simp add: ring_cap_def)
  have n: "n \<le> 2 ^ k - ?x" using assms(3) x k(2) by simp
  have "(unat (lg_tail s) + i) mod 2 ^ k = ?x + i" if "i < n" for i
  proof -
    have "(unat (lg_tail s) + i) mod 2 ^ k = (?x + i) mod 2 ^ k" by (simp add: mod_add_left_eq)
    then show ?thesis using that n by simp
  qed
  then show ?thesis
    unfolding x using assms(2) n len k(2)
    by (intro nth_equalityI) (auto simp: log_queue_def)
qed

lemma unat_diff_add:
  assumes "n \<le> unat (h - t)"
  shows "unat (h - (t + of_nat n :: u32)) = unat (h - t) - n"
proof -
  have "unat (h - t) < 2 ^ LENGTH(32)" by (rule unsigned_less)
  then have n: "unat (of_nat n :: u32) = n" using assms by (simp add: unat_of_nat)
  then have "of_nat n \<le> h - t" using assms by (simp add: word_le_nat_alt)
  then have "unat (h - t - of_nat n) = unat (h - t) - n" using n by (simp add: unat_sub)
  then show ?thesis by (simp add: algebra_simps)
qed

lemma queue_advance:
  assumes "ring_ok s" and n: "n \<le> unat (lg_head s - lg_tail s)"
  shows "log_queue (s\<lparr>lg_tail := lg_tail s + of_nat n\<rparr>) = drop n (log_queue s)"
    and "ring_ok (s\<lparr>lg_tail := lg_tail s + of_nat n\<rparr>)"
proof -
  let ?s = "s\<lparr>lg_tail := lg_tail s + of_nat n\<rparr>"
  obtain k where k: "k < 32" "ring_cap s = 2 ^ k" using assms(1) by (auto simp: ring_ok_def)
  note u = unat_diff_add [OF n]
  have c: "ring_cap ?s = 2 ^ k" using k(2) by (simp add: ring_cap_def)
  have pos: "(unat (lg_tail s + of_nat n) + i) mod 2 ^ k = (unat (lg_tail s) + (n + i)) mod 2 ^ k" for i
  proof -
    have "unat (lg_tail s + of_nat n) mod 2 ^ k = (unat (lg_tail s) + unat (of_nat n :: u32)) mod 2 ^ k"
      by (simp add: unat_plus_mod [OF k(1)])
    also have "\<dots> = (unat (lg_tail s) + n) mod 2 ^ k"
      by (rule mod_add_cong [OF refl unat_of_nat_mod [OF k(1)]])
    finally show ?thesis using mod_add_cong_left [of "unat (lg_tail s + of_nat n)" "2 ^ k" "unat (lg_tail s) + n" i]
      by (simp add: add.assoc)
  qed
  show "log_queue ?s = drop n (log_queue s)"
    by (rule nth_equalityI) (simp_all add: u log_queue_def c k(2) pos less_diff_conv add.commute [of _ n])
  have "unat (lg_head s - lg_tail s) \<le> 2 ^ k" using assms(1) k(2) by (simp add: ring_ok_def)
  then show "ring_ok ?s" using u c k(1) unfolding ring_ok_def by auto
qed

text \<open>
  What the drain relies on of the sink: it never takes more than it was offered, and what it took
  has been sent, after everything before. \<open>sunk\<close> is the byte stream the sink has accepted.
\<close>

locale log_sink =
  fixes p :: "'w log_port" and sunk :: "'w \<Rightarrow> bytes"
  assumes tx_taken: "lp_tx p d w = (n, w') \<Longrightarrow> n \<le> length d \<and> sunk w' = sunk w @ take n d"
    and now_silent: "lp_now_ms p w = (t, w') \<Longrightarrow> sunk w' = sunk w"
begin

lemma drain_loop_spec:
  "ring_ok s \<Longrightarrow> unat (lg_head s - lg_tail s) < fuel \<Longrightarrow> (max_bytes \<noteq> 0 \<longrightarrow> remaining \<le> max_bytes) \<Longrightarrow>
   \<exists>r s' w'. drain_loop p fuel max_bytes remaining sent_any s w = Some (r, s', w') \<and> ring_ok s' \<and>
     sunk w' @ log_queue s' = sunk w @ log_queue s \<and> s' = s\<lparr>lg_tail := lg_tail s'\<rparr> \<and>
     (max_bytes = 0 \<and> r \<noteq> LOG_DRAIN_BLOCKED \<longrightarrow> log_queue s' = []) \<and>
     (max_bytes = 0 \<and> log_queue s = [] \<and> \<not> sent_any \<longrightarrow> r = LOG_DRAIN_IDLE) \<and>
     (max_bytes = 0 \<and> r = LOG_DRAIN_IDLE \<longrightarrow> \<not> sent_any \<and> s' = s) \<and>
     (max_bytes \<noteq> 0 \<longrightarrow> length (sunk w') \<le> length (sunk w) + remaining)"
proof (induction fuel arbitrary: remaining sent_any s w)
  case 0
  then show ?case by simp
next
  case (Suc fuel)
  let ?u = "unat (lg_head s - lg_tail s)" and ?x = "drain_idx s"
  define chunk where "chunk = drain_chunk max_bytes remaining s"
  consider (stop) "?u = 0 \<or> max_bytes \<noteq> 0 \<and> remaining = 0 \<or> \<not> lp_sink_ready p w"
    | (go) "?u \<noteq> 0" "\<not> (max_bytes \<noteq> 0 \<and> remaining = 0)" "lp_sink_ready p w" by blast
  then show ?case
  proof cases
    case stop
    then show ?thesis using Suc.prems by (auto simp: Let_def log_queue_def)
  next
    case go
    have c: "chunk \<le> ?u" "chunk \<le> ring_cap s - ?x" "max_bytes \<noteq> 0 \<longrightarrow> chunk \<le> remaining"
      by (auto simp: chunk_def drain_chunk_def Let_def)
    note front = queue_chunk [OF Suc.prems(1) c(1,2)]
    obtain sent w1 where tx: "lp_tx p (take chunk (drop ?x (lg_ring s))) w = (sent, w1)" by fastforce
    have t: "sent \<le> chunk" "sunk w1 = sunk w @ take sent (log_queue s)"
      using tx_taken [OF tx] c(1) unfolding front by (auto simp: min_absorb1)
    let ?s1 = "s\<lparr>lg_tail := lg_tail s + of_nat sent\<rparr>"
    have su: "sent \<le> ?u" using t(1) c(1) by simp
    note adv = queue_advance [OF Suc.prems(1) su]
    have flow: "sunk w1 @ log_queue ?s1 = sunk w @ log_queue s" unfolding t(2) adv(1) by simp
    have step: "drain_loop p (Suc fuel) max_bytes remaining sent_any s w =
      (if sent = 0 then Some (LOG_DRAIN_BLOCKED, s, w1)
       else if sent < chunk then Some (LOG_DRAIN_BLOCKED, ?s1, w1)
       else drain_loop p fuel max_bytes (if max_bytes \<noteq> 0 then remaining - sent else remaining) True ?s1 w1)"
      using go tx by (auto simp: Let_def chunk_def [symmetric])
    have len1: "length (sunk w1) = length (sunk w) + sent" using t(2) su by simp
    show ?thesis
    proof (cases "sent = 0 \<or> sent < chunk")
      case True
      then show ?thesis
        using step Suc.prems(1) adv(2) flow len1 c(3) t go by (auto simp: log_queue_def)
    next
      case False
      let ?rem = "if max_bytes \<noteq> 0 then remaining - sent else remaining"
      have more: "max_bytes \<noteq> 0 \<longrightarrow> ?rem \<le> max_bytes" using Suc.prems(3) by auto
      have "unat (lg_head ?s1 - lg_tail ?s1) < fuel"
        using unat_diff_add [OF su] False Suc.prems(2) go(1) by (simp, arith)
      from Suc.IH [OF adv(2) this more, of True w1] obtain r s' w' where ih: "drain_loop p fuel max_bytes ?rem True ?s1 w1 = Some (r, s', w')"
        "ring_ok s'" "sunk w' @ log_queue s' = sunk w1 @ log_queue ?s1" "s' = ?s1\<lparr>lg_tail := lg_tail s'\<rparr>"
        "max_bytes = 0 \<and> r \<noteq> LOG_DRAIN_BLOCKED \<longrightarrow> log_queue s' = []"
        "max_bytes = 0 \<and> r = LOG_DRAIN_IDLE \<longrightarrow> \<not> True"
        "max_bytes \<noteq> 0 \<longrightarrow> length (sunk w') \<le> length (sunk w1) + ?rem"
        by blast
      have "drain_loop p (Suc fuel) max_bytes remaining sent_any s w = Some (r, s', w')"
        using step ih(1) False by simp
      moreover have "log_queue s \<noteq> []" using go(1) by (simp add: log_queue_def)
      moreover have "s' = s\<lparr>lg_tail := lg_tail s'\<rparr>" using ih(4) by simp
      moreover have "max_bytes \<noteq> 0 \<longrightarrow> length (sunk w') \<le> length (sunk w) + remaining"
        using ih(7) len1 c(3) t(1) by auto
      moreover have "sunk w' @ log_queue s' = sunk w @ log_queue s" using ih(3) flow by simp
      ultimately show ?thesis using ih(2,5,6) by blast
    qed
  qed
qed

lemma log_drain_spec:
  assumes "ring_ok s"
  shows "\<exists>r s' w'. log_drain p max_bytes s w = Some (r, s', w') \<and> ring_ok s' \<and>
     sunk w' @ log_queue s' = sunk w @ log_queue s \<and> s' = s\<lparr>lg_tail := lg_tail s'\<rparr> \<and>
     (max_bytes = 0 \<and> r \<noteq> LOG_DRAIN_BLOCKED \<longrightarrow> log_queue s' = []) \<and>
     (max_bytes = 0 \<and> log_queue s = [] \<longrightarrow> r = LOG_DRAIN_IDLE) \<and>
     (max_bytes = 0 \<and> r = LOG_DRAIN_IDLE \<longrightarrow> s' = s) \<and>
     (max_bytes \<noteq> 0 \<longrightarrow> length (sunk w') \<le> length (sunk w) + max_bytes)"
  using drain_loop_spec [OF assms lessI order_refl [THEN impI], of max_bytes False w]
  unfolding log_drain_def by blast

text \<open>
  The flush ends whatever the clock does: within 1000 passes after the queue was found empty, and
  1000 more before that when the sink stalls. Nothing is lost or reordered by it.
\<close>

definition flush_need :: "bool \<Rightarrow> log_state \<Rightarrow> u32 \<Rightarrow> nat" where
  "flush_need drained s stalled =
     (if drained then 1000 - unat stalled
      else if log_queue s = [] then 1001 else 2002 - unat stalled)"

lemma stall_step: "stalled < 1000 \<Longrightarrow> \<not> LOG_FLUSH_MAX_STALL \<le> stalled + 1 \<Longrightarrow>
    stalled + 1 < (1000 :: u32) \<and> unat (stalled + 1) = Suc (unat stalled) \<and> unat stalled < 999"
proof -
  assume a: "stalled < 1000" "\<not> LOG_FLUSH_MAX_STALL \<le> stalled + 1"
  have "unat stalled < 1000" using a(1) by (simp add: word_less_nat_alt)
  then have s: "unat (stalled + 1) = Suc (unat stalled)"
    by (intro unat_Suc_bounded [of _ 0]) simp
  have "unat (stalled + 1) < 1000" using a(2) by (simp add: LOG_FLUSH_MAX_STALL_def not_le word_less_nat_alt)
  then show ?thesis using s by (simp add: word_less_nat_alt)
qed

lemma flush_loop_ends:
  "ring_ok s \<Longrightarrow> stalled < 1000 \<Longrightarrow> flush_need drained s stalled \<le> fuel \<Longrightarrow>
   (drained \<longrightarrow> log_queue s = []) \<Longrightarrow>
   \<exists>b s' w'. flush_loop p fuel timeout_ms start stalled drained s w = Some (b, s', w') \<and> ring_ok s' \<and>
     sunk w' @ log_queue s' = sunk w @ log_queue s \<and>
     (b \<longrightarrow> log_queue s' = [] \<and> lp_sink_idle p w')"
proof (induction fuel arbitrary: s stalled drained w)
  case 0
  then have "unat stalled < 1000" by (simp add: word_less_nat_alt)
  with 0(3) show ?case by (auto simp: flush_need_def split: if_splits)
next
  case (Suc fuel)
  have st: "unat stalled < 1000" using Suc.prems(2) by (simp add: word_less_nat_alt)
  obtain d1 pr s1 w1 where pass: "(if drained then Some (True, False, s, w)
            else case log_drain p 0 s w of
                None \<Rightarrow> None
              | Some (LOG_DRAIN_IDLE, s1, w1) \<Rightarrow> Some (True, True, s1, w1)
              | Some (LOG_DRAIN_SENT, s1, w1) \<Rightarrow> Some (False, True, s1, w1)
              | Some (LOG_DRAIN_BLOCKED, s1, w1) \<Rightarrow> Some (False, False, s1, w1)) = Some (d1, pr, s1, w1)"
    and ok: "ring_ok s1" and flow: "sunk w1 @ log_queue s1 = sunk w @ log_queue s"
    and d1: "d1 \<longrightarrow> log_queue s1 = []"
    and need: "pr \<Longrightarrow> flush_need d1 s1 0 \<le> fuel"
      "\<not> pr \<Longrightarrow> stalled + 1 < 1000 \<Longrightarrow> unat (stalled + 1) = Suc (unat stalled) \<Longrightarrow> unat stalled < 999 \<Longrightarrow>
        flush_need d1 s1 (stalled + 1) \<le> fuel"
  proof (cases drained)
    case True
    show ?thesis
      by (rule that [of True False s w]) (use True Suc.prems in \<open>auto simp: flush_need_def\<close>)
  next
    case False
    obtain r s1 w1 where dr: "log_drain p 0 s w = Some (r, s1, w1)" "ring_ok s1"
      "sunk w1 @ log_queue s1 = sunk w @ log_queue s"
      "r \<noteq> LOG_DRAIN_BLOCKED \<longrightarrow> log_queue s1 = []" "log_queue s = [] \<longrightarrow> r = LOG_DRAIN_IDLE"
      "r = LOG_DRAIN_IDLE \<longrightarrow> s1 = s"
      using log_drain_spec [OF Suc.prems(1), of 0 w] by auto
    show ?thesis
    proof (cases r)
      case LOG_DRAIN_IDLE
      then show ?thesis
        by (intro that [of True True s1 w1])
           (use False dr Suc.prems st in \<open>auto simp: flush_need_def split: if_splits\<close>)
    next
      case LOG_DRAIN_SENT
      then show ?thesis
        by (intro that [of False True s1 w1])
           (use False dr Suc.prems st in \<open>auto simp: flush_need_def split: if_splits\<close>)
    next
      case LOG_DRAIN_BLOCKED
      then show ?thesis
        by (intro that [of False False s1 w1])
           (use False dr Suc.prems st in \<open>auto simp: flush_need_def split: if_splits\<close>)
    qed
  qed
  obtain now w2 where now: "lp_now_ms p w1 = (now, w2)" by fastforce
  have flow2: "sunk w2 @ log_queue s1 = sunk w @ log_queue s" using now_silent [OF now] flow by simp
  define st1 where "st1 = (if pr then 0 else stalled + 1)"
  have step: "flush_loop p (Suc fuel) timeout_ms start stalled drained s w =
     (if d1 \<and> lp_sink_idle p w1 then Some (True, s1, w1)
      else if st1 \<ge> LOG_FLUSH_MAX_STALL then Some (False, s1, w1)
      else if now - start \<ge> timeout_ms then Some (False, s1, w2)
      else flush_loop p fuel timeout_ms start st1 d1 s1 w2)"
    unfolding flush_loop.simps pass by (simp add: now st1_def Let_def)
  show ?case
  proof (cases "(d1 \<and> lp_sink_idle p w1) \<or> st1 \<ge> LOG_FLUSH_MAX_STALL \<or> now - start \<ge> timeout_ms")
    case True
    then show ?thesis unfolding step using ok flow flow2 d1 by auto
  next
    case False
    then have less: "\<not> LOG_FLUSH_MAX_STALL \<le> st1" by blast
    have "st1 < 1000 \<and> flush_need d1 s1 st1 \<le> fuel"
      using need stall_step [OF Suc.prems(2)] less unfolding st1_def by (cases pr) simp_all
    then obtain b s' w' where "flush_loop p fuel timeout_ms start st1 d1 s1 w2 = Some (b, s', w')"
      "ring_ok s'" "sunk w' @ log_queue s' = sunk w2 @ log_queue s1"
      "b \<longrightarrow> log_queue s' = [] \<and> lp_sink_idle p w'"
      using Suc.IH [OF ok _ _ d1, of st1 w2] by blast
    then show ?thesis unfolding step using False flow2 by auto
  qed
qed

lemma log_flush_ends:
  assumes "ring_ok s" and "2002 \<le> fuel"
  shows "\<exists>b s' w'. log_flush p fuel timeout_ms s w = Some (b, s', w') \<and> ring_ok s' \<and>
     sunk w' @ log_queue s' = sunk w @ log_queue s \<and> (b \<longrightarrow> log_queue s' = [] \<and> lp_sink_idle p w')"
proof -
  obtain start w1 where now: "lp_now_ms p w = (start, w1)" by fastforce
  have "flush_need False s 0 \<le> fuel" using assms(2) by (simp add: flush_need_def)
  then show ?thesis
    using flush_loop_ends [OF assms(1), of 0 False fuel timeout_ms start w1] now_silent [OF now]
    by (simp add: log_flush_def now)
qed

end

section \<open>Records and events\<close>

text \<open>The 14 bytes a record's checksum covers, and the record.\<close>

definition rec_head :: "log_core \<Rightarrow> u8 \<Rightarrow> u16 \<Rightarrow> u32 \<Rightarrow> u32 \<Rightarrow> u16 \<Rightarrow> bytes" where
  "rec_head core seq evt ts arg0 arg1 =
     [LOG_SYNC, push_bit 6 (core_code core) OR (seq AND LOG_SEQ_MASK)] @
     le16 evt @ le32 ts @ le32 arg0 @ le16 arg1"

definition log_record :: "log_core \<Rightarrow> u8 \<Rightarrow> u16 \<Rightarrow> u32 \<Rightarrow> u32 \<Rightarrow> u16 \<Rightarrow> bytes" where
  "log_record core seq evt ts arg0 arg1 =
     (let h = rec_head core seq evt ts arg0 arg1 in h @ le16 (log_crc16 h 14))"

lemma length_rec_head [simp]: "length (rec_head core seq evt ts arg0 arg1) = 14"
  by (simp add: rec_head_def)

lemma length_log_record [simp]: "length (log_record core seq evt ts arg0 arg1) = 16"
  by (simp add: log_record_def Let_def)

lemma wr16_at: "length a = n \<Longrightarrow> log_wr16 n v (a @ x # y # r) = a @ le16 v @ r"
  by (simp add: log_wr16_def overwrite_def le16_def numeral_2_eq_2)

lemma wr32_at: "length a = n \<Longrightarrow> log_wr32 n v (a @ x # y # z # u # r) = a @ le32 v @ r"
  by (simp add: log_wr32_def overwrite_def le32_def ucast_and_0xFF eval_nat_numeral)

lemma log_crc16_append: "n \<le> length a \<Longrightarrow> log_crc16 (a @ b) n = log_crc16 a n"
  by (simp add: log_crc16_def)

lemma log_rec_encode_eq:
  "log_rec_encode (replicate LOG_REC_SIZE 0) core seq evt ts arg0 arg1 =
     log_record core seq evt ts arg0 arg1"
proof -
  let ?a = "[LOG_SYNC, push_bit 6 (core_code core) OR (seq AND LOG_SEQ_MASK)]"
  have b: "replicate LOG_REC_SIZE (0 :: u8) = [0, 0, 0, 0, 0, 0, 0, 0, 0, 0, 0, 0, 0, 0, 0, 0]"
    by (simp add: LOG_REC_SIZE_def numeral_eq_Suc)
  have 2: "log_wr16 2 evt (?a @ [0, 0, 0, 0, 0, 0, 0, 0, 0, 0, 0, 0, 0, 0]) =
      (?a @ le16 evt) @ [0, 0, 0, 0, 0, 0, 0, 0, 0, 0, 0, 0]"
    by (subst wr16_at) simp_all
  have 4: "log_wr32 4 ts ((?a @ le16 evt) @ [0, 0, 0, 0, 0, 0, 0, 0, 0, 0, 0, 0]) =
      (?a @ le16 evt @ le32 ts) @ [0, 0, 0, 0, 0, 0, 0, 0]"
    by (subst wr32_at) simp_all
  have 8: "log_wr32 8 arg0 ((?a @ le16 evt @ le32 ts) @ [0, 0, 0, 0, 0, 0, 0, 0]) =
      (?a @ le16 evt @ le32 ts @ le32 arg0) @ [0, 0, 0, 0]"
    by (subst wr32_at) simp_all
  have 12: "log_wr16 12 arg1 ((?a @ le16 evt @ le32 ts @ le32 arg0) @ [0, 0, 0, 0]) =
      rec_head core seq evt ts arg0 arg1 @ [0, 0]"
    by (subst wr16_at) (simp_all add: rec_head_def)
  have 14: "log_wr16 14 v (rec_head core seq evt ts arg0 arg1 @ [0, 0]) =
      rec_head core seq evt ts arg0 arg1 @ le16 v" for v
    by (subst wr16_at) simp_all
  have start: "((replicate LOG_REC_SIZE (0 :: u8))[0 := LOG_SYNC])
      [1 := push_bit LOG_CORE_SHIFT (core_code core) OR (seq AND LOG_SEQ_MASK)] =
      ?a @ [0, 0, 0, 0, 0, 0, 0, 0, 0, 0, 0, 0, 0, 0]"
    unfolding b by (simp add: LOG_CORE_SHIFT_def)
  show ?thesis
    unfolding log_rec_encode_def Let_def start 2 4 8 12 LOG_OFF_CRC_def 14
    by (simp add: log_record_def Let_def log_crc16_append)
qed

text \<open>
  An event is either queued whole, after the report of what was lost before it, or counted as lost:
  never neither and never in part.
\<close>

lemma log_evt_cases:
  assumes ok: "ring_ok s" and evt: "log_evt p evt arg0 arg1 s w = (s', w')"
    and now: "lp_now_ms p w = (t, w1)"
  obtains (lost) "log_queue s' = log_queue s" "lg_seq s' = lg_seq s"
      "lg_dropped s' = lg_dropped s + 1" "lg_pending s' = lg_pending s + 1"
      "ring_cap s < length (log_queue s) + (if lg_pending s = 0 then 16 else 32)"
  | (plain) "lg_pending s = 0" "lg_pending s' = 0" "lg_dropped s' = lg_dropped s"
      "log_queue s' = log_queue s @ log_record (lg_core s) (lg_seq s) evt t arg0 arg1"
      "lg_seq s' = (lg_seq s + 1) AND LOG_SEQ_MASK"
  | (report) "lg_pending s \<noteq> 0" "lg_pending s' = 0" "lg_dropped s' = lg_dropped s"
      "log_queue s' = log_queue s @
         log_record (lg_core s) (lg_seq s) LOG_EVT_OVERFLOW t (lg_pending s) 0 @
         log_record (lg_core s) ((lg_seq s + 1) AND LOG_SEQ_MASK) evt t arg0 arg1"
      "lg_seq s' = (lg_seq s + 2) AND LOG_SEQ_MASK"
proof -
  define ov where "ov = (if lg_pending s \<noteq> 0
     then log_record (lg_core s) (lg_seq s) LOG_EVT_OVERFLOW t (lg_pending s) 0 else [])"
  define ev where "ev = log_record (lg_core s)
     (if lg_pending s \<noteq> 0 then (lg_seq s + 1) AND LOG_SEQ_MASK else lg_seq s) evt t arg0 arg1"
  obtain b s1 where enq: "log_try_enqueue ov ev s = (b, s1)" by fastforce
  have r: "s' = (if \<not> b then log_note_drop s1
       else if lg_pending s \<noteq> 0 then s1\<lparr>lg_seq := (lg_seq s1 + 2) AND LOG_SEQ_MASK, lg_pending := 0\<rparr>
       else s1\<lparr>lg_seq := (lg_seq s1 + 1) AND LOG_SEQ_MASK\<rparr>)"
    using evt unfolding log_evt_def now log_rec_encode_eq Let_def prod.case ov_def [symmetric] ev_def [symmetric]
    by (auto simp: enq split: bool.splits)
  have q: "log_queue (u\<lparr>lg_seq := x, lg_pending := y\<rparr>) = log_queue u"
    "log_queue (u\<lparr>lg_seq := x\<rparr>) = log_queue u"
    "log_queue (u\<lparr>lg_dropped := z, lg_pending := y\<rparr>) = log_queue u" for x y z u
    by (simp_all add: log_queue_def ring_cap_def)
  show ?thesis
  proof (cases b)
    case False
    with enqueue_refused [of ov ev s s1] enq have "s1 = s"
      "ring_cap s < length (log_queue s) + length ov + length ev" by auto
    then show ?thesis using r False
      by (intro lost) (auto simp: q log_note_drop_def ov_def ev_def split: if_splits)
  next
    case True
    have enq': "log_try_enqueue ov ev s = (True, s1)" using enq True by simp
    note acc = enqueue_accepted [OF ok enq']
    have same: "lg_seq s1 = lg_seq s" "lg_dropped s1 = lg_dropped s" "lg_pending s1 = lg_pending s"
      using enq True by (auto simp: log_try_enqueue_def Let_def split: if_splits)
    show ?thesis
    proof (cases "lg_pending s = 0")
      case p: True
      then show ?thesis using r True acc same by (intro plain) (auto simp: q ov_def ev_def)
    next
      case p: False
      then show ?thesis using r True acc same by (intro report) (auto simp: q ov_def ev_def)
    qed
  qed
qed

lemma log_evt_ring_ok:
  assumes "ring_ok s" and "log_evt p evt arg0 arg1 s w = (s', w')"
  shows "ring_ok s'"
proof -
  have keep: "ring_ok (s\<lparr>lg_seq := x, lg_pending := y\<rparr>) = ring_ok s"
    "ring_ok (s\<lparr>lg_seq := x\<rparr>) = ring_ok s" "ring_ok (log_note_drop s) = ring_ok s" for s :: log_state and x y
    by (simp_all add: ring_ok_def ring_cap_def log_note_drop_def)
  show ?thesis
    using assms enqueue_accepted(2) [OF assms(1)]
    by (auto simp: log_evt_def Let_def keep dest: enqueue_refused
        split: prod.splits bool.splits if_splits)
qed

end
