(* ===== verification/Log_Port.thy ===== *)
theory Log_Port imports Log begin

text \<open>
  The logging port of the targets: \<open>node_a_gateway/app/src/port_log.c\<close> (Node B's and the bootloader's
  differ in the clock they read, the ring size and comments), and the drain pass of
  \<open>node_a_gateway/app/src/log_task.c\<close>. The core of it is the search for the UART oversample and the
  peripheral divider that come nearest to 1 Mbaud on whatever clock the core has.

  The vendor's clock, pin and UART calls are the parameter \<open>cy\<close> over a device \<open>'w\<close>.
  \<open>uart_transmitter\<close> says what the sink relies on of \<open>Cy_SCB_UART_PutArray\<close>; it makes the port a
  \<open>log_sink\<close>, so that what the channel's theory shows of drain and flush holds on the target. The
  blocking transmit of \<open>log_panic\<close> spins on the hardware and is not modelled.
\<close>

section \<open>Constants and state\<close>

definition LOG_UART_BAUD :: u32 where "LOG_UART_BAUD = 1000000"
definition LOG_UART_OVS_MIN :: u32 where "LOG_UART_OVS_MIN = 8"
definition LOG_UART_OVS_MAX :: u32 where "LOG_UART_OVS_MAX = 16"
definition LOG_BAUD_TOLERANCE_PM :: u32 where "LOG_BAUD_TOLERANCE_PM = 20"
definition LOG_RING_CAP :: nat where "LOG_RING_CAP = 2048"
definition portTICK_PERIOD_MS :: u32 where "portTICK_PERIOD_MS = 1"
definition LOG_TASK_MAX_BYTES :: nat where "LOG_TASK_MAX_BYTES = 256"

lemmas uart_consts = LOG_UART_BAUD_def LOG_UART_OVS_MIN_def LOG_UART_OVS_MAX_def LOG_BAUD_TOLERANCE_PM_def

text \<open>
  \<open>cu_set_divider\<close> is \<open>Cy_SysClk_PeriPclkSetDivider\<close> on the UART's 8-bit divider, \<open>cu_frequency\<close> what
  the destination then receives, \<open>cu_reset_reason\<close> the cause the chip reports.
\<close>

record 'w cy_uart =
  cu_assign_divider :: "'w \<Rightarrow> 'w"
  cu_set_divider :: "u32 \<Rightarrow> 'w \<Rightarrow> 'w"
  cu_enable_divider :: "'w \<Rightarrow> 'w"
  cu_frequency :: "'w \<Rightarrow> u32"
  cu_pins_init :: "'w \<Rightarrow> 'w"
  cu_uart_init :: "u32 \<Rightarrow> 'w \<Rightarrow> bool \<times> 'w"
  cu_uart_enable :: "'w \<Rightarrow> 'w"
  cu_put_array :: "bytes \<Rightarrow> 'w \<Rightarrow> nat \<times> 'w"
  cu_tx_complete :: "'w \<Rightarrow> bool"
  cu_tick_count :: "'w \<Rightarrow> u32 \<times> 'w"
  cu_reset_reason :: "'w \<Rightarrow> u32"

record 'w uart_port =
  up_sink_ready :: bool
  up_oversample :: u32
  up_peri_hz :: u32
  up_divider :: u32
  up_g_oversample :: u32
  up_actual_hz :: u32
  up_err_pm :: u32
  up_clk_ok :: bool
  up_dev :: 'w

section \<open>The clock search\<close>

record clk_choice =
  best_ovs :: u32
  best_div :: u32
  best_err :: u32

definition uart_target :: "u32 \<Rightarrow> u32" where "uart_target ovs = LOG_UART_BAUD * ovs"

definition uart_div :: "u32 \<Rightarrow> u32 \<Rightarrow> u32" where
  "uart_div src_hz ovs =
     (let d = (src_hz + (uart_target ovs div 2)) div uart_target ovs in if d = 0 then 1 else d)"

definition uart_err_pm :: "u32 \<Rightarrow> u32 \<Rightarrow> u32" where
  "uart_err_pm src_hz ovs =
     (let target = uart_target ovs; actual = src_hz div uart_div src_hz ovs in
      if actual > target then ((actual - target) * 1000) div target
      else ((target - actual) * 1000) div target)"

text \<open>The loop over the oversamples, with its early exit on an exact match.\<close>

fun ovs_search :: "u32 \<Rightarrow> u32 list \<Rightarrow> clk_choice \<Rightarrow> clk_choice" where
  "ovs_search src_hz [] b = b"
| "ovs_search src_hz (ovs # rest) b =
     (let err_pm = uart_err_pm src_hz ovs;
          b1 = (if err_pm < best_err b
                then \<lparr>best_ovs = ovs, best_div = uart_div src_hz ovs, best_err = err_pm\<rparr> else b) in
      if err_pm = 0 then b1 else ovs_search src_hz rest b1)"

definition oversamples :: "u32 list" where
  "oversamples = map of_nat [unat LOG_UART_OVS_MIN..<Suc (unat LOG_UART_OVS_MAX)]"

definition uart_choice :: "u32 \<Rightarrow> clk_choice" where
  "uart_choice src_hz = ovs_search src_hz oversamples \<lparr>best_ovs = 0, best_div = 0, best_err = 0xFFFFFFFF\<rparr>"

definition log_uart_clock_init :: "'w cy_uart \<Rightarrow> 'w uart_port \<Rightarrow> bool \<times> 'w uart_port" where
  "log_uart_clock_init cy u =
     (let w1 = cu_enable_divider cy (cu_set_divider cy 0 (cu_assign_divider cy (up_dev u)));
          src_hz = cu_frequency cy w1;
          u1 = u\<lparr>up_clk_ok := False, up_dev := w1, up_peri_hz := src_hz\<rparr> in
      if src_hz = 0 then (False, u1)
      else
        let b = uart_choice src_hz;
            w2 = cu_set_divider cy (best_div b - 1) w1;
            u2 = u1\<lparr>up_dev := w2, up_divider := best_div b, up_g_oversample := best_ovs b,
              up_actual_hz := cu_frequency cy w2 div best_ovs b, up_err_pm := best_err b\<rparr> in
        if best_err b > LOG_BAUD_TOLERANCE_PM then (False, u2)
        else (True, u2\<lparr>up_oversample := best_ovs b, up_clk_ok := True\<rparr>))"

section \<open>The sink\<close>

definition log_port_now_ms :: "'w cy_uart \<Rightarrow> 'w uart_port \<Rightarrow> u32 \<times> 'w uart_port" where
  "log_port_now_ms cy u = (case cu_tick_count cy (up_dev u) of
     (t, w) \<Rightarrow> (t * portTICK_PERIOD_MS, u\<lparr>up_dev := w\<rparr>))"

definition log_port_tx :: "'w cy_uart \<Rightarrow> bytes \<Rightarrow> 'w uart_port \<Rightarrow> nat \<times> 'w uart_port" where
  "log_port_tx cy data u =
     (if \<not> up_sink_ready u then (0, u)
      else case cu_put_array cy data (up_dev u) of (n, w) \<Rightarrow> (n, u\<lparr>up_dev := w\<rparr>))"

definition log_port_sink_idle :: "'w cy_uart \<Rightarrow> 'w uart_port \<Rightarrow> bool" where
  "log_port_sink_idle cy u = (if \<not> up_sink_ready u then True else cu_tx_complete cy (up_dev u))"

definition uart_log_port :: "'w cy_uart \<Rightarrow> 'w uart_port log_port" where
  "uart_log_port cy = \<lparr>lp_now_ms = log_port_now_ms cy, lp_tx = log_port_tx cy,
     lp_sink_ready = up_sink_ready, lp_sink_idle = log_port_sink_idle cy\<rparr>"

text \<open>Bring-up, with the image name and build of the banner: the UART, then the ring and the boot event.\<close>

definition log_port_init ::
  "'w cy_uart \<Rightarrow> string \<Rightarrow> string \<Rightarrow> log_state \<Rightarrow> 'w uart_port \<Rightarrow> log_state \<times> 'w uart_port" where
  "log_port_init cy img build s u =
     (case log_uart_clock_init cy (u\<lparr>up_sink_ready := False\<rparr>) of
        (False, u1) \<Rightarrow> (s, u1)
      | (True, u1) \<Rightarrow>
          (case cu_uart_init cy (up_oversample u1) (cu_pins_init cy (up_dev u1)) of
             (False, w) \<Rightarrow> (s, u1\<lparr>up_dev := w\<rparr>)
           | (True, w) \<Rightarrow>
               let u2 = u1\<lparr>up_dev := cu_uart_enable cy w, up_sink_ready := True\<rparr>;
                   s1 = log_init img build LOG_CORE_APP s in
               log_evt (uart_log_port cy) LOG_EVT_BOOT (cu_reset_reason cy (up_dev u2)) 0 s1 u2))"

text \<open>
  One period of the drain task: drain while the sink takes everything it is offered. The fuel counts
  the calls of \<open>log_drain\<close>; \<open>None\<close> is running out of it.
\<close>

primrec log_task_loop :: "'w log_port \<Rightarrow> nat \<Rightarrow> log_state \<Rightarrow> 'w \<Rightarrow> (log_drain_res \<times> log_state \<times> 'w) option" where
  "log_task_loop p 0 s w = None"
| "log_task_loop p (Suc fuel) s w = (case log_drain p LOG_TASK_MAX_BYTES s w of
     None \<Rightarrow> None
   | Some (st, s1, w1) \<Rightarrow> if st = LOG_DRAIN_SENT then log_task_loop p fuel s1 w1 else Some (st, s1, w1))"

section \<open>The search finds the best pair\<close>

lemma ovs_search_best:
  assumes "ovs_search src xs b = r"
  shows "(\<forall>o' \<in> set xs. best_err r \<le> uart_err_pm src o') \<and> best_err r \<le> best_err b \<and>
    (r = b \<or> best_ovs r \<in> set xs \<and> best_div r = uart_div src (best_ovs r) \<and> best_err r = uart_err_pm src (best_ovs r))"
  using assms
proof (induction src xs b rule: ovs_search.induct)
  case (1 src b)
  then show ?case by simp
next
  case (2 src ovs rest b)
  let ?e = "uart_err_pm src ovs"
  define b1 where "b1 = (if ?e < best_err b
     then \<lparr>best_ovs = ovs, best_div = uart_div src ovs, best_err = ?e\<rparr> else b)"
  have b1: "best_err b1 \<le> best_err b" "best_err b1 \<le> ?e"
    "b1 = b \<or> best_ovs b1 = ovs \<and> best_div b1 = uart_div src ovs \<and> best_err b1 = ?e"
    by (auto simp: b1_def)
  show ?case
  proof (cases "?e = 0")
    case True
    then have r: "r = b1" using 2(2) by (auto simp: b1_def)
    then have "best_err r = 0" using b1(2) True by simp
    then show ?thesis using r b1 by auto
  next
    case False
    then have "ovs_search src rest b1 = r" using 2(2) by (simp add: b1_def Let_def)
    from 2(1) [OF refl b1_def False this] show ?thesis using b1 by (auto intro: order_trans)
  qed
qed

lemma uart_target_nat:
  assumes "ovs \<in> set oversamples"
  shows "unat (uart_target ovs) = 1000000 * unat ovs" and "8 \<le> unat ovs \<and> unat ovs \<le> 16"
proof -
  have "ovs \<in> {8, 9, 10, 11, 12, 13, 14, 15, 16}"
    using assms by (simp add: oversamples_def uart_consts upt_rec)
  then show "unat (uart_target ovs) = 1000000 * unat ovs" and "8 \<le> unat ovs \<and> unat ovs \<le> 16"
    by (auto simp: uart_target_def uart_consts)
qed

text \<open>On clocks of 24 MHz to 2 GHz none of the 32-bit computations wraps.\<close>

definition nat_div :: "nat \<Rightarrow> nat \<Rightarrow> nat" where "nat_div s t = (s + t div 2) div t"

lemma nat_div_bounds:
  assumes "8000000 \<le> t" and "t \<le> 16000000" and "24000000 \<le> s" and "s \<le> 2000000000"
  shows "2 \<le> nat_div s t" and "nat_div s t \<le> 256"
    and "s div nat_div s t \<le> t + 4000001" and "t \<le> s div nat_div s t + 4000001"
proof -
  define d where "d = nat_div s t"
  have t: "0 < t" using assms by simp
  have lo: "d * t \<le> s + t div 2" by (simp add: d_def nat_div_def)
  have hi: "s + t div 2 < d * t + t"
    using dividend_less_div_times [OF t, of "s + t div 2"] by (simp add: d_def nat_div_def add.commute mult.commute)
  show "2 \<le> nat_div s t"
    using assms div_le_mono [of "2 * t" "s + t div 2" t] t by (simp add: nat_div_def)
  then have d2: "2 \<le> d" by (simp add: d_def)
  show "nat_div s t \<le> 256"
  proof (rule ccontr)
    assume "\<not> nat_div s t \<le> 256"
    then have "257 * t \<le> d * t" by (intro mult_le_mono1) (simp add: d_def)
    then show False using lo assms by linarith
  qed
  define a where "a = s div d"
  have al: "a * d \<le> s" by (simp add: a_def)
  have ah: "s < a * d + d" using d2 dividend_less_div_times [of d s] by (simp add: a_def mult.commute add.commute)
  have "a \<le> t + 4000001"
  proof (rule ccontr)
    assume "\<not> a \<le> t + 4000001"
    then have "(t + 4000001) * d \<le> a * d" by (intro mult_le_mono1) simp
    then have "t * d + 4000001 * d \<le> s" using al by (simp add: add_mult_distrib)
    then have "d * t + 8000000 \<le> s" using d2 by (simp add: mult.commute)
    then show False using hi assms by linarith
  qed
  then show "s div nat_div s t \<le> t + 4000001" by (simp add: a_def d_def)
  have "t \<le> a + 4000001"
  proof (rule ccontr)
    assume "\<not> t \<le> a + 4000001"
    then have "(a + 4000001) * d \<le> t * d" by (intro mult_le_mono1) simp
    then have "a * d + 4000001 * d \<le> t * d" by (simp add: add_mult_distrib)
    then have "s < t * d - 4000000 * d" "4000000 * d \<le> t * d" using ah by linarith+
    then have "s + 8000000 < d * t" using d2 by (simp add: mult.commute)
    then show False using lo assms by linarith
  qed
  then show "t \<le> s div nat_div s t + 4000001" by (simp add: a_def d_def)
qed

lemma unat_plus_small: "unat (a :: u32) + unat b < 2 ^ 32 \<Longrightarrow> unat (a + b) = unat a + unat b"
  by (subst unat_plus_if') simp

lemma unat_mult_small: "unat (a :: u32) * unat b < 2 ^ 32 \<Longrightarrow> unat (a * b) = unat a * unat b"
  by (simp add: unat_word_ariths)

text \<open>The achieved error in per mille, over the naturals.\<close>

definition nat_err_pm :: "nat \<Rightarrow> nat \<Rightarrow> nat" where
  "nat_err_pm s t = (let a = s div nat_div s t in (if a > t then a - t else t - a) * 1000 div t)"

lemma uart_exact:
  assumes "ovs \<in> set oversamples" and "24000000 \<le> unat src" and "unat src \<le> 2000000000"
  defines "t \<equiv> 1000000 * unat ovs"
  shows "unat (uart_div src ovs) = nat_div (unat src) t" and "unat (uart_err_pm src ovs) = nat_err_pm (unat src) t"
proof -
  note tn = uart_target_nat [OF assms(1)]
  have t: "8000000 \<le> t" "t \<le> 16000000" "unat (uart_target ovs) = t" using tn by (auto simp: t_def)
  note b = nat_div_bounds [OF t(1,2) assms(2,3)]
  have h: "unat (uart_target ovs div 2) = t div 2" by (simp add: unat_div t(3))
  have s: "unat (src + uart_target ovs div 2) = unat src + t div 2"
    using unat_plus_small [of src "uart_target ovs div 2"] h t assms(3) by simp
  have d: "unat ((src + uart_target ovs div 2) div uart_target ovs) = nat_div (unat src) t"
    unfolding unat_div s t(3) nat_div_def ..
  then have "(src + uart_target ovs div 2) div uart_target ovs \<noteq> 0" using b(1) by auto
  then show ud: "unat (uart_div src ovs) = nat_div (unat src) t" using d by (simp add: uart_div_def Let_def)
  define act where "act = src div uart_div src ovs"
  have a: "unat act = unat src div nat_div (unat src) t" by (simp add: act_def unat_div ud)
  have e: "uart_err_pm src ovs = (if act > uart_target ovs then ((act - uart_target ovs) * 1000) div uart_target ovs
      else ((uart_target ovs - act) * 1000) div uart_target ovs)"
    by (simp add: uart_err_pm_def Let_def act_def)
  have m: "unat ((x - y) * 1000) = (unat x - unat y) * 1000" if "y \<le> x" "unat x - unat y \<le> 4000001" for x y :: u32
  proof -
    have "unat (x - y) = unat x - unat y" using that(1) by (simp add: unat_sub word_le_nat_alt)
    then show ?thesis using that(2) unat_mult_small [of "x - y" 1000] by simp
  qed
  show "unat (uart_err_pm src ovs) = nat_err_pm (unat src) t"
  proof (cases "act > uart_target ovs")
    case True
    then show ?thesis
      using m [of "uart_target ovs" act] a t(3) b(3)
      by (simp add: e nat_err_pm_def Let_def unat_div word_less_nat_alt word_le_nat_alt)
  next
    case False
    then show ?thesis
      using m [of act "uart_target ovs"] a t(3) b(4)
      by (simp add: e nat_err_pm_def Let_def unat_div word_less_nat_alt word_le_nat_alt not_less)
  qed
qed

lemma uart_choice_best:
  "best_ovs (uart_choice src) \<in> set oversamples \<and> best_div (uart_choice src) = uart_div src (best_ovs (uart_choice src)) \<and>
   best_err (uart_choice src) = uart_err_pm src (best_ovs (uart_choice src)) \<and>
   (\<forall>ov' \<in> set oversamples. best_err (uart_choice src) \<le> uart_err_pm src ov')"
proof -
  let ?b0 = "\<lparr>best_ovs = 0, best_div = 0, best_err = 0xFFFFFFFF\<rparr>"
  note b = ovs_search_best [OF uart_choice_def [symmetric], of src]
  have m: "(8 :: u32) \<in> set oversamples" by (simp add: oversamples_def uart_consts upt_rec)
  have "unat (uart_err_pm src 8) < 0xFFFFFFFF"
  proof -
    have q: "unat (x div 8000000) < 0xFFFFFFFF" for x :: u32
      using unsigned_less [of x, where 'a = nat] by (simp add: unat_div div_less_dividend less_le_trans)
    show ?thesis by (simp add: uart_err_pm_def Let_def uart_target_def uart_consts q)
  qed
  then have "best_err (uart_choice src) < 0xFFFFFFFF"
    using b m by (auto simp: word_less_nat_alt word_le_nat_alt intro: le_less_trans)
  then have "uart_choice src \<noteq> ?b0" by auto
  with b show ?thesis by blast
qed

lemma oversamples_set: "ov \<in> {8..16} \<Longrightarrow> (of_nat ov :: u32) \<in> set oversamples"
proof -
  assume "ov \<in> {8..16}"
  moreover have "set oversamples = of_nat ` {unat LOG_UART_OVS_MIN..<Suc (unat LOG_UART_OVS_MAX)}"
    by (simp only: oversamples_def set_map set_upt)
  ultimately show ?thesis by (auto simp: uart_consts)
qed

text \<open>The search over the naturals: the nearest divider of the best oversample.\<close>

lemma uart_choice_nat:
  assumes "24000000 \<le> unat src" and "unat src \<le> 2000000000"
  defines "ov \<equiv> unat (best_ovs (uart_choice src))" and "d \<equiv> unat (best_div (uart_choice src))"
    and "e \<equiv> unat (best_err (uart_choice src))"
  shows "ov \<in> {8..16}" and "d = nat_div (unat src) (1000000 * ov)" and "2 \<le> d \<and> d \<le> 256"
    and "e = nat_err_pm (unat src) (1000000 * ov)" and "\<forall>ov' \<in> {8..16}. e \<le> nat_err_pm (unat src) (1000000 * ov')"
proof -
  note b = uart_choice_best [of src]
  have ov: "best_ovs (uart_choice src) \<in> set oversamples" using b by simp
  note x = uart_exact [OF ov assms(1,2), folded ov_def]
  show r: "ov \<in> {8..16}" using uart_target_nat [OF ov] by (simp add: ov_def)
  show d: "d = nat_div (unat src) (1000000 * ov)" using x(1) b by (simp add: d_def)
  show "2 \<le> d \<and> d \<le> 256"
    unfolding d using r by (intro conjI nat_div_bounds [OF _ _ assms(1,2)]) auto
  show "e = nat_err_pm (unat src) (1000000 * ov)" using x(2) b by (simp add: e_def)
  show "\<forall>ov' \<in> {8..16}. e \<le> nat_err_pm (unat src) (1000000 * ov')"
  proof
    fix ov' :: nat assume "ov' \<in> {8..16}"
    then have m: "(of_nat ov' :: u32) \<in> set oversamples" and u: "unat (of_nat ov' :: u32) = ov'"
      by (auto simp: oversamples_set unsigned_of_nat take_bit_eq_mod)
    have "best_err (uart_choice src) \<le> uart_err_pm src (of_nat ov')" using b m by blast
    then show "e \<le> nat_err_pm (unat src) (1000000 * ov')"
      using uart_exact(2) [OF m assms(1,2)] by (simp add: e_def u word_le_nat_alt)
  qed
qed

lemma nat_err_pm_le:
  assumes "0 < t" and "nat_err_pm s t \<le> 20"
  shows "1000 * (s div nat_div s t) < 1000 * t + 21 * t" and "1000 * t < 1000 * (s div nat_div s t) + 21 * t"
proof -
  define a where "a = s div nat_div s t"
  define x where "x = (if a > t then a - t else t - a)"
  have "nat_err_pm s t = x * 1000 div t" by (simp only: nat_err_pm_def Let_def a_def x_def)
  then have "x * 1000 div t < 21" using assms(2) by simp
  then have "x * 1000 < 21 * t" using assms(1) by (simp add: div_less_iff_less_mult)
  then show "1000 * (s div nat_div s t) < 1000 * t + 21 * t" and "1000 * t < 1000 * (s div nat_div s t) + 21 * t"
    unfolding a_def [symmetric] by (auto simp: x_def split: if_splits)
qed


text \<open>A UART behind a clock of \<open>su_hz\<close>, with room for \<open>su_room\<close> bytes in its FIFO.\<close>

record sim_uart =
  su_hz :: u32
  su_div :: u32
  su_room :: nat
  su_wire :: bytes
  su_ticks :: u32

definition sim_uart_cy :: "sim_uart cy_uart" where
  "sim_uart_cy = \<lparr>cu_assign_divider = id, cu_set_divider = (\<lambda>n s. s\<lparr>su_div := n\<rparr>), cu_enable_divider = id,
     cu_frequency = (\<lambda>s. su_hz s div (su_div s + 1)), cu_pins_init = id, cu_uart_init = (\<lambda>ovs s. (True, s)),
     cu_uart_enable = id,
     cu_put_array = (\<lambda>d s. let n = min (length d) (su_room s) in
       (n, s\<lparr>su_room := su_room s - n, su_wire := su_wire s @ take n d\<rparr>)),
     cu_tx_complete = (\<lambda>s. True), cu_tick_count = (\<lambda>s. (su_ticks s, s)), cu_reset_reason = (\<lambda>s. 0)\<rparr>"

definition sim_uart_port :: "u32 \<Rightarrow> sim_uart uart_port" where
  "sim_uart_port hz = \<lparr>up_sink_ready = False, up_oversample = LOG_UART_OVS_MIN, up_peri_hz = 0, up_divider = 0,
     up_g_oversample = 0, up_actual_hz = 0, up_err_pm = 0, up_clk_ok = False,
     up_dev = \<lparr>su_hz = hz, su_div = 0, su_room = 100000, su_wire = [], su_ticks = 0\<rparr>\<rparr>"

lemma oversamples_list: "oversamples = [8, 9, 10, 11, 12, 13, 14, 15, 16]"
  by (simp add: oversamples_def uart_consts upt_rec)

lemma board_clocks:
  "uart_choice 80000000 = \<lparr>best_ovs = 8, best_div = 10, best_err = 0\<rparr>"
  "uart_choice 100000000 = \<lparr>best_ovs = 10, best_div = 10, best_err = 0\<rparr>"
  by (simp_all add: uart_choice_def oversamples_list uart_err_pm_def uart_div_def uart_target_def uart_consts Let_def)

text \<open>
  Below 24 MHz the product by 1000 can wrap: on 3.705 MHz the difference to 8 MHz is 4 295 000 Hz, a
  thousand times that is 32704 modulo \<open>2 ^ 32\<close>, and the search takes oversample 8 with divider 1, 463
  kbaud, for an exact match.
\<close>

lemma slow_clock_wraps: "uart_choice 3705000 = \<lparr>best_ovs = 8, best_div = 1, best_err = 0\<rparr>"
  by (simp add: uart_choice_def oversamples_list uart_err_pm_def uart_div_def uart_target_def uart_consts Let_def)

lemma slow_clock_accepted:
  "fst (log_uart_clock_init sim_uart_cy (sim_uart_port 3705000))"
  by (simp add: log_uart_clock_init_def sim_uart_cy_def sim_uart_port_def slow_clock_wraps Let_def uart_consts)


section \<open>The port as a sink\<close>

locale uart_transmitter =
  fixes cy :: "'w cy_uart" and wire :: "'w \<Rightarrow> bytes"
  assumes put_taken: "cu_put_array cy d w = (n, w') \<Longrightarrow> n \<le> length d \<and> wire w' = wire w @ take n d"
    and tick_silent: "cu_tick_count cy w = (t, w') \<Longrightarrow> wire w' = wire w"

sublocale uart_transmitter \<subseteq> log_sink "uart_log_port cy" "\<lambda>u. wire (up_dev u)"
  by unfold_locales
    (auto simp: uart_log_port_def log_port_tx_def log_port_now_ms_def split: if_splits prod.splits
      dest: put_taken tick_silent)

interpretation sim_uart: uart_transmitter sim_uart_cy su_wire
  by unfold_locales (auto simp: sim_uart_cy_def Let_def)

section \<open>The drain task\<close>

lemma advance_length:
  assumes "ring_ok s" and "n \<le> unat (lg_head s - lg_tail s)"
  shows "length (log_queue (s\<lparr>lg_tail := lg_tail s + of_nat n\<rparr>)) = length (log_queue s) - n"
    and "ring_ok (s\<lparr>lg_tail := lg_tail s + of_nat n\<rparr>)"
  using queue_advance [OF assms] by (metis length_drop length_log_queue)+

context log_sink
begin

text \<open>What a drain reports as sent has left the ring.\<close>

lemma drain_loop_shrinks:
  "drain_loop p fuel max_bytes remaining sent_any s w = Some (r, s', w') \<Longrightarrow> ring_ok s \<Longrightarrow>
     length (log_queue s') \<le> length (log_queue s) \<and>
     (r = LOG_DRAIN_SENT \<longrightarrow> sent_any \<or> length (log_queue s') < length (log_queue s)) \<and>
     (r = LOG_DRAIN_IDLE \<longrightarrow> \<not> sent_any \<and> (log_queue s' = [] \<or> max_bytes \<noteq> 0 \<and> remaining = 0))"
proof (induction fuel arbitrary: remaining sent_any s w)
  case 0
  then show ?case by simp
next
  case (Suc fuel)
  let ?u = "unat (lg_head s - lg_tail s)"
  define chunk where "chunk = drain_chunk max_bytes remaining s"
  show ?case
  proof (cases "?u = 0 \<or> max_bytes \<noteq> 0 \<and> remaining = 0 \<or> \<not> lp_sink_ready p w")
    case True
    then show ?thesis using Suc.prems(1) by (auto simp: Let_def log_queue_def split: if_splits)
  next
    case False
    have c: "chunk \<le> ?u" by (auto simp: chunk_def drain_chunk_def Let_def)
    obtain sent w1 where tx: "lp_tx p (take chunk (drop (drain_idx s) (lg_ring s))) w = (sent, w1)" by fastforce
    have le: "sent \<le> chunk" using tx_taken [OF tx] by auto
    then have su: "sent \<le> ?u" using c by simp
    let ?s1 = "s\<lparr>lg_tail := lg_tail s + of_nat sent\<rparr>"
    note a = advance_length [OF Suc.prems(2) su]
    have step: "drain_loop p (Suc fuel) max_bytes remaining sent_any s w =
      (if sent = 0 then Some (LOG_DRAIN_BLOCKED, s, w1)
       else if sent < chunk then Some (LOG_DRAIN_BLOCKED, ?s1, w1)
       else drain_loop p fuel max_bytes (if max_bytes \<noteq> 0 then remaining - sent else remaining) True ?s1 w1)"
      using False tx by (auto simp: Let_def chunk_def [symmetric])
    show ?thesis
    proof (cases "sent = 0 \<or> sent < chunk")
      case True
      then show ?thesis using Suc.prems(1) a(1) unfolding step by (auto split: if_splits)
    next
      case go: False
      then have "drain_loop p fuel max_bytes (if max_bytes \<noteq> 0 then remaining - sent else remaining) True ?s1 w1 =
        Some (r, s', w')" using Suc.prems(1) unfolding step by simp
      from Suc.IH [OF this a(2)] have "length (log_queue s') \<le> length (log_queue s) - sent" "r \<noteq> LOG_DRAIN_IDLE"
        using a(1) by auto
      then show ?thesis using go su by auto
    qed
  qed
qed

lemma log_task_loop_ends:
  "ring_ok s \<Longrightarrow> length (log_queue s) < fuel \<Longrightarrow>
   \<exists>r s' w'. log_task_loop p fuel s w = Some (r, s', w') \<and> ring_ok s' \<and> r \<noteq> LOG_DRAIN_SENT \<and>
     sunk w' @ log_queue s' = sunk w @ log_queue s \<and> (r = LOG_DRAIN_IDLE \<longrightarrow> log_queue s' = [])"
proof (induction fuel arbitrary: s w)
  case 0
  then show ?case by simp
next
  case (Suc fuel)
  obtain r s1 w1 where d: "log_drain p LOG_TASK_MAX_BYTES s w = Some (r, s1, w1)" "ring_ok s1"
    "sunk w1 @ log_queue s1 = sunk w @ log_queue s"
    using log_drain_spec [OF Suc.prems(1), of LOG_TASK_MAX_BYTES w] by blast
  note sh = drain_loop_shrinks [OF d(1) [unfolded log_drain_def] Suc.prems(1)]
  show ?case
  proof (cases "r = LOG_DRAIN_SENT")
    case True
    then have "length (log_queue s1) < fuel" using sh Suc.prems(2) by simp
    from Suc.IH [OF d(2) this, of w1] show ?thesis using d True by simp
  next
    case False
    then show ?thesis using d sh by (auto simp: LOG_TASK_MAX_BYTES_def)
  qed
qed

end

context uart_transmitter
begin

lemmas period_ends = log_task_loop_ends

lemmas flush_ends = log_flush_ends

end

text \<open>
  A period of the drain task ends after at most one call of \<open>log_drain\<close> more than there are bytes
  queued; it sends the queue in order, and stops only when the ring is empty or the UART's FIFO is full.
\<close>

lemma drain_period_ends:
  assumes "uart_transmitter cy wire" and "ring_ok s" and "length (log_queue s) < fuel"
  shows "\<exists>r s' u'. log_task_loop (uart_log_port cy) fuel s u = Some (r, s', u') \<and> ring_ok s' \<and>
    wire (up_dev u') @ log_queue s' = wire (up_dev u) @ log_queue s \<and>
    (r = LOG_DRAIN_BLOCKED \<or> r = LOG_DRAIN_IDLE \<and> log_queue s' = [])"
proof -
  obtain r s' u' where t: "log_task_loop (uart_log_port cy) fuel s u = Some (r, s', u')" "ring_ok s'"
    "r \<noteq> LOG_DRAIN_SENT" "wire (up_dev u') @ log_queue s' = wire (up_dev u) @ log_queue s"
    "r = LOG_DRAIN_IDLE \<longrightarrow> log_queue s' = []"
    using uart_transmitter.period_ends [OF assms, of u] by blast
  then show ?thesis by (cases r) auto
qed

definition sim_log :: log_state where
  "sim_log = \<lparr>lg_core = LOG_CORE_APP, lg_seq = 0, lg_dropped = 0, lg_pending = 0, lg_head = 40, lg_tail = 20,
     lg_ring = replicate 32 7\<rparr>"

lemma drain_period_ends_witness:
  "\<exists>r s' u'. log_task_loop (uart_log_port sim_uart_cy) 21 sim_log (sim_uart_port 80000000\<lparr>up_sink_ready := True\<rparr>) = Some (r, s', u') \<and>
     su_wire (up_dev u') @ log_queue s' = replicate 20 7"
proof -
  have k: "ring_ok sim_log" "length (log_queue sim_log) < 21"
    by (auto simp: ring_ok_def ring_cap_def sim_log_def intro!: exI [of _ 5])
  have q: "log_queue sim_log = replicate 20 7"
    by (auto simp: log_queue_def sim_log_def ring_cap_def intro!: nth_equalityI)
  from drain_period_ends [OF sim_uart.uart_transmitter_axioms k, of "sim_uart_port 80000000\<lparr>up_sink_ready := True\<rparr>"]
  show ?thesis by (auto simp: q) (auto simp: sim_uart_port_def)
qed

end
