(* ===== verification/Fbl_Main.thy ===== *)
theory Fbl_Main imports Sample_Boot Log_Port begin

text \<open>
  The bootloader's entry \<open>node_a_gateway/bootloader/proj_cm4/src/fbl_main.c\<close> with its log set-up
  (\<open>port_log.c\<close>): the boot event, the boot decision of \<open>shared/boot\<close> with the crypto client's reports,
  and the terminal action with its event, which is flushed before control leaves.

  The log channel, its UART and the boot port's world are three states that the code does not share,
  except for the clock: the time stamps of the records are whatever \<open>cu_tick_count\<close> answers. Clock and
  pin set-up, the CAN bring-up (\<open>Fbl_Can\<close>) and the bring-up checks behind their build flags are not
  part of the sequence here. \<open>Jump_To_App\<close> stands for \<open>fbl_port_deinit_for_jump\<close> and
  \<open>fbl_port_jump_to_app\<close>, which do not return; \<open>Enter_Programming\<close> for the loop over \<open>Fbl_Diag\<close>.
\<close>

section \<open>The sequence\<close>

definition FBL_LOG_FLUSH_MS :: u32 where "FBL_LOG_FLUSH_MS = 20"
definition FBL_LOG_RING_CAP :: nat where "FBL_LOG_RING_CAP = 512"
definition FBL_LOG_SERVICE_MAX_BYTES :: nat where "FBL_LOG_SERVICE_MAX_BYTES = 128"

fun reset_cause_code :: "fbl_reset_cause \<Rightarrow> u32" where
  "reset_cause_code FBL_RST_POWER_ON = 0"
| "reset_cause_code FBL_RST_SOFTWARE = 1"
| "reset_cause_code FBL_RST_WATCHDOG = 2"
| "reset_cause_code FBL_RST_DEBUG = 3"
| "reset_cause_code FBL_RST_HIBERNATE = 4"
| "reset_cause_code FBL_RST_OTHER = 5"

fun boot_action_code :: "fbl_boot_action \<Rightarrow> u16" where
  "boot_action_code FBL_ACTION_JUMP_APP = 0"
| "boot_action_code FBL_ACTION_PROGRAMMING_MODE = 1"

datatype fbl_exit = Jump_To_App u32 | Enter_Programming

definition fbl_log_init ::
  "'v cy_uart \<Rightarrow> string \<Rightarrow> string \<Rightarrow> log_state \<Rightarrow> 'v uart_port \<Rightarrow> log_state \<times> 'v uart_port" where
  "fbl_log_init cy img build s u =
     (case log_uart_clock_init cy (u\<lparr>up_sink_ready := False\<rparr>) of
        (False, u1) \<Rightarrow> (s, u1)
      | (True, u1) \<Rightarrow>
          (case cu_uart_init cy (up_oversample u1) (cu_pins_init cy (up_dev u1)) of
             (False, w) \<Rightarrow> (s, u1\<lparr>up_dev := w\<rparr>)
           | (True, w) \<Rightarrow> (log_init img build LOG_CORE_APP s, u1\<lparr>up_dev := cu_uart_enable cy w, up_sink_ready := True\<rparr>)))"

definition fbl_log_service :: "'v log_port \<Rightarrow> log_state \<Rightarrow> 'v \<Rightarrow> (log_state \<times> 'v) option" where
  "fbl_log_service lp s u = map_option snd (log_drain lp FBL_LOG_SERVICE_MAX_BYTES s u)"

text \<open>The calls a component made, on the ring.\<close>

fun log_calls :: "'v log_port \<Rightarrow> log_call list \<Rightarrow> log_state \<Rightarrow> 'v \<Rightarrow> log_state \<times> 'v" where
  "log_calls lp [] s u = (s, u)"
| "log_calls lp ((evt, arg0, arg1) # cs) s u = (case log_evt lp evt arg0 arg1 s u of
     (s1, u1) \<Rightarrow> log_calls lp cs s1 u1)"

definition image_base_arg :: "'w fbl_port \<Rightarrow> u32" where
  "image_base_arg p = (case fp_app_image_base p of None \<Rightarrow> 0 | Some b \<Rightarrow> b)"

definition fbl_main ::
  "fbl_digest_algo \<Rightarrow> 'w fbl_port \<Rightarrow> nat \<Rightarrow> 'v cy_uart \<Rightarrow> nat \<Rightarrow> string \<Rightarrow> string \<Rightarrow> log_state \<Rightarrow> 'v uart_port \<Rightarrow> 'w \<Rightarrow>
   (fbl_exit \<times> log_state \<times> 'v uart_port \<times> 'w) option" where
  "fbl_main alg p fuel cy flush_fuel img build s u w =
     (let lp = uart_log_port cy in
      case fbl_log_init cy img build s u of (s1, u1) \<Rightarrow>
      case log_evt lp LOG_EVT_BOOT (reset_cause_code (fp_reset_cause p w)) 0 s1 u1 of (s2, u2) \<Rightarrow>
      case fbl_run_boot alg p fuel w of
        None \<Rightarrow> None
      | Some (action, calls, w1) \<Rightarrow>
          case log_calls lp calls s2 u2 of (s3, u3) \<Rightarrow>
          if action = FBL_ACTION_JUMP_APP then
            (case log_evt lp LOG_EVT_APP_JUMP (image_base_arg p) 0 s3 u3 of (s4, u4) \<Rightarrow>
             case log_flush lp flush_fuel FBL_LOG_FLUSH_MS s4 u4 of
               None \<Rightarrow> None
             | Some (_, s5, u5) \<Rightarrow> Some (Jump_To_App (image_base_arg p), s5, u5, w1))
          else
            (case log_evt lp LOG_EVT_APP_REJECT (image_base_arg p) (boot_action_code action) s3 u3 of (s4, u4) \<Rightarrow>
             case log_flush lp flush_fuel FBL_LOG_FLUSH_MS s4 u4 of
               None \<Rightarrow> None
             | Some (_, s5, u5) \<Rightarrow> Some (Enter_Programming, s5, u5, w1)))"

section \<open>Records that fit\<close>

text \<open>A ring with room: nothing was lost yet, and \<open>n\<close> more records fit.\<close>

definition has_room :: "nat \<Rightarrow> log_state \<Rightarrow> bool" where
  "has_room n s \<longleftrightarrow> ring_ok s \<and> lg_pending s = 0 \<and> lg_core s = LOG_CORE_APP \<and>
     length (log_queue s) + 16 * n \<le> ring_cap s"

lemma log_queue_flags [simp]:
  "log_queue (s\<lparr>lg_seq := x\<rparr>) = log_queue s" "ring_cap (s\<lparr>lg_seq := x\<rparr>) = ring_cap s"
  "ring_ok (s\<lparr>lg_seq := x\<rparr>) = ring_ok s"
  by (simp_all add: log_queue_def ring_cap_def ring_ok_def)

lemma evt_fits:
  assumes "has_room (Suc n) s" and "log_evt p evt arg0 arg1 s w = (s', w')"
  shows "has_room n s' \<and> (\<exists>seq t. log_queue s' = log_queue s @ log_record LOG_CORE_APP seq evt t arg0 arg1)"
proof -
  obtain t w1 where now: "lp_now_ms p w = (t, w1)" by fastforce
  have ok: "ring_ok s" "lg_pending s = 0" "lg_core s = LOG_CORE_APP"
    and room: "length (log_queue s) + 16 + 16 * n \<le> ring_cap s" using assms(1) by (auto simp: has_room_def)
  let ?ev = "log_record (lg_core s) (lg_seq s) evt t arg0 arg1"
  obtain b s1 where enq: "log_try_enqueue [] ?ev s = (b, s1)" by fastforce
  have b: "b = True"
    using enqueue_refused [of "[]" ?ev s s1] enq room by (cases b) auto
  note acc = enqueue_accepted [OF ok(1) enq [unfolded b]]
  have same: "lg_pending s1 = lg_pending s" "lg_core s1 = lg_core s"
    using enq b by (auto simp: log_try_enqueue_def Let_def split: if_splits)
  have "s' = s1\<lparr>lg_seq := (lg_seq s1 + 1) AND LOG_SEQ_MASK\<rparr>"
    using assms(2) enq b ok(2) by (simp add: log_evt_def now log_rec_encode_eq Let_def)
  then show ?thesis
    using acc same ok room by (auto simp: has_room_def)
qed

lemma calls_fit:
  "has_room (n + length cs) s \<Longrightarrow> log_calls p cs s u = (s', u') \<Longrightarrow>
     has_room n s' \<and> (\<exists>x. log_queue s' = log_queue s @ x)"
proof (induction p cs s u arbitrary: s' u' rule: log_calls.induct)
  case (1 lp s u)
  then show ?case by auto
next
  case (2 lp evt arg0 arg1 cs s u)
  obtain s1 u1 where e: "log_evt lp evt arg0 arg1 s u = (s1, u1)" by fastforce
  have "has_room (Suc (n + length cs)) s" using 2(2) by simp
  from evt_fits [OF this e] obtain x where f: "has_room (n + length cs) s1" "log_queue s1 = log_queue s @ x" by blast
  have "log_calls lp cs s1 u1 = (s', u')" using 2(3) e by simp
  from 2(1) [OF e [symmetric] f(1) this] f(2) show ?case by auto
qed

text \<open>The banner takes at most 64 bytes of an empty ring.\<close>

definition fresh_ring :: "log_state \<Rightarrow> bool" where
  "fresh_ring s \<longleftrightarrow> ring_ok s \<and> ring_cap s = FBL_LOG_RING_CAP \<and> lg_head s = lg_tail s \<and> lg_pending s = 0 \<and>
     lg_core s = LOG_CORE_APP"

lemma text_len_le: "text_len n x = Some k \<Longrightarrow> k \<le> n"
  by (induction n x arbitrary: k rule: text_len.induct) (auto split: if_splits)

lemma text_fits:
  assumes "ring_ok s" and "lg_pending s = 0" and "lg_core s = LOG_CORE_APP" and "log_queue s = []"
    and "ring_cap s = 512"
  shows "has_room 28 (log_text str s)"
proof -
  have z: "has_room 28 s" using assms by (simp add: has_room_def)
  show ?thesis
  proof (cases str)
    case None
    then show ?thesis using z by (simp add: log_text_def)
  next
    case (Some x)
    show ?thesis
    proof (cases "text_len LOG_TEXT_MAX x")
      case None
      then show ?thesis using z Some by (simp add: log_text_def)
    next
      case (Some k)
      obtain b s1 where enq: "log_try_enqueue (take k x) [] s = (b, s1)" by fastforce
      have k: "k \<le> 64" using text_len_le [OF Some] by (simp add: LOG_TEXT_MAX_def)
      have b: "b = True"
        using enqueue_refused [of "take k x" "[]" s s1] enq k assms(4,5) by (cases b) (auto simp: min_def split: if_splits)
      note acc = enqueue_accepted [OF assms(1) enq [unfolded b]]
      have same: "lg_pending s1 = lg_pending s" "lg_core s1 = lg_core s"
        using enq b by (auto simp: log_try_enqueue_def Let_def split: if_splits)
      have "length (log_queue s1) \<le> 64" using acc(1) assms(4) k by (simp del: length_log_queue)
      then show ?thesis
        using \<open>str = Some x\<close> Some enq b acc same assms(2,3,5) by (simp add: log_text_def has_room_def)
    qed
  qed
qed

lemma log_init_room:
  assumes "fresh_ring s"
  shows "has_room 28 (log_init img build LOG_CORE_APP s)"
proof -
  let ?s = "s\<lparr>lg_core := LOG_CORE_APP, lg_seq := 0, lg_dropped := 0, lg_pending := 0, lg_head := 0, lg_tail := 0\<rparr>"
  have "ring_ok ?s" "log_queue ?s = []" "ring_cap ?s = 512"
    using assms by (auto simp: fresh_ring_def ring_ok_def ring_cap_def log_queue_def FBL_LOG_RING_CAP_def)
  then show ?thesis
    by (simp add: log_init_def log_banner_def Let_def text_fits)
qed

lemma fbl_log_init_room:
  assumes "fresh_ring s" and "fbl_log_init cy img build s u = (s1, u1)"
  shows "has_room 28 s1"
proof -
  have "has_room 28 s"
    using assms(1) by (auto simp: fresh_ring_def has_room_def log_queue_def FBL_LOG_RING_CAP_def)
  then show ?thesis
    using assms(2) log_init_room [OF assms(1)] by (auto simp: fbl_log_init_def split: prod.splits bool.splits)
qed

section \<open>The decision is on the wire before control leaves\<close>

lemma verify_reports_once:
  "crypto_verify_image fuel port base len key w = Some (v, log, w') \<Longrightarrow> length log \<le> 1"
  by (auto simp: crypto_verify_image_def Let_def crypto_report_def
      split: if_splits prod.splits option.splits bool.splits)

lemma boot_reports_once:
  assumes "fbl_run_boot alg (fbl_target b vf table) fuel w = Some (act, calls, w')"
  shows "length calls \<le> 1"
proof -
  have v: "fbl_app_image_valid alg (fbl_target b vf table) base len w = Some (x, log, w') \<Longrightarrow> length log \<le> 1" for base len w x log w'
    by (auto simp: fbl_app_image_valid_def Let_def fbl_target_def fbl_verify_image_def dest!: verify_reports_once
        split: option.splits if_splits fbl_digest_algo.splits)
  show ?thesis
    using assms by (auto simp: fbl_run_boot_def Let_def dest: v split: prod.splits if_splits option.splits bool.splits)
qed

text \<open>C19: whenever the boot decision returns, the bootloader gets to its terminal action, the one decided,
  after at most 2002 passes of the flush, and its log, sent or still queued, ends with the record of that
  decision: no full ring and no stalled UART drops it or holds the boot up.
\<close>

theorem boot_outcome_is_reported:
  assumes "uart_transmitter cy wire" and "fresh_ring s" and "2002 \<le> flush_fuel"
    and "fbl_run_boot alg (fbl_target b vf table) fuel w = Some (act, calls, w')"
  shows "\<exists>s' u' before seq t.
    fbl_main alg (fbl_target b vf table) fuel cy flush_fuel img build s u w =
      Some (if act = FBL_ACTION_JUMP_APP then Jump_To_App FBL_APP_FLASH_BASE else Enter_Programming, s', u', w') \<and>
    wire (up_dev u') @ log_queue s' = before @ log_record LOG_CORE_APP seq
      (if act = FBL_ACTION_JUMP_APP then LOG_EVT_APP_JUMP else LOG_EVT_APP_REJECT) t FBL_APP_FLASH_BASE (boot_action_code act)"
proof -
  let ?p = "fbl_target b vf table" and ?lp = "uart_log_port cy"
  let ?evt = "if act = FBL_ACTION_JUMP_APP then LOG_EVT_APP_JUMP else LOG_EVT_APP_REJECT"
  have base: "image_base_arg ?p = FBL_APP_FLASH_BASE"
    by (simp add: image_base_arg_def fbl_target_def fbl_port_app_image_base_def)
  obtain s1 u1 where 1: "fbl_log_init cy img build s u = (s1, u1)" by fastforce
  obtain s2 u2 where 2: "log_evt ?lp LOG_EVT_BOOT (reset_cause_code (fp_reset_cause ?p w)) 0 s1 u1 = (s2, u2)" by fastforce
  obtain s3 u3 where 3: "log_calls ?lp calls s2 u2 = (s3, u3)" by fastforce
  obtain s4 u4 where 4: "log_evt ?lp ?evt FBL_APP_FLASH_BASE (boot_action_code act) s3 u3 = (s4, u4)" by fastforce
  have r1: "has_room (Suc 27) s1" using fbl_log_init_room [OF assms(2) 1] by simp
  have r2: "has_room 27 s2" using evt_fits [OF r1 2] by blast
  have "has_room (1 + length calls) s2"
    using r2 boot_reports_once [OF assms(4)] by (auto simp: has_room_def)
  then have r3: "has_room (Suc 0) s3" using calls_fit [OF _ 3, of 1] by simp
  from evt_fits [OF r3 4] obtain seq t where r4: "has_room 0 s4"
    "log_queue s4 = log_queue s3 @ log_record LOG_CORE_APP seq ?evt t FBL_APP_FLASH_BASE (boot_action_code act)" by blast
  have "ring_ok s4" using r4(1) by (simp add: has_room_def)
  from uart_transmitter.flush_ends [OF assms(1) this assms(3)] obtain x s5 u5 where
    5: "log_flush ?lp flush_fuel FBL_LOG_FLUSH_MS s4 u4 = Some (x, s5, u5)"
      "wire (up_dev u5) @ log_queue s5 = wire (up_dev u4) @ log_queue s4" by blast
  have m: "fbl_main alg ?p fuel cy flush_fuel img build s u w =
      Some (if act = FBL_ACTION_JUMP_APP then Jump_To_App FBL_APP_FLASH_BASE else Enter_Programming, s5, u5, w')"
    using 1 2 3 4 5(1) assms(4) by (cases act) (simp_all add: fbl_main_def Let_def base)
  have "wire (up_dev u5) @ log_queue s5 = (wire (up_dev u4) @ log_queue s3) @
      log_record LOG_CORE_APP seq ?evt t FBL_APP_FLASH_BASE (boot_action_code act)"
    by (simp add: 5(2) r4(2))
  with m show ?thesis by blast
qed

definition sim_fbl_ring :: log_state where
  "sim_fbl_ring = \<lparr>lg_core = LOG_CORE_APP, lg_seq = 0, lg_dropped = 0, lg_pending = 0, lg_head = 0, lg_tail = 0,
     lg_ring = replicate 512 0\<rparr>"

theorem boot_outcome_is_reported_witness:
  "\<exists>s' u' w' before seq t.
    fbl_main FBL_DIGEST_SHA256 sample_target 1 sim_uart_cy 2002 ''fbl'' ''1'' sim_fbl_ring (sim_uart_port 80000000) (sample_boot 256) =
      Some (Jump_To_App FBL_APP_FLASH_BASE, s', u', w') \<and>
    su_wire (up_dev u') @ log_queue s' = before @ log_record LOG_CORE_APP seq LOG_EVT_APP_JUMP t FBL_APP_FLASH_BASE 0"
proof -
  obtain calls w' where r: "fbl_run_boot FBL_DIGEST_SHA256 sample_target 1 (sample_boot 256) = Some (FBL_ACTION_JUMP_APP, calls, w')"
    using sample_boots by blast
  have f: "fresh_ring sim_fbl_ring"
    by (auto simp: fresh_ring_def ring_ok_def ring_cap_def sim_fbl_ring_def FBL_LOG_RING_CAP_def intro!: exI [of _ 9])
  from boot_outcome_is_reported [OF sim_uart.uart_transmitter_axioms f order_refl r] show ?thesis by simp blast
qed

end
