(* ===== verification/Fbl_Prog.thy ===== *)
theory Fbl_Prog imports Fbl_Main begin

text \<open>
  Programming mode, \<open>node_a_gateway/bootloader/proj_cm4/src/port_prog.c\<close>: the super-loop over the
  diagnostic tick, the log service and the heartbeat, which never leaves it but by a reset. A run is a
  list of passes; a pass has the clock's reading before the tick, the frames that came in, and the
  clock's reading after the log service.

  The diagnostic server with its flash, and the log ring with its UART, are two states that the loop
  visits in turn. The destructive bring-up test behind its build flag is not built.
\<close>

record ('h, 'v) prog =
  pg_uds :: "'h fbl_world uds"
  pg_log :: log_state
  pg_uart :: "'v uart_port"
  pg_last_blink :: u32
  pg_led :: bool

definition heartbeat :: "u32 \<Rightarrow> ('h, 'v) prog \<Rightarrow> ('h, 'v) prog" where
  "heartbeat now s = (if now - pg_last_blink s \<ge> 250 then s\<lparr>pg_led := \<not> pg_led s, pg_last_blink := now\<rparr> else s)"

definition prog_pass ::
  "'h fbl_world cy_flash \<Rightarrow> fbl_digest_algo \<Rightarrow> cy_reset_bits \<Rightarrow> 'h fbl_world fbl_port \<Rightarrow> fbl_handshake \<Rightarrow> 'v cy_uart \<Rightarrow>
   u32 \<times> can_raw_frame list \<times> u32 \<Rightarrow> ('h, 'v) prog \<Rightarrow> (bool \<times> ('h, 'v) prog) option" where
  "prog_pass drv alg bits p h cy x s =
     (case x of (t1, frames, t2) \<Rightarrow>
      case fbl_diag_tick drv alg bits p h t1 frames (pg_uds s) of
        None \<Rightarrow> None
      | Some (True, d) \<Rightarrow> Some (True, s\<lparr>pg_uds := d\<rparr>)
      | Some (False, d) \<Rightarrow> (case fbl_log_service (uart_log_port cy) (pg_log s) (pg_uart s) of
          None \<Rightarrow> None
        | Some (l, u) \<Rightarrow> Some (False, heartbeat t2 (s\<lparr>pg_uds := d, pg_log := l, pg_uart := u\<rparr>))))"

fun prog_run ::
  "'h fbl_world cy_flash \<Rightarrow> fbl_digest_algo \<Rightarrow> cy_reset_bits \<Rightarrow> 'h fbl_world fbl_port \<Rightarrow> fbl_handshake \<Rightarrow> 'v cy_uart \<Rightarrow>
   (u32 \<times> can_raw_frame list \<times> u32) list \<Rightarrow> ('h, 'v) prog \<Rightarrow> (bool \<times> ('h, 'v) prog) option" where
  "prog_run drv alg bits p h cy [] s = Some (False, s)"
| "prog_run drv alg bits p h cy (x # xs) s =
     (case prog_pass drv alg bits p h cy x s of
        None \<Rightarrow> None
      | Some (True, s1) \<Rightarrow> Some (True, s1)
      | Some (False, s1) \<Rightarrow> prog_run drv alg bits p h cy xs s1)"

text \<open>\<open>we\<close> is \<open>fbl_flash_init\<close>, which lifts the flash's write gate; \<open>now\<close> the clock before the loop.\<close>

definition fbl_port_enter_programming_mode ::
  "('h fbl_world \<Rightarrow> 'h fbl_world) \<Rightarrow> 'h fbl_world cy_flash \<Rightarrow> fbl_digest_algo \<Rightarrow> cy_reset_bits \<Rightarrow> 'h fbl_world fbl_port \<Rightarrow>
   fbl_handshake \<Rightarrow> 'v cy_uart \<Rightarrow> u32 \<Rightarrow> (u32 \<times> can_raw_frame list \<times> u32) list \<Rightarrow> ('h, 'v) prog \<Rightarrow> (bool \<times> ('h, 'v) prog) option" where
  "fbl_port_enter_programming_mode we drv alg bits p h cy now xs s =
     prog_run drv alg bits p h cy xs
       (s\<lparr>pg_uds := fbl_diag_init ((pg_uds s)\<lparr>us_dev := we (us_dev (pg_uds s))\<rparr>), pg_last_blink := now\<rparr>)"

section \<open>The log channel and the server\<close>

lemma heartbeat_keeps [simp]:
  "pg_uds (heartbeat t s) = pg_uds s" "pg_log (heartbeat t s) = pg_log s" "pg_uart (heartbeat t s) = pg_uart s"
  by (simp_all add: heartbeat_def)

text \<open>What a stretch of the loop may do to the log: hand over at most \<open>n\<close> bytes, in order.\<close>

definition log_moves :: "('v \<Rightarrow> bytes) \<Rightarrow> nat \<Rightarrow> ('h, 'v) prog \<Rightarrow> ('h, 'v) prog \<Rightarrow> bool" where
  "log_moves wire n s s' \<longleftrightarrow> ring_ok (pg_log s') \<and>
     wire (up_dev (pg_uart s')) @ log_queue (pg_log s') = wire (up_dev (pg_uart s)) @ log_queue (pg_log s) \<and>
     length (wire (up_dev (pg_uart s'))) \<le> length (wire (up_dev (pg_uart s))) + n"

lemma log_moves_more: "log_moves wire n s s1 \<Longrightarrow> log_moves wire m s1 s' \<Longrightarrow> log_moves wire (n + m) s s'"
  by (auto simp: log_moves_def)

lemma log_moves_le: "log_moves wire n s s' \<Longrightarrow> n \<le> m \<Longrightarrow> log_moves wire m s s'"
  by (auto simp: log_moves_def)

context uart_transmitter
begin

lemma log_service_moves:
  assumes "ring_ok s"
  shows "\<exists>s' u'. fbl_log_service (uart_log_port cy) s u = Some (s', u') \<and> ring_ok s' \<and>
    wire (up_dev u') @ log_queue s' = wire (up_dev u) @ log_queue s \<and>
    length (wire (up_dev u')) \<le> length (wire (up_dev u)) + FBL_LOG_SERVICE_MAX_BYTES"
  using log_drain_spec [OF assms, of FBL_LOG_SERVICE_MAX_BYTES u]
  by (auto simp: fbl_log_service_def FBL_LOG_SERVICE_MAX_BYTES_def)

text \<open>A pass is the tick of the server: the log service neither stops it nor fails.\<close>

lemma pass_is_tick:
  assumes "ring_ok (pg_log s)"
  shows "(case fbl_diag_tick drv alg bits p h t1 frames (pg_uds s) of
       None \<Rightarrow> prog_pass drv alg bits p h cy (t1, frames, t2) s = None
     | Some (b, d) \<Rightarrow> \<exists>s'. prog_pass drv alg bits p h cy (t1, frames, t2) s = Some (b, s') \<and> pg_uds s' = d \<and>
         log_moves wire FBL_LOG_SERVICE_MAX_BYTES s s')"
proof (cases "fbl_diag_tick drv alg bits p h t1 frames (pg_uds s)")
  case None
  then show ?thesis by (simp add: prog_pass_def)
next
  case (Some x)
  obtain b d where x: "x = (b, d)" by fastforce
  obtain l u where l: "fbl_log_service (uart_log_port cy) (pg_log s) (pg_uart s) = Some (l, u)" "ring_ok l"
    "wire (up_dev u) @ log_queue l = wire (up_dev (pg_uart s)) @ log_queue (pg_log s)"
    "length (wire (up_dev u)) \<le> length (wire (up_dev (pg_uart s))) + FBL_LOG_SERVICE_MAX_BYTES"
    using log_service_moves [OF assms] by blast
  show ?thesis using Some x l assms by (cases b) (auto simp: prog_pass_def log_moves_def)
qed

lemma run_is_diag_run:
  "ring_ok (pg_log s) \<Longrightarrow>
     (case diag_run drv alg bits p h (map (\<lambda>(t, f, _). (t, f)) xs) (pg_uds s) of
        None \<Rightarrow> prog_run drv alg bits p h cy xs s = None
      | Some (b, d) \<Rightarrow> \<exists>s'. prog_run drv alg bits p h cy xs s = Some (b, s') \<and> pg_uds s' = d \<and>
          log_moves wire (FBL_LOG_SERVICE_MAX_BYTES * length xs) s s')"
proof (induction xs arbitrary: s)
  case Nil
  then show ?case by (simp add: log_moves_def)
next
  case (Cons x xs)
  obtain t1 frames t2 where x: "x = (t1, frames, t2)" by (metis prod_cases3)
  note pass = pass_is_tick [OF Cons.prems, of drv alg bits p h t1 frames t2]
  show ?case
  proof (cases "fbl_diag_tick drv alg bits p h t1 frames (pg_uds s)")
    case None
    then show ?thesis using pass by (simp add: x)
  next
    case (Some y)
    obtain b d where y: "y = (b, d)" by fastforce
    obtain s1 where s1: "prog_pass drv alg bits p h cy (t1, frames, t2) s = Some (b, s1)" "pg_uds s1 = d"
      "log_moves wire FBL_LOG_SERVICE_MAX_BYTES s s1" using pass Some y by auto
    show ?thesis
    proof (cases b)
      case True
      then show ?thesis using Some y s1 log_moves_le [OF s1(3)] by (simp add: x)
    next
      case False
      have "ring_ok (pg_log s1)" using s1(3) by (simp add: log_moves_def)
      from Cons.IH [OF this] show ?thesis
        using False Some y s1 log_moves_more [OF s1(3)] by (auto simp: x split: option.splits)
    qed
  qed
qed

end

section \<open>The whole of programming mode\<close>

lemma diagnostics_spare_the_bootloader:
  assumes "driver_confined drv"
    and "diag_run drv alg bits (fbl_target bits' fuel table) h xs s = Some (b, s')"
    and "\<not> (FBL_APP_FLASH_BASE \<le> a \<and> a < FBL_APP_FLASH_BASE + FBL_APP_FLASH_SIZE)"
  shows "fw_flash (us_dev s') a = fw_flash (us_dev s) a"
proof -
  have "\<not> app_region a"
    using assms(3) unfolding app_region_def block_of_def
    by (simp add: fbl_consts word_le_nat_alt word_less_nat_alt unat_sub_if' not_less) auto
  then show ?thesis using diag_run_confined [OF assms(1) refl assms(2)] by (auto simp: flash_kept_def)
qed

lemma quiet_tick:
  assumes "is_state (us_isotp s) = ISOTP_IDLE" and "\<not> is_rx_complete (us_isotp s)" and "us_session s = UDS_SESS_DEFAULT"
  shows "fbl_diag_tick drv alg bits p h now [] s = Some (False, s)"
  using assms
  by (simp add: fbl_diag_tick_def uds_session_tick_def isotp_poll_def s3_check_def isotp_take_received_def)

lemma diag_init_idle:
  "is_state (us_isotp (fbl_diag_init s)) = ISOTP_IDLE" "\<not> is_rx_complete (us_isotp (fbl_diag_init s))"
  "us_session (fbl_diag_init s) = UDS_SESS_DEFAULT" "us_dev (fbl_diag_init s) = us_dev s"
  "is_rx_buf (us_isotp (fbl_diag_init s)) = is_rx_buf (us_isotp s)"
  by (simp_all add: fbl_diag_init_def uds_session_init_def uds_download_init_def isotp_init_def)


definition sample_prog :: "(crypto_block, sim_uart) prog" where
  "sample_prog = \<lparr>pg_uds = sample_uds, pg_log = sim_log, pg_uart = sim_uart_port 80000000\<lparr>up_sink_ready := True\<rparr>,
     pg_last_blink = 0, pg_led = False\<rparr>"


end
