(* ===== verification/Fbl_Can.thy ===== *)
theory Fbl_Can imports Can_Frame Fbl_Port begin

text \<open>
  The bootloader's polled CAN driver \<open>node_a_gateway/bootloader/proj_cm4/src/port_can.c\<close>: a bounded
  wait for the transmit buffer before every send, one frame out of the receive FIFO per receive, and
  the look for a tester's frame during the knock window.

  The controller is the parameter \<open>cy\<close> over its state \<open>'w\<close>, a message buffer being a \<open>bus_frame\<close>.
  \<open>rx_fifo\<close> says what the receive side relies on: under it the look at the FIFO is the one
  \<open>Fbl_Port\<close> models with lists of identifiers.
\<close>

section \<open>State and operations\<close>

record 'w cy_canfd =
  cc_init :: "'w \<Rightarrow> u32 \<times> 'w"
  cc_txbrp :: "'w \<Rightarrow> u32 \<times> 'w"
  cc_transmit :: "bus_frame \<Rightarrow> 'w \<Rightarrow> bool \<times> 'w"
  cc_rxf0_fill :: "'w \<Rightarrow> u32"
  cc_extract :: "'w \<Rightarrow> bus_frame option \<times> 'w"
  cc_now_ms :: "'w \<Rightarrow> u32 \<times> 'w"

record 'w fbl_can =
  fc_rx_count :: u32
  fc_last_id :: u32
  fc_init_status :: u32
  fc_dev :: 'w

definition TX_BUF_WAIT_TIMEOUT_MS :: u32 where "TX_BUF_WAIT_TIMEOUT_MS = 10"
definition CAN_TX_BUF_IDX :: nat where "CAN_TX_BUF_IDX = 0"

definition do_init :: "'w cy_canfd \<Rightarrow> 'w fbl_can \<Rightarrow> 'w fbl_can" where
  "do_init cy s = (case cc_init cy (fc_dev s) of (st, w) \<Rightarrow> s\<lparr>fc_init_status := st, fc_dev := w\<rparr>)"

definition hal_init :: "'w cy_canfd \<Rightarrow> 'w fbl_can \<Rightarrow> int \<times> 'w fbl_can" where
  "hal_init cy s = (0, do_init cy s)"

definition tx_pending :: "u32 \<Rightarrow> bool" where
  "tx_pending txbrp \<longleftrightarrow> txbrp AND push_bit CAN_TX_BUF_IDX 1 \<noteq> 0"

text \<open>The wait, one poll per unit of fuel; \<open>None\<close> is running out of it.\<close>

primrec tx_wait_loop :: "'w cy_canfd \<Rightarrow> nat \<Rightarrow> u32 \<Rightarrow> 'w \<Rightarrow> (bool \<times> 'w) option" where
  "tx_wait_loop cy 0 start w = None"
| "tx_wait_loop cy (Suc fuel) start w = (case cc_txbrp cy w of (v, w1) \<Rightarrow>
     if \<not> tx_pending v then Some (True, w1)
     else case cc_now_ms cy w1 of (now, w2) \<Rightarrow>
       if now - start \<ge> TX_BUF_WAIT_TIMEOUT_MS then Some (False, w2) else tx_wait_loop cy fuel start w2)"

definition wait_tx_buf_free :: "'w cy_canfd \<Rightarrow> nat \<Rightarrow> 'w fbl_can \<Rightarrow> (bool \<times> 'w fbl_can) option" where
  "wait_tx_buf_free cy fuel s = (case cc_now_ms cy (fc_dev s) of (start, w) \<Rightarrow>
     map_option (\<lambda>(b, w1). (b, s\<lparr>fc_dev := w1\<rparr>)) (tx_wait_loop cy fuel start w))"

definition fbl_can_wait_tx_complete :: "'w cy_canfd \<Rightarrow> nat \<Rightarrow> 'w fbl_can \<Rightarrow> 'w fbl_can option" where
  "fbl_can_wait_tx_complete cy fuel s = map_option snd (wait_tx_buf_free cy fuel s)"

text \<open>The frame goes to the buffer as \<open>can_tx\<close> builds it; a length over 64 would overrun the data area.\<close>

definition hal_send :: "'w cy_canfd \<Rightarrow> nat \<Rightarrow> can_raw_frame \<Rightarrow> 'w fbl_can \<Rightarrow> (int \<times> 'w fbl_can) option" where
  "hal_send cy fuel f s = (case wait_tx_buf_free cy fuel s of
     None \<Rightarrow> None
   | Some (False, s1) \<Rightarrow> Some (- 1, s1)
   | Some (True, s1) \<Rightarrow> (case can_tx f of
       None \<Rightarrow> None
     | Some b \<Rightarrow> (case cc_transmit cy b (fc_dev s1) of (ok, w) \<Rightarrow>
         Some (if ok then 0 else - 1, s1\<lparr>fc_dev := w\<rparr>))))"

text \<open>\<open>junk\<close> is what the caller's frame held before; \<open>None\<close> in the last component a memory fault.\<close>

definition hal_recv :: "'w cy_canfd \<Rightarrow> can_raw_frame \<Rightarrow> 'w fbl_can \<Rightarrow> (int \<times> can_raw_frame \<times> 'w fbl_can) option" where
  "hal_recv cy out s =
     (if cc_rxf0_fill cy (fc_dev s) = 0 then Some (- 1, out, s)
      else case cc_extract cy (fc_dev s) of
        (None, w) \<Rightarrow> Some (- 1, out, s\<lparr>fc_dev := w\<rparr>)
      | (Some b, w) \<Rightarrow> map_option (\<lambda>f. (0, f,
          s\<lparr>fc_dev := w, fc_rx_count := fc_rx_count s + 1, fc_last_id := cf_id f\<rparr>)) (can_rx_callback (cf_data out) b))"

text \<open>The drain of \<open>fbl_port_tool_contact\<close>, one receive per unit of fuel.\<close>

primrec contact_loop ::
  "'w cy_canfd \<Rightarrow> nat \<Rightarrow> can_raw_frame \<Rightarrow> bool \<Rightarrow> 'w fbl_can \<Rightarrow> (bool \<times> 'w fbl_can) option" where
  "contact_loop cy 0 f contact s = None"
| "contact_loop cy (Suc fuel) f contact s = (case hal_recv cy f s of
     None \<Rightarrow> None
   | Some (r, f1, s1) \<Rightarrow>
       if r \<noteq> 0 then Some (contact, s1)
       else contact_loop cy fuel f1 (if cf_id f1 = FBL_KNOCK_CAN_ID then True else contact) s1)"

definition can_tool_contact :: "'w cy_canfd \<Rightarrow> nat \<Rightarrow> can_raw_frame \<Rightarrow> 'w fbl_can \<Rightarrow> (bool \<times> 'w fbl_can) option" where
  "can_tool_contact cy fuel junk s = contact_loop cy fuel junk False s"

section \<open>The receive FIFO\<close>

text \<open>The frames a look finds: the fill level is their number and an extract takes the oldest.\<close>

locale rx_fifo =
  fixes cy :: "'w cy_canfd" and rxq :: "'w \<Rightarrow> bus_frame list"
  assumes fill: "cc_rxf0_fill cy w = 0 \<longleftrightarrow> rxq w = []"
    and oldest: "rxq w = b # bs \<Longrightarrow> \<exists>w'. cc_extract cy w = (Some b, w') \<and> rxq w' = bs"
    and area: "b \<in> set (rxq w) \<Longrightarrow> length (bf_data b) = CAN_MAX_DLEN"
begin

lemma recv_empty: "rxq (fc_dev s) = [] \<Longrightarrow> hal_recv cy out s = Some (- 1, out, s)"
  by (simp add: hal_recv_def fill)

lemma recv_oldest:
  assumes "rxq (fc_dev s) = b # bs" and "length (cf_data out) = CAN_MAX_DLEN"
  shows "\<exists>f s'. hal_recv cy out s = Some (0, f, s') \<and> rxq (fc_dev s') = bs \<and> cf_id f = bf_id b \<and>
    length (cf_data f) = CAN_MAX_DLEN \<and> fc_rx_count s' = fc_rx_count s + 1"
proof -
  obtain w where w: "cc_extract cy (fc_dev s) = (Some b, w)" "rxq w = bs" using oldest [OF assms(1)] by blast
  have d: "length (bf_data b) = 64" using area [of b "fc_dev s"] assms(1) by (simp add: CAN_MAX_DLEN_def)
  have l: "unat (dlc_to_len (bf_dlc b)) \<le> 64"
  proof -
    have "unat (bf_dlc b AND 0x0F) \<in> set [0..<16]"
      using word_and_le1 [of "bf_dlc b" "0x0F"] by (simp add: word_le_nat_alt)
    moreover have "\<forall>k \<in> set [0..<16]. unat (dlc_lut ! k) \<le> 64" by (simp add: upt_rec dlc_lut_def)
    ultimately show ?thesis unfolding dlc_to_len_def by blast
  qed
  have c: "copy_in 0 (bf_data b) 0 (unat (dlc_to_len (bf_dlc b))) (cf_data out) =
      Some (overwrite 0 (take (unat (dlc_to_len (bf_dlc b))) (bf_data b)) (cf_data out))"
    using d l assms(2) by (simp add: copy_in_def CAN_MAX_DLEN_def)
  have "cc_rxf0_fill cy (fc_dev s) \<noteq> 0" using fill assms(1) by simp
  then show ?thesis
    using w c d l assms(2) by (simp add: hal_recv_def can_rx_callback_def Let_def CAN_MAX_DLEN_def)
qed

lemma contact_loop_spec:
  "length (rxq (fc_dev s)) < fuel \<Longrightarrow> length (cf_data f) = CAN_MAX_DLEN \<Longrightarrow>
   \<exists>s'. contact_loop cy fuel f c s = Some (foldl (\<lambda>c i. if i = FBL_KNOCK_CAN_ID then True else c) c
      (map bf_id (rxq (fc_dev s))), s') \<and> rxq (fc_dev s') = [] \<and>
      fc_rx_count s' = fc_rx_count s + of_nat (length (rxq (fc_dev s)))"
proof (induction fuel arbitrary: f c s)
  case 0
  then show ?case by simp
next
  case (Suc fuel)
  show ?case
  proof (cases "rxq (fc_dev s)")
    case Nil
    then show ?thesis by (simp add: recv_empty)
  next
    case (Cons b bs)
    from recv_oldest [OF Cons Suc.prems(2)] obtain g s1 where r: "hal_recv cy f s = Some (0, g, s1)"
      "rxq (fc_dev s1) = bs" "cf_id g = bf_id b" "length (cf_data g) = CAN_MAX_DLEN"
      "fc_rx_count s1 = fc_rx_count s + 1" by blast
    have "length (rxq (fc_dev s1)) < fuel" using Suc.prems(1) Cons r(2) by simp
    from Suc.IH [OF this r(4), of "if cf_id g = FBL_KNOCK_CAN_ID then True else c"] show ?thesis
      using r Cons by (auto simp: add.assoc)
  qed
qed

text \<open>The look refines the one of the boot port, over the identifiers of the waiting frames.\<close>

lemma contact_refines:
  assumes "fw_rx b = map bf_id (rxq (fc_dev s)) # later" and "length (rxq (fc_dev s)) < fuel"
    and "length (cf_data junk) = CAN_MAX_DLEN"
  shows "\<exists>s'. can_tool_contact cy fuel junk s = Some (fst (fbl_port_tool_contact b), s') \<and> rxq (fc_dev s') = []"
  using contact_loop_spec [OF assms(2,3), of False] assms(1)
  by (auto simp: can_tool_contact_def fbl_port_tool_contact_def)

end

lemma foldl_contact:
  "foldl (\<lambda>c i. if i = k then True else c) c is \<longleftrightarrow> c \<or> k \<in> set is"
  by (induction "is" arbitrary: c) auto

section \<open>The transmit buffer\<close>

text \<open>A frame reaches the controller only right after a look that found the transmit buffer free.\<close>

lemma tx_wait_free:
  "tx_wait_loop cy fuel start w = Some (True, w') \<Longrightarrow> \<exists>w1 v. cc_txbrp cy w1 = (v, w') \<and> \<not> tx_pending v"
  by (induction fuel arbitrary: w) (auto split: prod.splits if_splits)

lemma send_needs_free_buffer:
  assumes "hal_send cy fuel f s = Some (0, s')"
  shows "\<exists>w1 v w2 b. cc_txbrp cy w1 = (v, w2) \<and> \<not> tx_pending v \<and> can_tx f = Some b \<and>
    cc_transmit cy b w2 = (True, fc_dev s')"
  using assms
  by (auto simp: hal_send_def wait_tx_buf_free_def dest!: tx_wait_free split: option.splits bool.splits prod.splits if_splits) blast

text \<open>A controller with the identifiers of its waiting frames as its state.\<close>

definition idle_frame :: "u32 \<Rightarrow> bus_frame" where
  "idle_frame i = \<lparr>bf_id = i, bf_xtd = False, bf_rtr = False, bf_fdf = True, bf_brs = True, bf_dlc = 8,
     bf_data = replicate CAN_MAX_DLEN 0\<rparr>"

definition sim_canfd :: "u32 list cy_canfd" where
  "sim_canfd = \<lparr>cc_init = (\<lambda>w. (0, w)), cc_txbrp = (\<lambda>w. (0, w)), cc_transmit = (\<lambda>b w. (True, w)),
     cc_rxf0_fill = (\<lambda>w. if w = [] then 0 else 1),
     cc_extract = (\<lambda>w. case w of [] \<Rightarrow> (None, []) | i # r \<Rightarrow> (Some (idle_frame i), r)), cc_now_ms = (\<lambda>w. (0, w))\<rparr>"

interpretation sim_can: rx_fifo sim_canfd "map idle_frame"
  by unfold_locales (auto simp: sim_canfd_def idle_frame_def split: list.splits)

text \<open>C40: a look during the knock window drains the receive FIFO and reports contact exactly when one of the
  waiting frames carries the diagnostic identifier, at any place in the burst; this is the look the boot
  decision is proved over.
\<close>

theorem knock_is_seen:
  assumes "rx_fifo cy rxq" and "length (rxq (fc_dev s)) < fuel" and "length (cf_data junk) = CAN_MAX_DLEN"
    and "fw_rx b = map bf_id (rxq (fc_dev s)) # later"
  shows "\<exists>s'. can_tool_contact cy fuel junk s = Some (FBL_KNOCK_CAN_ID \<in> bf_id ` set (rxq (fc_dev s)), s') \<and>
    rxq (fc_dev s') = [] \<and>
    fst (fbl_port_tool_contact b) = (FBL_KNOCK_CAN_ID \<in> bf_id ` set (rxq (fc_dev s)))"
proof -
  have "fst (fbl_port_tool_contact b) = (FBL_KNOCK_CAN_ID \<in> bf_id ` set (rxq (fc_dev s)))"
    by (simp add: fbl_port_tool_contact_def assms(4) foldl_contact)
  then show ?thesis using rx_fifo.contact_refines [OF assms(1,4,2,3)] by simp
qed

theorem knock_is_seen_witness:
  "\<exists>s'. can_tool_contact sim_canfd 10 \<lparr>cf_id = 0, cf_flags = 0, cf_len = 0, cf_data = replicate CAN_MAX_DLEN 0\<rparr>
      \<lparr>fc_rx_count = 0, fc_last_id = 0, fc_init_status = 0, fc_dev = [0x123, FBL_KNOCK_CAN_ID, 0x200]\<rparr> = Some (True, s') \<and>
    fc_dev s' = []"
proof -
  let ?s = "\<lparr>fc_rx_count = 0, fc_last_id = 0, fc_init_status = 0, fc_dev = [0x123, FBL_KNOCK_CAN_ID, 0x200]\<rparr>"
  obtain b :: "unit fbl_world" where b: "fw_rx b = map bf_id (map idle_frame (fc_dev ?s)) # []"
    by (metis fbl_world.select_convs(7))
  from knock_is_seen [OF sim_can.rx_fifo_axioms _ _ b, of 10 "\<lparr>cf_id = 0, cf_flags = 0, cf_len = 0, cf_data = replicate CAN_MAX_DLEN 0\<rparr>"]
  show ?thesis by (auto simp: idle_frame_def)
qed

end
