(* ===== verification/Health.thy ===== *)
theory Health imports Log_Port begin

text \<open>
  The liveness event of \<open>node_a_gateway/app/src/health_task.c\<close>: one at the first period, then one every
  five seconds of the tick counter, whose wrap-around the unsigned difference absorbs. The heartbeat LED
  and the stack measurements of the task are outputs to hardware and debugger only.
\<close>

definition ALIVE_PERIOD_MS :: u32 where "ALIVE_PERIOD_MS = 5000"
definition APP_PERIOD_HEALTH_MS :: u32 where "APP_PERIOD_HEALTH_MS = 500"

record health =
  hl_started :: bool
  hl_last :: u32

definition alive_due :: "u32 \<Rightarrow> health \<Rightarrow> bool" where
  "alive_due now h \<longleftrightarrow> \<not> (hl_started h \<and> now - hl_last h < ALIVE_PERIOD_MS)"

definition health_log_alive ::
  "'v log_port \<Rightarrow> u32 \<Rightarrow> u16 \<Rightarrow> health \<Rightarrow> log_state \<Rightarrow> 'v \<Rightarrow> health \<times> log_state \<times> 'v" where
  "health_log_alive lp now headroom h s u =
     (if \<not> alive_due now h then (h, s, u)
      else case log_evt lp LOG_EVT_APP_ALIVE (now * portTICK_PERIOD_MS) headroom s u of
        (s1, u1) \<Rightarrow> (h\<lparr>hl_last := now, hl_started := True\<rparr>, s1, u1))"

text \<open>The periods of the task at the given ticks: which of them emit.\<close>

fun alive_run :: "u32 list \<Rightarrow> health \<Rightarrow> bool list" where
  "alive_run [] h = []"
| "alive_run (now # r) h = alive_due now h #
     alive_run r (if alive_due now h then \<lparr>hl_started = True, hl_last = now\<rparr> else h)"

lemma health_state:
  "fst (health_log_alive lp now headroom h s u) = (if alive_due now h then \<lparr>hl_started = True, hl_last = now\<rparr> else h)"
  by (simp add: health_log_alive_def split: prod.split)

text \<open>
  From any tick on, wrap included, the event comes in the first period and in every tenth after it.
\<close>

lemma alive_from:
  "k \<le> 10 \<Longrightarrow> alive_run (map (\<lambda>i. t + 500 * of_nat k + 500 * of_nat i) [0..<n]) \<lparr>hl_started = True, hl_last = t\<rparr> =
     map (\<lambda>i. 10 \<le> k + i \<and> (k + i) mod 10 = 0) [0..<n]"
proof (induction n arbitrary: k t)
  case 0
  then show ?case by simp
next
  case (Suc n)
  have up: "[0..<Suc n] = 0 # map Suc [0..<n]" by (simp only: map_Suc_upt upt_conv_Cons zero_less_Suc)
  have d: "alive_due (t + 500 * of_nat k) \<lparr>hl_started = True, hl_last = t\<rparr> \<longleftrightarrow> k = 10"
  proof -
    have "unat (500 * of_nat k :: u32) = 500 * k"
      using Suc.prems by (simp add: unat_word_ariths unsigned_of_nat take_bit_eq_mod)
    then show ?thesis using Suc.prems by (auto simp: alive_due_def ALIVE_PERIOD_MS_def word_less_nat_alt)
  qed
  show ?case
  proof (cases "k = 10")
    case True
    have "alive_run (map (\<lambda>i. (t + 5000) + 500 * of_nat (Suc 0) + 500 * of_nat i) [0..<n]) \<lparr>hl_started = True, hl_last = t + 5000\<rparr> =
        map (\<lambda>i. 10 \<le> Suc 0 + i \<and> (Suc 0 + i) mod 10 = 0) [0..<n]"
      by (rule Suc.IH) simp
    moreover have "(9 \<le> i \<and> Suc i mod 10 = 0) = (Suc i mod 10 = 0)" and "((i + 11) mod 10 = 0) = (Suc i mod 10 = 0)" for i :: nat
      by presburger+
    ultimately show ?thesis
      using d True unfolding up by (simp add: comp_def algebra_simps)
  next
    case False
    then have k: "Suc k \<le> 10" using Suc.prems by simp
    have "alive_run (map (\<lambda>i. t + 500 * of_nat (Suc k) + 500 * of_nat i) [0..<n]) \<lparr>hl_started = True, hl_last = t\<rparr> =
        map (\<lambda>i. 10 \<le> Suc k + i \<and> (Suc k + i) mod 10 = 0) [0..<n]"
      by (rule Suc.IH [OF k])
    then show ?thesis using d False k unfolding up by (simp add: comp_def algebra_simps)
  qed
qed

lemma alive_every_five_seconds:
  "alive_run (map (\<lambda>i. t + 500 * of_nat i) [0..<n]) \<lparr>hl_started = False, hl_last = x\<rparr> =
     map (\<lambda>i. i mod 10 = 0) [0..<n]"
proof (cases n)
  case 0
  then show ?thesis by simp
next
  case (Suc m)
  have up: "[0..<Suc m] = 0 # map Suc [0..<m]" by (simp only: map_Suc_upt upt_conv_Cons zero_less_Suc)
  have "alive_run (map (\<lambda>i. t + 500 * of_nat 1 + 500 * of_nat i) [0..<m]) \<lparr>hl_started = True, hl_last = t\<rparr> =
      map (\<lambda>i. 10 \<le> 1 + i \<and> (1 + i) mod 10 = 0) [0..<m]"
    by (rule alive_from) simp
  moreover have "(10 \<le> Suc i \<and> Suc i mod 10 = 0) = (Suc i mod 10 = 0)" for i by presburger
  ultimately show ?thesis
    unfolding Suc up by (simp add: comp_def alive_due_def algebra_simps)
qed

end
