(* ===== verification/Log_Sink.thy ===== *)
theory Log_Sink imports Log begin

text \<open>
  The repository's reference behaviour of the logging port,
  \<open>shared/log/tests/log_port_fake.c\<close>: a sink of bounded size that accepts at most a scripted number
  of bytes at a time, and a clock that advances by a scripted step. It satisfies \<open>log_sink\<close>, so
  the drain and flush results hold for it, with a dead sink and with a stopped clock.
\<close>

definition SINK_CAP :: nat where "SINK_CAP = 4096"

record fake_sink =
  fk_sink :: bytes
  fk_panic :: bytes
  fk_now :: u32
  fk_step :: u32
  fk_accept :: nat
  fk_ready :: bool
  fk_idle :: bool

definition fake_now_ms :: "fake_sink \<Rightarrow> u32 \<times> fake_sink" where
  "fake_now_ms f = (fk_now f, f\<lparr>fk_now := fk_now f + fk_step f\<rparr>)"

definition fake_tx :: "bytes \<Rightarrow> fake_sink \<Rightarrow> nat \<times> fake_sink" where
  "fake_tx d f =
     (if \<not> fk_ready f then (0, f)
      else
        let n0 = (if length d < fk_accept f then length d else fk_accept f);
            n = (if length (fk_sink f) + n0 > SINK_CAP then SINK_CAP - length (fk_sink f) else n0) in
        (n, f\<lparr>fk_sink := fk_sink f @ take n d\<rparr>))"

definition fake_tx_blocking :: "bytes \<Rightarrow> fake_sink \<Rightarrow> fake_sink" where
  "fake_tx_blocking d f =
     (let n = (if length (fk_panic f) + length d > SINK_CAP then SINK_CAP - length (fk_panic f)
               else length d) in
      f\<lparr>fk_panic := fk_panic f @ take n d\<rparr>)"

definition fake_log_port :: "fake_sink log_port" where
  "fake_log_port = \<lparr>lp_now_ms = fake_now_ms, lp_tx = fake_tx, lp_sink_ready = fk_ready,
     lp_sink_idle = fk_idle\<rparr>"

interpretation fake: log_sink fake_log_port fk_sink
proof
  fix d w n w'
  assume "lp_tx fake_log_port d w = (n, w')"
  then show "n \<le> length d \<and> fk_sink w' = fk_sink w @ take n d"
    by (auto simp: fake_log_port_def fake_tx_def Let_def split: if_splits)
next
  fix w t w'
  assume "lp_now_ms fake_log_port w = (t, w')"
  then show "fk_sink w' = fk_sink w"
    by (auto simp: fake_log_port_def fake_now_ms_def)
qed

text \<open>The 64-byte ring of the fake, empty.\<close>

definition fake_ring :: log_state where
  "fake_ring = \<lparr>lg_core = LOG_CORE_APP, lg_seq = 0, lg_dropped = 0, lg_pending = 0,
     lg_head = 0, lg_tail = 0, lg_ring = replicate 64 0\<rparr>"

lemma fake_ring_ok: "ring_ok fake_ring"
  by (auto simp: ring_ok_def ring_cap_def fake_ring_def intro!: exI [of _ 6])

end
