(* ===== verification/Sysmgr.thy ===== *)
theory Sysmgr imports Prelude begin

text \<open>
  The resource and lifecycle manager \<open>shared/sysmgr/src/sysmgr.c\<close>: an ordered table of resources,
  brought up one after the other by ticks. The resources' callbacks and the reset callback act on a
  world \<open>'w\<close>. \<open>deinit\<close>, which nothing calls, is left out of the descriptor.
\<close>

section \<open>Types\<close>

definition SYSMGR_MAX_RESOURCES :: nat where "SYSMGR_MAX_RESOURCES = 16"

datatype sysmgr_res_state = SYSMGR_RES_UNINIT | SYSMGR_RES_INITIALIZING | SYSMGR_RES_READY
  | SYSMGR_RES_DEGRADED | SYSMGR_RES_FAILED

datatype sysmgr_fail_policy = SYSMGR_FAIL_RETRY_INPLACE | SYSMGR_FAIL_SYSTEM_RESET | SYSMGR_FAIL_DEGRADE

record 'w sysmgr_resource =
  sr_id :: u8
  sr_deps :: "u8 list"
  sr_dep_count :: u8
  sr_init :: "'w \<Rightarrow> int \<times> 'w"
  sr_poll_ready :: "('w \<Rightarrow> int \<times> 'w) option"
  sr_init_timeout_ms :: u32
  sr_max_retries :: u8
  sr_on_exhausted :: sysmgr_fail_policy

record sysmgr_runtime =
  rt_state :: sysmgr_res_state
  rt_attempts :: u8
  rt_poll_started :: bool
  rt_started_ms :: u32

record 'w sysmgr =
  sm_table :: "'w sysmgr_resource list"
  sm_reset_fn :: "('w \<Rightarrow> 'w) option"
  sm_rt :: "sysmgr_runtime list"

section \<open>Operations\<close>

text \<open>\<open>g_count\<close> is the length of the table cut at 16 entries.\<close>

definition sysmgr_init :: "'w sysmgr_resource list \<Rightarrow> ('w \<Rightarrow> 'w) option \<Rightarrow> 'w sysmgr" where
  "sysmgr_init table reset_fn =
     (let t = take SYSMGR_MAX_RESOURCES table in
      \<lparr>sm_table = t, sm_reset_fn = reset_fn,
       sm_rt = map (\<lambda>_. \<lparr>rt_state = SYSMGR_RES_UNINIT, rt_attempts = 0, rt_poll_started = False,
                         rt_started_ms = 0\<rparr>) t\<rparr>)"

definition sm_count :: "'w sysmgr \<Rightarrow> nat" where
  "sm_count s = length (sm_table s)"

definition find_index :: "'w sysmgr \<Rightarrow> u8 \<Rightarrow> nat" where
  "find_index s i = (case first_index (\<lambda>r. sr_id r = i) (sm_table s) of None \<Rightarrow> sm_count s | Some k \<Rightarrow> k)"

fun is_terminal :: "sysmgr_res_state \<Rightarrow> bool" where
  "is_terminal SYSMGR_RES_READY = True"
| "is_terminal SYSMGR_RES_DEGRADED = True"
| "is_terminal SYSMGR_RES_FAILED = True"
| "is_terminal SYSMGR_RES_UNINIT = False"
| "is_terminal SYSMGR_RES_INITIALIZING = False"

text \<open>The declared dependencies of an entry, as table positions.\<close>

definition dep_indices :: "'w sysmgr \<Rightarrow> nat \<Rightarrow> nat list" where
  "dep_indices s idx =
     (let r = sm_table s ! idx in map (find_index s) (take (unat (sr_dep_count r)) (sr_deps r)))"

definition deps_satisfied :: "'w sysmgr \<Rightarrow> nat \<Rightarrow> bool" where
  "deps_satisfied s idx \<longleftrightarrow>
     list_all (\<lambda>d. \<not> (d \<ge> sm_count s \<or> rt_state (sm_rt s ! d) \<noteq> SYSMGR_RES_READY)) (dep_indices s idx)"

definition any_dep_unready_terminal :: "'w sysmgr \<Rightarrow> nat \<Rightarrow> bool" where
  "any_dep_unready_terminal s idx \<longleftrightarrow>
     list_ex (\<lambda>d. d < sm_count s \<and> is_terminal (rt_state (sm_rt s ! d)) \<and> rt_state (sm_rt s ! d) \<noteq> SYSMGR_RES_READY)
       (dep_indices s idx)"

definition upd_rt :: "nat \<Rightarrow> (sysmgr_runtime \<Rightarrow> sysmgr_runtime) \<Rightarrow> 'w sysmgr \<Rightarrow> 'w sysmgr" where
  "upd_rt idx f s = s\<lparr>sm_rt := (sm_rt s)[idx := f (sm_rt s ! idx)]\<rparr>"

definition handle_failure :: "nat \<Rightarrow> 'w sysmgr \<Rightarrow> 'w \<Rightarrow> 'w sysmgr \<times> 'w" where
  "handle_failure idx s w =
     (let r = sm_table s ! idx;
          total_allowed = ucast (sr_max_retries r) + 1 :: u32 in
      if ucast (rt_attempts (sm_rt s ! idx)) < total_allowed then
        (upd_rt idx (\<lambda>x. x\<lparr>rt_state := SYSMGR_RES_INITIALIZING, rt_poll_started := False\<rparr>) s, w)
      else
        (case sr_on_exhausted r of
           SYSMGR_FAIL_RETRY_INPLACE \<Rightarrow>
             (upd_rt idx (\<lambda>x. x\<lparr>rt_attempts := 0, rt_state := SYSMGR_RES_INITIALIZING, rt_poll_started := False\<rparr>) s, w)
         | SYSMGR_FAIL_SYSTEM_RESET \<Rightarrow>
             (upd_rt idx (\<lambda>x. x\<lparr>rt_state := SYSMGR_RES_FAILED\<rparr>) s,
              case sm_reset_fn s of None \<Rightarrow> w | Some f \<Rightarrow> f w)
         | SYSMGR_FAIL_DEGRADE \<Rightarrow> (upd_rt idx (\<lambda>x. x\<lparr>rt_state := SYSMGR_RES_DEGRADED\<rparr>) s, w)))"

definition attempt_init :: "nat \<Rightarrow> u32 \<Rightarrow> 'w sysmgr \<Rightarrow> 'w \<Rightarrow> 'w sysmgr \<times> 'w" where
  "attempt_init idx now_ms s w =
     (let r = sm_table s ! idx;
          s1 = upd_rt idx (\<lambda>x. x\<lparr>rt_attempts := rt_attempts x + 1, rt_started_ms := now_ms\<rparr>) s in
      case sr_init r w of (rc, w1) \<Rightarrow>
        if rc = 0 then
          (upd_rt idx (\<lambda>x. if sr_poll_ready r = None then x\<lparr>rt_state := SYSMGR_RES_READY\<rparr>
                           else x\<lparr>rt_state := SYSMGR_RES_INITIALIZING, rt_poll_started := True\<rparr>) s1, w1)
        else handle_failure idx s1 w1)"

text \<open>The scan for the first entry that is not terminal.\<close>

definition current_index :: "'w sysmgr \<Rightarrow> nat option" where
  "current_index s = first_index (\<lambda>x. \<not> is_terminal (rt_state x)) (sm_rt s)"

definition tick_current :: "nat \<Rightarrow> u32 \<Rightarrow> 'w sysmgr \<Rightarrow> 'w \<Rightarrow> 'w sysmgr \<times> 'w" where
  "tick_current idx now_ms s w =
     (let r = sm_table s ! idx; x = sm_rt s ! idx in
      if rt_state x = SYSMGR_RES_UNINIT then
        if \<not> deps_satisfied s idx then
          (if any_dep_unready_terminal s idx then upd_rt idx (\<lambda>x. x\<lparr>rt_state := SYSMGR_RES_DEGRADED\<rparr>) s else s, w)
        else attempt_init idx now_ms s w
      else if \<not> rt_poll_started x then attempt_init idx now_ms s w
      else (case sr_poll_ready r of
          None \<Rightarrow> (upd_rt idx (\<lambda>x. x\<lparr>rt_state := SYSMGR_RES_READY\<rparr>) s, w)
        | Some poll \<Rightarrow>
            (case poll w of (rc, w1) \<Rightarrow>
               if rc = 0 then (upd_rt idx (\<lambda>x. x\<lparr>rt_state := SYSMGR_RES_READY\<rparr>) s, w1)
               else if sr_init_timeout_ms r \<noteq> 0 \<and> now_ms - rt_started_ms x \<ge> sr_init_timeout_ms r
               then handle_failure idx s w1
               else (s, w1))))"

definition sysmgr_tick :: "u32 \<Rightarrow> 'w sysmgr \<Rightarrow> 'w \<Rightarrow> 'w sysmgr \<times> 'w" where
  "sysmgr_tick now_ms s w =
     (case current_index s of None \<Rightarrow> (s, w) | Some idx \<Rightarrow> tick_current idx now_ms s w)"

definition sysmgr_res_state_of :: "'w sysmgr \<Rightarrow> u8 \<Rightarrow> sysmgr_res_state" where
  "sysmgr_res_state_of s i =
     (let idx = find_index s i in if idx < sm_count s then rt_state (sm_rt s ! idx) else SYSMGR_RES_UNINIT)"

definition sysmgr_settled :: "'w sysmgr \<Rightarrow> bool" where
  "sysmgr_settled s \<longleftrightarrow> list_all (\<lambda>x. is_terminal (rt_state x)) (sm_rt s)"

section \<open>One entry at a time\<close>

text \<open>What a failed attempt and an attempt do to the entry's runtime.\<close>

definition fail_rt :: "'w sysmgr_resource \<Rightarrow> sysmgr_runtime \<Rightarrow> sysmgr_runtime" where
  "fail_rt r x =
     (if (ucast (rt_attempts x) :: u32) < ucast (sr_max_retries r) + 1
      then x\<lparr>rt_state := SYSMGR_RES_INITIALIZING, rt_poll_started := False\<rparr>
      else case sr_on_exhausted r of
          SYSMGR_FAIL_RETRY_INPLACE \<Rightarrow>
            x\<lparr>rt_attempts := 0, rt_state := SYSMGR_RES_INITIALIZING, rt_poll_started := False\<rparr>
        | SYSMGR_FAIL_SYSTEM_RESET \<Rightarrow> x\<lparr>rt_state := SYSMGR_RES_FAILED\<rparr>
        | SYSMGR_FAIL_DEGRADE \<Rightarrow> x\<lparr>rt_state := SYSMGR_RES_DEGRADED\<rparr>)"

definition try_rt :: "'w sysmgr_resource \<Rightarrow> u32 \<Rightarrow> bool \<Rightarrow> sysmgr_runtime \<Rightarrow> sysmgr_runtime" where
  "try_rt r now ok x =
     (let y = x\<lparr>rt_attempts := rt_attempts x + 1, rt_started_ms := now\<rparr> in
      if ok then (if sr_poll_ready r = None then y\<lparr>rt_state := SYSMGR_RES_READY\<rparr>
                  else y\<lparr>rt_state := SYSMGR_RES_INITIALIZING, rt_poll_started := True\<rparr>)
      else fail_rt r y)"

lemma upd_rt_simps [simp]:
  "sm_table (upd_rt i f s) = sm_table s" "sm_reset_fn (upd_rt i f s) = sm_reset_fn s"
  "sm_count (upd_rt i f s) = sm_count s" "length (sm_rt (upd_rt i f s)) = length (sm_rt s)"
  by (simp_all add: upd_rt_def sm_count_def)

lemma find_index_upd [simp]: "find_index (upd_rt i f s) = find_index s"
  by (rule ext) (simp add: find_index_def split: option.split)

lemma dep_indices_upd [simp]: "dep_indices (upd_rt i f s) j = dep_indices s j"
  by (simp add: dep_indices_def)

lemma nth_upd_rt: "j < length (sm_rt s) \<Longrightarrow> sm_rt (upd_rt i f s) ! j = (if j = i then f (sm_rt s ! j) else sm_rt s ! j)"
  by (simp add: upd_rt_def nth_list_update)

lemma upd_rt_twice: "i < length (sm_rt s) \<Longrightarrow> upd_rt i f (upd_rt i g s) = upd_rt i (f \<circ> g) s"
  by (simp add: upd_rt_def)

lemma handle_failure_rt:
  "fst (handle_failure i s w) = upd_rt i (fail_rt (sm_table s ! i)) s"
  by (simp add: handle_failure_def fail_rt_def upd_rt_def Let_def split: sysmgr_fail_policy.split)

lemma attempt_init_rt:
  assumes "i < length (sm_rt s)"
  shows "fst (attempt_init i now s w) =
    upd_rt i (try_rt (sm_table s ! i) now (fst (sr_init (sm_table s ! i) w) = 0)) s"
proof -
  obtain rc w1 where r: "sr_init (sm_table s ! i) w = (rc, w1)" by (metis surj_pair)
  show ?thesis
    using assms by (simp add: attempt_init_def r Let_def handle_failure_rt upd_rt_twice)
      (simp add: upd_rt_def try_rt_def Let_def)
qed

lemma current_index_spec:
  assumes "current_index s = Some i"
  shows "i < length (sm_rt s)" and "\<not> is_terminal (rt_state (sm_rt s ! i))"
    and "j < i \<Longrightarrow> is_terminal (rt_state (sm_rt s ! j))"
  using first_index_Some_D [OF assms [unfolded current_index_def]] by auto

text \<open>A tick replaces the runtime of the current entry, if it changes anything.\<close>

definition tick_rt :: "'w sysmgr \<Rightarrow> nat \<Rightarrow> u32 \<Rightarrow> 'w \<Rightarrow> sysmgr_runtime" where
  "tick_rt s i now w =
     (let r = sm_table s ! i; x = sm_rt s ! i; try = try_rt r now (fst (sr_init r w) = 0) x in
      if rt_state x = SYSMGR_RES_UNINIT then
        if deps_satisfied s i then try
        else if any_dep_unready_terminal s i then x\<lparr>rt_state := SYSMGR_RES_DEGRADED\<rparr> else x
      else if \<not> rt_poll_started x then try
      else (case sr_poll_ready r of
          None \<Rightarrow> x\<lparr>rt_state := SYSMGR_RES_READY\<rparr>
        | Some poll \<Rightarrow>
            if fst (poll w) = 0 then x\<lparr>rt_state := SYSMGR_RES_READY\<rparr>
            else if sr_init_timeout_ms r \<noteq> 0 \<and> now - rt_started_ms x \<ge> sr_init_timeout_ms r then fail_rt r x
            else x))"

lemma tick_current_rt:
  assumes i: "i < length (sm_rt s)"
  shows "fst (tick_current i now s w) = upd_rt i (\<lambda>_. tick_rt s i now w) s"
proof -
  have same: "upd_rt i (\<lambda>_. sm_rt s ! i) s = s" by (simp add: upd_rt_def)
  have c: "upd_rt i f s = upd_rt i (\<lambda>_. f (sm_rt s ! i)) s" for f by (simp add: upd_rt_def)
  show ?thesis
    unfolding tick_current_def tick_rt_def Let_def
    using same attempt_init_rt [OF i, of now w] handle_failure_rt [of i s]
    by (auto simp: c [of "try_rt _ _ _"] c [of "fail_rt _"] c [of "\<lambda>x. x\<lparr>rt_state := _\<rparr>"]
        split: option.splits prod.splits)
qed

lemma sysmgr_tick_rt:
  "fst (sysmgr_tick now s w) = (case current_index s of None \<Rightarrow> s | Some i \<Rightarrow> upd_rt i (\<lambda>_. tick_rt s i now w) s)"
  by (cases "current_index s") (simp_all add: sysmgr_tick_def tick_current_rt current_index_spec(1))

section \<open>Dependencies first, one at a time\<close>

text \<open>
  Whatever was attempted, or is up, has every declared dependency READY; and behind the first entry
  that is not settled nothing has been touched.
\<close>

definition attempted :: "sysmgr_runtime \<Rightarrow> bool" where
  "attempted x \<longleftrightarrow> rt_attempts x \<noteq> 0 \<or> rt_state x \<in> {SYSMGR_RES_INITIALIZING, SYSMGR_RES_READY, SYSMGR_RES_FAILED}"

definition sm_inv :: "'w sysmgr \<Rightarrow> bool" where
  "sm_inv s \<longleftrightarrow> length (sm_rt s) = sm_count s \<and>
     (\<forall>j < sm_count s. attempted (sm_rt s ! j) \<longrightarrow> deps_satisfied s j) \<and>
     (\<forall>i j. i < j \<longrightarrow> j < sm_count s \<longrightarrow> \<not> is_terminal (rt_state (sm_rt s ! i)) \<longrightarrow>
        rt_state (sm_rt s ! j) = SYSMGR_RES_UNINIT \<and> rt_attempts (sm_rt s ! j) = 0)"

lemma sm_inv_init: "sm_inv (sysmgr_init table reset_fn)"
  by (simp add: sm_inv_def sysmgr_init_def sm_count_def attempted_def Let_def)

lemma deps_upd:
  assumes "length (sm_rt s) = sm_count s" and "rt_state (sm_rt s ! i) \<noteq> SYSMGR_RES_READY"
    and "deps_satisfied s j"
  shows "deps_satisfied (upd_rt i f s) j"
proof -
  have "\<not> (d \<ge> sm_count s \<or> rt_state (sm_rt (upd_rt i f s) ! d) \<noteq> SYSMGR_RES_READY)"
    if "\<not> (d \<ge> sm_count s \<or> rt_state (sm_rt s ! d) \<noteq> SYSMGR_RES_READY)" for d
    using that assms(1,2) by (auto simp: nth_upd_rt)
  then show ?thesis using assms(3) by (simp add: deps_satisfied_def list_all_iff)
qed

lemma try_rt_started: "rt_state (try_rt r now b x) \<noteq> SYSMGR_RES_UNINIT"
  by (simp add: try_rt_def fail_rt_def Let_def split: sysmgr_fail_policy.split)

lemma tick_rt_deps:
  assumes "sm_inv s" and "i < sm_count s" and "\<not> is_terminal (rt_state (sm_rt s ! i))"
    and "attempted (tick_rt s i now w)"
  shows "deps_satisfied s i"
proof (rule ccontr)
  assume n: "\<not> deps_satisfied s i"
  then have "\<not> attempted (sm_rt s ! i)" using assms(1,2) by (auto simp: sm_inv_def)
  then have "rt_attempts (sm_rt s ! i) = 0" "rt_state (sm_rt s ! i) = SYSMGR_RES_UNINIT"
    using assms(3) by (cases "rt_state (sm_rt s ! i)"; simp add: attempted_def)+
  then have "\<not> attempted (tick_rt s i now w)"
    using n by (simp add: tick_rt_def Let_def attempted_def)
  then show False using assms(4) by simp
qed

lemma sm_inv_tick:
  assumes "sm_inv s"
  shows "sm_inv (fst (sysmgr_tick now s w))"
proof (cases "current_index s")
  case None
  then show ?thesis using assms by (simp add: sysmgr_tick_rt)
next
  case (Some i)
  note c = current_index_spec [OF Some]
  let ?s = "upd_rt i (\<lambda>_. tick_rt s i now w) s"
  have len: "length (sm_rt s) = sm_count s" using assms by (simp add: sm_inv_def)
  have i: "i < sm_count s" using c(1) len by simp
  have nr: "rt_state (sm_rt s ! i) \<noteq> SYSMGR_RES_READY" using c(2) by auto
  have 1: "deps_satisfied ?s j" if "j < sm_count s" and "attempted (sm_rt ?s ! j)" for j
  proof -
    have "deps_satisfied s j"
    proof (cases "j = i")
      case True
      then show ?thesis using tick_rt_deps [OF assms i c(2), of now w] that len by (simp add: nth_upd_rt)
    next
      case False
      then show ?thesis using assms that len by (auto simp: nth_upd_rt sm_inv_def)
    qed
    then show ?thesis by (rule deps_upd [OF len nr])
  qed
  have 2: "rt_state (sm_rt ?s ! j) = SYSMGR_RES_UNINIT \<and> rt_attempts (sm_rt ?s ! j) = 0"
    if "k < j" and "j < sm_count s" and "\<not> is_terminal (rt_state (sm_rt ?s ! k))" for k j
  proof -
    have "\<not> k < i" using that c(3) [of k] i len by (auto simp: nth_upd_rt)
    then have ji: "i < j" using that(1) by simp
    then have "rt_state (sm_rt s ! j) = SYSMGR_RES_UNINIT \<and> rt_attempts (sm_rt s ! j) = 0"
      using assms c(2) that(2) unfolding sm_inv_def by blast
    then show ?thesis using ji that(2) len by (simp add: nth_upd_rt)
  qed
  have "sm_inv ?s" using 1 2 len by (simp add: sm_inv_def)
  then show ?thesis using Some by (simp add: sysmgr_tick_rt)
qed

text \<open>A run: one tick for each step of the clock.\<close>

primrec sysmgr_run :: "u32 list \<Rightarrow> u32 \<Rightarrow> 'w sysmgr \<times> 'w \<Rightarrow> 'w sysmgr \<times> 'w" where
  "sysmgr_run [] now sw = sw"
| "sysmgr_run (d # ds) now sw = sysmgr_run ds (now + d) (sysmgr_tick (now + d) (fst sw) (snd sw))"

lemma sm_inv_run: "sm_inv (fst sw) \<Longrightarrow> sm_inv (fst (sysmgr_run ds now sw))"
  by (induction ds arbitrary: now sw) (simp_all add: sm_inv_tick)

section \<open>Settling\<close>

text \<open>
  The work left in an entry: attempts not yet used, each with its time-out, and what is left of the
  time-out that runs. Entries that may be retried for ever have none such, and neither have those
  with 255 retries, whose attempt counter wraps before it can reach 256.
\<close>

definition bounded_resource :: "'w sysmgr_resource \<Rightarrow> bool" where
  "bounded_resource r \<longleftrightarrow> sr_on_exhausted r \<noteq> SYSMGR_FAIL_RETRY_INPLACE \<and> sr_max_retries r \<noteq> 255 \<and>
     (sr_poll_ready r \<noteq> None \<longrightarrow> sr_init_timeout_ms r \<noteq> 0) \<and> sr_init_timeout_ms r \<le> 0x80000000"

text \<open>Every dependency is declared earlier in the table, the rule the file's head states.\<close>

definition deps_earlier :: "'w sysmgr \<Rightarrow> bool" where
  "deps_earlier s \<longleftrightarrow> (\<forall>i < sm_count s. \<forall>d \<in> set (dep_indices s i). d < i)"

definition attempts_left :: "'w sysmgr_resource \<Rightarrow> sysmgr_runtime \<Rightarrow> nat" where
  "attempts_left r x = unat (sr_max_retries r) + 1 - unat (rt_attempts x)"

definition work_left :: "u32 \<Rightarrow> 'w sysmgr_resource \<Rightarrow> sysmgr_runtime \<Rightarrow> nat" where
  "work_left now r x =
     (if is_terminal (rt_state x) then 0
      else if rt_state x = SYSMGR_RES_INITIALIZING \<and> rt_poll_started x then
        attempts_left r x * (unat (sr_init_timeout_ms r) + 2) +
          (unat (sr_init_timeout_ms r) - unat (now - rt_started_ms x)) + 1
      else attempts_left r x * (unat (sr_init_timeout_ms r) + 2) + 1)"

text \<open>The counters of an entry stay inside its budget.\<close>

definition rt_ok :: "u32 \<Rightarrow> 'w sysmgr_resource \<Rightarrow> sysmgr_runtime \<Rightarrow> bool" where
  "rt_ok now r x \<longleftrightarrow> is_terminal (rt_state x) \<or>
     (if rt_state x = SYSMGR_RES_INITIALIZING \<and> rt_poll_started x then
        unat (rt_attempts x) \<le> unat (sr_max_retries r) + 1 \<and> sr_poll_ready r \<noteq> None \<and>
          unat (now - rt_started_ms x) < unat (sr_init_timeout_ms r)
      else unat (rt_attempts x) \<le> unat (sr_max_retries r))"

lemma unat_word_max: "(w :: u8) \<noteq> 255 \<Longrightarrow> unat w < 255"
proof -
  assume "w \<noteq> 255"
  then have "unat w \<noteq> unat (255 :: u8)" by (simp only: word_unat_eq_iff not_False_eq_True)
  moreover have "unat w < 256" using unsigned_less [of w, where 'a = nat] by simp
  ultimately show ?thesis by simp
qed

lemma fail_rt_progress:
  assumes "bounded_resource r" and "unat (rt_attempts y) \<le> unat (sr_max_retries r) + 1"
  shows "rt_ok now r (fail_rt r y)"
    and "work_left now r (fail_rt r y) \<le> attempts_left r y * (unat (sr_init_timeout_ms r) + 2) + 1"
proof -
  have "unat (sr_max_retries r) < 255" using assms(1) by (simp add: bounded_resource_def unat_word_max)
  then have m: "unat (ucast (sr_max_retries r) + 1 :: u32) = unat (sr_max_retries r) + 1"
    by (simp add: unat_word_ariths)
  show "rt_ok now r (fail_rt r y)"
    and "work_left now r (fail_rt r y) \<le> attempts_left r y * (unat (sr_init_timeout_ms r) + 2) + 1"
    using assms m
    by (auto simp: fail_rt_def rt_ok_def work_left_def attempts_left_def bounded_resource_def word_less_nat_alt
        split: sysmgr_fail_policy.split)
qed

lemma try_rt_progress:
  assumes b: "bounded_resource r" and a: "unat (rt_attempts x) \<le> unat (sr_max_retries r)"
  shows "rt_ok now r (try_rt r now ok x) \<and>
    work_left now r (try_rt r now ok x) < attempts_left r x * (unat (sr_init_timeout_ms r) + 2) + 1"
proof -
  let ?y = "x\<lparr>rt_attempts := rt_attempts x + 1, rt_started_ms := now\<rparr>"
  have "unat (sr_max_retries r) < 255" using b by (simp add: bounded_resource_def unat_word_max)
  then have y: "unat (rt_attempts ?y) = Suc (unat (rt_attempts x))"
    using a by (simp add: unat_word_ariths)
  then have l: "attempts_left r x = Suc (attempts_left r ?y)" using a by (simp add: attempts_left_def)
  have t: "t \<noteq> 0 \<Longrightarrow> 0 < unat t" for t :: u32 by (simp add: unat_gt_0)
  show ?thesis
  proof (cases ok)
    case True
    then show ?thesis using b y a l
      by (auto intro!: t simp: try_rt_def Let_def rt_ok_def work_left_def bounded_resource_def attempts_left_def unat_eq_zero)
  next
    case False
    then have "try_rt r now ok x = fail_rt r ?y" by (simp add: try_rt_def Let_def)
    then show ?thesis using fail_rt_progress [OF b, of ?y now] y a l by simp
  qed
qed

lemma clock_step:
  fixes now d st t :: u32
  assumes "unat (now - st) < unat t" and "t \<le> 0x80000000" and "unat d < 0x80000000"
  shows "unat (now + d - st) = unat (now - st) + unat d"
proof -
  have "unat (now - st) + unat d < 2 ^ LENGTH(32)"
    using assms by (simp add: word_le_nat_alt)
  then have "unat ((now - st) + d) = unat (now - st) + unat d" by (rule unat_add_lem [THEN iffD1])
  moreover have "now + d - st = (now - st) + d" by simp
  ultimately show ?thesis by (simp only:)
qed

text \<open>A tick of the current entry uses up some of its work.\<close>

lemma tick_rt_progress:
  fixes d :: u32
  assumes b: "bounded_resource (sm_table s ! i)" and ok: "rt_ok now (sm_table s ! i) (sm_rt s ! i)"
    and nt: "\<not> is_terminal (rt_state (sm_rt s ! i))"
    and dep: "deps_satisfied s i \<or> any_dep_unready_terminal s i" and d: "0 < unat d" "unat d < 0x80000000"
  shows "rt_ok (now + d) (sm_table s ! i) (tick_rt s i (now + d) w)"
    and "work_left (now + d) (sm_table s ! i) (tick_rt s i (now + d) w) < work_left now (sm_table s ! i) (sm_rt s ! i)"
proof -
  let ?r = "sm_table s ! i" and ?x = "sm_rt s ! i"
  let ?P = "rt_ok (now + d) ?r (tick_rt s i (now + d) w) \<and>
    work_left (now + d) ?r (tick_rt s i (now + d) w) < work_left now ?r ?x"
  have "?P"
  proof (cases "rt_state ?x = SYSMGR_RES_INITIALIZING \<and> rt_poll_started ?x")
    case False
    then have a: "unat (rt_attempts ?x) \<le> unat (sr_max_retries ?r)" using ok nt by (auto simp: rt_ok_def)
    have w: "work_left now ?r ?x = attempts_left ?r ?x * (unat (sr_init_timeout_ms ?r) + 2) + 1"
      using False nt by (auto simp: work_left_def)
    show ?thesis
    proof (cases "rt_state ?x = SYSMGR_RES_UNINIT \<and> \<not> deps_satisfied s i")
      case True
      then show ?thesis using dep w by (simp add: tick_rt_def Let_def rt_ok_def work_left_def)
    next
      case False
      with \<open>\<not> (rt_state ?x = SYSMGR_RES_INITIALIZING \<and> rt_poll_started ?x)\<close> nt
      have "tick_rt s i (now + d) w = try_rt ?r (now + d) (fst (sr_init ?r w) = 0) ?x"
        by (cases "rt_state ?x") (simp_all add: tick_rt_def Let_def)
      then show ?thesis using try_rt_progress [OF b a] w by simp
    qed
  next
    case True
    then have o: "unat (rt_attempts ?x) \<le> unat (sr_max_retries ?r) + 1" "sr_poll_ready ?r \<noteq> None"
      and e: "unat (now - rt_started_ms ?x) < unat (sr_init_timeout_ms ?r)"
      using ok by (auto simp: rt_ok_def)
    obtain poll where p: "sr_poll_ready ?r = Some poll" using o(2) by auto
    have t: "sr_init_timeout_ms ?r \<noteq> 0" "sr_init_timeout_ms ?r \<le> 0x80000000"
      using b p by (auto simp: bounded_resource_def)
    note c = clock_step [OF e t(2) d(2)]
    have w: "work_left now ?r ?x = attempts_left ?r ?x * (unat (sr_init_timeout_ms ?r) + 2) +
        (unat (sr_init_timeout_ms ?r) - unat (now - rt_started_ms ?x)) + 1"
      using True by (simp add: work_left_def)
    have tk: "tick_rt s i (now + d) w =
      (if fst (poll w) = 0 then ?x\<lparr>rt_state := SYSMGR_RES_READY\<rparr>
       else if now + d - rt_started_ms ?x \<ge> sr_init_timeout_ms ?r then fail_rt ?r ?x else ?x)"
      using True p t(1) by (simp add: tick_rt_def Let_def)
    show ?thesis
    proof (cases "fst (poll w) = 0")
      case ready: True
      then show ?thesis using tk w by (simp add: rt_ok_def work_left_def)
    next
      case poll: False
      show ?thesis
      proof (cases "now + d - rt_started_ms ?x \<ge> sr_init_timeout_ms ?r")
        case timeout: True
        then have "tick_rt s i (now + d) w = fail_rt ?r ?x" using tk poll by simp
        then show ?thesis using fail_rt_progress [OF b o(1), of "now + d"] w e by simp
      next
        case wait: False
        then have "tick_rt s i (now + d) w = ?x" using tk poll by simp
        then show ?thesis
          using wait True o e c d(1) w by (simp add: rt_ok_def work_left_def word_le_nat_alt)
      qed
    qed
  qed
  then show "rt_ok (now + d) ?r (tick_rt s i (now + d) w)"
    and "work_left (now + d) ?r (tick_rt s i (now + d) w) < work_left now ?r ?x" by blast+
qed

text \<open>All of it: every tick that is not settled makes progress, so the bring-up settles.\<close>

definition total_work :: "u32 \<Rightarrow> 'w sysmgr \<Rightarrow> nat" where
  "total_work now s = (\<Sum>j < sm_count s. work_left now (sm_table s ! j) (sm_rt s ! j))"

definition sm_live :: "u32 \<Rightarrow> 'w sysmgr \<Rightarrow> bool" where
  "sm_live now s \<longleftrightarrow> sm_inv s \<and> deps_earlier s \<and>
     (\<forall>j < sm_count s. bounded_resource (sm_table s ! j) \<and> rt_ok now (sm_table s ! j) (sm_rt s ! j))"

lemma untouched_work:
  assumes "rt_state x = SYSMGR_RES_UNINIT \<or> is_terminal (rt_state x)"
  shows "work_left t r x = work_left t' r x" and "rt_ok t r x \<longleftrightarrow> rt_ok t' r x"
  using assms by (auto simp: work_left_def rt_ok_def)

lemma current_deps:
  assumes "sm_live now s" and c: "current_index s = Some i"
  shows "deps_satisfied s i \<or> any_dep_unready_terminal s i"
proof -
  have l: "length (sm_rt s) = sm_count s" using assms(1) by (simp add: sm_live_def sm_inv_def)
  then have i: "i < sm_count s" using current_index_spec(1) [OF c] by simp
  have "d < sm_count s \<and> is_terminal (rt_state (sm_rt s ! d))" if "d \<in> set (dep_indices s i)" for d
    using that assms(1) i current_index_spec(3) [OF c, of d]
    by (auto simp: sm_live_def deps_earlier_def dest: order.strict_trans)
  then show ?thesis by (fastforce simp: deps_satisfied_def any_dep_unready_terminal_def list_all_iff list_ex_iff)
qed

lemma sysmgr_tick_progress:
  assumes L: "sm_live now s" and d: "0 < unat d" "unat d < 0x80000000"
  shows "sm_live (now + d) (fst (sysmgr_tick (now + d) s w))"
    and "total_work (now + d) (fst (sysmgr_tick (now + d) s w)) < total_work now s \<or>
      current_index s = None \<and> fst (sysmgr_tick (now + d) s w) = s"
proof -
  let ?now = "now + d"
  have inv: "sm_inv s" and len: "length (sm_rt s) = sm_count s"
    using L by (simp_all add: sm_live_def sm_inv_def)
  have ok: "j < sm_count s \<Longrightarrow> bounded_resource (sm_table s ! j) \<and> rt_ok now (sm_table s ! j) (sm_rt s ! j)" for j
    using L by (simp add: sm_live_def)
  show "sm_live ?now (fst (sysmgr_tick ?now s w))"
    and "total_work ?now (fst (sysmgr_tick ?now s w)) < total_work now s \<or>
      current_index s = None \<and> fst (sysmgr_tick ?now s w) = s"
  proof (atomize (full), cases "current_index s")
    case None
    then have t: "is_terminal (rt_state (sm_rt s ! j))" if "j < sm_count s" for j
      using that len by (auto simp: current_index_def first_index_None_iff)
    show "sm_live ?now (fst (sysmgr_tick ?now s w)) \<and>
        (total_work ?now (fst (sysmgr_tick ?now s w)) < total_work now s \<or>
         current_index s = None \<and> fst (sysmgr_tick ?now s w) = s)"
      using None L t untouched_work(2) [of _ ?now _ now] by (auto simp: sysmgr_tick_rt sm_live_def)
  next
    case (Some i)
    note c = current_index_spec [OF Some]
    let ?s = "upd_rt i (\<lambda>_. tick_rt s i ?now w) s"
    have i: "i < sm_count s" using c(1) len by simp
    note p = tick_rt_progress [OF ok [OF i, THEN conjunct1] ok [OF i, THEN conjunct2] c(2) current_deps [OF L Some] d, of w]
    have o: "rt_state (sm_rt s ! j) = SYSMGR_RES_UNINIT \<or> is_terminal (rt_state (sm_rt s ! j))"
      if "j < sm_count s" "j \<noteq> i" for j
      using that c(2) c(3) [of j] inv by (cases "j < i") (auto simp: sm_inv_def linorder_neq_iff)
    have w: "work_left ?now (sm_table s ! j) (sm_rt ?s ! j) \<le> work_left now (sm_table s ! j) (sm_rt s ! j)"
      and r: "rt_ok ?now (sm_table s ! j) (sm_rt ?s ! j)" if "j < sm_count s" for j
      using that p ok [OF that] untouched_work [OF o [OF that], of ?now "sm_table s ! j" now] len
      by (cases "j = i"; simp add: nth_upd_rt)+
    have "total_work ?now ?s < total_work now s"
      unfolding total_work_def upd_rt_simps
      by (rule sum_strict_mono_ex1) (use w p(2) i len in \<open>auto simp: nth_upd_rt intro!: bexI [of _ i]\<close>)
    moreover have "sm_live ?now ?s"
      using L r sm_inv_tick [OF inv, of ?now w] Some by (simp add: sm_live_def deps_earlier_def sysmgr_tick_rt)
    ultimately show "sm_live ?now (fst (sysmgr_tick ?now s w)) \<and>
        (total_work ?now (fst (sysmgr_tick ?now s w)) < total_work now s \<or>
         current_index s = None \<and> fst (sysmgr_tick ?now s w) = s)"
      using Some by (simp add: sysmgr_tick_rt)
  qed
qed

lemma settled_current: "sysmgr_settled s \<longleftrightarrow> current_index s = None"
  by (auto simp: sysmgr_settled_def current_index_def first_index_None_iff list_all_iff)

lemma total_work_0: "sm_inv s \<Longrightarrow> total_work now s = 0 \<Longrightarrow> sysmgr_settled s"
  by (auto simp: total_work_def work_left_def sysmgr_settled_def list_all_length sm_inv_def split: if_splits)

lemma settled_stays: "sysmgr_settled s \<Longrightarrow> sysmgr_tick now s w = (s, w)"
  by (simp add: settled_current sysmgr_tick_def)

lemma settled_run: "sysmgr_settled (fst sw) \<Longrightarrow> sysmgr_run ds now sw = sw"
  by (induction ds arbitrary: now) (simp_all add: settled_stays)

lemma run_settles:
  assumes "sm_live now (fst sw)" and "\<And>d. d \<in> set ds \<Longrightarrow> 0 < unat d \<and> unat d < 0x80000000"
    and "total_work now (fst sw) \<le> length ds"
  shows "sysmgr_settled (fst (sysmgr_run ds now sw))"
  using assms
proof (induction ds arbitrary: now sw)
  case Nil
  then show ?case by (simp add: total_work_0 sm_live_def)
next
  case (Cons d ds)
  let ?sw = "sysmgr_tick (now + d) (fst sw) (snd sw)"
  have d: "0 < unat d" "unat d < 0x80000000" using Cons.prems(2) [of d] by auto
  note p = sysmgr_tick_progress [OF Cons.prems(1) d, of "snd sw"]
  show ?case
  proof (cases "current_index (fst sw) = None")
    case True
    then show ?thesis using settled_run [of sw "d # ds" now] by (simp add: settled_current)
  next
    case False
    then have "total_work (now + d) (fst ?sw) \<le> length ds" using p(2) Cons.prems(3) by auto
    then show ?thesis using Cons.IH [OF p(1)] Cons.prems(2) by simp
  qed
qed

text \<open>The most ticks a table can take, from its attempts and time-outs.\<close>

definition bring_up_bound :: "'w sysmgr_resource list \<Rightarrow> nat" where
  "bring_up_bound table = sum_list (map (\<lambda>r. (unat (sr_max_retries r) + 1) * (unat (sr_init_timeout_ms r) + 2) + 1) table)"

lemma total_work_init:
  assumes "length table \<le> SYSMGR_MAX_RESOURCES"
  shows "total_work now (sysmgr_init table f) = bring_up_bound table"
  using assms by (simp add: total_work_def bring_up_bound_def sysmgr_init_def sm_count_def Let_def sum_list_sum_nth
      work_left_def attempts_left_def atLeast0LessThan)

section \<open>Correctness\<close>

text \<open>C16: at every moment of a bring-up, whatever the resources and the clock do, a resource
  that was attempted and is not given up has every declared dependency READY.\<close>

theorem bring_up_dependencies_first:
  assumes "s = fst (sysmgr_run ds now (sysmgr_init table f, w))" and "i < sm_count s"
    and "rt_state (sm_rt s ! i) \<in> {SYSMGR_RES_INITIALIZING, SYSMGR_RES_READY, SYSMGR_RES_FAILED}"
    and "d \<in> set (dep_indices s i)"
  shows "d < sm_count s \<and> rt_state (sm_rt s ! d) = SYSMGR_RES_READY"
proof -
  have "sm_inv s" unfolding assms(1) by (rule sm_inv_run) (simp add: sm_inv_init)
  then have "deps_satisfied s i" using assms(2,3) by (auto simp: sm_inv_def attempted_def)
  then show ?thesis using assms(4) by (auto simp: deps_satisfied_def list_all_iff)
qed

text \<open>Two resources over a world that counts polls: the first is ready at its third poll, the second needs it.\<close>

definition sample_resources :: "nat sysmgr_resource list" where
  "sample_resources =
     [\<lparr>sr_id = 0, sr_deps = [0, 0, 0, 0], sr_dep_count = 0, sr_init = \<lambda>w. (0, w),
       sr_poll_ready = Some (\<lambda>w. (if 2 \<le> w then 0 else 1, Suc w)), sr_init_timeout_ms = 100,
       sr_max_retries = 1, sr_on_exhausted = SYSMGR_FAIL_DEGRADE\<rparr>,
      \<lparr>sr_id = 7, sr_deps = [0, 0, 0, 0], sr_dep_count = 1, sr_init = \<lambda>w. (- 1, w),
       sr_poll_ready = None, sr_init_timeout_ms = 0, sr_max_retries = 0,
       sr_on_exhausted = SYSMGR_FAIL_SYSTEM_RESET\<rparr>]"

abbreviation sample_sm :: "sysmgr_runtime \<Rightarrow> sysmgr_runtime \<Rightarrow> nat sysmgr" where
  "sample_sm x y \<equiv> \<lparr>sm_table = sample_resources, sm_reset_fn = None, sm_rt = [x, y]\<rparr>"

lemma sample_first:
  "rt_state x = SYSMGR_RES_UNINIT \<Longrightarrow> sysmgr_tick t (sample_sm x y) w =
     (sample_sm (x\<lparr>rt_attempts := rt_attempts x + 1, rt_started_ms := t, rt_state := SYSMGR_RES_INITIALIZING,
        rt_poll_started := True\<rparr>) y, w)"
  by (simp add: sysmgr_tick_def current_index_def tick_current_def attempt_init_def deps_satisfied_def
      dep_indices_def sample_resources_def upd_rt_def Let_def)

lemma sample_polled:
  "rt_state x = SYSMGR_RES_INITIALIZING \<Longrightarrow> rt_poll_started x \<Longrightarrow> \<not> 100 \<le> t - rt_started_ms x \<Longrightarrow>
     sysmgr_tick t (sample_sm x y) w =
     (sample_sm (if 2 \<le> w then x\<lparr>rt_state := SYSMGR_RES_READY\<rparr> else x) y, Suc w)"
  by (simp add: sysmgr_tick_def current_index_def tick_current_def sample_resources_def upd_rt_def Let_def)

lemma sample_second:
  "rt_state x = SYSMGR_RES_READY \<Longrightarrow> rt_state y = SYSMGR_RES_UNINIT \<Longrightarrow> rt_attempts y = 0 \<Longrightarrow>
     sysmgr_tick t (sample_sm x y) w =
     (sample_sm x (y\<lparr>rt_attempts := 1, rt_started_ms := t, rt_state := SYSMGR_RES_FAILED\<rparr>), w)"
  by (simp add: sysmgr_tick_def current_index_def tick_current_def attempt_init_def handle_failure_def deps_satisfied_def
      dep_indices_def find_index_def sm_count_def sample_resources_def upd_rt_def Let_def)

theorem bring_up_dependencies_first_witness:
  "\<exists>s. s = fst (sysmgr_run [1, 1, 1, 1, 1] 0 (sysmgr_init sample_resources None, 0)) \<and>
    map rt_state (sm_rt s) = [SYSMGR_RES_READY, SYSMGR_RES_FAILED] \<and> rt_state (sm_rt s ! 0) = SYSMGR_RES_READY"
proof -
  let ?x = "\<lparr>rt_state = SYSMGR_RES_UNINIT, rt_attempts = 0, rt_poll_started = False, rt_started_ms = 0\<rparr>"
  have i: "sysmgr_init sample_resources None = sample_sm ?x ?x"
    by (simp add: sysmgr_init_def SYSMGR_MAX_RESOURCES_def sample_resources_def)
  define s where "s = fst (sysmgr_run [1, 1, 1, 1, 1] 0 (sysmgr_init sample_resources None, 0))"
  have s: "s = sample_sm (?x\<lparr>rt_attempts := 1, rt_started_ms := 1, rt_state := SYSMGR_RES_READY, rt_poll_started := True\<rparr>)
      (?x\<lparr>rt_attempts := 1, rt_started_ms := 5, rt_state := SYSMGR_RES_FAILED\<rparr>)"
    unfolding s_def i by (simp add: sample_first sample_polled sample_second word_le_nat_alt)
  have "dep_indices s 1 = [0]" "sm_count s = 2"
    unfolding s by (simp_all add: dep_indices_def find_index_def sm_count_def sample_resources_def Let_def)
  then have "rt_state (sm_rt s ! 0) = SYSMGR_RES_READY"
    using bring_up_dependencies_first [OF s_def, of 1 0] s by simp
  then show ?thesis using s s_def by auto
qed



text \<open>C33: with \<open>max_retries = 255\<close> the attempt counter wraps before it reaches the 256 attempts
  allowed, so a resource that always fails is retried for ever whatever its policy says.\<close>

theorem full_retries_never_settle:
  assumes "sr_max_retries r = 255" and "sr_dep_count r = 0" and "\<And>w. fst (sr_init r w) \<noteq> 0"
  shows "\<not> sysmgr_settled (fst (sysmgr_run ds now (sysmgr_init [r] f, w)))"
proof -
  define stuck where "stuck s \<longleftrightarrow> sm_table s = [r] \<and> (\<exists>x. sm_rt s = [x] \<and> \<not> is_terminal (rt_state x) \<and>
    (rt_state x = SYSMGR_RES_UNINIT \<or> \<not> rt_poll_started x))" for s :: "'a sysmgr"
  have f: "fail_rt r y = y\<lparr>rt_state := SYSMGR_RES_INITIALIZING, rt_poll_started := False\<rparr>" for y
    using assms(1) unsigned_less [of "rt_attempts y", where 'a = nat]
    by (simp add: fail_rt_def word_less_nat_alt)
  have step: "stuck (fst (sysmgr_tick t s v))" if s: "stuck s" for t s v
  proof -
    obtain x where x: "sm_table s = [r]" "sm_rt s = [x]" "\<not> is_terminal (rt_state x)"
        "rt_state x = SYSMGR_RES_UNINIT \<or> \<not> rt_poll_started x"
      using s by (auto simp: stuck_def)
    then have "deps_satisfied s 0" using assms(2) by (simp add: deps_satisfied_def dep_indices_def Let_def)
    then show ?thesis using x assms(3) f
      by (auto simp: sysmgr_tick_rt current_index_def upd_rt_def stuck_def tick_rt_def try_rt_def Let_def)
  qed
  have "stuck (fst sw) \<Longrightarrow> stuck (fst (sysmgr_run ds now sw))" for sw
    by (induction ds arbitrary: now sw) (simp_all add: step)
  from this [of "(sysmgr_init [r] f, w)"] show ?thesis
    by (auto simp: stuck_def sysmgr_init_def SYSMGR_MAX_RESOURCES_def Let_def sysmgr_settled_def)
qed

theorem full_retries_never_settle_witness:
  "\<not> sysmgr_settled (fst (sysmgr_run (replicate 1000 1) 0
      (sysmgr_init [(sample_resources ! 1)\<lparr>sr_dep_count := 0, sr_max_retries := 255\<rparr>] None, 0)))"
  by (rule full_retries_never_settle) (simp_all add: sample_resources_def)

end
