(* ===== verification/Prot_Region.thy ===== *)
theory Prot_Region imports Prelude begin

text \<open>
  The geometry of protection regions, \<open>shared/prot/src/prot_region.c\<close>: the smallest aligned
  power-of-two region around a range of addresses, with the mask of the eighths it does not need.
\<close>

section \<open>Descriptors\<close>

definition PROT_REGION_MIN_SIZE :: u32 where "PROT_REGION_MIN_SIZE = 256"
definition PROT_SIZE_INVALID :: u8 where "PROT_SIZE_INVALID = 0xFF"

record prot_region =
  pr_base :: u32
  pr_size_code :: u8
  pr_subregion_disable :: u8
  pr_exact :: bool

text \<open>The loop that counts the halvings of the size.\<close>

function size_loop :: "u32 \<Rightarrow> u8 \<Rightarrow> u8" where
  "size_loop s code = (if 1 < s then size_loop (drop_bit 1 s) (code + 1) else code)"
  by auto
termination
  by (relation "measure (unat \<circ> fst)") (auto simp: word_less_nat_alt drop_bit_eq_div unat_div)

declare size_loop.simps [simp del]

definition prot_encode_region_size :: "u32 \<Rightarrow> u8" where
  "prot_encode_region_size size_bytes =
     (if size_bytes < PROT_REGION_MIN_SIZE \<or> size_bytes AND (size_bytes - 1) \<noteq> 0 then PROT_SIZE_INVALID
      else size_loop size_bytes 0 - 1)"

text \<open>The loop that doubles the region until it reaches the end of the target.\<close>

partial_function (option) region_loop :: "u64 \<Rightarrow> u64 \<Rightarrow> u64 \<Rightarrow> u64 option" where
  "region_loop base e r =
     (if r \<le> 0x100000000 then
        (if e \<le> (base AND NOT (r - 1)) + r then Some r else region_loop base e (push_bit 1 r))
      else Some r)"

definition sub_intersects :: "u64 \<Rightarrow> u64 \<Rightarrow> u64 \<Rightarrow> u64 \<Rightarrow> nat \<Rightarrow> bool" where
  "sub_intersects base e region_base sub i =
     (let sub_start = region_base + of_nat i * sub; sub_end = sub_start + sub in sub_start < e \<and> sub_end > base)"

definition sub_disable :: "u64 \<Rightarrow> u64 \<Rightarrow> u64 \<Rightarrow> u64 \<Rightarrow> u8" where
  "sub_disable base e region_base sub =
     foldl (\<lambda>d i. if sub_intersects base e region_base sub i then d else d OR push_bit i 1) 0 [0..<8]"

text \<open>\<open>None\<close> is a loop that does not end; the value is the return code and what is left in \<open>*out\<close>.\<close>

definition prot_region_cover :: "u32 \<Rightarrow> u32 \<Rightarrow> prot_region option \<Rightarrow> (bool \<times> prot_region option) option" where
  "prot_region_cover base len out =
     (case out of
        None \<Rightarrow> Some (False, out)
      | Some o0 \<Rightarrow>
          if len = 0 then Some (False, out)
          else
            let e = ucast base + ucast len :: u64 in
            if e > 0x100000000 then Some (False, out)
            else
              (case region_loop (ucast base) e (ucast PROT_REGION_MIN_SIZE) of
                 None \<Rightarrow> None
               | Some r \<Rightarrow>
                   if r > 0x100000000 then Some (False, out)
                   else
                     let region_base = ucast (ucast base AND NOT (r - 1)) :: u32;
                         sub = drop_bit 3 r in
                     Some (True, Some (o0\<lparr>pr_base := region_base,
                       pr_size_code := prot_encode_region_size (ucast r),
                       pr_subregion_disable := sub_disable (ucast base) e (ucast region_base) sub,
                       pr_exact := ucast base mod sub = 0 \<and> e mod sub = 0\<rparr>))))"

section \<open>Sizes\<close>

lemma unat_pow: "m < LENGTH('a) \<Longrightarrow> unat (2 ^ m :: 'a::len word) = 2 ^ m"
  using unsigned_of_nat [of "2 ^ m", where 'b = 'a and 'a = nat]
  by (simp add: take_bit_eq_mod power_strict_increasing)

lemma size_loop_pow: "n < 32 \<Longrightarrow> size_loop (2 ^ n) c = c + of_nat n"
proof (induction n arbitrary: c)
  case 0
  then show ?case by (simp add: size_loop.simps)
next
  case (Suc n)
  have "(1 :: u32) < 2 ^ Suc n"
    using Suc.prems power_increasing [of 1 "Suc n" "2 :: nat"]
    by (simp add: word_less_nat_alt unat_pow less_eq_Suc_le del: power_Suc)
  moreover have "drop_bit 1 (2 ^ Suc n :: u32) = 2 ^ n"
    using Suc.prems by (intro bit_word_eqI) (auto simp: bit_simps bit_exp_iff simp del: power_Suc)
  ultimately have "size_loop (2 ^ Suc n) c = size_loop (2 ^ n) (c + 1)"
    by (subst size_loop.simps) simp
  then show ?case using Suc by (simp add: algebra_simps)
qed

lemma encode_pow:
  assumes "8 \<le> n" and "n < 32"
  shows "prot_encode_region_size (2 ^ n) = of_nat (n - 1)"
proof -
  have "\<not> (2 ^ n :: u32) < 256"
    using assms power_increasing [of 8 n "2 :: nat"] by (simp add: word_less_nat_alt not_less unat_pow)
  moreover have "(2 ^ n :: u32) AND (2 ^ n - 1) = 0"
    by (rule bit_word_eqI) (auto simp: bit_simps bit_exp_iff simp flip: mask_eq_exp_minus_1)
  ultimately show ?thesis
    using assms by (simp add: prot_encode_region_size_def PROT_REGION_MIN_SIZE_def size_loop_pow of_nat_diff)
qed

section \<open>Regions over the naturals\<close>

lemma unat_align:
  fixes x :: u64
  shows "unat (x AND NOT (2 ^ m - 1)) = unat x div 2 ^ m * 2 ^ m"
proof -
  have "unat (x AND NOT (2 ^ m - 1)) = unat (push_bit m (drop_bit m x))"
    by (rule arg_cong [where f = unat], rule bit_word_eqI) (auto simp: bit_simps simp flip: mask_eq_exp_minus_1)
  also have "\<dots> = unat x div 2 ^ m * 2 ^ m"
  proof -
    have "unat x div 2 ^ m * 2 ^ m < 2 ^ 64"
      using div_times_less_eq_dividend [of "unat x" "2 ^ m"] unsigned_less [of x, where 'a = nat]
      by (simp del: div_times_less_eq_dividend)
    then show ?thesis
      by (simp only: unsigned_push_bit_eq unsigned_drop_bit_eq drop_bit_nat_eq take_bit_eq_mod)
        (simp add: push_bit_eq_mult drop_bit_eq_div mod_less [OF unsigned_less [of x, where 'a = nat, simplified]])
  qed
  finally show ?thesis .
qed

lemma unat_narrow: "unat (ucast (x :: u64) :: u32) = unat x mod 2 ^ 32"
  unfolding unsigned_ucast_eq take_bit_eq_mod by simp

lemma unat_widen: "unat (ucast (x :: u32) :: u64) = unat x"
  using unsigned_less [of x, where 'a = nat] unfolding unsigned_ucast_eq take_bit_eq_mod by simp

definition region_covers :: "nat \<Rightarrow> nat \<Rightarrow> nat \<Rightarrow> bool" where
  "region_covers b e m \<longleftrightarrow> e \<le> b div 2 ^ m * 2 ^ m + 2 ^ m"

lemma pow_33: "m \<le> 32 \<Longrightarrow> unat (2 ^ m :: u64) = 2 ^ m"
  by (simp add: unat_pow)

lemma region_test:
  fixes base e :: u64
  assumes "unat base < 2 ^ 32" and "m \<le> 32"
  shows "e \<le> (base AND NOT (2 ^ m - 1)) + 2 ^ m \<longleftrightarrow> region_covers (unat base) (unat e) m"
proof -
  have "unat base div 2 ^ m * 2 ^ m + 2 ^ m < 2 ^ 32 + 2 ^ 32 + 1"
    using assms(1) div_times_less_eq_dividend [of "unat base" "2 ^ m"]
      power_increasing [OF assms(2), of "2 :: nat"] by linarith
  moreover have "(2 :: nat) ^ m \<le> 2 ^ 32" using assms(2) by (rule power_increasing) simp
  ultimately have "unat (base AND NOT (2 ^ m - 1)) + unat (2 ^ m :: u64) < 2 ^ LENGTH(64)"
    using assms(1) pow_33 [OF assms(2)] unat_align [of base m] by simp
  then have "unat ((base AND NOT (2 ^ m - 1)) + 2 ^ m) = unat base div 2 ^ m * 2 ^ m + 2 ^ m"
    using pow_33 [OF assms(2)] unat_align [of base m] by (simp add: unat_add_lem [THEN iffD1])
  then show ?thesis by (simp add: word_le_nat_alt region_covers_def)
qed

lemma region_loop_least:
  fixes base e :: u64
  assumes "unat base < 2 ^ 32" and "unat e \<le> 2 ^ 32" and "n \<le> 32"
  shows "\<exists>m. n \<le> m \<and> m \<le> 32 \<and> region_loop base e (2 ^ n) = Some (2 ^ m) \<and>
    region_covers (unat base) (unat e) m \<and> (\<forall>k. n \<le> k \<longrightarrow> k < m \<longrightarrow> \<not> region_covers (unat base) (unat e) k)"
  using assms(3)
proof (induction n rule: inc_induct)
  case base
  have "unat base div 2 ^ 32 = 0" using assms(1) by simp
  then have "region_covers (unat base) (unat e) 32" using assms(2) by (simp add: region_covers_def)
  then show ?case
    using region_test [OF assms(1), of 32 e] by (intro exI [of _ 32]) (simp add: region_loop.simps)
next
  case (step n)
  have le: "(2 ^ n :: u64) \<le> 0x100000000"
    using step.hyps power_increasing [of n 32 "2 :: nat"] by (simp add: word_le_nat_alt unat_pow)
  show ?case
  proof (cases "region_covers (unat base) (unat e) n")
    case True
    then show ?thesis
      using region_test [OF assms(1), of n e] step.hyps le by (intro exI [of _ n]) (simp add: region_loop.simps)
  next
    case False
    have "push_bit 1 (2 ^ n) = (2 ^ Suc n :: u64)" by (simp add: push_bit_eq_mult)
    then have "region_loop base e (2 ^ n) = region_loop base e (2 ^ Suc n)"
      using region_test [OF assms(1), of n e] step.hyps le False
      by (subst region_loop.simps) (simp del: power_Suc)
    moreover obtain m where "Suc n \<le> m" "m \<le> 32" "region_loop base e (2 ^ Suc n) = Some (2 ^ m)"
      "region_covers (unat base) (unat e) m"
      "\<forall>k. Suc n \<le> k \<longrightarrow> k < m \<longrightarrow> \<not> region_covers (unat base) (unat e) k"
      using step.IH by blast
    ultimately show ?thesis
      using False by (intro exI [of _ m]) (metis Suc_leD le_antisym not_less_eq_eq)
  qed
qed

section \<open>What a descriptor grants\<close>

text \<open>The descriptor as the protection unit reads it: the addresses in an enabled eighth.\<close>

definition region_grants :: "prot_region \<Rightarrow> nat \<Rightarrow> bool" where
  "region_grants p a \<longleftrightarrow>
     (let size = 2 ^ (unat (pr_size_code p) + 1); b = unat (pr_base p) in
      b \<le> a \<and> a < b + size \<and> \<not> bit (pr_subregion_disable p) ((a - b) div (size div 8)))"

lemma bit_sub_disable:
  "bit (sub_disable base e rb sub) i \<longleftrightarrow> i < 8 \<and> \<not> sub_intersects base e rb sub i"
proof -
  have "bit (foldl (\<lambda>d i. if sub_intersects base e rb sub i then d else d OR push_bit i 1) 0 [0..<k] :: u8) i \<longleftrightarrow>
      i < k \<and> \<not> sub_intersects base e rb sub i" if "k \<le> 8" for k
    using that
  proof (induction k)
    case (Suc k)
    then show ?case using bit_u8_D by (auto simp: bit_simps less_Suc_eq)
  qed simp
  then show ?thesis by (simp add: sub_disable_def)
qed

lemma sub_intersects_nat:
  fixes base e rb sub :: u64
  assumes "i < 8" and "unat rb \<le> 2 ^ 32" and "unat sub \<le> 2 ^ 32"
  shows "sub_intersects base e rb sub i \<longleftrightarrow>
    unat rb + i * unat sub < unat e \<and> unat base < unat rb + i * unat sub + unat sub"
proof -
  have b: "i * unat sub \<le> 7 * 2 ^ 32" using assms(1,3) by (intro mult_le_mono) auto
  have i: "unat (of_nat i :: u64) = i" using assms(1) by (simp add: unat_of_nat)
  have m: "unat (of_nat i * sub) = i * unat sub" using b i by (simp add: unat_word_ariths)
  have s: "unat (rb + of_nat i * sub) = unat rb + i * unat sub"
    using b m assms(2) by (simp add: unat_word_ariths)
  have "unat (rb + of_nat i * sub + sub) = unat rb + i * unat sub + unat sub"
    using b s assms(2,3) by (simp add: unat_word_ariths)
  with s show ?thesis by (simp add: sub_intersects_def Let_def word_less_nat_alt)
qed

text \<open>What a successful cover with a region of \<open>2 ^ m\<close> bytes leaves.\<close>

definition cover_facts :: "u32 \<Rightarrow> u32 \<Rightarrow> nat \<Rightarrow> prot_region \<Rightarrow> bool" where
  "cover_facts base len m p \<longleftrightarrow>
     (let b = unat base; e = unat base + unat len in
      8 \<le> m \<and> m \<le> 32 \<and> region_covers b e m \<and> (\<forall>k. 8 \<le> k \<longrightarrow> k < m \<longrightarrow> \<not> region_covers b e k) \<and>
      unat (pr_base p) = b div 2 ^ m * 2 ^ m \<and>
      pr_size_code p = (if m = 32 then PROT_SIZE_INVALID else of_nat (m - 1)) \<and>
      (\<forall>i < 8. bit (pr_subregion_disable p) i \<longleftrightarrow>
         \<not> (unat (pr_base p) + i * 2 ^ (m - 3) < e \<and> b < unat (pr_base p) + i * 2 ^ (m - 3) + 2 ^ (m - 3))) \<and>
      (pr_exact p \<longleftrightarrow> b mod 2 ^ (m - 3) = 0 \<and> e mod 2 ^ (m - 3) = 0))"

lemma cover_spec:
  fixes base len :: u32
  assumes "len \<noteq> 0" and e0: "unat base + unat len \<le> 2 ^ 32"
  shows "\<exists>m p. cover_facts base len m p \<and> prot_region_cover base len (Some o0) = Some (True, Some p)"
proof -
  define b where "b = unat base"
  define e where "e = b + unat len"
  note e = e0 [folded b_def, folded e_def]
  let ?b = "ucast base :: u64" and ?e = "ucast base + ucast len :: u64"
  have ub: "unat ?b = b" unfolding b_def by (simp add: b_def unsigned_ucast_eq take_bit_eq_mod unsigned_less [THEN order.strict_trans])
  have b: "b < 2 ^ 32" using unsigned_less [of base, where 'a = nat] by (simp add: b_def)
  have ue: "unat ?e = e" using e by (simp add: unat_word_ariths e_def b_def unsigned_ucast_eq take_bit_eq_mod)
  have "\<exists>m. 8 \<le> m \<and> m \<le> 32 \<and> region_loop ?b ?e (2 ^ 8) = Some (2 ^ m) \<and> region_covers (unat ?b) (unat ?e) m \<and>
      (\<forall>k. 8 \<le> k \<longrightarrow> k < m \<longrightarrow> \<not> region_covers (unat ?b) (unat ?e) k)"
    by (rule region_loop_least) (use b e ub ue in auto)
  then obtain m where m: "8 \<le> m" "m \<le> 32" and l: "region_loop ?b ?e (2 ^ 8) = Some (2 ^ m)"
    and c: "region_covers b e m" "\<forall>k. 8 \<le> k \<longrightarrow> k < m \<longrightarrow> \<not> region_covers b e k"
    unfolding ub ue by blast
  let ?rb = "ucast (?b AND NOT (2 ^ m - 1)) :: u32" and ?sub = "drop_bit 3 (2 ^ m) :: u64"
  define R where "R = b div 2 ^ m * 2 ^ m"
  have Rb: "R \<le> b" unfolding R_def by (rule div_times_less_eq_dividend)
  have "unat (?b AND NOT (2 ^ m - 1)) = R" by (simp add: unat_align ub R_def)
  then have rb: "unat ?rb = R"
    using b Rb by (simp add: unat_narrow)
  then have rb': "unat (ucast ?rb :: u64) = R" by (simp add: unat_widen)
  have "(2 :: nat) ^ m = 2 ^ (m - 3) * 2 ^ 3" using power_add [of "2 :: nat" "m - 3" 3] m by simp
  then have sub: "unat ?sub = 2 ^ (m - 3)"
    using m by (simp add: drop_bit_eq_div unat_div unat_pow)
  have sub32: "(2 :: nat) ^ (m - 3) \<le> 2 ^ 32" using m by (intro power_increasing) auto
  have size: "prot_encode_region_size (ucast (2 ^ m :: u64)) = (if m = 32 then PROT_SIZE_INVALID else of_nat (m - 1))"
  proof (cases "m = 32")
    case True
    then show ?thesis by (simp add: prot_encode_region_size_def PROT_REGION_MIN_SIZE_def)
  next
    case False
    have "(ucast (2 ^ m :: u64) :: u32) = 2 ^ m"
      using m by (intro bit_word_eqI) (auto simp: bit_simps bit_exp_iff)
    then show ?thesis using False m by (simp add: encode_pow)
  qed
  let ?p = "o0\<lparr>pr_base := ?rb, pr_size_code := prot_encode_region_size (ucast (2 ^ m :: u64)),
      pr_subregion_disable := sub_disable ?b ?e (ucast ?rb) ?sub, pr_exact := ?b mod ?sub = 0 \<and> ?e mod ?sub = 0\<rparr>"
  have "\<not> ?e > 0x100000000" using e ue by (simp add: word_less_nat_alt)
  moreover have "\<not> (2 ^ m :: u64) > 0x100000000"
    using m power_increasing [OF m(2), of "2 :: nat"] by (simp add: word_less_nat_alt unat_pow)
  ultimately have "prot_region_cover base len (Some o0) = Some (True, Some ?p)"
    using \<open>len \<noteq> 0\<close> l by (simp add: prot_region_cover_def PROT_REGION_MIN_SIZE_def Let_def)
  moreover have "bit (pr_subregion_disable ?p) i \<longleftrightarrow>
      \<not> (unat (pr_base ?p) + i * 2 ^ (m - 3) < e \<and> b < unat (pr_base ?p) + i * 2 ^ (m - 3) + 2 ^ (m - 3))" if "i < 8" for i
    using sub_intersects_nat [OF that, of "ucast ?rb" ?sub ?b ?e] that sub32 b rb rb' sub ub ue Rb
    by (simp add: bit_sub_disable)
  moreover have "pr_exact ?p \<longleftrightarrow> b mod 2 ^ (m - 3) = 0 \<and> e mod 2 ^ (m - 3) = 0"
    using sub ub ue by (simp add: word_unat_eq_iff unat_mod del: mod_eq_0_iff_dvd)
  ultimately show ?thesis using m c rb size
    by (intro exI [of _ m] exI [of _ ?p]) (simp add: cover_facts_def Let_def R_def flip: b_def e_def)
qed

section \<open>Correctness\<close>

lemma cover_cases:
  assumes "prot_region_cover base len (Some o0) = Some (True, Some p)"
  obtains m where "8 \<le> m" and "m \<le> 32" and "region_covers (unat base) (unat base + unat len) m"
    and "\<And>k. 8 \<le> k \<Longrightarrow> k < m \<Longrightarrow> \<not> region_covers (unat base) (unat base + unat len) k"
    and "unat (pr_base p) = unat base div 2 ^ m * 2 ^ m"
    and "pr_size_code p = (if m = 32 then PROT_SIZE_INVALID else of_nat (m - 1))"
    and "\<And>i. i < 8 \<Longrightarrow> bit (pr_subregion_disable p) i \<longleftrightarrow> \<not> (unat (pr_base p) + i * 2 ^ (m - 3) < unat base + unat len \<and>
      unat base < unat (pr_base p) + i * 2 ^ (m - 3) + 2 ^ (m - 3))"
    and "pr_exact p \<longleftrightarrow> unat base mod 2 ^ (m - 3) = 0 \<and> (unat base + unat len) mod 2 ^ (m - 3) = 0"
proof -
  have l: "len \<noteq> 0" using assms by (auto simp: prot_region_cover_def)
  have e: "unat base + unat len \<le> 2 ^ 32"
  proof -
    have "unat (ucast base + ucast len :: u64) = unat base + unat len"
      using unsigned_less [of base, where 'a = nat] unsigned_less [of len, where 'a = nat]
      by (simp add: unat_word_ariths unsigned_ucast_eq take_bit_eq_mod)
    moreover have "\<not> 0x100000000 < (ucast base + ucast len :: u64)"
    proof
      assume "0x100000000 < (ucast base + ucast len :: u64)"
      then have "prot_region_cover base len (Some o0) = Some (False, Some o0)"
        using l by (simp only: prot_region_cover_def option.case Let_def if_True if_False)
      then show False using assms by simp
    qed
    ultimately show ?thesis by (simp add: word_less_nat_alt)
  qed
  obtain m p' where F: "cover_facts base len m p'" and c: "prot_region_cover base len (Some o0) = Some (True, Some p')"
    using cover_spec [OF l e, of o0] by blast
  have "p' = p" using c assms by simp
  with F have "cover_facts base len m p" by simp
  then show thesis by (intro that [of m]) (simp_all add: cover_facts_def Let_def)
qed

text \<open>What the descriptor grants.\<close>

lemma region_grants_target:
  assumes "prot_region_cover base len (Some o0) = Some (True, Some p)" and "pr_size_code p \<noteq> PROT_SIZE_INVALID"
  shows "(\<forall>a. unat base \<le> a \<and> a < unat base + unat len \<longrightarrow> region_grants p a) \<and>
    2 ^ (unat (pr_size_code p) + 1) dvd unat (pr_base p) \<and>
    (pr_exact p \<longrightarrow> (\<forall>a. region_grants p a \<longrightarrow> unat base \<le> a \<and> a < unat base + unat len))"
proof -
  obtain m where m: "8 \<le> m" "m \<le> 32" and c: "region_covers (unat base) (unat base + unat len) m"
    and rb: "unat (pr_base p) = unat base div 2 ^ m * 2 ^ m"
    and sc: "pr_size_code p = (if m = 32 then PROT_SIZE_INVALID else of_nat (m - 1))"
    and dis: "\<And>i. i < 8 \<Longrightarrow> bit (pr_subregion_disable p) i \<longleftrightarrow> \<not> (unat (pr_base p) + i * 2 ^ (m - 3) < unat base + unat len \<and>
      unat base < unat (pr_base p) + i * 2 ^ (m - 3) + 2 ^ (m - 3))"
    and ex: "pr_exact p \<longleftrightarrow> unat base mod 2 ^ (m - 3) = 0 \<and> (unat base + unat len) mod 2 ^ (m - 3) = 0"
    using cover_cases [OF assms(1)] by metis
  define sub :: nat where "sub = 2 ^ (m - 3)"
  have m32: "m < 32" using assms(2) sc m by (cases "m = 32") auto
  have "unat (of_nat (m - 1) :: u8) = m - 1" using m32 by (simp add: unat_of_nat)
  then have size: "2 ^ (unat (pr_size_code p) + 1) = (2 :: nat) ^ m" using sc m32 m by (simp flip: power_Suc)
  have s8: "(2 :: nat) ^ m = sub * 8" using power_add [of "2 :: nat" "m - 3" 3] m by (simp add: sub_def)
  have sub0: "0 < sub" by (simp add: sub_def)
  let ?rb = "unat (pr_base p)"
  have grant: "region_grants p a \<longleftrightarrow> ?rb \<le> a \<and> a < ?rb + sub * 8 \<and>
      ?rb + (a - ?rb) div sub * sub < unat base + unat len \<and> unat base < ?rb + (a - ?rb) div sub * sub + sub" for a
  proof (cases "?rb \<le> a \<and> a < ?rb + sub * 8")
    case True
    then have "(a - ?rb) div sub < 8" using sub0 by (simp add: div_less_iff_less_mult) linarith
    from dis [OF this, folded sub_def] True show ?thesis unfolding region_grants_def Let_def size s8 by simp
  qed (unfold region_grants_def Let_def size s8, auto)
  have lo: "?rb \<le> unat base" unfolding rb by (rule div_times_less_eq_dividend)
  have hi: "unat base + unat len \<le> ?rb + sub * 8" using c by (simp add: region_covers_def rb s8)
  have bounds: "(a - ?rb) div sub * sub \<le> a - ?rb" "a - ?rb < (a - ?rb) div sub * sub + sub" for a
    using sub0 dividend_less_div_times [OF sub0, of "a - ?rb"] div_times_less_eq_dividend [of "a - ?rb" sub]
    by (simp_all add: add.commute)
  have "region_grants p a" if "unat base \<le> a" and "a < unat base + unat len" for a
    using that lo hi bounds [of a] unfolding grant by linarith
  moreover have "unat base \<le> a \<and> a < unat base + unat len" if "pr_exact p" and "region_grants p a" for a
  proof -
    have "sub dvd unat base" "sub dvd unat base + unat len" using that(1) ex by (auto simp: sub_def)
    moreover have "sub dvd ?rb" unfolding rb s8 by simp
    ultimately obtain kb ke kr where k: "unat base = sub * kb" "unat base + unat len = sub * ke" "?rb = sub * kr"
      by (meson dvdE)
    let ?i = "(a - ?rb) div sub"
    have "sub * (kr + ?i) < sub * ke" "sub * kb < sub * (kr + ?i + 1)"
      using that(2) k unfolding grant by (simp_all add: algebra_simps)
    then have "kr + ?i < ke" "kb < kr + ?i + 1" by (simp_all only: mult_less_cancel1)
    then have "kr + ?i + 1 \<le> ke" "kb \<le> kr + ?i" by simp_all
    then have "sub * (kr + ?i + 1) \<le> sub * ke" "sub * kb \<le> sub * (kr + ?i)" by (simp_all only: mult_le_mono2)
    moreover have "sub * (kr + ?i + 1) = ?rb + ?i * sub + sub" "sub * (kr + ?i) = ?rb + ?i * sub"
      unfolding k(3) by (simp_all only: distrib_left mult.commute mult_1)
    moreover have ra: "?rb \<le> a" using that(2) unfolding grant by blast
    moreover have "?rb + ?i * sub \<le> a" using bounds(1) [of a] ra by linarith
    moreover have "a < ?rb + ?i * sub + sub" using bounds(2) [of a] by linarith
    ultimately show ?thesis unfolding k(1,2) [symmetric] by (metis order.trans order.strict_trans2)
  qed
  ultimately show ?thesis using rb size by auto
qed

definition sample_region :: prot_region where
  "sample_region = \<lparr>pr_base = 0, pr_size_code = 0, pr_subregion_disable = 0, pr_exact = False\<rparr>"

lemma sample_cover:
  "prot_region_cover 0x08020100 0x300 (Some sample_region) =
     Some (True, Some \<lparr>pr_base = 0x08020000, pr_size_code = 9, pr_subregion_disable = 3, pr_exact = True\<rparr>)"
  by (simp add: prot_region_cover_def PROT_REGION_MIN_SIZE_def Let_def sample_region_def region_loop.simps
      prot_encode_region_size_def size_loop.simps sub_disable_def sub_intersects_def upt_rec)

text \<open>No aligned power-of-two region of at least 256 bytes and smaller contains the range.\<close>

lemma region_smallest:
  assumes "prot_region_cover base len (Some o0) = Some (True, Some p)" and "pr_size_code p \<noteq> PROT_SIZE_INVALID"
    and "8 \<le> k" and "k \<le> unat (pr_size_code p)"
  shows "\<not> (\<exists>r. 2 ^ k dvd r \<and> r \<le> unat base \<and> unat base + unat len \<le> r + 2 ^ k)"
proof -
  obtain m where m: "8 \<le> m" "m \<le> 32"
    and c: "\<And>k. 8 \<le> k \<Longrightarrow> k < m \<Longrightarrow> \<not> region_covers (unat base) (unat base + unat len) k"
    and sc: "pr_size_code p = (if m = 32 then PROT_SIZE_INVALID else of_nat (m - 1))"
    using cover_cases [OF assms(1)] by metis
  have m32: "m < 32" using assms(2) sc m by (cases "m = 32") auto
  then have "unat (pr_size_code p) = m - 1" using sc by (simp add: unat_of_nat)
  then have n: "\<not> region_covers (unat base) (unat base + unat len) k" using c assms(3,4) m by simp
  have "unat len \<noteq> 0" using assms(1) by (auto simp: prot_region_cover_def unat_eq_zero)
  show ?thesis
  proof
    assume "\<exists>r. 2 ^ k dvd r \<and> r \<le> unat base \<and> unat base + unat len \<le> r + 2 ^ k"
    then obtain q where q: "2 ^ k * q \<le> unat base" "unat base + unat len \<le> 2 ^ k * q + 2 ^ k"
      by (auto elim: dvdE)
    have "unat base div 2 ^ k = q"
      using q \<open>unat len \<noteq> 0\<close> by (intro div_nat_eqI) (auto simp: mult.commute)
    then show False using n q by (simp add: region_covers_def mult.commute)
  qed
qed

text \<open>C34: the descriptor of a range grants every address of it, its region is aligned to its size,
  it grants nothing else when it says so, and no smaller aligned power-of-two region of at least 256 bytes
  contains the range.\<close>

theorem region_grants_the_target:
  assumes "prot_region_cover base len (Some o0) = Some (True, Some p)" and "pr_size_code p \<noteq> PROT_SIZE_INVALID"
  shows "(\<forall>a. unat base \<le> a \<and> a < unat base + unat len \<longrightarrow> region_grants p a) \<and>
    2 ^ (unat (pr_size_code p) + 1) dvd unat (pr_base p) \<and>
    (pr_exact p \<longrightarrow> (\<forall>a. region_grants p a \<longrightarrow> unat base \<le> a \<and> a < unat base + unat len)) \<and>
    (\<forall>k r. 8 \<le> k \<and> k \<le> unat (pr_size_code p) \<and> 2 ^ k dvd r \<and> r \<le> unat base \<longrightarrow> r + 2 ^ k < unat base + unat len)"
  using region_grants_target [OF assms] region_smallest [OF assms] by (meson not_le)

theorem region_grants_the_target_witness:
  "\<exists>p. prot_region_cover 0x08020100 0x300 (Some sample_region) = Some (True, Some p) \<and> region_grants p 0x08020100 \<and>
    \<not> region_grants p 0x08020400"
  using region_grants_the_target [OF sample_cover]
  by (intro exI [of _ "\<lparr>pr_base = 0x08020000, pr_size_code = 9, pr_subregion_disable = 3, pr_exact = True\<rparr>"])
    (auto simp: PROT_SIZE_INVALID_def sample_cover)

text \<open>For a range across the middle of the address space the routine reports success with
  the size code that stands for an invalid size.\<close>

lemma straddling_region_has_no_size:
  assumes "unat base < 2 ^ 31" and "2 ^ 31 < unat base + unat len" and "unat base + unat len \<le> 2 ^ 32"
  shows "\<exists>p. prot_region_cover base len (Some o0) = Some (True, Some p) \<and> pr_size_code p = PROT_SIZE_INVALID"
proof -
  have "len \<noteq> 0" using assms(1,2) by auto
  then obtain m p where F: "cover_facts base len m p"
    and p: "prot_region_cover base len (Some o0) = Some (True, Some p)"
    using cover_spec [OF _ assms(3), of o0] by blast
  then have m: "m \<le> 32" and c: "region_covers (unat base) (unat base + unat len) m"
    and sc: "pr_size_code p = (if m = 32 then PROT_SIZE_INVALID else of_nat (m - 1))"
    by (simp_all add: cover_facts_def Let_def)
  have "m = 32"
  proof (rule ccontr)
    assume "m \<noteq> 32"
    then have m31: "m \<le> 31" using m by simp
    have "unat base div 2 ^ m < 2 ^ (31 - m)"
      using assms(1) m31 by (simp add: div_less_iff_less_mult flip: power_add)
    then have "(unat base div 2 ^ m + 1) * 2 ^ m \<le> 2 ^ (31 - m) * 2 ^ m" by (intro mult_le_mono1) simp
    also have "\<dots> = 2 ^ 31" using m31 by (simp only: flip: power_add) simp
    finally show False using c assms(2) by (simp add: region_covers_def)
  qed
  then show ?thesis using p sc by simp
qed

lemma straddling_region_has_no_size_witness:
  "\<exists>p. prot_region_cover 0x7FFFFF00 0x200 (Some sample_region) = Some (True, Some p) \<and> pr_size_code p = PROT_SIZE_INVALID"
  by (rule straddling_region_has_no_size) simp_all

end
