(* ===== verification/Prot_Wall.thy ===== *)
theory Prot_Wall imports Prot_Region begin

text \<open>
  The isolation wall of the security core, \<open>node_a_gateway/bootloader/proj_cm0p/src/prot_config_cm0p.c\<close>,
  in the build that raises it (\<open>FBL_M4_SEAM5_PROT\<close>; without the flag the routine is empty): a protection
  structure over the security core's image, which holds the public key, denies the application core,
  which is moved to a protection context of its own. The walls that the file keeps behind flags set to 0
  are not built.

  The vendor's protection calls are the parameter \<open>cy\<close> over the registers \<open>'w\<close>; the code ignores what
  they return. \<open>smpu_hw\<close> states their documented effect.
\<close>

section \<open>The registers\<close>

record smpu_cfg =
  sm_address :: u32
  sm_region_size :: u8
  sm_subregions :: u8
  sm_user_permission :: u8
  sm_priv_permission :: u8
  sm_secure :: bool
  sm_pc_match :: bool
  sm_pc_mask :: u16

record 'w cy_prot =
  cp_perm_disabled :: u8
  cp_config_smpu_struct :: "smpu_cfg \<Rightarrow> 'w \<Rightarrow> u32 \<times> 'w"
  cp_enable_smpu_struct :: "'w \<Rightarrow> u32 \<times> 'w"
  cp_config_bus_master :: "bool \<Rightarrow> bool \<Rightarrow> u16 \<Rightarrow> 'w \<Rightarrow> u32 \<times> 'w"
  cp_set_active_pc :: "u32 \<Rightarrow> 'w \<Rightarrow> u32 \<times> 'w"

section \<open>Raising the wall\<close>

definition PC_CM4_UNTRUSTED :: u32 where "PC_CM4_UNTRUSTED = 3"
definition PCMASK_FOR_PC :: "u32 \<Rightarrow> u16" where "PCMASK_FOR_PC n = ucast (push_bit (unat (n - 1)) (1 :: u32))"
definition PCMASK_CM4 :: u16 where "PCMASK_CM4 = PCMASK_FOR_PC PC_CM4_UNTRUSTED"
definition KEY_REGION_BASE :: u32 where "KEY_REGION_BASE = 0x10000000"
definition KEY_REGION_LEN :: u32 where "KEY_REGION_LEN = 0x00020000"

definition deny_cm4 :: "'w cy_prot \<Rightarrow> prot_region \<Rightarrow> smpu_cfg" where
  "deny_cm4 cy rgn = \<lparr>sm_address = KEY_REGION_BASE, sm_region_size = pr_size_code rgn,
     sm_subregions = pr_subregion_disable rgn, sm_user_permission = cp_perm_disabled cy,
     sm_priv_permission = cp_perm_disabled cy, sm_secure = False, sm_pc_match = True, sm_pc_mask = PCMASK_CM4\<rparr>"

text \<open>\<open>rgn\<close> is the uninitialised local; \<open>None\<close> would be a cover search that does not end.\<close>

definition prot_setup_key_smpu :: "'w cy_prot \<Rightarrow> prot_region \<Rightarrow> 'w \<Rightarrow> 'w option" where
  "prot_setup_key_smpu cy rgn w =
     (case prot_region_cover KEY_REGION_BASE KEY_REGION_LEN (Some rgn) of
        Some (True, Some rgn1) \<Rightarrow>
          Some (snd (cp_enable_smpu_struct cy (snd (cp_config_smpu_struct cy (deny_cm4 cy rgn1) w))))
      | None \<Rightarrow> None
      | _ \<Rightarrow> Some w)"

definition prot_assign_contexts :: "'w cy_prot \<Rightarrow> 'w \<Rightarrow> 'w" where
  "prot_assign_contexts cy w =
     snd (cp_set_active_pc cy PC_CM4_UNTRUSTED (snd (cp_config_bus_master cy True False PCMASK_CM4 w)))"

definition cm0p_prot_install_walls :: "'w cy_prot \<Rightarrow> prot_region \<Rightarrow> 'w \<Rightarrow> 'w option" where
  "cm0p_prot_install_walls cy rgn w = map_option (prot_assign_contexts cy) (prot_setup_key_smpu cy rgn w)"

section \<open>What a structure denies\<close>

text \<open>
  Bit \<open>n - 1\<close> of a mask stands for context \<open>n\<close>. A structure in match mode takes part only in accesses of
  the contexts in its mask; otherwise the mask says which contexts it lets through.
\<close>

definition in_mask :: "u16 \<Rightarrow> nat \<Rightarrow> bool" where
  "in_mask m pc \<longleftrightarrow> 0 < pc \<and> bit m (pc - 1)"

definition smpu_region :: "smpu_cfg \<Rightarrow> prot_region" where
  "smpu_region c = \<lparr>pr_base = sm_address c, pr_size_code = sm_region_size c,
     pr_subregion_disable = sm_subregions c, pr_exact = False\<rparr>"

definition smpu_denies :: "u8 \<Rightarrow> smpu_cfg \<Rightarrow> nat \<Rightarrow> bool \<Rightarrow> nat \<Rightarrow> bool" where
  "smpu_denies disabled c pc priv a \<longleftrightarrow>
     region_grants (smpu_region c) a \<and> (sm_pc_match c \<longrightarrow> in_mask (sm_pc_mask c) pc) \<and>
     ((if priv then sm_priv_permission c else sm_user_permission c) = disabled \<or> \<not> in_mask (sm_pc_mask c) pc)"

text \<open>A configuration the vendor's driver accepts: a size of at least 256 bytes, and an address aligned to it.\<close>

definition smpu_valid :: "smpu_cfg \<Rightarrow> bool" where
  "smpu_valid c \<longleftrightarrow> 7 \<le> sm_region_size c \<and> sm_region_size c < 32 \<and>
     2 ^ (unat (sm_region_size c) + 1) dvd unat (sm_address c)"

locale smpu_hw =
  fixes cy :: "'w cy_prot" and loaded :: "'w \<Rightarrow> smpu_cfg" and enabled :: "'w \<Rightarrow> bool"
    and cm4_mask :: "'w \<Rightarrow> u16" and cm4_pc :: "'w \<Rightarrow> u32"
  assumes configures: "smpu_valid c \<Longrightarrow> loaded (snd (cp_config_smpu_struct cy c w)) = c"
    and enables: "loaded (snd (cp_enable_smpu_struct cy w)) = loaded w" "enabled (snd (cp_enable_smpu_struct cy w))"
    and masters: "cm4_mask (snd (cp_config_bus_master cy p s m w)) = m"
      "loaded (snd (cp_config_bus_master cy p s m w)) = loaded w"
      "enabled (snd (cp_config_bus_master cy p s m w)) = enabled w"
    and activates: "in_mask (cm4_mask w) (unat n) \<Longrightarrow> cm4_pc (snd (cp_set_active_pc cy n w)) = n"
      "cm4_mask (snd (cp_set_active_pc cy n w)) = cm4_mask w"
      "loaded (snd (cp_set_active_pc cy n w)) = loaded w"
      "enabled (snd (cp_set_active_pc cy n w)) = enabled w"

text \<open>The image is an exact region of 128 KB.\<close>

lemma key_cover:
  "prot_region_cover KEY_REGION_BASE KEY_REGION_LEN (Some r) =
     Some (True, Some (r\<lparr>pr_base := 0x10000000, pr_size_code := 16, pr_subregion_disable := 0, pr_exact := True\<rparr>))"
  by (simp add: KEY_REGION_BASE_def KEY_REGION_LEN_def prot_region_cover_def PROT_REGION_MIN_SIZE_def Let_def
      region_loop.simps prot_encode_region_size_def size_loop.simps sub_disable_def sub_intersects_def upt_rec)

lemma mask_cm4: "PCMASK_CM4 = 4"
  by (simp add: PCMASK_CM4_def PCMASK_FOR_PC_def PC_CM4_UNTRUSTED_def)

lemma in_mask_cm4: "in_mask 4 pc \<longleftrightarrow> pc = 3"
proof -
  have "bit (2 ^ 2 :: u16) k \<longleftrightarrow> k = 2" for k by (subst bit_exp_iff) auto
  moreover have "(4 :: u16) = 2 ^ 2" by simp
  ultimately have "bit (4 :: u16) k \<longleftrightarrow> k = 2" for k by metis
  then show ?thesis by (cases pc) (simp_all add: in_mask_def)
qed

lemma wall_denies:
  assumes "pr_size_code r = 16" and "pr_subregion_disable r = 0"
  shows "smpu_denies (cp_perm_disabled cy) (deny_cm4 cy r) pc priv a \<longleftrightarrow> pc = 3 \<and> 0x10000000 \<le> a \<and> a < 0x10020000"
  using assms
  by (auto simp: smpu_denies_def smpu_region_def region_grants_def deny_cm4_def mask_cm4 in_mask_cm4 KEY_REGION_BASE_def Let_def)

lemma wall_valid: "pr_size_code r = 16 \<Longrightarrow> smpu_valid (deny_cm4 cy r)"
  by (simp add: smpu_valid_def deny_cm4_def KEY_REGION_BASE_def)

context smpu_hw
begin

lemma walls_raised:
  "\<exists>w'. cm0p_prot_install_walls cy rgn w = Some w' \<and> enabled w' \<and> cm4_pc w' = 3 \<and> cm4_mask w' = 4 \<and>
     (\<forall>pc priv a. smpu_denies (cp_perm_disabled cy) (loaded w') pc priv a \<longleftrightarrow> pc = 3 \<and> 0x10000000 \<le> a \<and> a < 0x10020000)"
  by (simp add: cm0p_prot_install_walls_def prot_setup_key_smpu_def key_cover prot_assign_contexts_def
      configures [OF wall_valid] enables masters activates wall_denies mask_cm4 in_mask_cm4 PC_CM4_UNTRUSTED_def)

end

section \<open>An instance\<close>

record sim_prot =
  sp_loaded :: smpu_cfg
  sp_enabled :: bool
  sp_mask :: u16
  sp_pc :: u32

definition sim_cy_prot :: "sim_prot cy_prot" where
  "sim_cy_prot = \<lparr>cp_perm_disabled = 0,
     cp_config_smpu_struct = (\<lambda>c w. if smpu_valid c then (0, w\<lparr>sp_loaded := c\<rparr>) else (1, w)),
     cp_enable_smpu_struct = (\<lambda>w. (0, w\<lparr>sp_enabled := True\<rparr>)),
     cp_config_bus_master = (\<lambda>p s m w. (0, w\<lparr>sp_mask := m\<rparr>)),
     cp_set_active_pc = (\<lambda>n w. if in_mask (sp_mask w) (unat n) then (0, w\<lparr>sp_pc := n\<rparr>) else (1, w))\<rparr>"

interpretation sim_smpu: smpu_hw sim_cy_prot sp_loaded sp_enabled sp_mask sp_pc
  by unfold_locales (simp_all add: sim_cy_prot_def)

definition sim_prot_reset :: sim_prot where
  "sim_prot_reset = \<lparr>sp_loaded = \<lparr>sm_address = 0, sm_region_size = 0, sm_subregions = 0, sm_user_permission = 7,
     sm_priv_permission = 7, sm_secure = False, sm_pc_match = False, sm_pc_mask = 0x7FFF\<rparr>,
     sp_enabled = False, sp_mask = 0x7FFF, sp_pc = 2\<rparr>"

text \<open>C17: once the walls are raised, every access of the application core to the security core's image is
  denied, privileged or not; the core is in the one context its mask allows, and neither another address
  nor another context, the security core's included, is touched.\<close>

theorem walls_deny_the_key_region:
  assumes "smpu_hw cy loaded enabled cm4_mask cm4_pc"
  shows "\<exists>w'. cm0p_prot_install_walls cy rgn w = Some w' \<and> enabled w' \<and> cm4_pc w' = 3 \<and> cm4_mask w' = 4 \<and>
    (\<forall>pc priv a. smpu_denies (cp_perm_disabled cy) (loaded w') pc priv a \<longleftrightarrow> pc = 3 \<and> 0x10000000 \<le> a \<and> a < 0x10020000)"
  by (rule smpu_hw.walls_raised [OF assms])

theorem walls_deny_the_key_region_witness:
  "\<exists>w'. cm0p_prot_install_walls sim_cy_prot sample_region sim_prot_reset = Some w' \<and> sp_enabled w' \<and> sp_pc w' = 3 \<and>
    smpu_denies 0 (sp_loaded w') 3 True 0x1001FFFF \<and> \<not> smpu_denies 0 (sp_loaded w') 2 True 0x1001FFFF \<and>
    \<not> smpu_denies 0 (sp_loaded w') 3 True 0x10020000"
proof -
  have z: "cp_perm_disabled sim_cy_prot = 0" by (simp add: sim_cy_prot_def)
  from walls_deny_the_key_region [OF sim_smpu.smpu_hw_axioms, of sample_region sim_prot_reset] show ?thesis
    unfolding z by auto
qed

end
