(* ===== verification/Body_Msgs.thy ===== *)
theory Body_Msgs imports Prelude begin

text \<open>
  The messages of the body-domain network: \<open>shared/messages/src/body_msgs.c\<close> and its header.

  A pointer with its length is one \<open>bytes option\<close> (\<open>None\<close> is \<open>NULL\<close>, the length is the list's). An
  output structure is an \<open>option\<close> of its present contents, returned as the call leaves it, so
  that what a failing call writes is visible. The union of \<open>body_msg_t\<close> is a datatype whose
  constructor is the member last written.
\<close>

section \<open>Identifiers and message types\<close>

definition MSG_ID_DOOR_CMD :: u32 where "MSG_ID_DOOR_CMD = 0x120"
definition MSG_ID_LIGHT_CMD :: u32 where "MSG_ID_LIGHT_CMD = 0x121"
definition MSG_ID_SENSOR_RPT :: u32 where "MSG_ID_SENSOR_RPT = 0x200"
definition MSG_ID_FRESHNESS_SYNC :: u32 where "MSG_ID_FRESHNESS_SYNC = 0x2F0"
definition MSG_ID_GW_FRESHNESS_SYNC :: u32 where "MSG_ID_GW_FRESHNESS_SYNC = 0x1F0"

lemmas msg_id_defs = MSG_ID_DOOR_CMD_def MSG_ID_LIGHT_CMD_def MSG_ID_SENSOR_RPT_def
  MSG_ID_FRESHNESS_SYNC_def MSG_ID_GW_FRESHNESS_SYNC_def

datatype door_cmd = DOOR_LOCK | DOOR_UNLOCK

record door_cmd_msg = dc_cmd :: door_cmd

record light_cmd_msg = brightness_pct :: u8

record sensor_report_msg =
  ambient_raw :: u16
  door_ajar :: u8

datatype body_msg_kind =
  BODY_MSG_NONE | BODY_MSG_DOOR_CMD | BODY_MSG_LIGHT_CMD | BODY_MSG_SENSOR_REPORT

datatype body_msg_u =
  U_Door_Cmd door_cmd_msg | U_Light_Cmd light_cmd_msg | U_Sensor_Report sensor_report_msg

record body_msg =
  bm_kind :: body_msg_kind
  bm_u :: body_msg_u

section \<open>Packing\<close>

definition pack_light_cmd :: "light_cmd_msg option \<Rightarrow> bytes option \<Rightarrow> nat \<times> bytes option" where
  "pack_light_cmd inp buf = (case (inp, buf) of
     (Some m, Some b) \<Rightarrow>
       if length b < 1 then (0, buf)
       else if brightness_pct m > 100 then (0, buf)
       else (1, Some (b[0 := brightness_pct m]))
   | _ \<Rightarrow> (0, buf))"

definition pack_sensor_report :: "sensor_report_msg option \<Rightarrow> bytes option \<Rightarrow> nat \<times> bytes option"
  where
  "pack_sensor_report inp buf = (case (inp, buf) of
     (Some m, Some b) \<Rightarrow>
       if length b < 3 then (0, buf)
       else if ambient_raw m > 1023 then (0, buf)
       else if door_ajar m > 1 then (0, buf)
       else (3, Some (b[0 := ucast (drop_bit 8 (ambient_raw m) AND 0xFF),
                        1 := ucast (ambient_raw m AND 0xFF),
                        2 := door_ajar m]))
   | _ \<Rightarrow> (0, buf))"

section \<open>Unpacking\<close>

definition unpack_light_cmd :: "bytes option \<Rightarrow> light_cmd_msg option \<Rightarrow> bool \<times> light_cmd_msg option"
  where
  "unpack_light_cmd buf out = (case (buf, out) of
     (Some b, Some m) \<Rightarrow>
       if length b < 1 then (False, out)
       else if b ! 0 > 100 then (False, out)
       else (True, Some (m\<lparr>brightness_pct := b ! 0\<rparr>))
   | _ \<Rightarrow> (False, out))"

definition unpack_sensor_report ::
  "bytes option \<Rightarrow> sensor_report_msg option \<Rightarrow> bool \<times> sensor_report_msg option" where
  "unpack_sensor_report buf out = (case (buf, out) of
     (Some b, Some m) \<Rightarrow>
       if length b < 3 then (False, out)
       else let ambient = push_bit 8 (ucast (b ! 0)) OR ucast (b ! 1) :: u16 in
         if ambient > 1023 then (False, out)
         else if b ! 2 > 1 then (False, out)
         else (True, Some (m\<lparr>ambient_raw := ambient, door_ajar := b ! 2\<rparr>))
   | _ \<Rightarrow> (False, out))"

text \<open>The cast \<open>(door_cmd_t)buf[0]\<close>, made only after the byte was checked to be 0 or 1.\<close>

definition door_cmd_of :: "u8 \<Rightarrow> door_cmd" where
  "door_cmd_of b = (if b = 0 then DOOR_LOCK else DOOR_UNLOCK)"

text \<open>
  Passing \<open>&out->u.light_cmd\<close> hands the callee the union's storage; the members start at the same
  address and every field of the member is written on success, so the contents handed in do not
  matter.
\<close>

definition body_decode :: "u32 \<Rightarrow> bytes option \<Rightarrow> body_msg option \<Rightarrow> bool \<times> body_msg option" where
  "body_decode mid buf out = (case out of
     None \<Rightarrow> (False, None)
   | Some o0 \<Rightarrow>
       let o1 = o0\<lparr>bm_kind := BODY_MSG_NONE\<rparr> in
       if mid = MSG_ID_DOOR_CMD then
         (case buf of
            None \<Rightarrow> (False, Some o1)
          | Some b \<Rightarrow>
              if length b < 1 \<or> b ! 0 > 1 then (False, Some o1)
              else (True, Some (o1\<lparr>bm_u := U_Door_Cmd \<lparr>dc_cmd = door_cmd_of (b ! 0)\<rparr>,
                                   bm_kind := BODY_MSG_DOOR_CMD\<rparr>)))
       else if mid = MSG_ID_LIGHT_CMD then
         (case unpack_light_cmd buf (Some \<lparr>brightness_pct = 0\<rparr>) of
            (True, Some m) \<Rightarrow>
              (True, Some (o1\<lparr>bm_u := U_Light_Cmd m, bm_kind := BODY_MSG_LIGHT_CMD\<rparr>))
          | _ \<Rightarrow> (False, Some o1))
       else if mid = MSG_ID_SENSOR_RPT then
         (case unpack_sensor_report buf (Some \<lparr>ambient_raw = 0, door_ajar = 0\<rparr>) of
            (True, Some m) \<Rightarrow>
              (True, Some (o1\<lparr>bm_u := U_Sensor_Report m, bm_kind := BODY_MSG_SENSOR_REPORT\<rparr>))
          | _ \<Rightarrow> (False, Some o1))
       else (False, Some o1))"

definition body_msg_pdu_len :: "u32 \<Rightarrow> nat" where
  "body_msg_pdu_len mid =
     (if mid = MSG_ID_DOOR_CMD then 1
      else if mid = MSG_ID_LIGHT_CMD then 1
      else if mid = MSG_ID_SENSOR_RPT then 3
      else if mid = MSG_ID_FRESHNESS_SYNC then 2
      else if mid = MSG_ID_GW_FRESHNESS_SYNC then 2
      else 0)"

section \<open>Well-formed messages\<close>

definition light_ok :: "light_cmd_msg \<Rightarrow> bool" where
  "light_ok m \<longleftrightarrow> brightness_pct m \<le> 100"

definition sensor_ok :: "sensor_report_msg \<Rightarrow> bool" where
  "sensor_ok m \<longleftrightarrow> ambient_raw m \<le> 1023 \<and> door_ajar m \<le> 1"

text \<open>What a decoded envelope promises: the member agrees with the kind and is in range.\<close>

fun body_msg_ok :: "body_msg \<Rightarrow> bool" where
  "body_msg_ok m = (case (bm_kind m, bm_u m) of
     (BODY_MSG_NONE, _) \<Rightarrow> True
   | (BODY_MSG_DOOR_CMD, U_Door_Cmd _) \<Rightarrow> True
   | (BODY_MSG_LIGHT_CMD, U_Light_Cmd l) \<Rightarrow> light_ok l
   | (BODY_MSG_SENSOR_REPORT, U_Sensor_Report s) \<Rightarrow> sensor_ok s
   | _ \<Rightarrow> False)"

lemma pack_light_cmd_ok_iff:
  "fst (pack_light_cmd (Some m) (Some b)) = 1 \<longleftrightarrow> light_ok m \<and> 1 \<le> length b"
  by (auto simp: pack_light_cmd_def light_ok_def not_less)

lemma pack_light_cmd_frame: "fst (pack_light_cmd m b) = 0 \<Longrightarrow> snd (pack_light_cmd m b) = b"
  by (auto simp: pack_light_cmd_def split: option.splits if_splits)

lemma pack_sensor_report_frame:
  "fst (pack_sensor_report m b) = 0 \<Longrightarrow> snd (pack_sensor_report m b) = b"
  by (auto simp: pack_sensor_report_def split: option.splits if_splits)

lemma be16_recombine:
  "push_bit 8 (ucast (ucast (drop_bit 8 v) :: u8)) OR ucast (ucast v :: u8) = (v :: u16)"
  by (rule bit_word_eqI) (auto simp: bit_simps)

lemma light_roundtrip:
  assumes "light_ok m" and "1 \<le> length b"
  shows "unpack_light_cmd (snd (pack_light_cmd (Some m) (Some b))) (Some out) = (True, Some m)"
  using assms by (cases b) (auto simp: pack_light_cmd_def unpack_light_cmd_def light_ok_def not_less)

lemma sensor_roundtrip:
  assumes "sensor_ok m" and "3 \<le> length b"
  shows "unpack_sensor_report (snd (pack_sensor_report (Some m) (Some b))) (Some out) = (True, Some m)"
proof -
  obtain x y z r where b: "b = x # y # z # r"
    using assms(2) by (auto simp: numeral_3_eq_3 Suc_le_length_iff)
  have "\<not> 1023 < ambient_raw m" and "\<not> 1 < door_ajar m"
    using assms(1) by (auto simp: sensor_ok_def not_less)
  then show ?thesis
    by (simp add: b pack_sensor_report_def unpack_sensor_report_def be16_recombine Let_def
        numeral_2_eq_2)
qed

lemma body_decode_kind_None:
  "body_decode mid buf (Some o0) = (False, o1) \<Longrightarrow> o1 = Some (o0\<lparr>bm_kind := BODY_MSG_NONE\<rparr>)"
  by (auto simp: body_decode_def Let_def split: if_splits option.splits prod.splits bool.splits)

lemma body_decode_ok:
  "body_decode mid buf out = (True, o1) \<Longrightarrow> \<exists>m. o1 = Some m \<and> body_msg_ok m \<and> bm_kind m \<noteq> BODY_MSG_NONE"
  by (auto simp: body_decode_def Let_def unpack_light_cmd_def unpack_sensor_report_def light_ok_def
      sensor_ok_def not_less split: if_splits option.splits prod.splits bool.splits)

lemma body_decode_length:
  "body_decode mid buf out = (True, o1) \<Longrightarrow>
   \<exists>b. buf = Some b \<and> 0 < body_msg_pdu_len mid \<and> body_msg_pdu_len mid \<le> length b"
  by (auto simp: body_decode_def Let_def unpack_light_cmd_def unpack_sensor_report_def
      body_msg_pdu_len_def not_less msg_id_defs
      split: if_splits option.splits prod.splits bool.splits)

end
