(* ===== verification/Secoc_App.thy ===== *)
theory Secoc_App imports Secoc_Rx Body_Msgs Can_Frame Secoc_Store begin

text \<open>
  The SecOC glue of the two nodes, \<open>node_a_gateway/app/src/secoc_app.c\<close> and
  \<open>node_b_actuator/proj_cm7/src/secoc_app.c\<close>: the frames a node sends are secured under its sender
  context, those it receives go through its receiver.

  The statics are the record \<open>secoc_app\<close>; \<open>g_rx\<close> is the context inside \<open>an_rx\<close>, to which
  \<open>g_secoc_rx\<close> is bound. \<open>cy\<close> is \<open>g_cy\<close>. Local buffers, which the C code leaves uninitialised,
  start as zeros: nothing is read from them that was not written. A result \<open>None\<close> is a call through
  a null store.
\<close>

section \<open>State\<close>

definition SECOC_DOM_TX_SELF :: u8 where "SECOC_DOM_TX_SELF = 0"
definition SECOC_DOM_RX_A :: u8 where "SECOC_DOM_RX_A = 1"
definition SECOC_DOM_RX_B :: u8 where "SECOC_DOM_RX_B = 1"

record 'w secoc_app =
  an_tx :: "'w tx_ctx"
  an_rx :: "'w secoc_rx"
  an_drop_decode :: u32

definition tx_ids_a :: "u16 list" where "tx_ids_a = [0x120, 0x121, 0x1F0]"
definition rx_ids_a :: "u16 list" where "rx_ids_a = [0x200, 0x2F0]"
definition tx_ids_b :: "u16 list" where "tx_ids_b = [0x200, 0x2F0]"
definition rx_ids_b :: "u16 list" where "rx_ids_b = [0x120, 0x121, 0x1F0]"

text \<open>\<open>secoc_app_init\<close> after the store configuration: \<open>mount\<close> is \<open>secoc_store_mount(&sc)\<close>.\<close>

definition secoc_app_init ::
  "'w secoc_crypto \<Rightarrow> ('w \<Rightarrow> store_status \<times> 'w) \<Rightarrow> 'w freshness_store_if \<Rightarrow> u16 list \<Rightarrow> u16 list \<Rightarrow>
   'w \<Rightarrow> 'w secoc_app \<times> 'w" where
  "secoc_app_init cy mount store tids rids w =
     (let (st, w1) = mount w;
          (tx, rx, w2) =
            (if st \<noteq> SECOC_STORE_BROKEN then
               (let (_, tx, w2) = secoc_tx_boot (Some tx_zero) (Some store) SECOC_DOM_TX_SELF (Some tids) w1;
                    (_, rx) = secoc_rx_boot (Some rx_zero) (Some store) SECOC_DOM_RX_A (Some rids) w2
                in (the tx, the rx, w2))
             else (tx_zero, rx_zero, w1)) in
      (\<lparr>an_tx = tx,
        an_rx = the (secoc_rx_set_pdu_len_of (secoc_rx_init (Some secoc_rx_zero) (Some cy) (Some rx)) (Some body_msg_pdu_len)),
        an_drop_decode = 0\<rparr>, w2))"

section \<open>Receiving\<close>

text \<open>Both nodes pass a received frame to the receiver with a 64-byte buffer for the PDU.\<close>

definition rx_frame :: "can_raw_frame \<Rightarrow> 'w secoc_app \<Rightarrow> 'w \<Rightarrow> 'w rx_result option" where
  "rx_frame f s w = secoc_rx_process (Some (an_rx s)) (ucast (cf_id f)) (Some (frame_bytes f))
     (Some (replicate CAN_MAX_DLEN 0)) (Some 0) w"

definition pdu_of :: "'w rx_result \<Rightarrow> bytes" where
  "pdu_of x = take (the (rr_pdu_len x)) (the (rr_pdu x))"

definition secoc_app_verify_and_decode ::
  "can_raw_frame option \<Rightarrow> body_msg option \<Rightarrow> 'w secoc_app \<Rightarrow> 'w \<Rightarrow>
   (bool \<times> body_msg option \<times> 'w secoc_app \<times> log_call list \<times> 'w) option" where
  "secoc_app_verify_and_decode frame out s w =
     (case (frame, out) of
        (Some f, Some _) \<Rightarrow>
          (case rx_frame f s w of
             None \<Rightarrow> None
           | Some x \<Rightarrow>
               let s1 = s\<lparr>an_rx := the (rr_rx x)\<rparr> in
               if rr_verdict x \<noteq> SECOC_RX_ACCEPT then Some (False, out, s1, rr_log x, rr_world x)
               else (case body_decode (cf_id f) (Some (pdu_of x)) out of
                   (False, out') \<Rightarrow>
                     Some (False, out', s1\<lparr>an_drop_decode := an_drop_decode s1 + 1\<rparr>, rr_log x, rr_world x)
                 | (True, out') \<Rightarrow> Some (True, out', s1, rr_log x, rr_world x)))
      | _ \<Rightarrow> Some (False, out, s, [], w))"

text \<open>The gateway's \<open>secoc_app_verify_telemetry\<close> has the same body.\<close>

definition secoc_app_verify_telemetry ::
  "can_raw_frame option \<Rightarrow> body_msg option \<Rightarrow> 'w secoc_app \<Rightarrow> 'w \<Rightarrow>
   (bool \<times> body_msg option \<times> 'w secoc_app \<times> log_call list \<times> 'w) option" where
  "secoc_app_verify_telemetry = secoc_app_verify_and_decode"

definition secoc_app_handle_gw_sync ::
  "can_raw_frame option \<Rightarrow> 'w secoc_app \<Rightarrow> 'w \<Rightarrow> (bool \<times> 'w secoc_app \<times> log_call list \<times> 'w) option" where
  "secoc_app_handle_gw_sync frame s w =
     (case frame of
        None \<Rightarrow> Some (False, s, [], w)
      | Some f \<Rightarrow>
          (case rx_frame f s w of
             None \<Rightarrow> None
           | Some x \<Rightarrow>
               let s1 = s\<lparr>an_rx := the (rr_rx x)\<rparr> in
               if rr_verdict x \<noteq> SECOC_RX_ACCEPT then Some (False, s1, rr_log x, rr_world x)
               else if the (rr_pdu_len x) < 2 then
                 Some (False, s1\<lparr>an_drop_decode := an_drop_decode s1 + 1\<rparr>, rr_log x, rr_world x)
               else
                 let floor = ucast (the (rr_pdu x) ! 0) OR push_bit 8 (ucast (the (rr_pdu x) ! 1)) in
                 (case secoc_rx_sync_adopt (Some (an_tx s1)) (ucast (cf_id f)) floor (rr_world x) of
                    None \<Rightarrow> None
                  | Some (_, tx, l, w2) \<Rightarrow> Some (True, s1\<lparr>an_tx := the tx\<rparr>, rr_log x @ l, w2))))"

text \<open>The gateway's \<open>secoc_app_handle_sync\<close> has the same body, for the actuator's sync.\<close>

definition secoc_app_handle_sync ::
  "can_raw_frame option \<Rightarrow> 'w secoc_app \<Rightarrow> 'w \<Rightarrow> (bool \<times> 'w secoc_app \<times> log_call list \<times> 'w) option" where
  "secoc_app_handle_sync = secoc_app_handle_gw_sync"

section \<open>Sending\<close>

definition frame_zero :: can_raw_frame where
  "frame_zero = \<lparr>cf_id = 0, cf_flags = 0, cf_len = 0, cf_data = replicate CAN_MAX_DLEN 0\<rparr>"

definition build_secured ::
  "'w secoc_crypto \<Rightarrow> u16 \<Rightarrow> bytes \<Rightarrow> can_raw_frame \<Rightarrow> 'w secoc_app \<Rightarrow> 'w \<Rightarrow>
   (bool \<times> can_raw_frame \<times> 'w secoc_app \<times> 'w) option" where
  "build_secured cy can_id pdu out s w =
     (case secoc_tx_next (Some (an_tx s)) can_id (Some (0, 0)) w of
        None \<Rightarrow> None
      | Some (ok, tx, ec, w1) \<Rightarrow>
          let s1 = s\<lparr>an_tx := the tx\<rparr> in
          if \<not> ok then Some (False, out, s1, w1)
          else
            (case secoc_secure (Some cy) can_id (fst (the ec)) (snd (the ec)) (Some pdu) (Some (cf_data out)) w1 of
               (n, data, w2) \<Rightarrow>
                 let out1 = out\<lparr>cf_data := the data\<rparr> in
                 if n = 0 then Some (False, out1, s1, w2)
                 else Some (True, out1\<lparr>cf_id := ucast can_id, cf_flags := CAN_FLAG_FDF, cf_len := of_nat n\<rparr>, s1, w2)))"

definition secoc_app_build_telemetry ::
  "'w secoc_crypto \<Rightarrow> sensor_report_msg option \<Rightarrow> can_raw_frame option \<Rightarrow> 'w secoc_app \<Rightarrow> 'w \<Rightarrow>
   (bool \<times> can_raw_frame option \<times> 'w secoc_app \<times> 'w) option" where
  "secoc_app_build_telemetry cy rpt out s w =
     (case (rpt, out) of
        (Some _, Some f) \<Rightarrow>
          (case pack_sensor_report rpt (Some (replicate 8 0)) of
             (plen, pdu) \<Rightarrow>
               if plen = 0 then Some (False, out, s, w)
               else map_option (\<lambda>(b, g, s', w'). (b, Some g, s', w'))
                      (build_secured cy (ucast MSG_ID_SENSOR_RPT) (take plen (the pdu)) f s w))
      | _ \<Rightarrow> Some (False, out, s, w))"

definition rx_floor_of :: "'w secoc_app \<Rightarrow> u16" where
  "rx_floor_of s = rx_floor (the (r_fresh (an_rx s)))"

text \<open>The boot sync of either node carries the floor of its receiver, under its own identifier.\<close>

definition build_sync ::
  "u32 \<Rightarrow> 'w secoc_crypto \<Rightarrow> can_raw_frame option \<Rightarrow> 'w secoc_app \<Rightarrow> 'w \<Rightarrow>
   (bool \<times> can_raw_frame option \<times> 'w secoc_app \<times> 'w) option" where
  "build_sync mid cy out s w =
     (case out of
        None \<Rightarrow> Some (False, out, s, w)
      | Some f \<Rightarrow>
          let pdu = [ucast (rx_floor_of s AND 0xFF), ucast (drop_bit 8 (rx_floor_of s) AND 0xFF)] in
          map_option (\<lambda>(b, g, s', w'). (b, Some g, s', w')) (build_secured cy (ucast mid) pdu f s w))"

definition secoc_app_build_boot_sync ::
  "'w secoc_crypto \<Rightarrow> can_raw_frame option \<Rightarrow> 'w secoc_app \<Rightarrow> 'w \<Rightarrow>
   (bool \<times> can_raw_frame option \<times> 'w secoc_app \<times> 'w) option" where
  "secoc_app_build_boot_sync = build_sync MSG_ID_FRESHNESS_SYNC"

definition gw_build_boot_sync ::
  "'w secoc_crypto \<Rightarrow> can_raw_frame option \<Rightarrow> 'w secoc_app \<Rightarrow> 'w \<Rightarrow>
   (bool \<times> can_raw_frame option \<times> 'w secoc_app \<times> 'w) option" where
  "gw_build_boot_sync = build_sync MSG_ID_GW_FRESHNESS_SYNC"

definition secoc_app_build_door_cmd ::
  "'w secoc_crypto \<Rightarrow> bool \<Rightarrow> can_raw_frame option \<Rightarrow> 'w secoc_app \<Rightarrow> 'w \<Rightarrow>
   (bool \<times> can_raw_frame option \<times> 'w secoc_app \<times> 'w) option" where
  "secoc_app_build_door_cmd cy locked out s w =
     (case out of
        None \<Rightarrow> Some (False, out, s, w)
      | Some f \<Rightarrow>
          map_option (\<lambda>(b, g, s', w'). (b, Some g, s', w'))
            (build_secured cy (ucast MSG_ID_DOOR_CMD) [if locked then 0 else 1] f s w))"

definition secoc_app_build_light_cmd ::
  "'w secoc_crypto \<Rightarrow> u8 \<Rightarrow> can_raw_frame option \<Rightarrow> 'w secoc_app \<Rightarrow> 'w \<Rightarrow>
   (bool \<times> can_raw_frame option \<times> 'w secoc_app \<times> 'w) option" where
  "secoc_app_build_light_cmd cy pct out s w =
     (case out of
        None \<Rightarrow> Some (False, out, s, w)
      | Some f \<Rightarrow>
          (case pack_light_cmd (Some \<lparr>brightness_pct = pct\<rparr>) (Some [0]) of
             (plen, pdu) \<Rightarrow>
               if plen = 0 then Some (False, out, s, w)
               else map_option (\<lambda>(b, g, s', w'). (b, Some g, s', w'))
                      (build_secured cy (ucast MSG_ID_LIGHT_CMD) (take plen (the pdu)) f s w)))"

section \<open>What sending keeps\<close>

text \<open>Sending never touches the receiver or what the actuator counts.\<close>

lemma build_secured_keeps:
  "build_secured cy i p f s w = Some (b, g, s', w') \<Longrightarrow> an_rx s' = an_rx s \<and> an_drop_decode s' = an_drop_decode s"
  by (auto simp: build_secured_def Let_def split: option.splits prod.splits if_splits)

lemma build_telemetry_keeps:
  "secoc_app_build_telemetry cy r f s w = Some (b, g, s', w') \<Longrightarrow> an_rx s' = an_rx s"
  by (auto simp: secoc_app_build_telemetry_def split: option.splits prod.splits if_splits
      dest!: build_secured_keeps)

lemma build_sync_keeps:
  "build_sync mid cy f s w = Some (b, g, s', w') \<Longrightarrow> an_rx s' = an_rx s"
  by (auto simp: build_sync_def Let_def split: option.splits prod.splits dest!: build_secured_keeps)

text \<open>A sender whose boot failed, or whose store was broken, has no identifiers and sends nothing.\<close>

lemma build_secured_unbooted:
  assumes "tx_id_count (an_tx s) = 0"
  shows "build_secured cy i p f s w = Some (False, f, s, w)"
  using assms by (simp add: build_secured_def secoc_tx_next_def find_slot_def)

end
