(* ===== verification/Node_B.thy ===== *)
theory Node_B imports Secoc_App begin

text \<open>
  Node B, the actuator: \<open>actuator_fsm.c\<close> and one pass of the task loop of \<open>can_task.c\<close>
  (\<open>node_b_actuator/proj_cm7/src\<close>), in the real-bus build (\<open>CAN_LOOPBACK_TEST = 0\<close>, no echo, no status
  report).

  A pass takes what it reads from outside, that is the frame dequeued within the poll time if there
  is one, the door switch, and the controller's answer to the sync frame, and returns what it did to
  the outside, in order: frames handed to the controller, commands applied, the light pin, log calls.
\<close>

section \<open>The actuator\<close>

record actuator =
  ac_door_locked :: bool
  ac_light_pct :: u8

definition actuator_fsm_init :: actuator where
  "actuator_fsm_init = \<lparr>ac_door_locked = True, ac_light_pct = 0\<rparr>"

text \<open>The kind names the member that was written last (\<open>body_msg_ok\<close>), so the inner defaults do not occur.\<close>

definition actuator_fsm_apply :: "body_msg option \<Rightarrow> actuator \<Rightarrow> actuator" where
  "actuator_fsm_apply msg s =
     (case msg of
        None \<Rightarrow> s
      | Some m \<Rightarrow>
          (case bm_kind m of
             BODY_MSG_DOOR_CMD \<Rightarrow>
               (case bm_u m of U_Door_Cmd d \<Rightarrow> s\<lparr>ac_door_locked := (dc_cmd d = DOOR_LOCK)\<rparr> | _ \<Rightarrow> s)
           | BODY_MSG_LIGHT_CMD \<Rightarrow>
               (case bm_u m of U_Light_Cmd l \<Rightarrow> s\<lparr>ac_light_pct := brightness_pct l\<rparr> | _ \<Rightarrow> s)
           | _ \<Rightarrow> s))"

section \<open>State and effects\<close>

record 'w node_b =
  nb_app :: "'w secoc_app"
  nb_act :: actuator
  nb_sync_sent :: bool
  nb_last_ajar :: bool
  nb_last_pct :: u8
  nb_rx_count :: u32
  nb_last_id :: u32

record pass_in =
  pi_frame :: "can_raw_frame option"
  pi_ajar :: bool
  pi_tx_ok :: bool

datatype effect = Eff_Tx bus_frame | Eff_Apply can_raw_frame body_msg | Eff_Led bool | Eff_Log log_call

text \<open>The state at the start of the task: \<open>can_task_create\<close> with its calls of the two init functions.\<close>

definition node_b_init ::
  "'w secoc_crypto \<Rightarrow> ('w \<Rightarrow> store_status \<times> 'w) \<Rightarrow> 'w freshness_store_if \<Rightarrow> 'w \<Rightarrow> 'w node_b \<times> 'w" where
  "node_b_init cy mount store w =
     (case secoc_app_init cy mount store tx_ids_b rx_ids_b w of (a, w') \<Rightarrow>
       (\<lparr>nb_app = a, nb_act = actuator_fsm_init, nb_sync_sent = False, nb_last_ajar = False, nb_last_pct = 0xFF,
         nb_rx_count = 0, nb_last_id = 0\<rparr>, w'))"

section \<open>One pass\<close>

definition light_output_update :: "'w node_b \<Rightarrow> 'w node_b \<times> effect list" where
  "light_output_update s =
     (let pct = ac_light_pct (nb_act s); led = Eff_Led (pct > 0) in
      if pct \<noteq> nb_last_pct s then (s\<lparr>nb_last_pct := pct\<rparr>, [led, Eff_Log (LOG_EVT_DBG_U32, ucast pct, 0x3520)])
      else (s, [led]))"

text \<open>The sync of the first passes, until one was handed over. A failed copy in \<open>can_tx\<close> is a fault.\<close>

definition sync_phase :: "'w secoc_crypto \<Rightarrow> bool \<Rightarrow> 'w node_b \<Rightarrow> 'w \<Rightarrow> ('w node_b \<times> effect list \<times> 'w) option" where
  "sync_phase cy tx_ok s w =
     (if nb_sync_sent s then Some (s, [], w)
      else
        (case secoc_app_build_boot_sync cy (Some frame_zero) (nb_app s) w of
           None \<Rightarrow> None
         | Some (built, f, a, w1) \<Rightarrow>
             let s1 = s\<lparr>nb_app := a\<rparr> in
             if \<not> built then Some (s1, [], w1)
             else (case can_tx (the f) of
                 None \<Rightarrow> None
               | Some b \<Rightarrow> Some (s1\<lparr>nb_sync_sent := tx_ok\<rparr>, [Eff_Tx b], w1))))"

text \<open>The body message is a local of the branch, uninitialised; \<open>body_decode\<close> writes its kind first.\<close>

definition body_msg_junk :: body_msg where
  "body_msg_junk = \<lparr>bm_kind = BODY_MSG_NONE, bm_u = U_Light_Cmd \<lparr>brightness_pct = 0\<rparr>\<rparr>"

definition rx_phase :: "can_raw_frame \<Rightarrow> 'w node_b \<Rightarrow> 'w \<Rightarrow> ('w node_b \<times> effect list \<times> 'w) option" where
  "rx_phase f s w =
     (let s1 = s\<lparr>nb_rx_count := nb_rx_count s + 1, nb_last_id := cf_id f\<rparr> in
      if cf_id f = MSG_ID_DOOR_CMD \<or> cf_id f = MSG_ID_LIGHT_CMD then
        (case secoc_app_verify_and_decode (Some f) (Some body_msg_junk) (nb_app s1) w of
           None \<Rightarrow> None
         | Some (ok, msg, a, l, w1) \<Rightarrow>
             let s2 = s1\<lparr>nb_app := a\<rparr> in
             if \<not> ok then Some (s2, map Eff_Log l, w1)
             else
               (case light_output_update (s2\<lparr>nb_act := actuator_fsm_apply msg (nb_act s2)\<rparr>) of
                  (s3, eff) \<Rightarrow> Some (s3, map Eff_Log l @ Eff_Apply f (the msg) # eff, w1)))
      else if cf_id f = MSG_ID_GW_FRESHNESS_SYNC then
        (case secoc_app_handle_gw_sync (Some f) (nb_app s1) w of
           None \<Rightarrow> None
         | Some (_, a, l, w1) \<Rightarrow> Some (s1\<lparr>nb_app := a\<rparr>, map Eff_Log l, w1))
      else Some (s1, [], w))"

definition telemetry_phase ::
  "'w secoc_crypto \<Rightarrow> bool \<Rightarrow> 'w node_b \<Rightarrow> 'w \<Rightarrow> ('w node_b \<times> effect list \<times> 'w) option" where
  "telemetry_phase cy ajar s w =
     (let (s1, l) = (if ajar \<noteq> nb_last_ajar s
            then (s\<lparr>nb_last_ajar := ajar\<rparr>, [Eff_Log (LOG_EVT_DBG_U32, if ajar then 1 else 0, 0x3521)])
            else (s, []));
          rpt = \<lparr>ambient_raw = 0, door_ajar = (if ajar then 1 else 0)\<rparr> in
      (case secoc_app_build_telemetry cy (Some rpt) (Some frame_zero) (nb_app s1) w of
         None \<Rightarrow> None
       | Some (built, f, a, w1) \<Rightarrow>
           let s2 = s1\<lparr>nb_app := a\<rparr> in
           if \<not> built then Some (s2, l, w1)
           else (case can_tx (the f) of None \<Rightarrow> None | Some b \<Rightarrow> Some (s2, l @ [Eff_Tx b], w1))))"

definition can_task_pass ::
  "'w secoc_crypto \<Rightarrow> pass_in \<Rightarrow> 'w node_b \<Rightarrow> 'w \<Rightarrow> ('w node_b \<times> effect list \<times> 'w) option" where
  "can_task_pass cy inp s w =
     (case sync_phase cy (pi_tx_ok inp) s w of
        None \<Rightarrow> None
      | Some (s1, eff1, w1) \<Rightarrow>
          (case (case pi_frame inp of Some f \<Rightarrow> rx_phase f s1 w1 | None \<Rightarrow> telemetry_phase cy (pi_ajar inp) s1 w1) of
             None \<Rightarrow> None
           | Some (s2, eff2, w2) \<Rightarrow> Some (s2, eff1 @ eff2, w2)))"

section \<open>The commands a pass applies\<close>

text \<open>The frames whose commands were applied, and their freshness values.\<close>

fun applied :: "effect list \<Rightarrow> (can_raw_frame \<times> body_msg) list" where
  "applied [] = []"
| "applied (Eff_Apply f m # es) = (f, m) # applied es"
| "applied (e # es) = applied es"

lemma applied_append [simp]: "applied (xs @ ys) = applied xs @ applied ys"
  by (induction xs rule: applied.induct) auto

lemma applied_logs [simp]: "applied (map Eff_Log l) = []"
  by (induction l) auto

lemma light_output_keeps [simp]:
  "nb_act (fst (light_output_update s)) = nb_act s" "nb_app (fst (light_output_update s)) = nb_app s"
  "nb_sync_sent (fst (light_output_update s)) = nb_sync_sent s"
  "applied (snd (light_output_update s)) = []"
  by (simp_all add: light_output_update_def Let_def)

definition applied_id :: "can_raw_frame \<times> body_msg \<Rightarrow> fresh_id" where
  "applied_id fm = frame_fresh_id (ucast (cf_id (fst fm))) (frame_bytes (fst fm)) (body_msg_pdu_len (cf_id (fst fm)))"

lemma sync_phase_keeps:
  assumes "sync_phase cy t s w = Some (s', eff, w')"
  shows "nb_act s' = nb_act s" and "an_rx (nb_app s') = an_rx (nb_app s)" and "applied eff = []"
  using assms
  by (auto simp: sync_phase_def secoc_app_build_boot_sync_def Let_def split: if_splits option.splits prod.splits
      dest!: build_sync_keeps)

lemma telemetry_phase_keeps:
  assumes "telemetry_phase cy a s w = Some (s', eff, w')"
  shows "nb_act s' = nb_act s" and "an_rx (nb_app s') = an_rx (nb_app s)" and "applied eff = []"
  using assms
  by (auto simp: telemetry_phase_def Let_def split: if_splits option.splits prod.splits
      dest!: build_telemetry_keeps)

text \<open>
  What is applied comes from the frame of the pass, accepted by the receiver and decoded, and the
  actuator moves by exactly that.
\<close>

lemma rx_phase_applied:
  assumes "rx_phase f s w = Some (s', eff, w')"
  shows "(applied eff = [] \<and> nb_act s' = nb_act s) \<or>
    (\<exists>x m. rx_frame f (nb_app s) w = Some x \<and> rr_verdict x = SECOC_RX_ACCEPT \<and> rr_world x = w' \<and>
      an_rx (nb_app s') = the (rr_rx x) \<and> cf_id f \<in> {MSG_ID_DOOR_CMD, MSG_ID_LIGHT_CMD} \<and>
      body_decode (cf_id f) (Some (pdu_of x)) (Some body_msg_junk) = (True, Some m) \<and>
      applied eff = [(f, m)] \<and> nb_act s' = actuator_fsm_apply (Some m) (nb_act s))"
proof (cases "cf_id f = MSG_ID_DOOR_CMD \<or> cf_id f = MSG_ID_LIGHT_CMD")
  case False
  then show ?thesis using assms by (auto simp: rx_phase_def Let_def split: if_splits option.splits prod.splits)
next
  case True
  let ?s = "s\<lparr>nb_rx_count := nb_rx_count s + 1, nb_last_id := cf_id f\<rparr>"
  obtain ok msg a l where v: "secoc_app_verify_and_decode (Some f) (Some body_msg_junk) (nb_app s) w = Some (ok, msg, a, l, w')"
    and r: "if ok then s' = fst (light_output_update (?s\<lparr>nb_app := a, nb_act := actuator_fsm_apply msg (nb_act s)\<rparr>)) \<and>
        eff = map Eff_Log l @ Eff_Apply f (the msg) # snd (light_output_update (?s\<lparr>nb_app := a, nb_act := actuator_fsm_apply msg (nb_act s)\<rparr>))
      else s' = ?s\<lparr>nb_app := a\<rparr> \<and> eff = map Eff_Log l"
  proof -
    obtain ok msg a l w1 where v: "secoc_app_verify_and_decode (Some f) (Some body_msg_junk) (nb_app s) w = Some (ok, msg, a, l, w1)"
      using assms True
      by (cases "secoc_app_verify_and_decode (Some f) (Some body_msg_junk) (nb_app s) w") (auto simp: rx_phase_def Let_def)
    show thesis
      by (rule that [of ok msg a l])
        (use assms True v in \<open>auto simp: rx_phase_def Let_def case_prod_beta split: if_splits\<close>)
  qed
  show ?thesis
  proof (cases ok)
    case False
    then show ?thesis using r by simp
  next
    case ok: True
    with v obtain x where x: "rx_frame f (nb_app s) w = Some x" "rr_verdict x = SECOC_RX_ACCEPT" "rr_world x = w'"
        "a = (nb_app s)\<lparr>an_rx := the (rr_rx x)\<rparr>"
        "body_decode (cf_id f) (Some (pdu_of x)) (Some body_msg_junk) = (True, msg)"
      by (auto simp: secoc_app_verify_and_decode_def Let_def split: option.splits if_splits prod.splits bool.splits)
    obtain m where m: "msg = Some m" using body_decode_ok [OF x(5)] by blast
    let ?t = "light_output_update (?s\<lparr>nb_app := a, nb_act := actuator_fsm_apply msg (nb_act s)\<rparr>)"
    have "s' = fst ?t" "eff = map Eff_Log l @ Eff_Apply f (the msg) # snd ?t" using r ok by simp_all
    then have "nb_act s' = actuator_fsm_apply (Some m) (nb_act s)" "an_rx (nb_app s') = the (rr_rx x)" "applied eff = [(f, m)]"
      using m x(4) by simp_all
    then show ?thesis using x True m by blast
  qed
qed

section \<open>Fail closed\<close>

text \<open>
  A node whose store was found broken: sender and receiver stay unbound, nothing is sent, nothing
  received is applied.
\<close>

definition unbooted :: "'w node_b \<Rightarrow> bool" where
  "unbooted s \<longleftrightarrow> tx_id_count (an_tx (nb_app s)) = 0 \<and>
     (\<exists>c. r_fresh (an_rx (nb_app s)) = Some c \<and> rx_id_count c = 0)"

lemma unbooted_init:
  assumes "fst (mount w) = SECOC_STORE_BROKEN"
  shows "unbooted (fst (node_b_init cy mount store w))"
  using assms
  by (cases "mount w") (simp add: unbooted_def node_b_init_def secoc_app_init_def secoc_rx_set_pdu_len_of_def
      secoc_rx_init_def secoc_rx_zero_def tx_zero_def rx_zero_def)

lemma unbooted_check: "rx_id_count c = 0 \<Longrightarrow> secoc_rx_check (Some c) i e n = SECOC_FRESH_UNKNOWN"
  by (simp add: secoc_rx_check_def find_slot_def)

lemma unbooted_process:
  assumes "r_fresh r = Some c" and "rx_id_count c = 0"
    and "secoc_rx_process (Some r) i f pdu len w = Some x"
  shows "rr_verdict x \<noteq> SECOC_RX_ACCEPT \<and> r_fresh (the (rr_rx x)) = Some c \<and> r_cy (the (rr_rx x)) = r_cy r"
  using assms(3)
proof (cases rule: rx_process_cases)
  case (fresh outs w1 b f' w2)
  then show ?thesis using assms(1,2) by (simp add: unbooted_check)
qed (use assms in \<open>auto simp: rx_return_simps\<close>)

lemma unbooted_process_no_fault:
  assumes "r_fresh r = Some c" and "rx_id_count c = 0"
  shows "secoc_rx_process (Some r) i f pdu len w \<noteq> None"
  using assms by (auto simp: secoc_rx_process_def Let_def unbooted_check split: prod.splits)

lemma unbooted_pass:
  assumes "unbooted s"
  shows "\<exists>s' eff w'. can_task_pass cy inp s w = Some (s', eff, w') \<and> unbooted s' \<and> nb_act s' = nb_act s \<and>
    (\<forall>e \<in> set eff. \<exists>l. e = Eff_Log l)"
proof -
  obtain c where c: "tx_id_count (an_tx (nb_app s)) = 0" "r_fresh (an_rx (nb_app s)) = Some c" "rx_id_count c = 0"
    using assms by (auto simp: unbooted_def)
  have sync: "sync_phase cy t s w = Some (s, [], w)" for t
    using c(1) by (simp add: sync_phase_def secoc_app_build_boot_sync_def build_sync_def build_secured_unbooted Let_def)
  have tele: "\<exists>s' eff. telemetry_phase cy a s w = Some (s', eff, w) \<and> unbooted s' \<and> nb_act s' = nb_act s \<and>
      (\<forall>e \<in> set eff. \<exists>l. e = Eff_Log l)" for a
    using c by (simp add: telemetry_phase_def secoc_app_build_telemetry_def build_secured_unbooted pack_sensor_report_def
        unbooted_def Let_def)
  have rx: "\<exists>s' eff w'. rx_phase f s w = Some (s', eff, w') \<and> unbooted s' \<and> nb_act s' = nb_act s \<and>
      (\<forall>e \<in> set eff. \<exists>l. e = Eff_Log l)" for f
  proof -
    obtain x where x: "rx_frame f (nb_app s) w = Some x"
      using unbooted_process_no_fault [OF c(2,3)] unfolding rx_frame_def by blast
    note p = unbooted_process [OF c(2,3) x [unfolded rx_frame_def]]
    show ?thesis using x p c
      by (auto simp: rx_phase_def secoc_app_verify_and_decode_def secoc_app_handle_gw_sync_def unbooted_def Let_def)
  qed
  show ?thesis
  proof (cases "pi_frame inp")
    case None
    obtain s' eff where "telemetry_phase cy (pi_ajar inp) s w = Some (s', eff, w)" "unbooted s'" "nb_act s' = nb_act s"
      "\<forall>e \<in> set eff. \<exists>l. e = Eff_Log l" using tele by blast
    then show ?thesis using None sync by (simp add: can_task_pass_def)
  next
    case (Some f)
    obtain s' eff w' where "rx_phase f s w = Some (s', eff, w')" "unbooted s'" "nb_act s' = nb_act s"
      "\<forall>e \<in> set eff. \<exists>l. e = Eff_Log l" using rx by blast
    then show ?thesis using Some sync by (simp add: can_task_pass_def)
  qed
qed

text \<open>A run: the passes one after the other.\<close>

fun b_run :: "'w secoc_crypto \<Rightarrow> pass_in list \<Rightarrow> 'w node_b \<Rightarrow> 'w \<Rightarrow> ('w node_b \<times> effect list \<times> 'w) option" where
  "b_run cy [] s w = Some (s, [], w)"
| "b_run cy (inp # inps) s w =
     (case can_task_pass cy inp s w of
        None \<Rightarrow> None
      | Some (s1, eff1, w1) \<Rightarrow> map_option (\<lambda>(s2, eff2, w2). (s2, eff1 @ eff2, w2)) (b_run cy inps s1 w1))"

lemma unbooted_run:
  assumes "unbooted s"
  shows "\<exists>s' eff w'. b_run cy inps s w = Some (s', eff, w') \<and> nb_act s' = nb_act s \<and> (\<forall>e \<in> set eff. \<exists>l. e = Eff_Log l)"
  using assms
proof (induction inps arbitrary: s w)
  case Nil
  then show ?case by simp
next
  case (Cons inp inps)
  obtain s1 eff1 w1 where p: "can_task_pass cy inp s w = Some (s1, eff1, w1)" "unbooted s1" "nb_act s1 = nb_act s"
    "\<forall>e \<in> set eff1. \<exists>l. e = Eff_Log l"
    using unbooted_pass [OF Cons.prems] by blast
  obtain s2 eff2 w2 where "b_run cy inps s1 w1 = Some (s2, eff2, w2)" "nb_act s2 = nb_act s1" "\<forall>e \<in> set eff2. \<exists>l. e = Eff_Log l"
    using Cons.IH [OF p(2)] by blast
  then show ?case using p by auto
qed

section \<open>Where a pass can fault\<close>

text \<open>
  The contexts a pass works on: a context that was booted has its store, one that was not has no
  identifiers. The one call that does not look at the identifiers first is the adoption of a floor.
\<close>

definition tx_safe :: "'w tx_ctx \<Rightarrow> bool" where
  "tx_safe c \<longleftrightarrow> tx_id_count c = 0 \<or> store_ok (tx_store c)"

definition rx_safe :: "'w secoc_rx \<Rightarrow> bool" where
  "rx_safe r \<longleftrightarrow> (\<exists>c. r_fresh r = Some c \<and> (rx_id_count c = 0 \<or> store_ok (rx_store c)))"

definition b_safe :: "'w secoc_app \<Rightarrow> bool" where
  "b_safe a \<longleftrightarrow> tx_safe (an_tx a) \<and> rx_safe (an_rx a)"

lemma commit_via_ok: "store_ok st \<Longrightarrow> \<exists>b w'. commit_via st d e w = Some (b, w')"
  by (auto simp: store_ok_def commit_via_def split: option.splits)

lemma tx_next_safe:
  assumes "tx_safe c"
  shows "\<exists>b c' o' w'. secoc_tx_next (Some c) i (Some o0) w = Some (b, Some c', Some o', w') \<and> tx_safe c' \<and>
    tx_store c' = tx_store c"
proof (cases "tx_id_count c = 0")
  case True
  then show ?thesis using assms by (intro exI [of _ False]) (simp add: secoc_tx_next_def find_slot_def)
next
  case False
  then have s: "store_ok (tx_store c)" using assms by (simp add: tx_safe_def)
  obtain b w' where "commit_via (tx_store c) (tx_domain c) (tx_epoch c + 1) w = Some (b, w')" using commit_via_ok [OF s] by blast
  then show ?thesis using s
    by (cases b) (auto simp: secoc_tx_next_def tx_safe_def Let_def split: option.splits)
qed

lemma secure_buf:
  assumes "secoc_secure cy i e c p (Some ob) w = (n, d, w')"
  shows "\<exists>x. d = Some x \<and> n \<le> length ob \<and> n \<le> length x"
  using assms
  by (auto simp: secoc_secure_def Let_def secoc_consts overwrite_def min_def split: option.splits if_splits prod.splits)

lemma build_secured_safe:
  assumes "tx_safe (an_tx s)" and "length (cf_data f) = CAN_MAX_DLEN"
  shows "\<exists>b g s' w'. build_secured cy i p f s w = Some (b, g, s', w') \<and> tx_safe (an_tx s') \<and>
    tx_store (an_tx s') = tx_store (an_tx s) \<and> an_rx s' = an_rx s \<and> (b \<longrightarrow> can_tx g \<noteq> None)"
proof -
  obtain b c' o' w1 where t: "secoc_tx_next (Some (an_tx s)) i (Some (0, 0)) w = Some (b, Some c', Some o', w1)"
    "tx_safe c'" "tx_store c' = tx_store (an_tx s)"
    using tx_next_safe [OF assms(1)] by blast
  obtain n d w2 where q: "secoc_secure (Some cy) i (fst o') (snd o') (Some p) (Some (cf_data f)) w1 = (n, d, w2)"
    by (metis prod_cases3)
  obtain x where x: "d = Some x" "n \<le> 64" "n \<le> length x" using secure_buf [OF q] assms(2) by (auto simp: CAN_MAX_DLEN_def)
  then show ?thesis using t q
    by (cases b; cases "n = 0") (auto simp: build_secured_def can_tx_def copy_in_def CAN_MAX_DLEN_def unat_of_nat)
qed

lemma sync_safe:
  assumes "b_safe (nb_app s)"
  shows "\<exists>s' eff w'. sync_phase cy t s w = Some (s', eff, w') \<and> b_safe (nb_app s') \<and>
    tx_store (an_tx (nb_app s')) = tx_store (an_tx (nb_app s))"
proof -
  let ?p = "[ucast (rx_floor_of (nb_app s) AND 0xFF), ucast (drop_bit 8 (rx_floor_of (nb_app s)) AND 0xFF)]"
  have l: "length (cf_data frame_zero) = CAN_MAX_DLEN" by (simp add: frame_zero_def)
  obtain b g a w' where "build_secured cy (ucast MSG_ID_FRESHNESS_SYNC) ?p frame_zero (nb_app s) w = Some (b, g, a, w')"
    "tx_safe (an_tx a)" "tx_store (an_tx a) = tx_store (an_tx (nb_app s))" "an_rx a = an_rx (nb_app s)" "b \<longrightarrow> can_tx g \<noteq> None"
    using build_secured_safe [OF _ l, of "nb_app s" cy] assms unfolding b_safe_def by blast
  then show ?thesis using assms
    by (cases b) (auto simp: sync_phase_def secoc_app_build_boot_sync_def build_sync_def Let_def b_safe_def)
qed

lemma telemetry_safe:
  assumes "b_safe (nb_app s)"
  shows "\<exists>s' eff w'. telemetry_phase cy t s w = Some (s', eff, w') \<and> b_safe (nb_app s') \<and>
    tx_store (an_tx (nb_app s')) = tx_store (an_tx (nb_app s))"
proof -
  let ?r = "Some \<lparr>ambient_raw = 0, door_ajar = (if t then 1 else 0 :: u8)\<rparr>"
  have l: "length (cf_data frame_zero) = CAN_MAX_DLEN" by (simp add: frame_zero_def)
  obtain n pdu where p: "pack_sensor_report ?r (Some (replicate 8 0)) = (n, pdu)" "n \<noteq> 0"
    by (cases t) (auto simp: pack_sensor_report_def)
  obtain b g a w' where "build_secured cy (ucast MSG_ID_SENSOR_RPT) (take n (the pdu)) frame_zero (nb_app s) w = Some (b, g, a, w')"
    "tx_safe (an_tx a)" "tx_store (an_tx a) = tx_store (an_tx (nb_app s))" "an_rx a = an_rx (nb_app s)" "b \<longrightarrow> can_tx g \<noteq> None"
    using build_secured_safe [OF _ l, of "nb_app s" cy] assms unfolding b_safe_def by blast
  then show ?thesis using assms p
    by (cases b; cases "t = nb_last_ajar s") (auto simp: telemetry_phase_def secoc_app_build_telemetry_def Let_def b_safe_def)
qed

lemma rx_safe_process:
  assumes "rx_safe r"
  shows "\<exists>x r'. secoc_rx_process (Some r) i f pdu len w = Some x \<and> rr_rx x = Some r' \<and> rx_safe r'"
proof -
  obtain c where c: "r_fresh r = Some c" "rx_id_count c = 0 \<or> store_ok (rx_store c)" using assms by (auto simp: rx_safe_def)
  have acc: "\<exists>b c' w'. secoc_rx_accept (Some c) i e n v = Some (b, Some c', w') \<and> (rx_id_count c' = 0 \<or> store_ok (rx_store c'))"
    if "secoc_rx_check (Some c) i e n = SECOC_FRESH_OK" for e n v
  proof -
    have s: "store_ok (rx_store c)" using c(2) that unbooted_check [of c i e n] by auto
    obtain b w' where "commit_via (rx_store c) (rx_domain c) e v = Some (b, w')" using commit_via_ok [OF s] by blast
    then show ?thesis using s by (cases b) (auto simp: secoc_rx_accept_def Let_def split: option.splits)
  qed
  have "secoc_rx_process (Some r) i f pdu len w \<noteq> None"
    using c(1) acc by (auto simp: secoc_rx_process_def Let_def split: prod.splits option.splits bool.splits) (metis option.distinct(1))
  then obtain x where x: "secoc_rx_process (Some r) i f pdu len w = Some x" by blast
  have "\<exists>r'. rr_rx x = Some r' \<and> rx_safe r'" using x
  proof (cases rule: rx_process_cases)
    case (fresh outs w1 b f' w2)
    then show ?thesis using acc [of "the (o_epoch outs)" "the (o_counter outs)" w1] c
      by (auto simp: rx_return_simps rx_safe_def split: if_splits)
  qed (use assms in \<open>auto simp: rx_return_simps rx_safe_def\<close>)
  then show ?thesis using x by blast
qed

lemma verify_and_decode_safe:
  assumes "b_safe a"
  shows "\<exists>b o' a' l w'. secoc_app_verify_and_decode (Some f) (Some o0) a w = Some (b, o', a', l, w') \<and> b_safe a' \<and>
    an_tx a' = an_tx a"
proof -
  obtain x r' where x: "rx_frame f a w = Some x" "rr_rx x = Some r'" "rx_safe r'"
    using rx_safe_process assms unfolding rx_frame_def b_safe_def by metis
  obtain b o' where d: "body_decode (cf_id f) (Some (pdu_of x)) (Some o0) = (b, o')" by (metis surj_pair)
  show ?thesis using x d assms
    by (cases b; cases "rr_verdict x = SECOC_RX_ACCEPT") (simp_all add: secoc_app_verify_and_decode_def b_safe_def ex_bool_eq)
qed

lemma gw_sync_safe:
  assumes "b_safe a" and "store_ok (tx_store (an_tx a))"
  shows "\<exists>b a' l w'. secoc_app_handle_gw_sync (Some f) a w = Some (b, a', l, w') \<and> b_safe a' \<and>
    tx_store (an_tx a') = tx_store (an_tx a)"
proof -
  obtain x r' where x: "rx_frame f a w = Some x" "rr_rx x = Some r'" "rx_safe r'"
    using rx_safe_process assms(1) unfolding rx_frame_def b_safe_def by metis
  have ad: "\<exists>b t' l w'. secoc_rx_sync_adopt (Some (an_tx a)) i fl v = Some (b, Some t', l, w') \<and> tx_safe t' \<and>
      tx_store t' = tx_store (an_tx a)" for i fl v
  proof -
    obtain b w' where "commit_via (tx_store (an_tx a)) (tx_domain (an_tx a)) fl v = Some (b, w')"
      using commit_via_ok [OF assms(2)] by blast
    then show ?thesis using assms
      by (cases b) (auto simp: secoc_rx_sync_adopt_def secoc_tx_adopt_floor_def b_safe_def tx_safe_def Let_def)
  qed
  let ?fl = "ucast (the (rr_pdu x) ! 0) OR push_bit 8 (ucast (the (rr_pdu x) ! 1)) :: u16"
  obtain b t' l w' where "secoc_rx_sync_adopt (Some (an_tx a)) (ucast (cf_id f)) ?fl (rr_world x) = Some (b, Some t', l, w')"
    "tx_safe t'" "tx_store t' = tx_store (an_tx a)"
    using ad by blast
  then show ?thesis using x assms
    by (cases "rr_verdict x = SECOC_RX_ACCEPT"; cases "the (rr_pdu_len x) < 2")
      (simp_all add: secoc_app_handle_gw_sync_def b_safe_def Let_def ex_bool_eq)
qed

text \<open>A pass does not fault, unless a sync of the gateway reaches a sender whose boot failed.\<close>

lemma pass_safe:
  assumes "b_safe (nb_app s)"
    and "\<And>f. pi_frame inp = Some f \<Longrightarrow> cf_id f = MSG_ID_GW_FRESHNESS_SYNC \<Longrightarrow> store_ok (tx_store (an_tx (nb_app s)))"
  shows "\<exists>s' eff w'. can_task_pass cy inp s w = Some (s', eff, w') \<and> b_safe (nb_app s') \<and>
    tx_store (an_tx (nb_app s')) = tx_store (an_tx (nb_app s))"
proof -
  obtain s1 eff1 w1 where s1: "sync_phase cy (pi_tx_ok inp) s w = Some (s1, eff1, w1)" "b_safe (nb_app s1)"
    "tx_store (an_tx (nb_app s1)) = tx_store (an_tx (nb_app s))"
    using sync_safe [OF assms(1)] by blast
  show ?thesis
  proof (cases "pi_frame inp")
    case None
    then show ?thesis using s1 telemetry_safe [OF s1(2), of cy "pi_ajar inp" w1] by (auto simp: can_task_pass_def)
  next
    case (Some f)
    have "\<exists>s' eff w'. rx_phase f s1 w1 = Some (s', eff, w') \<and> b_safe (nb_app s') \<and>
      tx_store (an_tx (nb_app s')) = tx_store (an_tx (nb_app s1))"
    proof (cases "cf_id f = MSG_ID_DOOR_CMD \<or> cf_id f = MSG_ID_LIGHT_CMD")
      case True
      obtain b o' a' l w' where v: "secoc_app_verify_and_decode (Some f) (Some body_msg_junk) (nb_app s1) w1 = Some (b, o', a', l, w')"
        "b_safe a'" "an_tx a' = an_tx (nb_app s1)"
        using verify_and_decode_safe [OF s1(2)] by blast
      then show ?thesis using True by (cases b) (simp_all add: rx_phase_def case_prod_beta Let_def)
    next
      case False
      then show ?thesis
        using assms(2) [OF Some] s1 gw_sync_safe [OF s1(2), of f w1] by (auto simp: rx_phase_def Let_def)
    qed
    then show ?thesis using s1 Some by (auto simp: can_task_pass_def)
  qed
qed

lemma run_safe:
  assumes "b_safe (nb_app s)"
    and "(\<forall>inp \<in> set inps. \<forall>f. pi_frame inp = Some f \<longrightarrow> cf_id f \<noteq> MSG_ID_GW_FRESHNESS_SYNC) \<or>
      store_ok (tx_store (an_tx (nb_app s)))"
  shows "b_run cy inps s w \<noteq> None"
  using assms
proof (induction inps arbitrary: s w)
  case Nil
  then show ?case by simp
next
  case (Cons inp inps)
  obtain s1 eff w1 where p: "can_task_pass cy inp s w = Some (s1, eff, w1)" "b_safe (nb_app s1)"
    "tx_store (an_tx (nb_app s1)) = tx_store (an_tx (nb_app s))"
    using pass_safe [OF Cons.prems(1), of inp cy w] Cons.prems(2) by auto
  have "b_run cy inps s1 w1 \<noteq> None" using Cons.IH [OF p(2)] Cons.prems(2) p(3) by auto
  then show ?case using p(1) by auto
qed

text \<open>Init leaves safe contexts, with the store in the sender's exactly when its boot succeeded.\<close>

lemma init_safe:
  assumes "store_ok (Some store)" and "node_b_init cy mount store w = (s, w')"
  shows "b_safe (nb_app s) \<and> tx_store (an_tx (nb_app s)) \<in> {None, Some store}"
proof -
  have tx: "tx_safe (the c) \<and> tx_store (the c) \<in> {None, Some store}"
    if "secoc_tx_boot (Some tx_zero) (Some store) d (Some ids) v = (b, c, v')" for d ids v b c v'
    using that assms(1) by (auto simp: secoc_tx_boot_def tx_safe_def tx_zero_def Let_def split: if_splits prod.splits bool.splits)
  have rx: "\<exists>x. c = Some x \<and> (rx_id_count x = 0 \<or> store_ok (rx_store x))"
    if "secoc_rx_boot (Some rx_zero) (Some store) d (Some ids) v = (b, c)" for d ids v b c
    using that assms(1) by (auto simp: secoc_rx_boot_def rx_zero_def Let_def split: if_splits)
  have z: "tx_safe tx_zero" "tx_store tx_zero = None" "rx_id_count rx_zero = 0" by (simp_all add: tx_safe_def tx_zero_def rx_zero_def)
  show ?thesis
    using assms(2) tx rx z
    by (auto simp: node_b_init_def secoc_app_init_def secoc_rx_init_def secoc_rx_set_pdu_len_of_def secoc_rx_zero_def
        b_safe_def rx_safe_def Let_def split: prod.splits if_splits) fastforce+
qed

text \<open>That exception: an accepted sync that asks for any floor, at a sender that never booted.\<close>

lemma sync_after_failed_boot_faults:
  assumes "rx_frame f a w = Some x" and "rr_verdict x = SECOC_RX_ACCEPT" and "the (rr_pdu_len x) \<ge> 2"
    and "an_tx a = tx_zero" and "the (rr_pdu x) ! 0 \<noteq> 0"
  shows "secoc_app_handle_gw_sync (Some f) a w = None"
proof -
  let ?b = "the (rr_pdu x) ! 0" and ?h = "the (rr_pdu x) ! 1"
  have "ucast ?b OR push_bit 8 (ucast ?h) \<noteq> (0 :: u16)"
  proof
    assume "ucast ?b OR push_bit 8 (ucast ?h) = (0 :: u16)"
    then have "ucast ?b = (0 :: u16)" by (simp add: or_eq_0_iff)
    moreover have "ucast (ucast ?b :: u16) = ?b" by (rule bit_word_eqI) (simp add: bit_simps)
    ultimately have "?b = 0" by simp
    then show False using assms(5) by simp
  qed
  then show ?thesis using assms
    by (simp add: secoc_app_handle_gw_sync_def secoc_rx_sync_adopt_def secoc_tx_adopt_floor_def tx_zero_def commit_via_def Let_def)
qed

end
