(* ===== verification/Node_B_Life.thy ===== *)
theory Node_B_Life imports Node_B Node_World begin

text \<open>
  Node B over its life: passes of the task and reboots with a power cut at any flash step, over the
  world of \<open>Node_World\<close> (the link to the security core, the store over the work flash). The result is
  that no command frame is applied twice, whatever the bus delivers.
\<close>

section \<open>Receiver facts\<close>

lemma process_keeps:
  assumes "secoc_rx_process (Some r) i f pdu len w = Some x"
  shows "r_pdu_len_of (the (rr_rx x)) = r_pdu_len_of r \<and> r_cy (the (rr_rx x)) = r_cy r"
  using assms by (cases rule: rx_process_cases) (auto simp: rx_return_simps)

lemma verify_len_pdu_len:
  assumes "secoc_verify_len cy i f n outs w = (SECOC_OK, outs', w')"
  shows "o_pdu_len outs' = Some n"
  using assms
  by (auto simp: secoc_verify_len_def verify_core_def Let_def split: if_splits prod.splits option.splits)

lemma accept_pdu_len:
  assumes "secoc_rx_process (Some r) i f pdu len w = Some x" and "rr_verdict x = SECOC_RX_ACCEPT"
    and "r_pdu_len_of r = Some g" and "g (ucast i) \<noteq> 0"
  shows "rr_pdu_len x = Some (g (ucast i))"
  using assms(1)
proof (cases rule: rx_process_cases)
  case (fresh outs w1 b f' w2)
  have "secoc_verify_len (r_cy r) i f (g (ucast i)) \<lparr>o_epoch = Some 0, o_counter = Some 0, o_pdu = pdu, o_pdu_len = Some 0\<rparr> w =
      (SECOC_OK, outs, w1)"
    using fresh(1) assms(3,4) by (simp add: rx_verify_def)
  then show ?thesis using fresh(4) assms(2) verify_len_pdu_len by (auto simp: rx_return_simps split: if_splits)
qed (use assms(2) in \<open>auto simp: rx_return_simps\<close>)

lemma command_pdu_len:
  "cf_id f \<in> {MSG_ID_DOOR_CMD, MSG_ID_LIGHT_CMD} \<Longrightarrow>
    body_msg_pdu_len (ucast (ucast (cf_id f) :: u16)) = body_msg_pdu_len (cf_id f) \<and> body_msg_pdu_len (cf_id f) \<noteq> 0"
  by (auto simp: msg_id_defs body_msg_pdu_len_def)

section \<open>The life of the node\<close>

datatype 'k b_event = B_Pass pass_in | B_Reboot 'k

text \<open>
  \<open>pwr\<close> is the power cut: RAM is lost, and the flash is what the step left; the node then starts again
  from its init. The run records what was applied and the receiver's persisted epoch before each event.
\<close>

fun b_life ::
  "'w secoc_crypto \<Rightarrow> ('w \<Rightarrow> store_status \<times> 'w) \<Rightarrow> 'w freshness_store_if \<Rightarrow> ('k \<Rightarrow> 'w \<Rightarrow> 'w) \<Rightarrow>
   'k b_event list \<Rightarrow> 'w node_b \<times> 'w \<Rightarrow> (fresh_id list \<times> u16 list) option" where
  "b_life cy mount store pwr [] (s, w) = Some ([], [stored_epoch store SECOC_DOM_RX_A w])"
| "b_life cy mount store pwr (B_Pass inp # evs) (s, w) =
     (case can_task_pass cy inp s w of
        None \<Rightarrow> None
      | Some (s', eff, w') \<Rightarrow>
          (case b_life cy mount store pwr evs (s', w') of
             None \<Rightarrow> None
           | Some (outs, hist) \<Rightarrow>
               Some (map applied_id (applied eff) @ outs, stored_epoch store SECOC_DOM_RX_A w # hist)))"
| "b_life cy mount store pwr (B_Reboot k # evs) (s, w) =
     map_option (\<lambda>(outs, hist). (outs, stored_epoch store SECOC_DOM_RX_A w # hist))
       (b_life cy mount store pwr evs (node_b_init cy mount store (pwr k w)))"

locale node_b_device = protected_receiver m tag ld cm reboot ok
  for m :: "'w mac_fn" and tag and ld :: "u8 \<Rightarrow> 'w \<Rightarrow> u16 option" and cm
    and reboot :: "'k \<Rightarrow> 'w \<Rightarrow> 'w" and ok +
  fixes mount :: "'w \<Rightarrow> store_status \<times> 'w" and pwr :: "'k \<Rightarrow> 'w \<Rightarrow> 'w"
  assumes reboot_mount: "reboot k w = snd (mount (pwr k w))"
begin

text \<open>A receiver that was bound to a booted context, or one that was left unbound by a broken store.\<close>

definition dead :: "'w secoc_crypto \<Rightarrow> 'w secoc_rx \<Rightarrow> bool" where
  "dead cy r \<longleftrightarrow> r_cy r = Some cy \<and> (\<exists>c. r_fresh r = Some c \<and> rx_id_count c = 0)"

definition rx_ok :: "nat \<Rightarrow> 'w secoc_crypto \<Rightarrow> 'w secoc_rx \<Rightarrow> 'w \<Rightarrow> fresh_id set \<Rightarrow> bool" where
  "rx_ok n cy r w acc \<longleftrightarrow> r_pdu_len_of r = Some body_msg_pdu_len \<and>
     (\<exists>r0. receiver_ok n cy SECOC_DOM_RX_A rx_ids_b r0 w acc \<and> (r = r0 \<or> dead cy r))"

definition sender_ok :: "'w tx_ctx \<Rightarrow> bool" where
  "sender_ok c \<longleftrightarrow> tx_store c = None \<or> tx_store c = Some port \<and> tx_domain c = SECOC_DOM_TX_SELF"

lemma ids_b: "rx_ids_b \<noteq> []" "length rx_ids_b \<le> SECOC_MAX_IDS"
  by (simp_all add: rx_ids_b_def SECOC_MAX_IDS_def)

lemma receiver_ok_world:
  assumes "receiver_ok n cy d ids r w acc" and "ok k w'" and "persisted d w' = persisted d w"
  shows "receiver_ok k cy d ids r w' acc"
  using assms by (auto simp: receiver_ok_def rx_sound_def)

lemma receiver_ok_medium: "receiver_ok n cy d ids r w acc \<Longrightarrow> ok n w"
  by (auto simp: receiver_ok_def rx_sound_def)

lemma rx_ok_world:
  assumes "rx_ok n cy r w acc" and "ok k w'" and "persisted SECOC_DOM_RX_A w' = persisted SECOC_DOM_RX_A w"
  shows "rx_ok k cy r w' acc"
  using assms receiver_ok_world unfolding rx_ok_def by blast

lemma rx_ok_medium: "rx_ok n cy r w acc \<Longrightarrow> ok n w"
  by (auto simp: rx_ok_def dest: receiver_ok_medium)

lemma rx_ok_less: "rx_ok (Suc n) cy r w acc \<Longrightarrow> rx_ok n cy r w acc"
  by (rule rx_ok_world) (auto intro: ok_less rx_ok_medium)

text \<open>What the sender's side does to the world leaves the receiver alone.\<close>

lemma rx_ok_commit:
  assumes "rx_ok (Suc n) cy r w acc" and "cm SECOC_DOM_TX_SELF e w = (b, w')"
  shows "rx_ok n cy r w' acc \<and> persisted SECOC_DOM_RX_A w' = persisted SECOC_DOM_RX_A w"
  by (intro conjI rx_ok_world [OF assms(1)])
    (use commit_ok [OF rx_ok_medium [OF assms(1)] assms(2)]
      persisted_commit(3) [OF rx_ok_medium [OF assms(1)] assms(2), of SECOC_DOM_RX_A]
     in \<open>auto simp: SECOC_DOM_RX_A_def SECOC_DOM_TX_SELF_def\<close>)

lemma rx_ok_mac: "rx_ok n cy r w acc \<Longrightarrow> m k msg w = (t, w') \<Longrightarrow> rx_ok n cy r w' acc"
  by (rule rx_ok_world) (auto simp: persisted_def mac_load intro: mac_ok rx_ok_medium)

lemma tx_next_world:
  assumes "secoc_tx_next (Some c) i (Some p) w = Some (b, c'', o', w')" and "sender_ok c"
  shows "(w' = w \<or> (\<exists>e b. cm SECOC_DOM_TX_SELF e w = (b, w'))) \<and> sender_ok (the c'')"
  using assms
  by (auto simp: secoc_tx_next_def sender_ok_def commit_via_def port_def Let_def split: option.splits if_splits prod.splits bool.splits)

lemma tx_adopt_world:
  assumes "secoc_rx_sync_adopt (Some c) i f w = Some (b, c'', l, w')" and "sender_ok c"
  shows "(w' = w \<or> (\<exists>e b. cm SECOC_DOM_TX_SELF e w = (b, w'))) \<and> sender_ok (the c'')"
  using assms
  by (auto simp: secoc_rx_sync_adopt_def secoc_tx_adopt_floor_def sender_ok_def commit_via_def port_def Let_def
      split: option.splits if_splits prod.splits bool.splits)

lemma secure_world:
  assumes "secoc_secure (Some cy) i e c pdu out w = (n, out', w')" and "crypto_mac_of (Some cy) = Some (key, m)"
  shows "w' = w \<or> (\<exists>msg t. m key msg w = (t, w'))"
  using assms by (auto simp: secoc_secure_def Let_def split: option.splits prod.splits if_splits)

lemma build_secured_ok:
  assumes b: "build_secured cy i p f s w = Some (b, g, s', w')" and t: "sender_ok (an_tx s)"
    and r: "rx_ok (Suc n) cy r w acc" and cy: "crypto_mac_of (Some cy) = Some (key, m)"
  shows "rx_ok n cy r w' acc \<and> sender_ok (an_tx s') \<and> persisted SECOC_DOM_RX_A w' = persisted SECOC_DOM_RX_A w"
proof -
  obtain ok tx ec w1 where n: "secoc_tx_next (Some (an_tx s)) i (Some (0, 0)) w = Some (ok, tx, ec, w1)"
    and s': "an_tx s' = the tx"
    and sec: "w' = w1 \<or> (\<exists>k d. secoc_secure (Some cy) i (fst (the ec)) (snd (the ec)) (Some p) (Some (cf_data f)) w1 = (k, d, w'))"
    using b by (auto simp: build_secured_def Let_def split: option.splits prod.splits if_splits)
  have w': "w' = w1 \<or> (\<exists>k msg t. m k msg w1 = (t, w'))" using sec secure_world [OF _ cy] by metis
  have "rx_ok n cy r w1 acc \<and> persisted SECOC_DOM_RX_A w1 = persisted SECOC_DOM_RX_A w"
    using tx_next_world [OF n t] rx_ok_less [OF r] rx_ok_commit [OF r] by blast
  moreover have "persisted SECOC_DOM_RX_A w' = persisted SECOC_DOM_RX_A w1" using w' mac_load by (auto simp: persisted_def)
  ultimately show ?thesis using w' s' tx_next_world [OF n t] rx_ok_mac by auto
qed

text \<open>A frame through the receiver.\<close>

lemma rx_frame_ok:
  assumes r: "rx_ok (Suc n) cy (an_rx s) w acc" and nw: "persisted SECOC_DOM_RX_A w \<noteq> 0xFFFF"
    and cy: "crypto_mac_of (Some cy) = Some (key, m)" and x: "rx_frame f s w = Some x"
  shows "\<exists>new. rx_ok n cy (the (rr_rx x)) (rr_world x) (acc \<union> set new) \<and> set new \<inter> acc = {} \<and>
    (rr_verdict x = SECOC_RX_ACCEPT \<longrightarrow> new = [frame_fresh_id (ucast (cf_id f)) (frame_bytes f) (the (rr_pdu_len x))])"
proof -
  obtain r0 where r0: "receiver_ok (Suc n) cy SECOC_DOM_RX_A rx_ids_b r0 w acc" "an_rx s = r0 \<or> dead cy (an_rx s)"
    and pl: "r_pdu_len_of (an_rx s) = Some body_msg_pdu_len"
    using r by (auto simp: rx_ok_def)
  note pk = process_keeps [OF x [unfolded rx_frame_def]]
  show ?thesis
  proof (cases "dead cy (an_rx s)")
    case True
    then obtain c where c: "r_cy (an_rx s) = Some cy" "r_fresh (an_rx s) = Some c" "rx_id_count c = 0"
      by (auto simp: dead_def)
    note u = unbooted_process [OF c(2,3) x [unfolded rx_frame_def]]
    have "ok (Suc n) (rr_world x) \<and> persisted SECOC_DOM_RX_A (rr_world x) = persisted SECOC_DOM_RX_A w"
      using x [unfolded rx_frame_def]
    proof (cases rule: rx_process_cases)
      case (fresh outs w1 b f' w2)
      then show ?thesis using c by (simp add: unbooted_check)
    qed (use receiver_ok_medium [OF r0(1)] rx_verify_world [where k = "Suc n" and d = SECOC_DOM_RX_A] c cy
         in \<open>auto simp: rx_return_simps\<close>)
    then have "receiver_ok n cy SECOC_DOM_RX_A rx_ids_b r0 (rr_world x) acc"
      using receiver_ok_world [OF r0(1)] ok_less by blast
    moreover have "dead cy (the (rr_rx x))" using u c by (simp add: dead_def)
    ultimately show ?thesis using u pk pl by (intro exI [of _ "[]"]) (auto simp: rx_ok_def)
  next
    case False
    then have r0: "receiver_ok (Suc n) cy SECOC_DOM_RX_A rx_ids_b (an_rx s) w acc" using r0 by simp
    let ?out = "if rr_verdict x = SECOC_RX_ACCEPT
      then [frame_fresh_id (ucast (cf_id f)) (frame_bytes f) (the (rr_pdu_len x))] else []"
    have "rx_step cy None port reboot SECOC_DOM_RX_A rx_ids_b (replicate CAN_MAX_DLEN 0)
        (Rx_Frame (ucast (cf_id f)) (frame_bytes f)) (an_rx s, w) = Some (the (rr_rx x), rr_world x, ?out)"
      using x by (simp add: rx_frame_def)
    from rx_step_ok [OF r0 nw cy ids_b this] show ?thesis
      using pk pl by (intro exI [of _ ?out]) (auto simp: rx_ok_def)
  qed
qed

text \<open>The three parts of a pass, each within one or two saves of the store.\<close>

lemma sync_phase_ok:
  assumes p: "sync_phase cy t s w = Some (s', eff, w')" and s: "sender_ok (an_tx (nb_app s))"
    and r: "rx_ok (Suc n) cy (an_rx (nb_app s)) w acc" and cy: "crypto_mac_of (Some cy) = Some (key, m)"
  shows "rx_ok n cy (an_rx (nb_app s')) w' acc \<and> sender_ok (an_tx (nb_app s')) \<and>
    persisted SECOC_DOM_RX_A w' = persisted SECOC_DOM_RX_A w"
proof (cases "nb_sync_sent s")
  case True
  then show ?thesis using p s rx_ok_less [OF r] by (simp add: sync_phase_def)
next
  case False
  then obtain b g f i pdu a where b: "build_secured cy i pdu f (nb_app s) w = Some (b, g, a, w')" and a: "nb_app s' = a"
    using p by (auto simp: sync_phase_def secoc_app_build_boot_sync_def build_sync_def Let_def
        split: option.splits prod.splits if_splits)
  then show ?thesis using build_secured_ok [OF b s r cy] build_secured_keeps [OF b] by simp
qed

lemma telemetry_phase_ok:
  assumes p: "telemetry_phase cy t s w = Some (s', eff, w')" and s: "sender_ok (an_tx (nb_app s))"
    and r: "rx_ok (Suc n) cy (an_rx (nb_app s)) w acc" and cy: "crypto_mac_of (Some cy) = Some (key, m)"
  shows "rx_ok n cy (an_rx (nb_app s')) w' acc \<and> sender_ok (an_tx (nb_app s'))"
proof -
  let ?rpt = "\<lparr>ambient_raw = 0, door_ajar = (if t then 1 else 0)\<rparr>"
  obtain b g a where b: "secoc_app_build_telemetry cy (Some ?rpt) (Some frame_zero) (nb_app s) w = Some (b, g, a, w')"
    and a: "nb_app s' = a"
    using p by (auto simp: telemetry_phase_def Let_def split: option.splits prod.splits if_splits)
  then obtain b' f pdu g' where "build_secured cy (ucast MSG_ID_SENSOR_RPT) pdu f (nb_app s) w = Some (b', g', a, w')"
    by (auto simp: secoc_app_build_telemetry_def pack_sensor_report_def split: option.splits prod.splits if_splits)
  then show ?thesis using build_secured_ok [OF _ s r cy] build_secured_keeps a by metis
qed

lemma verify_and_decode_rx:
  assumes "secoc_app_verify_and_decode (Some f) (Some o0) s w = Some (vd, msg, a, l, w')"
  obtains x where "rx_frame f s w = Some x" "an_rx a = the (rr_rx x)" "an_tx a = an_tx s" "w' = rr_world x"
  using assms
  by (auto simp: secoc_app_verify_and_decode_def Let_def split: option.splits if_splits prod.splits bool.splits)

lemma handle_gw_sync_ok:
  assumes h: "secoc_app_handle_gw_sync (Some f) s w = Some (vd, a, l, w')" and s: "sender_ok (an_tx s)"
    and r: "rx_ok (Suc (Suc n)) cy (an_rx s) w acc" and nw: "persisted SECOC_DOM_RX_A w \<noteq> 0xFFFF"
    and cy: "crypto_mac_of (Some cy) = Some (key, m)"
  shows "\<exists>new. rx_ok n cy (an_rx a) w' (acc \<union> set new) \<and> set new \<inter> acc = {} \<and> sender_ok (an_tx a)"
proof -
  obtain x where x: "rx_frame f s w = Some x" and a: "an_rx a = the (rr_rx x)"
    and w': "(w' = rr_world x \<and> an_tx a = an_tx s) \<or>
      (\<exists>i fl b tx l. secoc_rx_sync_adopt (Some (an_tx s)) i fl (rr_world x) = Some (b, tx, l, w') \<and> an_tx a = the tx)"
    using h by (auto simp: secoc_app_handle_gw_sync_def Let_def split: option.splits if_splits prod.splits) blast+
  obtain new where new: "rx_ok (Suc n) cy (an_rx a) (rr_world x) (acc \<union> set new)" "set new \<inter> acc = {}"
    using rx_frame_ok [OF r nw cy x] a by auto
  have "rx_ok n cy (an_rx a) w' (acc \<union> set new) \<and> sender_ok (an_tx a)"
    using w'
  proof (elim disjE exE conjE)
    fix i fl b tx l assume d: "secoc_rx_sync_adopt (Some (an_tx s)) i fl (rr_world x) = Some (b, tx, l, w')" "an_tx a = the tx"
    show ?thesis using tx_adopt_world [OF d(1) s] d(2) rx_ok_less [OF new(1)] rx_ok_commit [OF new(1)] by auto
  qed (use s rx_ok_less [OF new(1)] in simp)
  then show ?thesis using new(2) by blast
qed

lemma rx_phase_ok:
  assumes p: "rx_phase f s w = Some (s', eff, w')" and s: "sender_ok (an_tx (nb_app s))"
    and r: "rx_ok (Suc (Suc n)) cy (an_rx (nb_app s)) w acc" and nw: "persisted SECOC_DOM_RX_A w \<noteq> 0xFFFF"
    and cy: "crypto_mac_of (Some cy) = Some (key, m)"
  shows "\<exists>new. rx_ok n cy (an_rx (nb_app s')) w' (acc \<union> set new) \<and> set new \<inter> acc = {} \<and>
    sender_ok (an_tx (nb_app s')) \<and> set (map applied_id (applied eff)) \<subseteq> set new \<and> distinct (map applied_id (applied eff))"
proof (cases "cf_id f = MSG_ID_DOOR_CMD \<or> cf_id f = MSG_ID_LIGHT_CMD")
  case True
  have "\<exists>vd msg l. secoc_app_verify_and_decode (Some f) (Some body_msg_junk) (nb_app s) w = Some (vd, msg, nb_app s', l, w')"
    using p True by (auto simp: rx_phase_def Let_def light_output_update_def split: option.splits prod.splits if_splits)
  then obtain x where x: "rx_frame f (nb_app s) w = Some x" "an_rx (nb_app s') = the (rr_rx x)"
      "an_tx (nb_app s') = an_tx (nb_app s)" "w' = rr_world x"
    using verify_and_decode_rx by metis
  obtain new where new: "rx_ok (Suc n) cy (the (rr_rx x)) (rr_world x) (acc \<union> set new)" "set new \<inter> acc = {}"
    "rr_verdict x = SECOC_RX_ACCEPT \<longrightarrow> new = [frame_fresh_id (ucast (cf_id f)) (frame_bytes f) (the (rr_pdu_len x))]"
    using rx_frame_ok [OF r nw cy x(1)] by blast
  have "applied eff = [] \<or> (\<exists>msg. applied eff = [(f, msg)] \<and> new = [applied_id (f, msg)])"
    using rx_phase_applied [OF p]
  proof (elim disjE exE conjE)
    fix y msg assume y: "rx_frame f (nb_app s) w = Some y" "rr_verdict y = SECOC_RX_ACCEPT" "applied eff = [(f, msg)]"
    have yx: "y = x" using y(1) x(1) by simp
    have pl: "r_pdu_len_of (an_rx (nb_app s)) = Some body_msg_pdu_len" using r by (auto simp: rx_ok_def)
    have id: "cf_id f \<in> {MSG_ID_DOOR_CMD, MSG_ID_LIGHT_CMD}" using True by blast
    have "rr_pdu_len x = Some (body_msg_pdu_len (cf_id f))"
      using accept_pdu_len [OF x(1) [unfolded rx_frame_def] y(2) [unfolded yx] pl] command_pdu_len [OF id] by simp
    then show ?thesis using new(3) y(2,3) unfolding yx by (simp add: applied_id_def)
  qed simp
  then show ?thesis using new(2) rx_ok_less [OF new(1)] x s by (intro exI [of _ new]) auto
next
  case nc: False
  show ?thesis
  proof (cases "cf_id f = MSG_ID_GW_FRESHNESS_SYNC")
    case True
    obtain vd l where "secoc_app_handle_gw_sync (Some f) (nb_app s) w = Some (vd, nb_app s', l, w')" "applied eff = []"
      using p nc True by (auto simp: rx_phase_def Let_def split: option.splits prod.splits if_splits)
    then show ?thesis using handle_gw_sync_ok [OF _ s r nw cy] by fastforce
  next
    case False
    then have "nb_app s' = nb_app s" "w' = w" "eff = []" using p nc by (auto simp: rx_phase_def Let_def)
    then show ?thesis using rx_ok_less [OF rx_ok_less [OF r]] s by (intro exI [of _ "[]"]) simp
  qed
qed

lemma pass_ok:
  assumes p: "can_task_pass cy inp s w = Some (s', eff, w')" and s: "sender_ok (an_tx (nb_app s))"
    and r: "rx_ok (Suc (Suc (Suc n))) cy (an_rx (nb_app s)) w acc" and nw: "persisted SECOC_DOM_RX_A w \<noteq> 0xFFFF"
    and cy: "crypto_mac_of (Some cy) = Some (key, m)"
  shows "\<exists>new. rx_ok n cy (an_rx (nb_app s')) w' (acc \<union> set new) \<and> set new \<inter> acc = {} \<and>
    sender_ok (an_tx (nb_app s')) \<and> set (map applied_id (applied eff)) \<subseteq> set new \<and> distinct (map applied_id (applied eff))"
proof -
  obtain s1 eff1 w1 eff2 where s1: "sync_phase cy (pi_tx_ok inp) s w = Some (s1, eff1, w1)"
    and s2: "(case pi_frame inp of Some f \<Rightarrow> rx_phase f s1 w1 | None \<Rightarrow> telemetry_phase cy (pi_ajar inp) s1 w1) = Some (s', eff2, w')"
    and eff: "eff = eff1 @ eff2"
    using p by (auto simp: can_task_pass_def split: option.splits)
  note k = sync_phase_ok [OF s1 s r cy]
  have a1: "applied eff = applied eff2" using sync_phase_keeps(3) [OF s1] eff by simp
  show ?thesis
  proof (cases "pi_frame inp")
    case None
    with s2 have t: "telemetry_phase cy (pi_ajar inp) s1 w1 = Some (s', eff2, w')" by simp
    have "rx_ok (Suc n) cy (an_rx (nb_app s')) w' acc \<and> sender_ok (an_tx (nb_app s'))"
      using telemetry_phase_ok [OF t _ _ cy] k by blast
    then show ?thesis using a1 telemetry_phase_keeps(3) [OF t] by (intro exI [of _ "[]"]) (simp add: rx_ok_less)
  next
    case (Some f)
    with s2 have t: "rx_phase f s1 w1 = Some (s', eff2, w')" by simp
    have nw1: "persisted SECOC_DOM_RX_A w1 \<noteq> 0xFFFF" using k nw by simp
    show ?thesis unfolding a1 using rx_phase_ok [OF t _ _ nw1 cy] k by blast
  qed
qed

text \<open>Starting again after a power cut.\<close>

lemma rx_start_load:
  assumes "ld d w' = ld d w"
  shows "rx_start cy plen port d ids w' = rx_start cy plen port d ids w"
  using assms by (simp add: rx_start_def secoc_rx_boot_def port_def)

lemma tx_boot_world:
  assumes "secoc_tx_boot (Some tx_zero) (Some port) SECOC_DOM_TX_SELF (Some ids) w = (b, c, w')"
  shows "(w' = w \<or> (\<exists>e b. cm SECOC_DOM_TX_SELF e w = (b, w'))) \<and> sender_ok (the c)"
  using assms
  by (auto simp: secoc_tx_boot_def sender_ok_def tx_zero_def port_def Let_def split: if_splits prod.splits bool.splits)

lemma init_ok:
  assumes R: "receiver_ok (Suc n) cy SECOC_DOM_RX_A rx_ids_b
      (rx_start cy (Some body_msg_pdu_len) port SECOC_DOM_RX_A rx_ids_b (reboot k w)) (reboot k w) acc"
    and i: "node_b_init cy mount port (pwr k w) = (s, w')"
  shows "rx_ok n cy (an_rx (nb_app s)) w' acc \<and> sender_ok (an_tx (nb_app s))"
proof -
  obtain st where st: "mount (pwr k w) = (st, reboot k w)" using reboot_mount [of k w] by (metis prod.collapse)
  let ?r0 = "rx_start cy (Some body_msg_pdu_len) port SECOC_DOM_RX_A rx_ids_b (reboot k w)"
  have R0: "rx_ok (Suc n) cy ?r0 (reboot k w) acc"
    using R by (auto simp: rx_ok_def rx_start_eq)
  show ?thesis
  proof (cases "st = SECOC_STORE_BROKEN")
    case True
    then have s: "w' = reboot k w" "an_tx (nb_app s) = tx_zero"
      "an_rx (nb_app s) = secoc_rx_zero\<lparr>r_cy := Some cy, r_pdu_len_of := Some body_msg_pdu_len, r_fresh := Some rx_zero\<rparr>"
      using i st by (auto simp: node_b_init_def secoc_app_init_def secoc_rx_init_def secoc_rx_set_pdu_len_of_def secoc_rx_zero_def)
    have "dead cy (an_rx (nb_app s))" unfolding s by (simp add: dead_def rx_zero_def)
    moreover have "receiver_ok n cy SECOC_DOM_RX_A rx_ids_b ?r0 (reboot k w) acc"
      using receiver_ok_world [OF R] ok_less [OF receiver_ok_medium [OF R]] by blast
    ultimately show ?thesis unfolding rx_ok_def s(1) by (auto simp: s(2,3) sender_ok_def tx_zero_def)
  next
    case False
    obtain b tx w2 where t: "secoc_tx_boot (Some tx_zero) (Some port) SECOC_DOM_TX_SELF (Some tx_ids_b) (reboot k w) = (b, tx, w2)"
      by (metis prod_cases3)
    obtain c' where c': "snd (secoc_rx_boot (Some rx_zero) (Some port) SECOC_DOM_RX_A (Some rx_ids_b) w2) = Some c'"
      using ids_b by (auto simp: secoc_rx_boot_def Let_def)
    have s: "w' = w2" "an_tx (nb_app s) = the tx"
      "an_rx (nb_app s) = rx_start cy (Some body_msg_pdu_len) port SECOC_DOM_RX_A rx_ids_b w2"
      using i st t False c' by (auto simp: node_b_init_def secoc_app_init_def rx_start_def split: prod.splits)
    note tw = tx_boot_world [OF t]
    have m: "ok (Suc n) (reboot k w)" by (rule receiver_ok_medium [OF R])
    have "ld SECOC_DOM_RX_A w2 = ld SECOC_DOM_RX_A (reboot k w)"
      using tw commit_other [OF m, of SECOC_DOM_TX_SELF] by (auto simp: SECOC_DOM_RX_A_def SECOC_DOM_TX_SELF_def)
    then have "an_rx (nb_app s) = ?r0" using s(3) rx_start_load by metis
    then show ?thesis using tw R0 rx_ok_less [OF R0] rx_ok_commit [OF R0] s(1,2) by auto
  qed
qed

lemma reboot_ok:
  assumes r: "rx_ok (Suc (Suc n)) cy r w acc" and nw: "persisted SECOC_DOM_RX_A w \<noteq> 0xFFFF"
    and cy: "crypto_mac_of (Some cy) = Some (key, m)"
    and i: "node_b_init cy mount port (pwr k w) = (s, w')"
  shows "rx_ok n cy (an_rx (nb_app s)) w' acc \<and> sender_ok (an_tx (nb_app s))"
proof -
  obtain r0 where r0: "receiver_ok (Suc (Suc n)) cy SECOC_DOM_RX_A rx_ids_b r0 w acc" using r by (auto simp: rx_ok_def)
  have "rx_step cy (Some body_msg_pdu_len) port reboot SECOC_DOM_RX_A rx_ids_b [] (Rx_Reboot k) (r0, w) =
      Some (rx_start cy (Some body_msg_pdu_len) port SECOC_DOM_RX_A rx_ids_b (reboot k w), reboot k w, [])" by simp
  from rx_step_ok [OF r0 nw cy ids_b this] show ?thesis by (intro init_ok [OF _ i]) simp
qed

lemma b_life_distinct:
  assumes "b_life cy mount port pwr evs (s, w) = Some (outs, hist)" and "0xFFFF \<notin> set hist"
    and "sender_ok (an_tx (nb_app s))" and "rx_ok (3 * length evs) cy (an_rx (nb_app s)) w acc"
    and "crypto_mac_of (Some cy) = Some (key, m)"
  shows "distinct outs \<and> set outs \<inter> acc = {}"
  using assms
proof (induction evs arbitrary: s w outs hist acc)
  case Nil
  then show ?case by simp
next
  case (Cons ev evs)
  have r: "rx_ok (Suc (Suc (Suc (3 * length evs)))) cy (an_rx (nb_app s)) w acc" using Cons.prems(4) by (simp add: numeral_3_eq_3)
  show ?case
  proof (cases ev)
    case (B_Pass inp)
    then obtain s' eff w' outs' hist' where step: "can_task_pass cy inp s w = Some (s', eff, w')"
      and rest: "b_life cy mount port pwr evs (s', w') = Some (outs', hist')"
      and eq: "outs = map applied_id (applied eff) @ outs'" "hist = persisted SECOC_DOM_RX_A w # hist'"
      using Cons.prems(1) by (auto split: option.splits)
    have nw: "persisted SECOC_DOM_RX_A w \<noteq> 0xFFFF" "0xFFFF \<notin> set hist'" using Cons.prems(2) eq by auto
    obtain new where new: "rx_ok (3 * length evs) cy (an_rx (nb_app s')) w' (acc \<union> set new)" "set new \<inter> acc = {}"
      "sender_ok (an_tx (nb_app s'))" "set (map applied_id (applied eff)) \<subseteq> set new" "distinct (map applied_id (applied eff))"
      using pass_ok [OF step Cons.prems(3) r nw(1) Cons.prems(5)] by blast
    from Cons.IH [OF rest nw(2) new(3,1) Cons.prems(5)]
    have "distinct outs'" "set outs' \<inter> (acc \<union> set new) = {}" by auto
    then show ?thesis unfolding eq using new(2,4,5) by auto
  next
    case (B_Reboot k)
    obtain s' w' where i: "node_b_init cy mount port (pwr k w) = (s', w')" by (metis surj_pair)
    with B_Reboot obtain hist' where rest: "b_life cy mount port pwr evs (s', w') = Some (outs, hist')"
      and eq: "hist = persisted SECOC_DOM_RX_A w # hist'"
      using Cons.prems(1) by auto
    have nw: "persisted SECOC_DOM_RX_A w \<noteq> 0xFFFF" "0xFFFF \<notin> set hist'" using Cons.prems(2) eq by auto
    from reboot_ok [OF r nw(1) Cons.prems(5) i] have "rx_ok (Suc (3 * length evs)) cy (an_rx (nb_app s')) w' acc"
      "sender_ok (an_tx (nb_app s'))" by auto
    then show ?thesis using Cons.IH [OF rest nw(2)] rx_ok_less Cons.prems(5) by blast
  qed
qed

end

section \<open>The composition\<close>

text \<open>\<open>secoc_store_mount\<close> as \<open>secoc_app_init\<close> calls it, and the power cut before it.\<close>

definition node_mount :: "'h node \<Rightarrow> store_status \<times> 'h node" where
  "node_mount w = (case w of (lk, s, f) \<Rightarrow>
     (case secoc_store_mount (Some node_store_cfg) s f of (st, s') \<Rightarrow> (st, lk, s', f)))"

definition node_cut :: "'h link \<times> int \<Rightarrow> 'h node \<Rightarrow> 'h node" where
  "node_cut lkk w = (fst lkk, store_state0, flash_reset (snd lkk) (snd (snd w)))"

lemma node_reboot_mount: "node_reboot lkk w = snd (node_mount (node_cut lkk w))"
  by (simp add: node_reboot_def node_mount_def node_cut_def Let_def split: prod.split)

sublocale mac_server \<subseteq> b: node_b_device "node_mac (link_mac fuel table)" "mac_tag_of aes keys" node_load node_commit
    node_reboot node_ok node_mount node_cut
  for fuel
  by unfold_locales (rule node_reboot_mount)

context mac_server
begin

lemma node_b_life:
  assumes "crypto_mac_of (Some cy) = Some (key, node_mac (link_mac fuel table))"
    and "node_b_init cy node_mount node_store (node_cut lkk (lk0, store_state0, wflash_fake_reset)) = (s, w)"
    and "b_life cy node_mount node_store node_cut evs (s, w) = Some (outs, hist)" and "0xFFFF \<notin> set hist"
    and "3 * length evs + 1 < 2 ^ 32"
  shows "distinct outs"
proof -
  let ?w0 = "factory_node lkk"
  have c: "node_cut lkk ?w0 = node_cut lkk (lk0, store_state0, wflash_fake_reset)"
    unfolding factory_node_def node_reboot_eq
    by (simp add: node_cut_def flash.store_reboot_def Let_def flash_reset_def wflash_fake_fail_after_def
        wflash_fake_power_cycle_def)
  have ids: "rx_ids_b \<noteq> []" "length rx_ids_b \<le> SECOC_MAX_IDS" by (simp_all add: rx_ids_b_def SECOC_MAX_IDS_def)
  have ok: "node_ok (Suc (3 * length evs)) ?w0" by (rule factory_ok) (use assms(5) in simp)
  note R = node.receiver_ok_first [OF ok factory_persisted ids, where cy = cy and d = SECOC_DOM_RX_A
      and plen = "Some body_msg_pdu_len" and k = lkk]
  from b.init_ok [OF R, unfolded node_port, OF assms(2) [folded c]]
  show ?thesis using b.b_life_distinct [unfolded node_port, OF assms(3,4) _ _ assms(1)] by blast
qed

end

end
