(* ===== verification/Node_A.thy ===== *)
theory Node_A imports Secoc_App Boot begin

text \<open>
  Node A, the gateway application (\<open>node_a_gateway/app\<close>), in the real-bus build: the body control
  logic \<open>bodyctl.c\<close>, the reprogramming request \<open>reprogram.c\<close>, one pass of the CAN task
  (\<open>can_task.c\<close>) and of the cyclic task (\<open>app_task.c\<close>), and the liveness throttle of
  \<open>health_task.c\<close>.

  The tasks share the SecOC state and the message queue; they interleave here at the granularity of
  passes. A pass returns the frames it handed to the controller.
\<close>

section \<open>Body control\<close>

record bodyctl_state =
  bc_door_locked :: bool
  bc_light_pct :: u8
  bc_door_ajar :: bool

record bodyctl_output =
  bo_lock_cmd_valid :: bool
  bo_lock_locked :: bool
  bo_light_cmd_valid :: bool
  bo_light_pct :: u8

definition bodyctl_init :: bodyctl_state where
  "bodyctl_init = \<lparr>bc_door_locked = False, bc_light_pct = 0, bc_door_ajar = False\<rparr>"

text \<open>As in the actuator, the kind names the member that was written, and the inner defaults do not occur.\<close>

definition bodyctl_step :: "bodyctl_state \<Rightarrow> body_msg option \<Rightarrow> bodyctl_state \<times> bodyctl_output" where
  "bodyctl_step st inp =
     (let out = \<lparr>bo_lock_cmd_valid = False, bo_lock_locked = False, bo_light_cmd_valid = False, bo_light_pct = 0\<rparr> in
      case inp of
        None \<Rightarrow> (st, out)
      | Some m \<Rightarrow>
          (case bm_kind m of
             BODY_MSG_DOOR_CMD \<Rightarrow>
               (case bm_u m of
                  U_Door_Cmd d \<Rightarrow>
                    let l = (dc_cmd d = DOOR_LOCK) in
                    (st\<lparr>bc_door_locked := l\<rparr>, out\<lparr>bo_lock_cmd_valid := True, bo_lock_locked := l\<rparr>)
                | _ \<Rightarrow> (st, out))
           | BODY_MSG_LIGHT_CMD \<Rightarrow>
               (case bm_u m of
                  U_Light_Cmd l \<Rightarrow>
                    (st\<lparr>bc_light_pct := brightness_pct l\<rparr>,
                     out\<lparr>bo_light_cmd_valid := True, bo_light_pct := brightness_pct l\<rparr>)
                | _ \<Rightarrow> (st, out))
           | BODY_MSG_SENSOR_REPORT \<Rightarrow>
               (case bm_u m of
                  U_Sensor_Report r \<Rightarrow>
                    let ajar = (door_ajar r \<noteq> 0); pct = (if ajar then 100 else 0) in
                    (st\<lparr>bc_door_ajar := ajar, bc_light_pct := pct\<rparr>,
                     out\<lparr>bo_light_cmd_valid := True, bo_light_pct := pct\<rparr>)
                | _ \<Rightarrow> (st, out))
           | BODY_MSG_NONE \<Rightarrow> (st, out)))"

section \<open>State\<close>

definition APP_MSG_QDEPTH :: nat where "APP_MSG_QDEPTH = 8"
definition APP_BTN_DEBOUNCE :: u32 where "APP_BTN_DEBOUNCE = 3"

record button =
  bt_low_count :: u32
  bt_pressed :: bool

record 'w node_a =
  na_app :: "'w secoc_app"
  na_sync_sent :: bool
  na_msg_q :: "body_msg list"
  na_body :: bodyctl_state
  na_button :: button
  na_request :: u32
  na_noinit :: fbl_handshake

text \<open>Both task-create functions and the first statement of the cyclic task; \<open>h\<close> is the retained region.\<close>

definition node_a_init ::
  "'w secoc_crypto \<Rightarrow> ('w \<Rightarrow> store_status \<times> 'w) \<Rightarrow> 'w freshness_store_if \<Rightarrow> fbl_handshake \<Rightarrow> 'w \<Rightarrow> 'w node_a \<times> 'w" where
  "node_a_init cy mount store h w =
     (case secoc_app_init cy mount store tx_ids_a rx_ids_a w of (a, w') \<Rightarrow>
       (\<lparr>na_app = a, na_sync_sent = False, na_msg_q = [], na_body = bodyctl_init,
         na_button = \<lparr>bt_low_count = 0, bt_pressed = False\<rparr>, na_request = 0, na_noinit = h\<rparr>, w'))"

section \<open>The CAN task\<close>

text \<open>\<open>xQueueSend\<close> with no wait: a full queue drops the message.\<close>

definition queue_send :: "body_msg \<Rightarrow> 'w node_a \<Rightarrow> 'w node_a" where
  "queue_send m s = (if length (na_msg_q s) < APP_MSG_QDEPTH then s\<lparr>na_msg_q := na_msg_q s @ [m]\<rparr> else s)"

definition gw_sync_phase ::
  "'w secoc_crypto \<Rightarrow> bool \<Rightarrow> 'w node_a \<Rightarrow> 'w \<Rightarrow> ('w node_a \<times> bus_frame list \<times> 'w) option" where
  "gw_sync_phase cy tx_ok s w =
     (if na_sync_sent s then Some (s, [], w)
      else
        (case gw_build_boot_sync cy (Some frame_zero) (na_app s) w of
           None \<Rightarrow> None
         | Some (built, f, a, w1) \<Rightarrow>
             let s1 = s\<lparr>na_app := a\<rparr> in
             if \<not> built then Some (s1, [], w1)
             else (case can_tx (the f) of
                 None \<Rightarrow> None
               | Some b \<Rightarrow> Some (s1\<lparr>na_sync_sent := tx_ok\<rparr>, [b], w1))))"

text \<open>The message is a local of the task that keeps its contents between passes; it is queued only after a decode filled it.\<close>

definition msg_junk :: body_msg where
  "msg_junk = \<lparr>bm_kind = BODY_MSG_NONE, bm_u = U_Light_Cmd \<lparr>brightness_pct = 0\<rparr>\<rparr>"

definition gw_can_task_pass ::
  "'w secoc_crypto \<Rightarrow> bool \<Rightarrow> can_raw_frame option \<Rightarrow> 'w node_a \<Rightarrow> 'w \<Rightarrow> ('w node_a \<times> bus_frame list \<times> 'w) option" where
  "gw_can_task_pass cy tx_ok frame s w =
     (case gw_sync_phase cy tx_ok s w of
        None \<Rightarrow> None
      | Some (s1, out, w1) \<Rightarrow>
          (case frame of
             None \<Rightarrow> Some (s1, out, w1)
           | Some f \<Rightarrow>
               if cf_id f = MSG_ID_SENSOR_RPT then
                 (case secoc_app_verify_telemetry (Some f) (Some msg_junk) (na_app s1) w1 of
                    None \<Rightarrow> None
                  | Some (vd, m, a, _, w2) \<Rightarrow>
                      let s2 = s1\<lparr>na_app := a\<rparr> in Some (if vd then queue_send (the m) s2 else s2, out, w2))
               else if cf_id f = MSG_ID_FRESHNESS_SYNC then
                 (case secoc_app_handle_sync (Some f) (na_app s1) w1 of
                    None \<Rightarrow> None
                  | Some (_, a, _, w2) \<Rightarrow> Some (s1\<lparr>na_app := a\<rparr>, out, w2))
               else Some (s1, out, w1)))"

section \<open>The cyclic task\<close>

definition poll_reprogram_button :: "bool \<Rightarrow> 'w node_a \<Rightarrow> 'w node_a" where
  "poll_reprogram_button low s =
     (let b = na_button s;
          n = (if low then (if bt_low_count b < APP_BTN_DEBOUNCE then bt_low_count b + 1 else bt_low_count b) else 0);
          stable = (n \<ge> APP_BTN_DEBOUNCE) in
      s\<lparr>na_request := (if stable \<and> \<not> bt_pressed b then 1 else na_request s),
        na_button := \<lparr>bt_low_count = n, bt_pressed = stable\<rparr>\<rparr>)"

text \<open>One of the two conditional sends; \<open>f\<close> is the local frame they share.\<close>

definition send_built ::
  "(bool \<times> can_raw_frame option \<times> 'w secoc_app \<times> 'w) option \<Rightarrow> 'w node_a \<Rightarrow>
   ('w node_a \<times> can_raw_frame \<times> bus_frame list \<times> 'w) option" where
  "send_built r s =
     (case r of
        None \<Rightarrow> None
      | Some (built, f, a, w1) \<Rightarrow>
          if \<not> built then Some (s\<lparr>na_app := a\<rparr>, the f, [], w1)
          else (case can_tx (the f) of None \<Rightarrow> None | Some b \<Rightarrow> Some (s\<lparr>na_app := a\<rparr>, the f, [b], w1)))"

definition apply_output ::
  "'w secoc_crypto \<Rightarrow> bodyctl_output \<Rightarrow> 'w node_a \<Rightarrow> 'w \<Rightarrow> ('w node_a \<times> bus_frame list \<times> 'w) option" where
  "apply_output cy out s w =
     (case (if bo_lock_cmd_valid out
            then send_built (secoc_app_build_door_cmd cy (bo_lock_locked out) (Some frame_zero) (na_app s) w) s
            else Some (s, frame_zero, [], w)) of
        None \<Rightarrow> None
      | Some (s1, f, out1, w1) \<Rightarrow>
          (case (if bo_light_cmd_valid out
                 then send_built (secoc_app_build_light_cmd cy (bo_light_pct out) (Some f) (na_app s1) w1) s1
                 else Some (s1, f, [], w1)) of
             None \<Rightarrow> None
           | Some (s2, _, out2, w2) \<Rightarrow> Some (s2, out1 @ out2, w2)))"

text \<open>
  \<open>app_request_reprogram\<close> leaves the request in the retained region and resets; the flag of the result
  says that it was reached, after which the node does not run on.
\<close>

definition app_request_reprogram :: "'w node_a \<Rightarrow> 'w node_a" where
  "app_request_reprogram s = s\<lparr>na_noinit := boot_handshake_encode (na_noinit s) FBL_PROGRAMMING_REQUESTED\<rparr>"

definition app_task_pass ::
  "'w secoc_crypto \<Rightarrow> bool \<Rightarrow> 'w node_a \<Rightarrow> 'w \<Rightarrow> ('w node_a \<times> bus_frame list \<times> bool \<times> 'w) option" where
  "app_task_pass cy low s w =
     (case (case na_msg_q s of
              [] \<Rightarrow> Some (s, [], w)
            | m # q \<Rightarrow>
                (case bodyctl_step (na_body s) (Some m) of
                   (b, out) \<Rightarrow> apply_output cy out (s\<lparr>na_msg_q := q, na_body := b\<rparr>) w)) of
        None \<Rightarrow> None
      | Some (s1, out, w1) \<Rightarrow>
          let s2 = poll_reprogram_button low s1 in
          if na_request s2 \<noteq> 0 then Some (app_request_reprogram s2, out, True, w1)
          else Some (s2, out, False, w1))"

section \<open>What the gateway can be made to say\<close>

text \<open>
  Everything in the queue came from a telemetry frame, so it is a sensor report, and a report never
  asks for the lock.
\<close>

lemma decode_report:
  "body_decode MSG_ID_SENSOR_RPT buf o0 = (True, Some m) \<Longrightarrow> bm_kind m = BODY_MSG_SENSOR_REPORT"
  by (auto simp: body_decode_def msg_id_defs Let_def split: option.splits prod.splits bool.splits)

definition reports_only :: "'w node_a \<Rightarrow> bool" where
  "reports_only s \<longleftrightarrow> (\<forall>m \<in> set (na_msg_q s). bm_kind m = BODY_MSG_SENSOR_REPORT)"

lemma step_report: "bm_kind m = BODY_MSG_SENSOR_REPORT \<Longrightarrow> \<not> bo_lock_cmd_valid (snd (bodyctl_step b (Some m)))"
  by (simp add: bodyctl_step_def Let_def split: body_msg_u.split)

lemma build_secured_id:
  "build_secured cy i p f s w = Some (b, g, s', w') \<Longrightarrow> b \<Longrightarrow> cf_id g = ucast i"
  by (auto simp: build_secured_def Let_def split: option.splits prod.splits if_splits)

lemma build_sync_id: "build_sync mid cy (Some f) s w = Some (b, Some g, s', w') \<Longrightarrow> b \<Longrightarrow> cf_id g = ucast (ucast mid :: u16)"
  by (auto simp: build_sync_def Let_def dest: build_secured_id)

lemma build_light_id:
  assumes "secoc_app_build_light_cmd cy pct (Some f) s w = Some (b, Some g, s', w')" and b
  shows "cf_id g = MSG_ID_LIGHT_CMD"
proof -
  obtain pdu where "build_secured cy (ucast MSG_ID_LIGHT_CMD) pdu f s w = Some (b, g, s', w')"
    using assms by (auto simp: secoc_app_build_light_cmd_def split: prod.splits if_splits)
  from build_secured_id [OF this assms(2)] show ?thesis by (simp add: msg_id_defs)
qed

lemma can_tx_id: "can_tx f = Some b \<Longrightarrow> bf_id b = cf_id f"
  by (auto simp: can_tx_def)

lemma build_some:
  "secoc_app_build_light_cmd cy pct (Some f) s w = Some (b, g, s', w') \<Longrightarrow> \<exists>h. g = Some h"
  "build_sync mid cy (Some f) s w = Some (b, g, s', w') \<Longrightarrow> \<exists>h. g = Some h"
  by (auto simp: secoc_app_build_light_cmd_def build_sync_def Let_def split: prod.splits if_splits)

lemma gw_sync_phase_out:
  assumes "gw_sync_phase cy t s w = Some (s', out, w')"
  shows "(\<forall>b \<in> set out. bf_id b = MSG_ID_GW_FRESHNESS_SYNC) \<and> na_msg_q s' = na_msg_q s"
proof -
  have g: "bf_id b = MSG_ID_GW_FRESHNESS_SYNC"
    if h: "gw_build_boot_sync cy (Some frame_zero) a w = Some (v, f, a', w1)" v "can_tx (the f) = Some b" for a w f a' w1 b v
  proof -
    obtain g where g: "f = Some g" using build_some(2) [OF h(1) [unfolded gw_build_boot_sync_def]] by blast
    show ?thesis using build_sync_id [OF h(1) [unfolded gw_build_boot_sync_def g] h(2)] can_tx_id [OF h(3)] g
      by (simp add: msg_id_defs)
  qed
  show ?thesis
  proof (cases "na_sync_sent s")
    case True
    then show ?thesis using assms by (simp add: gw_sync_phase_def)
  next
    case False
    with assms obtain v f a where v: "gw_build_boot_sync cy (Some frame_zero) (na_app s) w = Some (v, f, a, w')"
      and r: "if v then \<exists>b. can_tx (the f) = Some b \<and> out = [b] \<and> s' = s\<lparr>na_app := a, na_sync_sent := t\<rparr>
        else out = [] \<and> s' = s\<lparr>na_app := a\<rparr>"
      by (fastforce simp: gw_sync_phase_def Let_def split: option.splits if_splits)
    then show ?thesis using g [OF v] by (auto split: if_splits)
  qed
qed

lemma gw_can_pass_out:
  assumes "gw_can_task_pass cy t frame s w = Some (s', out, w')" and "reports_only s"
  shows "(\<forall>b \<in> set out. bf_id b = MSG_ID_GW_FRESHNESS_SYNC) \<and> reports_only s'"
proof -
  obtain s1 w1 where s1: "gw_sync_phase cy t s w = Some (s1, out, w1)"
    using assms(1) by (auto simp: gw_can_task_pass_def Let_def split: option.splits if_splits prod.splits)
  note o = gw_sync_phase_out [OF s1]
  have r1: "reports_only s1" using o assms(2) by (simp add: reports_only_def)
  have q: "bm_kind (the m) = BODY_MSG_SENSOR_REPORT"
    if h: "secoc_app_verify_telemetry (Some f) (Some msg_junk) a w1 = Some (v, m, a', l, w2)" v "cf_id f = MSG_ID_SENSOR_RPT"
    for f a m a' l w2 v
  proof -
    obtain buf where d: "body_decode MSG_ID_SENSOR_RPT buf (Some msg_junk) = (True, m)"
      using h by (auto simp: secoc_app_verify_telemetry_def secoc_app_verify_and_decode_def Let_def
          split: option.splits if_splits prod.splits bool.splits)
    then show ?thesis using decode_report [of buf "Some msg_junk" "the m"] by (cases m) (auto dest: body_decode_ok)
  qed
  have "reports_only s'"
    using assms(1) s1 r1 q
    by (auto simp: gw_can_task_pass_def Let_def reports_only_def queue_send_def
        split: option.splits if_splits prod.splits)
  then show ?thesis using o by blast
qed

lemma app_pass_out:
  assumes p: "app_task_pass cy low s w = Some (s', out, rst, w')" and r: "reports_only s"
  shows "(\<forall>b \<in> set out. bf_id b = MSG_ID_LIGHT_CMD) \<and> reports_only s'"
proof -
  have button: "na_msg_q (poll_reprogram_button low t) = na_msg_q t" for t
    by (simp add: poll_reprogram_button_def Let_def)
  obtain s1 where s1: "(case na_msg_q s of
              [] \<Rightarrow> Some (s, [], w)
            | m # q \<Rightarrow>
                (case bodyctl_step (na_body s) (Some m) of
                   (b, out) \<Rightarrow> apply_output cy out (s\<lparr>na_msg_q := q, na_body := b\<rparr>) w)) = Some (s1, out, w')"
    and q': "na_msg_q s' = na_msg_q s1"
    using p by (auto simp: app_task_pass_def Let_def app_request_reprogram_def button split: option.splits if_splits)
  show ?thesis
  proof (cases "na_msg_q s")
    case Nil
    then show ?thesis using s1 q' r by (simp add: reports_only_def)
  next
    case (Cons m q)
    let ?b = "fst (bodyctl_step (na_body s) (Some m))" and ?o = "snd (bodyctl_step (na_body s) (Some m))"
    have a: "apply_output cy ?o (s\<lparr>na_msg_q := q, na_body := ?b\<rparr>) w = Some (s1, out, w')"
      using s1 Cons by (simp add: case_prod_beta)
    have nl: "\<not> bo_lock_cmd_valid ?o" using r Cons step_report by (simp add: reports_only_def)
    have l: "bf_id b = MSG_ID_LIGHT_CMD"
      if h: "secoc_app_build_light_cmd cy pct (Some frame_zero) a w = Some (v, f, a', w1)" v "can_tx (the f) = Some b"
      for pct a f a' w1 b v
    proof -
      obtain g where g: "f = Some g" using build_some(1) [OF h(1)] by blast
      show ?thesis using build_light_id [OF h(1) [unfolded g] h(2)] can_tx_id [OF h(3)] g by simp
    qed
    have "(\<forall>b \<in> set out. bf_id b = MSG_ID_LIGHT_CMD) \<and> na_msg_q s1 = q"
      using a nl by (auto simp: apply_output_def send_built_def Let_def split: option.splits if_splits prod.splits dest: l)
    then show ?thesis using q' r Cons by (simp add: reports_only_def)
  qed
qed

text \<open>A run of the gateway: passes of its two tasks in any order.\<close>

datatype gw_step = Gw_Can bool "can_raw_frame option" | Gw_App bool

fun gw_run :: "'w secoc_crypto \<Rightarrow> gw_step list \<Rightarrow> 'w node_a \<Rightarrow> 'w \<Rightarrow> ('w node_a \<times> bus_frame list \<times> 'w) option" where
  "gw_run cy [] s w = Some (s, [], w)"
| "gw_run cy (Gw_Can t f # xs) s w =
     (case gw_can_task_pass cy t f s w of
        None \<Rightarrow> None
      | Some (s1, out1, w1) \<Rightarrow> map_option (\<lambda>(s2, out2, w2). (s2, out1 @ out2, w2)) (gw_run cy xs s1 w1))"
| "gw_run cy (Gw_App low # xs) s w =
     (case app_task_pass cy low s w of
        None \<Rightarrow> None
      | Some (s1, out1, rst, w1) \<Rightarrow>
          if rst then Some (s1, out1, w1)
          else map_option (\<lambda>(s2, out2, w2). (s2, out1 @ out2, w2)) (gw_run cy xs s1 w1))"

lemma gw_run_out:
  assumes "gw_run cy xs s w = Some (s', out, w')" and "reports_only s"
  shows "\<forall>b \<in> set out. bf_id b \<in> {MSG_ID_LIGHT_CMD, MSG_ID_GW_FRESHNESS_SYNC}"
  using assms
proof (induction cy xs s w arbitrary: out rule: gw_run.induct)
  case (1 cy s w)
  then show ?case by simp
next
  case (2 cy t f xs s w)
  then obtain s1 out1 w1 out2 where p: "gw_can_task_pass cy t f s w = Some (s1, out1, w1)"
    and q: "gw_run cy xs s1 w1 = Some (s', out2, w')" and o: "out = out1 @ out2"
    by (auto split: option.splits)
  note k = gw_can_pass_out [OF p 2(3)]
  from 2(1) [OF p refl refl q] k show ?case unfolding o by auto
next
  case (3 cy low xs s w)
  then obtain s1 out1 rst w1 where p: "app_task_pass cy low s w = Some (s1, out1, rst, w1)"
    by (auto split: option.splits)
  note k = app_pass_out [OF p 3(3)]
  show ?case
  proof (cases rst)
    case True
    then show ?thesis using 3(2) p k by auto
  next
    case False
    then obtain out2 where q: "gw_run cy xs s1 w1 = Some (s', out2, w')" and o: "out = out1 @ out2"
      using 3(2) p by auto
    from 3(1) [OF p refl refl refl False q] k show ?thesis unfolding o by auto
  qed
qed

end
