(* ===== verification/Vehicle.thy ===== *)
theory Vehicle imports Node_B_Life Node_A Sample_Node begin

text \<open>
  The two nodes together: what the gateway builds crosses the bus and is accepted, decoded and applied
  by the actuator; what the actuator applies is authentic and never a replay; and a node without a
  working store does nothing. It ends with a concrete pair of nodes, on which the witnesses are evaluated.
\<close>

section \<open>A secured frame on its way\<close>

lemma secure_out: "secoc_secure cy i e c p (Some ob) w = (n, d, w') \<Longrightarrow>
    \<exists>x. d = Some x \<and> length x = length ob \<and> (n \<noteq> 0 \<longrightarrow> n \<le> length ob)"
  if "\<And>k m. crypto_mac_of cy = Some (k, m) \<Longrightarrow> full_tags m"
proof -
  assume s: "secoc_secure cy i e c p (Some ob) w = (n, d, w')"
  show ?thesis
  proof (cases "n = 0 \<or> p = None \<or> crypto_mac_of cy = None")
    case True
    then show ?thesis using s
      by (auto simp: secoc_secure_def Let_def secoc_consts split: option.splits if_splits prod.splits)
  next
    case False
    then obtain k m q where cm: "crypto_mac_of cy = Some (k, m)" and q: "p = Some q" and n: "n \<noteq> 0" by auto
    from s n q cm that obtain t where "m k (mac_input i e c q) w = (Some t, w')" "n = length q + SECOC_TRAILER_LEN"
      "n \<le> length ob" "d = Some (overwrite 0 (wire_frame q e c (take SECOC_MAC_LEN t)) ob)"
      using secoc_secure_ok [of cy i e c q ob w n d w' m k] by auto
    then show ?thesis using full_tagsD that cm by (auto simp: secoc_consts)
  qed
qed

lemma tx_next_some:
  "secoc_tx_next (Some t) i (Some o0) w = Some (b, t', o', w') \<Longrightarrow> \<exists>x y. t' = Some x \<and> o' = Some y"
  by (auto simp: secoc_tx_next_def Let_def split: option.splits if_splits prod.splits bool.splits)

lemma build_secured_split:
  assumes "build_secured cy i p f s w = Some (b, g, s', w')" and "b"
    and "\<And>k m. crypto_mac_of (Some cy) = Some (k, m) \<Longrightarrow> full_tags m"
  obtains tx e c w1 n d where "secoc_tx_next (Some (an_tx s)) i (Some (0, 0)) w = Some (True, Some tx, Some (e, c), w1)"
    "secoc_secure (Some cy) i e c (Some p) (Some (cf_data f)) w1 = (n, Some d, w')" "n \<noteq> 0"
    "cf_id g = ucast i" "cf_flags g = CAN_FLAG_FDF" "cf_len g = of_nat n" "cf_data g = d" "s' = s\<lparr>an_tx := tx\<rparr>"
proof -
  obtain tx oc w1 where t: "secoc_tx_next (Some (an_tx s)) i (Some (0, 0)) w = Some (True, tx, oc, w1)"
    using assms(1,2) by (auto simp: build_secured_def Let_def split: option.splits if_splits)
  obtain x e c where x: "tx = Some x" "oc = Some (e, c)" using tx_next_some [OF t] by auto
  obtain n d w2 where q: "secoc_secure (Some cy) i e c (Some p) (Some (cf_data f)) w1 = (n, d, w2)"
    by (metis prod_cases3)
  obtain y where "d = Some y" using secure_out [of "Some cy", OF _ q] assms(3) by metis
  then show thesis
    using that [of x e c w1 n y] assms(1,2) t x q
    by (auto simp: build_secured_def Let_def split: if_splits)
qed

text \<open>What the receiver does with a frame that carries the right tag and is fresh.\<close>

lemma process_wire_accepts:
  assumes "crypto_mac_of (r_cy r) = Some (key, m)" and "full_tags m"
    and "r_pdu_len_of r = Some g" and "g (ucast i) = length p" and "p \<noteq> []" and "length p \<le> SECOC_MAX_PDU"
    and "length p \<le> length buf" and "length p + 12 + length pad \<le> secoc_fd_frame_len (length p + 12)"
    and "m key (mac_input i e c p) w = (Some t, w1)"
    and "r_fresh r = Some x" and "secoc_rx_check (Some x) i e c = SECOC_FRESH_OK"
    and "secoc_rx_accept (Some x) i e c w1 = Some (True, x', w2)"
  shows "secoc_rx_process (Some r) i (Some (wire_frame p e c (take SECOC_MAC_LEN t) @ pad)) (Some buf) (Some 0) w =
    Some \<lparr>rr_verdict = SECOC_RX_ACCEPT, rr_rx = Some (r\<lparr>r_fresh := x', r_n_accept := r_n_accept r + 1\<rparr>),
      rr_pdu = Some (overwrite 0 p buf), rr_pdu_len = Some (length p),
      rr_log = [(LOG_EVT_SECOC_ACCEPT, ucast i, c)], rr_world = w2\<rparr>"
proof -
  let ?o = "\<lparr>o_epoch = Some 0, o_counter = Some 0, o_pdu = Some buf, o_pdu_len = Some 0\<rparr>"
  have t: "length (take SECOC_MAC_LEN t) = 8" using full_tagsD [OF assms(2,9)] by (simp add: secoc_consts)
  have cy: "r_cy r \<noteq> None" using assms(1) by (cases "r_cy r") (auto simp: crypto_mac_of_def)
  have "rx_verify r i (Some (wire_frame p e c (take SECOC_MAC_LEN t) @ pad)) (Some buf) w =
      (SECOC_OK, ?o\<lparr>o_pdu := Some (overwrite 0 p buf), o_pdu_len := Some (length p), o_epoch := Some e, o_counter := Some c\<rparr>, w1)"
    using assms(3-9) secoc_verify_len_wire [OF assms(1) _ t assms(6), of ?o pad i e c w]
      verify_core_wire [OF t assms(2), of key i p e c pad ?o w]
    by (simp add: rx_verify_def outs_ok_def secoc_consts)
  then show ?thesis
    using cy assms(10-12) by (simp add: secoc_rx_process_def rx_return_simps)
qed

text \<open>The light command as the gateway builds it.\<close>

context mac_service
begin

lemma light_frame:
  assumes b: "secoc_app_build_light_cmd cy pct (Some frame_zero) s w = Some (True, Some f, s', w')"
    and cy: "crypto_mac_of (Some cy) = Some (key, m)"
  obtains tx e c w1 where "secoc_tx_next (Some (an_tx s)) 0x121 (Some (0, 0)) w = Some (True, Some tx, Some (e, c), w1)"
    "s' = s\<lparr>an_tx := tx\<rparr>" "pct \<le> 100" "cf_id f = MSG_ID_LIGHT_CMD" "cf_len f = 13" "length (cf_data f) = CAN_MAX_DLEN"
    "frame_bytes f = wire_frame [pct] e c (take SECOC_MAC_LEN (tag key (mac_input 0x121 e c [pct])))"
proof -
  have pct: "pct \<le> 100" and bs: "build_secured cy 0x121 [pct] frame_zero s w = Some (True, f, s', w')"
    using b by (auto simp: secoc_app_build_light_cmd_def pack_light_cmd_def msg_id_defs not_less split: if_splits prod.splits)
  have ft: "full_tags m'" if "crypto_mac_of (Some cy) = Some (k, m')" for k m'
    using that cy mac_len by simp
  obtain tx e c w1 n d where
    x: "secoc_tx_next (Some (an_tx s)) 0x121 (Some (0, 0)) w = Some (True, Some tx, Some (e, c), w1)"
    and q: "secoc_secure (Some cy) 0x121 e c (Some [pct]) (Some (cf_data frame_zero)) w1 = (n, Some d, w')" "n \<noteq> 0"
    and g: "cf_id f = ucast (0x121 :: u16)" "cf_len f = of_nat n" "cf_data f = d" "s' = s\<lparr>an_tx := tx\<rparr>"
    by (rule build_secured_split [OF bs TrueI]) (auto intro: ft)
  define t where "t = take SECOC_MAC_LEN (tag key (mac_input 0x121 e c [pct]))"
  note k = secure_then_verify_core [OF q cy, folded t_def]
  then have d: "d = overwrite 0 (wire_frame [pct] e c t) (cf_data frame_zero)" and l: "length t = 8"
    by blast+
  have n: "n = 13" using k by (simp add: secoc_consts)
  have w: "length (wire_frame [pct] e c t) = 13" using l by simp
  have "frame_bytes f = wire_frame [pct] e c t"
    using g n w d take_overwrite_0 [of "wire_frame [pct] e c t" "cf_data frame_zero"] by (simp add: frame_bytes_def)
  moreover have "length d = CAN_MAX_DLEN"
    using d w by (simp add: frame_zero_def CAN_MAX_DLEN_def)
  ultimately show thesis
    using that [of tx e c w1, folded t_def] t_def x g n pct by (simp add: msg_id_defs)
qed

end

context mac_server
begin

lemmas node_light_frame = node.light_frame

end

text \<open>Node B's pass on a light command that its receiver accepts.\<close>

lemma pass_light:
  assumes "nb_sync_sent s" and "pi_frame inp = Some f" and "cf_id f = MSG_ID_LIGHT_CMD" and "pct \<le> 100"
    and x: "rx_frame f (nb_app s) w = Some \<lparr>rr_verdict = SECOC_RX_ACCEPT, rr_rx = Some r, rr_pdu = Some (overwrite 0 [pct] buf),
      rr_pdu_len = Some 1, rr_log = l, rr_world = w'\<rparr>"
  shows "\<exists>s' eff. can_task_pass cy inp s w = Some (s', eff, w') \<and> nb_act s' = (nb_act s)\<lparr>ac_light_pct := pct\<rparr> \<and>
    Eff_Led (pct > 0) \<in> set eff \<and>
    applied eff = [(f, \<lparr>bm_kind = BODY_MSG_LIGHT_CMD, bm_u = U_Light_Cmd \<lparr>brightness_pct = pct\<rparr>\<rparr>)]"
proof -
  have sync: "sync_phase cy (pi_tx_ok inp) s w = Some (s, [], w)" using assms(1) by (simp add: sync_phase_def)
  let ?m = "\<lparr>bm_kind = BODY_MSG_LIGHT_CMD, bm_u = U_Light_Cmd \<lparr>brightness_pct = pct\<rparr>\<rparr>"
  have d: "body_decode MSG_ID_LIGHT_CMD (Some (take 1 (overwrite 0 [pct] buf))) (Some body_msg_junk) = (True, Some ?m)"
    using assms(4) take_overwrite_0 [of "[pct]" buf]
    by (simp add: body_decode_def msg_id_defs unpack_light_cmd_def body_msg_junk_def not_less)
  have v: "secoc_app_verify_and_decode (Some f) (Some body_msg_junk) (nb_app s) w =
      Some (True, Some ?m, (nb_app s)\<lparr>an_rx := r\<rparr>, l, w')"
    using x d assms(3) by (simp add: secoc_app_verify_and_decode_def pdu_of_def)
  have a: "actuator_fsm_apply (Some \<lparr>bm_kind = BODY_MSG_LIGHT_CMD, bm_u = U_Light_Cmd \<lparr>brightness_pct = q\<rparr>\<rparr>) y =
      y\<lparr>ac_light_pct := q\<rparr>" for q y
    by (simp add: actuator_fsm_apply_def)
  show ?thesis
    using assms(2,3) v a by (simp add: can_task_pass_def sync rx_phase_def light_output_update_def Let_def)
qed

lemma light_crosses_over:
  assumes "cmac_engine hwA aes" and "cmac_engine hwB aes" and "mac_key keysA key = mac_key keysB key"
    and "crypto_mac_of (Some cyA) = Some (key, node_mac (link_mac fuelA (g_handlers hwA keysA)))"
    and "crypto_mac_of (r_cy (an_rx (nb_app s))) = Some (key, node_mac (link_mac fuelB (g_handlers_b hwB keysB)))"
    and "secoc_app_build_light_cmd cyA pct (Some frame_zero) a wA = Some (True, Some f, a', wA')"
    and "secoc_tx_next (Some (an_tx a)) 0x121 (Some (0, 0)) wA = Some (True, tx, Some (e, c), w1)"
    and "can_tx f = Some b" and "length junk = CAN_MAX_DLEN" and "can_rx_callback junk b = Some g"
    and "nb_sync_sent s" and "pi_frame inp = Some g"
    and "r_pdu_len_of (an_rx (nb_app s)) = Some body_msg_pdu_len"
    and "r_fresh (an_rx (nb_app s)) = Some x" and "secoc_rx_check (Some x) 0x121 e c = SECOC_FRESH_OK"
    and "link_mac fuelB (g_handlers_b hwB keysB) key (mac_input 0x121 e c [pct]) (fst wB) = (Some t, lk)"
    and "secoc_rx_accept (Some x) 0x121 e c (lk, snd wB) = Some (True, x', wB')"
  shows "\<exists>s' eff. can_task_pass cyB inp s wB = Some (s', eff, wB') \<and>
    nb_act s' = (nb_act s)\<lparr>ac_light_pct := pct\<rparr> \<and> Eff_Led (pct > 0) \<in> set eff \<and>
    applied eff = [(g, \<lparr>bm_kind = BODY_MSG_LIGHT_CMD, bm_u = U_Light_Cmd \<lparr>brightness_pct = pct\<rparr>\<rparr>)]"
proof -
  note srvA = mac_server_tables [OF assms(1), of "g_handlers hwA keysA" keysA, simplified]
  note srvB = mac_server_tables [OF assms(2), of "g_handlers_b hwB keysB" keysB, simplified]
  let ?t = "take SECOC_MAC_LEN (mac_tag_of aes keysA key (mac_input 0x121 e c [pct]))"
  from mac_server.node_light_frame [OF srvA assms(6,4)] assms(7)
  have pct: "pct \<le> 100" and f: "cf_id f = MSG_ID_LIGHT_CMD" "cf_len f = 13" "frame_bytes f = wire_frame [pct] e c ?t"
    by (auto elim!: sym)
  have t: "t = mac_tag_of aes keysA key (mac_input 0x121 e c [pct])"
    using mac_server.served_tag [OF srvB assms(16)] assms(3) by (simp add: mac_tag_of_def)
  have g: "cf_id g = MSG_ID_LIGHT_CMD" "frame_bytes g = wire_frame [pct] e c (take SECOC_MAC_LEN t) @ replicate 3 0"
    using frame_over_bus [OF assms(8,9)] assms(10) f t by (auto simp: wire_len)
  have m: "node_mac (link_mac fuelB (g_handlers_b hwB keysB)) key (mac_input 0x121 e c [pct]) wB = (Some t, lk, snd wB)"
    using assms(16) by (simp add: node_mac_def case_prod_beta)
  show ?thesis
    using process_wire_accepts [OF assms(5) mac_server.node_full_tags [OF srvB] assms(13) _ _ _ _ _ m assms(14,15,17),
        where pad = "replicate 3 0" and buf = "replicate CAN_MAX_DLEN 0"] g
    by (intro pass_light [OF assms(11,12) g(1) pct])
      (simp add: rx_frame_def msg_id_defs body_msg_pdu_len_def secoc_consts CAN_MAX_DLEN_def secoc_fd_frame_len_def k_fd_len_def)
qed

section \<open>A concrete pair of nodes\<close>

text \<open>Both booted in epoch 1, with the link and the keys of \<open>Sample_Node\<close>.\<close>

definition sample_ids :: "u16 list \<Rightarrow> u16 list" where
  "sample_ids ids = overwrite 0 ids (replicate SECOC_MAX_IDS 0)"

definition sample_app :: "crypto_block node secoc_crypto \<Rightarrow> u16 list \<Rightarrow> u16 list \<Rightarrow> crypto_block node secoc_app" where
  "sample_app cy tids rids =
     \<lparr>an_tx = \<lparr>tx_store = Some node_store, tx_domain = SECOC_DOM_TX_SELF, tx_epoch = 1, tx_ids = sample_ids tids,
        tx_counter = replicate SECOC_MAX_IDS 0, tx_id_count = length tids\<rparr>,
      an_rx = \<lparr>r_cy = Some cy, r_fresh = Some \<lparr>rx_store = Some node_store, rx_domain = SECOC_DOM_RX_A, rx_floor = 1,
          rx_current = 1, rx_ids = sample_ids rids, rx_high = replicate SECOC_MAX_IDS 0, rx_id_count = length rids\<rparr>,
        r_pdu_len_of = Some body_msg_pdu_len, r_n_accept = 0, r_n_drop_mac = 0, r_n_drop_fresh = 0\<rparr>,
      an_drop_decode = 0\<rparr>"

definition sample_cy_b :: "crypto_block node secoc_crypto" where
  "sample_cy_b = \<lparr>cy_oracle = Some \<lparr>if_mac = Some (node_mac sample_mac_b)\<rparr>, cy_key_id = SECOC_MAC_KEY_ID\<rparr>"

definition sample_gateway :: "crypto_block node secoc_app" where
  "sample_gateway = sample_app sample_cy tx_ids_a rx_ids_a"

definition sample_actuator :: "crypto_block node node_b" where
  "sample_actuator = \<lparr>nb_app = sample_app sample_cy_b tx_ids_b rx_ids_b, nb_act = actuator_fsm_init, nb_sync_sent = True,
     nb_last_ajar = False, nb_last_pct = 0xFF, nb_rx_count = 0, nb_last_id = 0\<rparr>"

lemma sample_cy_b_mac: "crypto_mac_of (Some sample_cy_b) =
    Some (SECOC_MAC_KEY_ID, node_mac (link_mac 10 (g_handlers_b sample_hw sample_keys)))"
  by (simp add: crypto_mac_of_def sample_cy_b_def sample_mac_b_def)

lemma sample_slots: "find_slot (sample_ids tx_ids_a) 3 0x121 = Some 1" "find_slot (sample_ids rx_ids_b) 3 0x121 = Some 1"
  by (simp_all add: find_slot_def sample_ids_def tx_ids_a_def rx_ids_b_def overwrite_def eval_nat_numeral)

lemma sample_lengths: "length tx_ids_a = 3" "length rx_ids_b = 3"
  by (simp_all add: tx_ids_a_def rx_ids_b_def)

lemma sample_spends:
  "\<exists>tx. secoc_tx_next (Some (an_tx sample_gateway)) 0x121 (Some (0, 0)) w = Some (True, Some tx, Some (1, 1), w)"
  using sample_slots(1) sample_lengths
  by (simp add: sample_gateway_def sample_app_def secoc_tx_next_def SECOC_MAX_IDS_def)

lemma sample_fresh: "secoc_rx_check (r_fresh (an_rx (nb_app sample_actuator))) 0x121 1 1 = SECOC_FRESH_OK"
  "\<exists>x'. secoc_rx_accept (r_fresh (an_rx (nb_app sample_actuator))) 0x121 1 1 w = Some (True, x', w)"
  using sample_slots(2) sample_lengths
  by (simp_all add: sample_actuator_def sample_app_def secoc_rx_check_def secoc_rx_accept_def SECOC_MAX_IDS_def)

lemma sample_actuator_cy: "crypto_mac_of (r_cy (an_rx (nb_app sample_actuator))) =
    Some (SECOC_MAC_KEY_ID, node_mac (link_mac 10 (g_handlers_b sample_hw sample_keys)))"
  using sample_cy_b_mac by (simp add: sample_actuator_def sample_app_def)

text \<open>The gateway's light command, up to the actuator's receive callback, and what the actuator's side answers.\<close>

lemma sample_light:
  obtains f a' lk b g tx x t lk' x' where
    "secoc_app_build_light_cmd sample_cy 50 (Some frame_zero) sample_gateway (sample_link, sf) = Some (True, Some f, a', lk, sf)"
    "can_tx f = Some b" "can_rx_callback (replicate CAN_MAX_DLEN 0) b = Some g"
    "secoc_tx_next (Some (an_tx sample_gateway)) 0x121 (Some (0, 0)) (sample_link, sf) =
      Some (True, Some tx, Some (1, 1), sample_link, sf)"
    "r_fresh (an_rx (nb_app sample_actuator)) = Some x" "secoc_rx_check (Some x) 0x121 1 1 = SECOC_FRESH_OK"
    "link_mac 10 (g_handlers_b sample_hw sample_keys) SECOC_MAC_KEY_ID (mac_input 0x121 1 1 [50]) sample_link = (Some t, lk')"
    "secoc_rx_accept (Some x) 0x121 1 1 (lk', sf) = Some (True, x', lk', sf)"
proof -
  have l: "length (mac_input 0x121 1 1 [50]) \<le> 119" by (simp add: mac_input_def)
  obtain t lk where t: "sample_mac SECOC_MAC_KEY_ID (mac_input 0x121 1 1 [50]) sample_link = (Some t, lk)"
    using sample_answers [OF l] by blast
  obtain tx where tx: "secoc_tx_next (Some (an_tx sample_gateway)) 0x121 (Some (0, 0)) (sample_link, sf) =
      Some (True, Some tx, Some (1, 1), sample_link, sf)" using sample_spends by blast
  have m: "node_mac (link_mac 10 (g_handlers sample_hw sample_keys)) SECOC_MAC_KEY_ID (mac_input 0x121 1 1 [50]) (sample_link, sf) =
      (Some t, lk, sf)" using t by (simp add: node_mac_def sample_mac_def)
  obtain d where d: "secoc_secure (Some sample_cy) 0x121 1 1 (Some [50]) (Some (cf_data frame_zero)) (sample_link, sf) = (13, Some d, lk, sf)"
    using secoc_secure_spec [OF sample_cy_mac, of "[50]" "cf_data frame_zero" "0x121" 1 1 "(sample_link, sf)"] m
    by (simp add: secoc_consts frame_zero_def CAN_MAX_DLEN_def)
  define f where "f = frame_zero\<lparr>cf_data := d, cf_id := 0x121, cf_flags := CAN_FLAG_FDF, cf_len := 13\<rparr>"
  have b: "secoc_app_build_light_cmd sample_cy 50 (Some frame_zero) sample_gateway (sample_link, sf) =
      Some (True, Some f, sample_gateway\<lparr>an_tx := tx\<rparr>, lk, sf)"
    using tx d by (simp add: secoc_app_build_light_cmd_def pack_light_cmd_def build_secured_def f_def msg_id_defs)
  have len: "13 \<le> length d" using secure_buf [OF d] by auto
  then have "\<exists>c. can_tx f = Some c" by (auto simp: can_tx_def copy_in_def f_def CAN_MAX_DLEN_def)
  then obtain c where c: "can_tx f = Some c" by blast
  obtain g where "can_rx_callback (replicate CAN_MAX_DLEN 0) c = Some g"
    using frame_over_bus [OF c, of "replicate CAN_MAX_DLEN 0"] by auto
  moreover obtain x where x: "r_fresh (an_rx (nb_app sample_actuator)) = Some x" by (simp add: sample_actuator_def sample_app_def)
  moreover obtain u lk' where "link_mac 10 (g_handlers_b sample_hw sample_keys) SECOC_MAC_KEY_ID (mac_input 0x121 1 1 [50]) sample_link = (Some u, lk')"
    using sample_answers_b [OF l] by (auto simp: sample_mac_b_def)
  moreover obtain x' where "secoc_rx_accept (Some x) 0x121 1 1 (lk', sf) = Some (True, x', lk', sf)"
    using sample_fresh(2) x by metis
  ultimately show thesis using that b c tx sample_fresh(1) by metis
qed

definition sample_sf :: "wflash store_state \<times> wflash" where
  "sample_sf = (store_state0, wflash_fake_reset)"

lemma sample_pass:
  "\<exists>g s' eff w' m. can_task_pass sample_cy_b \<lparr>pi_frame = Some g, pi_ajar = False, pi_tx_ok = True\<rparr> sample_actuator
    (sample_link, sf0) = Some (s', eff, w') \<and> applied eff = [(g, m)]"
proof -
  obtain f a' lk b g tx x t lk' x' where b:
    "secoc_app_build_light_cmd sample_cy 50 (Some frame_zero) sample_gateway (sample_link, sf0) = Some (True, Some f, a', lk, sf0)"
    and bus: "can_tx f = Some b" "can_rx_callback (replicate CAN_MAX_DLEN 0) b = Some g"
    and tx: "secoc_tx_next (Some (an_tx sample_gateway)) 0x121 (Some (0, 0)) (sample_link, sf0) =
      Some (True, Some tx, Some (1, 1), sample_link, sf0)"
    and x: "r_fresh (an_rx (nb_app sample_actuator)) = Some x" "secoc_rx_check (Some x) 0x121 1 1 = SECOC_FRESH_OK"
    and t: "link_mac 10 (g_handlers_b sample_hw sample_keys) SECOC_MAC_KEY_ID (mac_input 0x121 1 1 [50]) sample_link = (Some t, lk')"
    and x': "secoc_rx_accept (Some x) 0x121 1 1 (lk', sf0) = Some (True, x', lk', sf0)"
    by (rule sample_light)
  let ?in = "\<lparr>pi_frame = Some g, pi_ajar = False, pi_tx_ok = True\<rparr>"
  have "\<exists>s' eff. can_task_pass sample_cy_b ?in sample_actuator (sample_link, sf0) = Some (s', eff, lk', sf0) \<and>
    nb_act s' = (nb_act sample_actuator)\<lparr>ac_light_pct := 50\<rparr> \<and> Eff_Led ((50 :: u8) > 0) \<in> set eff \<and>
    applied eff = [(g, \<lparr>bm_kind = BODY_MSG_LIGHT_CMD, bm_u = U_Light_Cmd \<lparr>brightness_pct = 50\<rparr>\<rparr>)]"
    by (rule light_crosses_over [OF sample_engine sample_engine refl sample_cy_mac sample_actuator_cy b tx bus(1) _ bus(2)
          _ _ _ x _ _])
      (use t x' in \<open>simp_all add: sample_actuator_def sample_app_def\<close>)
  then show ?thesis by blast
qed

section \<open>Properties of the vehicle\<close>



text \<open>C2: a pass of the actuator's task moves the actuator only by a command whose tag and freshness
  were checked, and by nothing but that command.\<close>

theorem actuation_is_authentic:
  assumes "cmac_engine hw aes" and "table \<in> {g_handlers hw keys, g_handlers_b hw keys}"
    and "crypto_mac_of (r_cy (an_rx (nb_app s))) = Some (key, node_mac (link_mac fuel table))"
    and "can_task_pass cy inp s w = Some (s', eff, w')"
  shows "applied eff = [] \<and> nb_act s' = nb_act s \<or>
    (\<exists>f p e c pad m. pi_frame inp = Some f \<and> cf_id f \<in> {MSG_ID_DOOR_CMD, MSG_ID_LIGHT_CMD} \<and>
      frame_bytes f = p @ le16 e @ le16 c @
        take SECOC_MAC_LEN (mac_tag_of aes keys key (le16 (ucast (cf_id f)) @ le16 e @ le16 c @ p)) @ pad \<and>
      secoc_rx_check (r_fresh (an_rx (nb_app s))) (ucast (cf_id f)) e c = SECOC_FRESH_OK \<and>
      body_decode (cf_id f) (Some p) (Some body_msg_junk) = (True, Some m) \<and>
      applied eff = [(f, m)] \<and> nb_act s' = actuator_fsm_apply (Some m) (nb_act s))"
proof -
  note srv = mac_server_tables [OF assms(1,2)]
  obtain s1 eff1 w1 eff2 where s1: "sync_phase cy (pi_tx_ok inp) s w = Some (s1, eff1, w1)"
    and s2: "(case pi_frame inp of Some f \<Rightarrow> rx_phase f s1 w1 | None \<Rightarrow> telemetry_phase cy (pi_ajar inp) s1 w1) = Some (s', eff2, w')"
    and eff: "eff = eff1 @ eff2"
    using assms(4) by (auto simp: can_task_pass_def split: option.splits)
  note k = sync_phase_keeps [OF s1]
  show ?thesis
  proof (cases "pi_frame inp")
    case None
    then show ?thesis using telemetry_phase_keeps [of cy _ s1 w1 s' eff2 w'] s2 k eff by simp
  next
    case (Some f)
    with s2 have r: "rx_phase f s1 w1 = Some (s', eff2, w')" by simp
    from rx_phase_applied [OF r] show ?thesis
    proof (elim disjE exE conjE)
      fix x m assume x: "rx_frame f (nb_app s1) w1 = Some x" "rr_verdict x = SECOC_RX_ACCEPT"
        and d: "cf_id f \<in> {MSG_ID_DOOR_CMD, MSG_ID_LIGHT_CMD}"
          "body_decode (cf_id f) (Some (pdu_of x)) (Some body_msg_junk) = (True, Some m)"
        and a: "applied eff2 = [(f, m)]" "nb_act s' = actuator_fsm_apply (Some m) (nb_act s1)"
      have cy: "crypto_mac_of (r_cy (an_rx (nb_app s1))) = Some (key, node_mac (link_mac fuel table))"
        using assms(3) k by simp
      obtain g p e c where "Some (frame_bytes f) = Some g" "authentic (mac_tag_of aes keys) key (ucast (cf_id f)) e c p g"
        and p: "rr_pdu x = map_option (overwrite 0 p) (Some (replicate CAN_MAX_DLEN 0))" "rr_pdu_len x = Some (length p)"
        and c: "secoc_rx_check (r_fresh (an_rx (nb_app s1))) (ucast (cf_id f)) e c = SECOC_FRESH_OK"
        by (rule mac_server.accepted_authentic [OF srv x(1) [unfolded rx_frame_def] x(2) cy])
      then obtain pad where "frame_bytes f = p @ le16 e @ le16 c @
          take SECOC_MAC_LEN (mac_tag_of aes keys key (le16 (ucast (cf_id f)) @ le16 e @ le16 c @ p)) @ pad"
        by (auto simp: authentic_def wire_frame_def mac_input_def)
      moreover have "pdu_of x = p" using p by (simp add: pdu_of_def)
      ultimately show ?thesis using Some d a c k eff by auto
    qed (use k eff in simp)
  qed
qed

theorem actuation_is_authentic_witness:
  "\<exists>inp s' eff w' f m. can_task_pass sample_cy_b inp sample_actuator (sample_link, sample_sf) = Some (s', eff, w') \<and>
    applied eff = [(f, m)] \<and>
    (\<exists>p e c pad. frame_bytes f = p @ le16 e @ le16 c @
        take SECOC_MAC_LEN (mac_tag_of (\<lambda>k d. pad16 [of_nat (length d), of_nat (length k)]) sample_keys SECOC_MAC_KEY_ID
          (le16 (ucast (cf_id f)) @ le16 e @ le16 c @ p)) @ pad)"
proof -
  let ?in = "\<lambda>g. \<lparr>pi_frame = Some g, pi_ajar = False, pi_tx_ok = True\<rparr>"
  obtain g s' eff w' m where p: "can_task_pass sample_cy_b (?in g) sample_actuator (sample_link, sample_sf) = Some (s', eff, w')"
    and a: "applied eff = [(g, m)]"
    using sample_pass by blast
  from actuation_is_authentic [OF sample_engine _ sample_actuator_cy p] a p show ?thesis by fastforce
qed

text \<open>C3: over any life of the node from an erased device, with power cuts at any flash step,
  no command is applied twice, until the persisted epoch reaches \<open>0xFFFF\<close>.\<close>

theorem node_b_never_applies_a_replay:
  assumes "cmac_engine hw aes" and "table \<in> {g_handlers hw keys, g_handlers_b hw keys}"
    and "crypto_mac_of (Some cy) = Some (key, node_mac (link_mac fuel table))"
    and "node_b_init cy node_mount node_store (node_cut lkk (lk0, store_state0, wflash_fake_reset)) = (s, w)"
    and "b_life cy node_mount node_store node_cut evs (s, w) = Some (outs, hist)"
    and "0xFFFF \<notin> set hist" and "3 * length evs + 1 < 2 ^ 32"
  shows "distinct outs"
  by (rule mac_server.node_b_life [OF mac_server_tables [OF assms(1,2)] assms(3-7)])

lemma life_total:
  assumes "b_safe (nb_app s)" and "\<And>v t v'. node_b_init cy mount store v = (t, v') \<Longrightarrow> b_safe (nb_app t)"
    and "\<forall>ev \<in> set evs. \<forall>inp f. ev = B_Pass inp \<longrightarrow> pi_frame inp = Some f \<longrightarrow> cf_id f \<noteq> MSG_ID_GW_FRESHNESS_SYNC"
  shows "\<exists>outs hist. b_life cy mount store pwr evs (s, w) = Some (outs, hist)"
  using assms(1,3)
proof (induction evs arbitrary: s w)
  case Nil
  then show ?case by simp
next
  case (Cons ev evs)
  show ?case
  proof (cases ev)
    case (B_Pass inp)
    obtain s1 eff w1 where p: "can_task_pass cy inp s w = Some (s1, eff, w1)" "b_safe (nb_app s1)"
      using pass_safe [OF Cons.prems(1), of inp cy w] Cons.prems(2) B_Pass by auto
    then show ?thesis using Cons.IH [OF p(2), of w1] Cons.prems(2) B_Pass by auto
  next
    case (B_Reboot k)
    obtain t v where i: "node_b_init cy mount store (pwr k w) = (t, v)" by (metis surj_pair)
    show ?thesis using Cons.IH [OF assms(2) [OF i], of v] Cons.prems(2) B_Reboot i by auto
  qed
qed

theorem node_b_never_applies_a_replay_witness:
  "\<exists>s w outs hist. node_b_init sample_cy_b node_mount node_store
      (node_cut (sample_link, - 1) (sample_link, store_state0, wflash_fake_reset)) = (s, w) \<and>
    b_life sample_cy_b node_mount node_store node_cut
      [B_Pass \<lparr>pi_frame = Some (frame_zero\<lparr>cf_id := 0x121, cf_len := 16\<rparr>), pi_ajar = False, pi_tx_ok = True\<rparr>,
       B_Reboot (sample_link, 3), B_Pass \<lparr>pi_frame = None, pi_ajar = True, pi_tx_ok = True\<rparr>] (s, w) = Some (outs, hist) \<and>
    (0xFFFF \<in> set hist \<or> distinct outs)"
proof -
  let ?evs = "[B_Pass \<lparr>pi_frame = Some (frame_zero\<lparr>cf_id := 0x121, cf_len := 16\<rparr>), pi_ajar = False, pi_tx_ok = True\<rparr>,
       B_Reboot (sample_link, 3), B_Pass \<lparr>pi_frame = None, pi_ajar = True, pi_tx_ok = True\<rparr>]"
  obtain s w where i: "node_b_init sample_cy_b node_mount node_store
      (node_cut (sample_link, - 1) (sample_link, store_state0, wflash_fake_reset)) = (s, w)" by (metis surj_pair)
  have st: "store_ok (Some (node_store :: crypto_block node freshness_store_if))" by (simp add: store_ok_def node_store_def)
  have safe: "b_safe (nb_app t)" if "node_b_init sample_cy_b node_mount node_store v = (t, v')" for v t v'
    using init_safe [OF st that] by blast
  obtain outs hist where l: "b_life sample_cy_b node_mount node_store node_cut ?evs (s, w) = Some (outs, hist)"
  proof -
    have "\<exists>outs hist. b_life sample_cy_b node_mount node_store node_cut ?evs (s, w) = Some (outs, hist)"
      by (rule life_total [OF safe [OF i] safe]) (simp_all add: msg_id_defs)
    then show thesis using that by blast
  qed
  have "0xFFFF \<notin> set hist \<Longrightarrow> distinct outs"
    by (rule node_b_never_applies_a_replay [where keys = sample_keys, OF sample_engine _ sample_cy_b_mac i l]) simp_all
  with i l show ?thesis by blast
qed

text \<open>C15: on a node whose store does not mount no pass, whatever it receives, moves the
  actuator, sends a frame or faults.\<close>

theorem broken_store_fails_closed:
  assumes "fst (mount w) = SECOC_STORE_BROKEN" and "node_b_init cy mount store w = (s, w')"
  shows "\<exists>s' eff w2. b_run cy inps s w' = Some (s', eff, w2) \<and> nb_act s' = actuator_fsm_init \<and>
    (\<forall>e \<in> set eff. \<exists>l. e = Eff_Log l)"
proof -
  have "unbooted s" using unbooted_init [where mount = mount and w = w and cy = cy and store = store, OF assms(1)] assms(2) by simp
  moreover have "nb_act s = actuator_fsm_init" using assms(2) by (auto simp: node_b_init_def split: prod.splits)
  ultimately show ?thesis using unbooted_run [of s cy inps w'] by metis
qed

theorem broken_store_fails_closed_witness:
  "\<exists>s w' s' eff w2. node_b_init sample_cy_b (Pair SECOC_STORE_BROKEN) node_store (sample_link, store_state0, wflash_fake_reset) =
      (s, w') \<and>
    b_run sample_cy_b [\<lparr>pi_frame = Some (frame_zero\<lparr>cf_id := 0x120\<rparr>), pi_ajar = True, pi_tx_ok = True\<rparr>] s w' = Some (s', eff, w2) \<and>
    nb_act s' = actuator_fsm_init"
proof -
  obtain s w' where i: "node_b_init sample_cy_b (Pair SECOC_STORE_BROKEN) node_store (sample_link, store_state0, wflash_fake_reset) = (s, w')"
    by (metis surj_pair)
  show ?thesis using broken_store_fails_closed [OF _ i] i by fastforce
qed

text \<open>C35: no call of a run goes through a null store, unless the sender's boot failed at init and a
  frame with the gateway's sync identifier arrives.\<close>

theorem node_b_never_faults:
  assumes "store_ok (Some store)" and "node_b_init cy mount store w = (s, w')"
    and "tx_store (an_tx (nb_app s)) = None \<longrightarrow>
      (\<forall>inp \<in> set inps. \<forall>f. pi_frame inp = Some f \<longrightarrow> cf_id f \<noteq> MSG_ID_GW_FRESHNESS_SYNC)"
  shows "b_run cy inps s w' \<noteq> None"
  by (rule run_safe) (use init_safe [OF assms(1,2)] assms(1,3) in auto)

theorem node_b_never_faults_witness:
  "b_run sample_cy_b [\<lparr>pi_frame = Some frame_zero, pi_ajar = True, pi_tx_ok = True\<rparr>]
    (fst (node_b_init sample_cy_b node_mount node_store (sample_link, store_state0, wflash_fake_reset)))
    (snd (node_b_init sample_cy_b node_mount node_store (sample_link, store_state0, wflash_fake_reset))) \<noteq> None"
  by (rule node_b_never_faults [where store = node_store and mount = node_mount and
        w = "(sample_link, store_state0, wflash_fake_reset)"])
    (simp_all add: store_ok_def node_store_def msg_id_defs frame_zero_def)

text \<open>C36: over any run of the gateway's two tasks the bus sees light commands and syncs
  only; the code that builds a door command is never reached.\<close>

theorem gateway_sends_no_door_command:
  assumes "node_a_init cy mount store h w0 = (s, w)" and "gw_run cy xs s w = Some (s', out, w')"
  shows "\<forall>b \<in> set out. bf_id b \<in> {MSG_ID_LIGHT_CMD, MSG_ID_GW_FRESHNESS_SYNC}"
proof -
  have "reports_only s" using assms(1) by (auto simp: node_a_init_def reports_only_def split: prod.splits)
  from gw_run_out [OF assms(2) this] show ?thesis .
qed


text \<open>A gateway over a medium that always acknowledges and a hardware block that always answers with zeros.\<close>

definition easy_cy :: "unit secoc_crypto" where
  "easy_cy = \<lparr>cy_oracle = Some \<lparr>if_mac = Some (\<lambda>_ _ w. (Some (replicate 16 0), w))\<rparr>, cy_key_id = SECOC_MAC_KEY_ID\<rparr>"

definition easy_store :: "unit freshness_store_if" where
  "easy_store = \<lparr>st_load = Some (\<lambda>_ _. None), st_commit = Some (\<lambda>_ _ w. (True, w))\<rparr>"

definition easy_report :: can_raw_frame where
  "easy_report = \<lparr>cf_id = MSG_ID_SENSOR_RPT, cf_flags = CAN_FLAG_FDF, cf_len = 16,
     cf_data = [0, 0, 1, 1, 0, 1, 0] @ replicate 57 0\<rparr>"

lemma easy_mac: "crypto_mac_of (Some easy_cy) = Some (SECOC_MAC_KEY_ID, \<lambda>_ _ w. (Some (replicate 16 0), w))"
  by (simp add: crypto_mac_of_def easy_cy_def)

definition easy_app :: "u16 \<Rightarrow> u16 list \<Rightarrow> u16 \<Rightarrow> u16 list \<Rightarrow> u32 \<Rightarrow> unit secoc_app" where
  "easy_app floor cnt cur high acc =
     \<lparr>an_tx = \<lparr>tx_store = Some easy_store, tx_domain = SECOC_DOM_TX_SELF, tx_epoch = 1, tx_ids = sample_ids tx_ids_a,
        tx_counter = cnt, tx_id_count = 3\<rparr>,
      an_rx = \<lparr>r_cy = Some easy_cy, r_fresh = Some \<lparr>rx_store = Some easy_store, rx_domain = SECOC_DOM_RX_A, rx_floor = 1,
          rx_current = cur, rx_ids = sample_ids rx_ids_a, rx_high = high, rx_id_count = 2\<rparr>,
        r_pdu_len_of = Some body_msg_pdu_len, r_n_accept = acc, r_n_drop_mac = 0, r_n_drop_fresh = 0\<rparr>,
      an_drop_decode = 0\<rparr>"

lemma easy_init:
  "secoc_app_init easy_cy (Pair SECOC_STORE_OK) easy_store tx_ids_a rx_ids_a () =
     (easy_app 1 (replicate 8 0) 0 (replicate 8 0) 0, ())"
  by (simp add: secoc_app_init_def easy_app_def secoc_tx_boot_def secoc_rx_boot_def tx_zero_def rx_zero_def secoc_rx_zero_def
      secoc_rx_init_def secoc_rx_set_pdu_len_of_def store_ok_def easy_store_def tx_ids_a_def rx_ids_a_def SECOC_MAX_IDS_def
      sample_ids_def zero_upto_def overwrite_def eval_nat_numeral)

lemma easy_send:
  assumes "find_slot (sample_ids tx_ids_a) 3 i = Some k" and "length cnt = 8" and "cnt ! k = 0" and "length p \<le> 3"
  shows "\<exists>g. build_secured easy_cy i p frame_zero (easy_app 1 cnt cur high acc) () =
      Some (True, g, easy_app 1 (cnt[k := 1]) cur high acc, ()) \<and> cf_id g = ucast i \<and> can_tx g \<noteq> None"
proof -
  have t: "secoc_tx_next (Some (an_tx (easy_app 1 cnt cur high acc))) i (Some (0, 0)) () =
      Some (True, Some (an_tx (easy_app 1 (cnt[k := 1]) cur high acc)), Some (1, 1), ())"
    using assms by (simp add: secoc_tx_next_def easy_app_def)
  obtain d where q: "secoc_secure (Some easy_cy) i 1 1 (Some p) (Some (cf_data frame_zero)) () = (length p + 12, Some d, ())"
    and d: "length d = 64"
    using secoc_secure_spec [OF easy_mac, of p "cf_data frame_zero" i 1 1 "()"] assms(4)
    by (simp add: secoc_consts frame_zero_def CAN_MAX_DLEN_def)
  let ?g = "frame_zero\<lparr>cf_data := d, cf_id := ucast i, cf_flags := CAN_FLAG_FDF, cf_len := of_nat (length p + 12)\<rparr>"
  have n: "unat (of_nat (length p + 12) :: u8) = length p + 12"
    using assms(4) by (subst unat_of_nat) simp
  have "build_secured easy_cy i p frame_zero (easy_app 1 cnt cur high acc) () =
      Some (True, ?g, easy_app 1 (cnt[k := 1]) cur high acc, ())"
    using t q by (simp add: build_secured_def easy_app_def)
  moreover have "can_tx ?g \<noteq> None"
    using n assms(4) d by (simp add: can_tx_def copy_in_def CAN_MAX_DLEN_def)
  ultimately show ?thesis by (intro exI [of _ ?g]) simp
qed

lemma easy_slots: "find_slot (sample_ids tx_ids_a) 3 0x1F0 = Some 2" "find_slot (sample_ids tx_ids_a) 3 0x121 = Some 1"
    "find_slot (sample_ids rx_ids_a) 2 0x200 = Some 0"
  by (simp_all add: find_slot_def sample_ids_def tx_ids_a_def rx_ids_a_def overwrite_def SECOC_MAX_IDS_def)

lemma easy_sync:
  "\<exists>g b. gw_build_boot_sync easy_cy (Some frame_zero) (easy_app 1 (replicate 8 0) cur high acc) () =
      Some (True, Some g, easy_app 1 ((replicate 8 0)[2 := 1]) cur high acc, ()) \<and> can_tx g = Some b \<and> bf_id b = 0x1F0"
proof -
  let ?a = "easy_app 1 (replicate 8 0) cur high acc"
  let ?p = "[ucast (rx_floor_of ?a AND 0xFF), ucast (drop_bit 8 (rx_floor_of ?a) AND 0xFF)]"
  obtain g b where "build_secured easy_cy 0x1F0 ?p frame_zero ?a () = Some (True, g, easy_app 1 ((replicate 8 0)[2 := 1]) cur high acc, ())"
    "cf_id g = 0x1F0" "can_tx g = Some b"
    using easy_send [OF easy_slots(1), of "replicate 8 0" ?p cur high acc] by auto
  then show ?thesis using can_tx_id by (simp add: gw_build_boot_sync_def build_sync_def msg_id_defs)
qed

lemma easy_receive:
  "\<exists>high'. rx_frame easy_report (easy_app 1 cnt 0 (replicate 8 0) 0) () =
    Some \<lparr>rr_verdict = SECOC_RX_ACCEPT, rr_rx = Some (an_rx (easy_app 1 cnt 1 high' 1)),
      rr_pdu = Some (overwrite 0 [0, 0, 1] (replicate CAN_MAX_DLEN 0)), rr_pdu_len = Some 3,
      rr_log = [(LOG_EVT_SECOC_ACCEPT, 0x200, 1)], rr_world = ()\<rparr>"
proof -
  let ?r = "an_rx (easy_app 1 cnt 0 (replicate 8 0) 0)"
  have f: "frame_bytes easy_report = wire_frame [0, 0, 1] 1 1 (take SECOC_MAC_LEN (replicate 16 0)) @ [0]"
  proof -
    have z: "replicate 9 (0 :: u8) = replicate 8 0 @ [0]" by (simp add: eval_nat_numeral)
    show ?thesis by (simp add: frame_bytes_def easy_report_def wire_frame_def le16_def secoc_consts z)
  qed
  have ft: "full_tags (\<lambda>_ _ w. (Some (replicate 16 0), w :: unit))" by (simp add: full_tags_def secoc_consts)
  let ?c = "\<lparr>rx_store = Some easy_store, rx_domain = SECOC_DOM_RX_A, rx_floor = 1,
      rx_current = 0, rx_ids = sample_ids rx_ids_a, rx_high = replicate 8 0, rx_id_count = 2\<rparr>"
  have a: "\<exists>h. secoc_rx_accept (Some ?c) 0x200 1 1 () = Some (True, Some (?c\<lparr>rx_current := 1, rx_high := h\<rparr>), ())"
    using easy_slots(3) by (simp add: secoc_rx_accept_def commit_via_def easy_store_def)
  then obtain h where a: "secoc_rx_accept (Some ?c) 0x200 1 1 () = Some (True, Some (?c\<lparr>rx_current := 1, rx_high := h\<rparr>), ())" by blast
  have c: "secoc_rx_check (Some ?c) 0x200 1 1 = SECOC_FRESH_OK"
    using easy_slots(3) by (simp add: secoc_rx_check_def)
  have i: "ucast (cf_id easy_report) = (0x200 :: u16)" by (simp add: easy_report_def msg_id_defs)
  show ?thesis unfolding rx_frame_def f i
    by (subst process_wire_accepts [of ?r SECOC_MAC_KEY_ID _ body_msg_pdu_len _ _ _ _ _ _ _ _ _ ?c, OF _ ft _ _ _ _ _ _ _ _ c a])
      (auto simp: easy_app_def easy_mac body_msg_pdu_len_def msg_id_defs secoc_consts CAN_MAX_DLEN_def secoc_fd_frame_len_def k_fd_len_def)
qed

definition easy_noinit :: fbl_handshake where
  "easy_noinit = \<lparr>hs_magic = 0, hs_version = 0, hs_mode = 0, hs_reserved = 0, hs_crc32 = 0\<rparr>"

theorem gateway_sends_no_door_command_witness:
  "\<exists>s w s' b1 b2 w'. node_a_init easy_cy (Pair SECOC_STORE_OK) easy_store easy_noinit () = (s, w) \<and>
    gw_run easy_cy [Gw_Can True None, Gw_Can True (Some easy_report), Gw_App False] s w = Some (s', [b1, b2], w') \<and>
    {bf_id b1, bf_id b2} \<subseteq> {MSG_ID_LIGHT_CMD, MSG_ID_GW_FRESHNESS_SYNC}"
proof -
  let ?s = "\<lparr>na_app = easy_app 1 (replicate 8 0) 0 (replicate 8 0) 0, na_sync_sent = False, na_msg_q = [],
    na_body = bodyctl_init, na_button = \<lparr>bt_low_count = 0, bt_pressed = False\<rparr>, na_request = 0, na_noinit = easy_noinit\<rparr>"
  have i: "node_a_init easy_cy (Pair SECOC_STORE_OK) easy_store easy_noinit () = (?s, ())"
    by (simp add: node_a_init_def easy_init)
  let ?c1 = "(replicate 8 0)[2 := 1]"
  obtain g b where sync: "gw_build_boot_sync easy_cy (Some frame_zero) (na_app ?s) () =
      Some (True, Some g, easy_app 1 ?c1 0 (replicate 8 0) 0, ())" "can_tx g = Some b"
    using easy_sync [of 0 "replicate 8 0" 0] by auto
  obtain h' where rx: "rx_frame easy_report (easy_app 1 ?c1 0 (replicate 8 0) 0) () =
    Some \<lparr>rr_verdict = SECOC_RX_ACCEPT, rr_rx = Some (an_rx (easy_app 1 ?c1 1 h' 1)),
      rr_pdu = Some (overwrite 0 [0, 0, 1] (replicate CAN_MAX_DLEN 0)), rr_pdu_len = Some 3,
      rr_log = [(LOG_EVT_SECOC_ACCEPT, 0x200, 1)], rr_world = ()\<rparr>"
    using easy_receive by blast
  let ?m = "\<lparr>bm_kind = BODY_MSG_SENSOR_REPORT, bm_u = U_Sensor_Report \<lparr>ambient_raw = 0, door_ajar = 1\<rparr>\<rparr>"
  have dec: "body_decode MSG_ID_SENSOR_RPT (Some [0, 0, 1]) (Some msg_junk) = (True, Some ?m)"
    by (simp add: body_decode_def msg_id_defs unpack_sensor_report_def msg_junk_def)
  have v: "secoc_app_verify_telemetry (Some easy_report) (Some msg_junk) (easy_app 1 ?c1 0 (replicate 8 0) 0) () =
      Some (True, Some ?m, easy_app 1 ?c1 1 h' 1, [(LOG_EVT_SECOC_ACCEPT, 0x200, 1)], ())"
  proof -
    have pd: "take 3 (overwrite 0 [0, 0, 1] (replicate CAN_MAX_DLEN 0)) = [0, 0, 1 :: u8]" by (simp add: overwrite_def)
    have "cf_id easy_report = MSG_ID_SENSOR_RPT" by (simp add: easy_report_def)
    moreover have "(easy_app 1 ?c1 0 (replicate 8 0) 0)\<lparr>an_rx := an_rx (easy_app 1 ?c1 1 h' 1)\<rparr> = easy_app 1 ?c1 1 h' 1"
      by (simp add: easy_app_def)
    ultimately show ?thesis
      using rx dec pd
      by (simp add: secoc_app_verify_telemetry_def secoc_app_verify_and_decode_def pdu_of_def)
  qed
  obtain g2 b2 where light: "build_secured easy_cy 0x121 [100] frame_zero (easy_app 1 ?c1 1 h' 1) () =
      Some (True, g2, easy_app 1 (?c1[1 := 1]) 1 h' 1, ())" "can_tx g2 = Some b2"
    using easy_send [OF easy_slots(2), of ?c1 "[100]" 1 h' 1] by auto
  have id: "cf_id easy_report = 0x200" by (simp add: easy_report_def msg_id_defs)
  obtain s' where r: "gw_run easy_cy [Gw_Can True None, Gw_Can True (Some easy_report), Gw_App False] ?s () = Some (s', [b, b2], ())"
    using sync v light id
    by (simp add: gw_can_task_pass_def gw_sync_phase_def queue_send_def APP_MSG_QDEPTH_def app_task_pass_def bodyctl_step_def
        apply_output_def send_built_def secoc_app_build_light_cmd_def pack_light_cmd_def poll_reprogram_button_def
        APP_BTN_DEBOUNCE_def msg_id_defs Let_def)
  from gateway_sends_no_door_command [OF i r] i r show ?thesis by auto
qed

end
