(* ===== verification/Sender_Life.thy ===== *)
theory Sender_Life imports Node_B begin

text \<open>
  Lives of the sender of \<open>shared/secoc/src/secoc_freshness.c\<close> without syncs: no call faults, and every
  start and every wrap of a counter raises the persisted epoch by at most one, so that the epoch is not
  used up before 65535 events.
\<close>

fun no_sync :: "'k tx_event \<Rightarrow> bool" where
  "no_sync (Tx_Sync f) = False"
| "no_sync ev = True"

lemma unat_Suc_le: "unat (x + 1 :: u16) \<le> Suc (unat x)"
  by (cases "x = - 1") (simp_all add: unat_Suc)

context freshness_medium
begin

lemma commit_raises:
  assumes "ok (Suc n) w" and "cm d (persisted d w + 1) w = (b, w')"
  shows "unat (persisted d w') \<le> Suc (unat (persisted d w))"
  using assms persisted_commit(1,2) [OF assms(1), of d "persisted d w + 1" w'] unat_Suc_le [of "persisted d w"]
  by (cases b) simp_all

lemma port_is_ok: "store_ok (Some port)"
  by (simp add: store_ok_def port_def)

lemma tx_send_quiet:
  assumes s: "tx_sound (Suc n) d c w spent"
    and nxt: "secoc_tx_next (Some c) i (Some (0, 0)) w = Some (b, c', o', w')"
  shows "unat (persisted d w') \<le> Suc (unat (persisted d w))"
proof (cases "tx_id_count c = 0")
  case True
  then show ?thesis using nxt by (simp add: secoc_tx_next_def find_slot_def)
next
  case False
  then have c: "tx_store c = Some port" "tx_domain c = d" "tx_epoch c = persisted d w" and ok: "ok (Suc n) w"
    using s by (auto simp: tx_sound_def)
  have via: "commit_via (Some port) d e w = Some (cm d e w)" for e by (simp add: commit_via_def port_def)
  have "w' = w \<or> (\<exists>b. cm d (persisted d w + 1) w = (b, w'))"
    using nxt
    by (auto simp: secoc_tx_next_def c via Let_def split: option.splits if_splits prod.splits bool.splits)
  then show ?thesis using commit_raises [OF ok] by auto
qed

lemma tx_step_quiet:
  assumes s: "tx_sound (Suc n) d c w spent" and ids: "ids \<noteq> []" "length ids \<le> SECOC_MAX_IDS" and q: "no_sync ev"
  shows "\<exists>c' w' out. tx_step port reboot d ids ev (c, w) = Some (c', w', out) \<and>
    unat (persisted d w') \<le> Suc (unat (persisted d w))"
proof (cases ev)
  case (Tx_Send i)
  have "tx_safe c" using s port_is_ok by (auto simp: tx_safe_def tx_sound_def)
  from tx_next_safe [OF this] obtain b c' o' w' where
    n: "secoc_tx_next (Some c) i (Some (0, 0)) w = Some (b, Some c', Some o', w')" by blast
  from tx_send_quiet [OF s n] n Tx_Send show ?thesis by simp
next
  case (Tx_Sync f)
  then show ?thesis using q by simp
next
  case (Tx_Reboot k)
  have ok: "ok (Suc n) w" using s by (simp add: tx_sound_def)
  have r: "persisted d (reboot k w) = persisted d w" "ok (Suc n) (reboot k w)"
    using persisted_reboot [OF ok] reboot_ok [OF ok] by auto
  obtain b w' where cm: "cm d (persisted d (reboot k w) + 1) (reboot k w) = (b, w')" by fastforce
  have p: "(case ld d (reboot k w) of None \<Rightarrow> 0 | Some e \<Rightarrow> e) = persisted d (reboot k w)"
    by (simp add: persisted_def)
  have "\<exists>x c'. secoc_tx_boot (Some tx_zero) (Some port) d (Some ids) (reboot k w) = (x, c', w')"
    using ids cm p port_is_ok by (cases b) (auto simp: secoc_tx_boot_def Let_def port_def)
  then show ?thesis using commit_raises [OF r(2) cm] r(1) Tx_Reboot by auto
qed

lemma tx_quiet_life:
  assumes "tx_sound (length evs) d c w spent" and "unat (persisted d w) + length evs < 0xFFFF"
    and "list_all no_sync evs" and "ids \<noteq> []" and "length ids \<le> SECOC_MAX_IDS"
  shows "\<exists>outs hist. tx_life port reboot d ids evs (c, w) = Some (outs, hist) \<and> 0xFFFF \<notin> set hist"
  using assms
proof (induction evs arbitrary: c w spent)
  case Nil
  have "persisted d w \<noteq> 0xFFFF" using Nil.prems(2) by auto
  then show ?case by simp
next
  case (Cons ev evs)
  have s: "tx_sound (Suc (length evs)) d c w spent" and q: "no_sync ev" using Cons.prems(1,3) by simp_all
  have nw: "persisted d w \<noteq> 0xFFFF" using Cons.prems(2) by auto
  obtain c' w' out where step: "tx_step port reboot d ids ev (c, w) = Some (c', w', out)"
    "unat (persisted d w') \<le> Suc (unat (persisted d w))"
    using tx_step_quiet [OF s Cons.prems(4,5) q] by blast
  have "unat (persisted d w') + length evs < 0xFFFF" using step(2) Cons.prems(2) by simp
  from Cons.IH [OF tx_step_sound(1) [OF s nw Cons.prems(4,5) step(1)] this _ Cons.prems(4,5)] Cons.prems(3)
  obtain outs hist where "tx_life port reboot d ids evs (c', w') = Some (outs, hist)" "0xFFFF \<notin> set hist" by auto
  then show ?case using step(1) nw by simp
qed

end

end
