(* ===== verification/Wflash_Port.thy ===== *)
theory Wflash_Port imports Work_Flash begin

text \<open>
  The target's work-flash driver \<open>shared/secoc_store/port/wflash_port.c\<close>: the flash interface of the
  freshness store over the vendor's flash and DMA calls. A write programs one word at a time in
  address order, a checked read is one DMA transfer that is polled to its end.

  The vendor calls are the parameter \<open>cy\<close>, with the status codes and interrupt bits whose values the
  sources do not give. \<open>work_flash_vendor\<close> says, call by call, what the driver relies on; under it
  the driver does to the device what the reference model \<open>wflash_fake.c\<close> does, so that the store over
  the driver keeps every promise it keeps over the reference.
\<close>

section \<open>The vendor calls and the state\<close>

record 'w cy_work_flash =
  cw_erase_sector :: "u32 \<Rightarrow> 'w \<Rightarrow> u32 \<times> 'w"
  cw_program :: "u32 \<Rightarrow> u32 \<Rightarrow> 'w \<Rightarrow> u32 \<times> 'w"
  cw_blank_check :: "u32 \<Rightarrow> u32 \<Rightarrow> 'w \<Rightarrow> u32 \<times> 'w"
  cw_write_enable :: "'w \<Rightarrow> 'w"
  cw_dmac_enable :: "u32 option \<Rightarrow> 'w \<Rightarrow> 'w"
  cw_descriptor_init :: "u32 \<Rightarrow> u32 \<Rightarrow> 'w \<Rightarrow> u32 \<times> 'w"
  cw_channel_init :: "u32 option \<Rightarrow> u32 \<Rightarrow> 'w \<Rightarrow> u32 \<times> 'w"
  cw_clear_interrupt :: "u32 option \<Rightarrow> u32 \<Rightarrow> 'w \<Rightarrow> 'w"
  cw_channel_enable :: "u32 option \<Rightarrow> u32 \<Rightarrow> 'w \<Rightarrow> 'w"
  cw_channel_disable :: "u32 option \<Rightarrow> u32 \<Rightarrow> 'w \<Rightarrow> 'w"
  cw_sw_trigger :: "u32 \<Rightarrow> 'w \<Rightarrow> u32 \<times> 'w"
  cw_interrupt_status :: "u32 option \<Rightarrow> u32 \<Rightarrow> 'w \<Rightarrow> u32 \<times> 'w"
  cw_rd :: "'w \<Rightarrow> u32 list"
  cw_drv_success :: u32
  cw_drv_not_erased :: u32
  cw_dmac_success :: u32
  cw_trigmux_success :: u32
  cw_intr_completion :: u32
  cw_intr_errors :: "u32 list"

text \<open>
  \<open>cw_program\<close> takes the destination and \<open>prog[0]\<close>; \<open>cw_descriptor_init\<close> the source address and the
  number of words; \<open>cw_rd\<close> reads the buffer \<open>shared->rd\<close>, which the DMA fills. The handles of the
  configuration are opaque, \<open>NULL\<close> is \<open>None\<close>.
\<close>

record wflash_port_cfg =
  wc_dmac :: "u32 option"
  wc_channel :: u32
  wc_sw_trigger :: u32
  wc_sector_size :: u32
  wc_shared :: "u32 option"

record 'w wf_port =
  wp_cfg :: wflash_port_cfg
  wp_hal_sector_size :: u32
  wp_raw_status :: u32
  wp_raw_dma_intr :: u32
  wp_dev :: 'w

definition WF_WORD :: nat where "WF_WORD = 4"
definition WF_DMA_POLL_LIMIT :: nat where "WF_DMA_POLL_LIMIT = 100000"
definition WF_RD_SIZE :: nat where "WF_RD_SIZE = 32"

lemmas wf_port_consts = WF_WORD_def WF_DMA_POLL_LIMIT_def WF_RD_SIZE_def

definition WF_DMA_ERRORS :: "'w cy_work_flash \<Rightarrow> u32" where
  "WF_DMA_ERRORS cy = fold (OR) (cw_intr_errors cy) 0"

section \<open>Operations\<close>

definition status_to_rc :: "'w cy_work_flash \<Rightarrow> u32 \<Rightarrow> 'w wf_port \<Rightarrow> int \<times> 'w wf_port" where
  "status_to_rc cy st p = (if st = cw_drv_success cy then 0 else - 1, p\<lparr>wp_raw_status := st\<rparr>)"

definition wf_erase_sector :: "'w cy_work_flash \<Rightarrow> u32 \<Rightarrow> 'w wf_port \<Rightarrow> int \<times> 'w wf_port" where
  "wf_erase_sector cy addr p = (case cw_erase_sector cy addr (wp_dev p) of
     (st, w) \<Rightarrow> status_to_rc cy st (p\<lparr>wp_dev := w\<rparr>))"

fun wf_write_loop ::
  "'w cy_work_flash \<Rightarrow> u32 \<Rightarrow> bytes \<Rightarrow> nat list \<Rightarrow> 'w wf_port \<Rightarrow> int \<times> 'w wf_port" where
  "wf_write_loop cy addr src [] p = (0, p)"
| "wf_write_loop cy addr src (off # offs) p =
     (let word = un_le32 (src ! off) (src ! (off + 1)) (src ! (off + 2)) (src ! (off + 3)) in
      case cw_program cy (addr + of_nat off) word (wp_dev p) of (st, w) \<Rightarrow>
        case status_to_rc cy st (p\<lparr>wp_dev := w\<rparr>) of (r, p1) \<Rightarrow>
          if r \<noteq> 0 then (- 1, p1) else wf_write_loop cy addr src offs p1)"

definition wf_write :: "'w cy_work_flash \<Rightarrow> u32 \<Rightarrow> bytes option \<Rightarrow> 'w wf_port \<Rightarrow> int \<times> 'w wf_port" where
  "wf_write cy addr src p = (case src of
     None \<Rightarrow> (- 1, p)
   | Some x \<Rightarrow> if addr mod 4 \<noteq> 0 \<or> length x mod WF_WORD \<noteq> 0 then (- 1, p)
       else wf_write_loop cy addr x (word_offsets (length x)) p)"

definition wf_blank_check :: "'w cy_work_flash \<Rightarrow> u32 \<Rightarrow> nat \<Rightarrow> 'w wf_port \<Rightarrow> int \<times> 'w wf_port" where
  "wf_blank_check cy addr len p =
     (if addr mod 4 \<noteq> 0 \<or> len = 0 \<or> len mod WF_WORD \<noteq> 0 then (- 1, p)
      else case cw_blank_check cy addr (of_nat (len div WF_WORD)) (wp_dev p) of (st, w) \<Rightarrow>
        (if st = cw_drv_success cy then 1 else if st = cw_drv_not_erased cy then 0 else - 1,
         p\<lparr>wp_dev := w, wp_raw_status := st\<rparr>))"

text \<open>\<open>for (i = 0; i < WF_DMA_POLL_LIMIT; ++i)\<close>, with \<open>intr\<close> as the last poll left it.\<close>

primrec dma_poll :: "'w cy_work_flash \<Rightarrow> u32 option \<Rightarrow> u32 \<Rightarrow> nat \<Rightarrow> u32 \<Rightarrow> 'w \<Rightarrow> u32 \<times> 'w" where
  "dma_poll cy dmac ch 0 intr w = (intr, w)"
| "dma_poll cy dmac ch (Suc n) intr w = (case cw_interrupt_status cy dmac ch w of (i, w1) \<Rightarrow>
     if i AND (cw_intr_completion cy OR WF_DMA_ERRORS cy) \<noteq> 0 then (i, w1)
     else dma_poll cy dmac ch n i w1)"

definition rd_bytes :: "u32 list \<Rightarrow> nat \<Rightarrow> bytes" where
  "rd_bytes rd len = map (\<lambda>i. ucast (drop_bit (8 * (i mod WF_WORD)) (rd ! (i div WF_WORD)))) [0..<len]"

definition wf_read_checked ::
  "'w cy_work_flash \<Rightarrow> u32 \<Rightarrow> bytes option \<Rightarrow> nat \<Rightarrow> 'w wf_port \<Rightarrow> int \<times> bytes option \<times> 'w wf_port" where
  "wf_read_checked cy addr dst len p =
     (if dst = None \<or> addr mod 4 \<noteq> 0 \<or> len = 0 \<or> len mod WF_WORD \<noteq> 0 \<or> len > WF_RD_SIZE then (- 1, dst, p)
      else
        let dmac = wc_dmac (wp_cfg p); ch = wc_channel (wp_cfg p) in
        case cw_descriptor_init cy addr (of_nat (len div WF_WORD)) (wp_dev p) of (st1, w1) \<Rightarrow>
        if st1 \<noteq> cw_dmac_success cy then (- 1, dst, p\<lparr>wp_dev := w1\<rparr>)
        else case cw_channel_init cy dmac ch w1 of (st2, w2) \<Rightarrow>
        if st2 \<noteq> cw_dmac_success cy then (- 1, dst, p\<lparr>wp_dev := w2\<rparr>)
        else
        let w3 = cw_channel_enable cy dmac ch (cw_clear_interrupt cy dmac ch w2) in
        case cw_sw_trigger cy (wc_sw_trigger (wp_cfg p)) w3 of (st4, w4) \<Rightarrow>
        if st4 \<noteq> cw_trigmux_success cy then (- 1, dst, p\<lparr>wp_dev := cw_channel_disable cy dmac ch w4\<rparr>)
        else case dma_poll cy dmac ch WF_DMA_POLL_LIMIT 0 w4 of (intr, w5) \<Rightarrow>
        let w6 = cw_clear_interrupt cy dmac ch (cw_channel_disable cy dmac ch w5);
            p1 = p\<lparr>wp_dev := w6, wp_raw_dma_intr := intr\<rparr> in
        if intr AND WF_DMA_ERRORS cy \<noteq> 0 \<or> intr AND cw_intr_completion cy = 0 then (- 1, dst, p1)
        else (0, map_option (overwrite 0 (rd_bytes (cw_rd cy w6) len)) dst, p1))"

text \<open>
  The interface instance \<open>s_hal\<close>. Its type has no state for the two reads: they change the diagnostics
  and the DMA's buffers, never the flash (\<open>blank_refines\<close>, \<open>read_refines\<close> below).
\<close>

definition hal_read :: "'w cy_work_flash \<Rightarrow> u32 \<Rightarrow> nat \<Rightarrow> 'w wf_port \<Rightarrow> bytes option" where
  "hal_read cy addr len p = (case wf_read_checked cy addr (Some (replicate len 0)) len p of
     (r, dst, _) \<Rightarrow> if r < 0 then None else dst)"

definition hal_blank :: "'w cy_work_flash \<Rightarrow> u32 \<Rightarrow> nat \<Rightarrow> 'w wf_port \<Rightarrow> int" where
  "hal_blank cy addr len p = fst (wf_blank_check cy addr len p)"

definition s_hal :: "'w cy_work_flash \<Rightarrow> u32 \<Rightarrow> 'w wf_port hal_flash_if" where
  "s_hal cy sector = \<lparr>fl_read = None, fl_write = Some (wf_write cy),
     fl_erase_sector = Some (wf_erase_sector cy), fl_erase_range = None,
     fl_sector_size = sector, fl_program_row_size = of_nat WF_WORD,
     fl_blank_check = Some (hal_blank cy), fl_read_checked = Some (hal_read cy)\<rparr>"

definition wflash_port_init ::
  "'w cy_work_flash \<Rightarrow> wflash_port_cfg option \<Rightarrow> 'w wf_port \<Rightarrow> 'w wf_port hal_flash_if option \<times> 'w wf_port" where
  "wflash_port_init cy cfg p = (case cfg of
     None \<Rightarrow> (None, p)
   | Some c \<Rightarrow>
       if wc_dmac c = None \<or> wc_shared c = None \<or> wc_sector_size c = 0 then (None, p)
       else
         (Some (s_hal cy (wc_sector_size c)),
          p\<lparr>wp_cfg := c, wp_hal_sector_size := wc_sector_size c,
            wp_dev := cw_dmac_enable cy (wc_dmac c) (cw_write_enable cy (wp_dev p))\<rparr>))"

text \<open>The driver's statics before its init, and a power cycle: the device survives it, the driver starts again.\<close>

definition wf_port0 :: "'w \<Rightarrow> 'w wf_port" where
  "wf_port0 d = \<lparr>wp_cfg = \<lparr>wc_dmac = None, wc_channel = 0, wc_sw_trigger = 0, wc_sector_size = 0, wc_shared = None\<rparr>,
     wp_hal_sector_size = 0, wp_raw_status = 0xFFFFFFFF, wp_raw_dma_intr = 0, wp_dev = d\<rparr>"

definition wf_reboot :: "'w cy_work_flash \<Rightarrow> wflash_port_cfg \<Rightarrow> (int \<Rightarrow> 'w \<Rightarrow> 'w) \<Rightarrow> int \<Rightarrow> 'w wf_port \<Rightarrow> 'w wf_port" where
  "wf_reboot cy cfg cycle k p = snd (wflash_port_init cy (Some cfg) (wf_port0 (cycle k (wp_dev p))))"

section \<open>Words and offsets\<close>

lemma and_3_mod_4: "(a :: u32) AND 3 = a mod 4"
  using take_bit_eq_mask [of 2 a] take_bit_eq_mod [of 2 a]
  by (simp add: mask_eq_exp_minus_1)

lemma in_range_aligned: "in_range a len \<Longrightarrow> a mod 4 = 0 \<and> len mod 4 = 0"
  by (simp add: in_range_def and_3_mod_4)

lemma word_offsets_D: "off \<in> set (word_offsets len) \<Longrightarrow> len mod 4 = 0 \<Longrightarrow> off + 4 \<le> len \<and> off mod 4 = 0"
  by (auto simp: word_offsets_def)

lemma u32_mod_4: "(a :: u32) mod 4 = 0 \<longleftrightarrow> unat a mod 4 = 0"
  by (simp add: word_arith_nat_mod unat_eq_0 [symmetric] unsigned_of_nat take_bit_eq_mod)

lemma in_range_word:
  assumes "in_range a len" and "off \<in> set (word_offsets len)"
  shows "in_range (a + of_nat off) 4"
proof -
  have o: "off + 4 \<le> len" "off mod 4 = 0"
    using word_offsets_D [OF assms(2)] in_range_aligned [OF assms(1)] by auto
  have r: "WF_BASE \<le> a" "unat (a - WF_BASE) + len \<le> WF_SIZE" using assms(1) by (auto simp: in_range_def)
  define k where "k = unat (a - WF_BASE)"
  have k: "k + len \<le> 512" using r(2) by (simp add: k_def wf_consts)
  have a: "unat a = unat WF_BASE + k" using r(1) by (simp add: k_def unat_sub word_le_nat_alt)
  have u: "unat (a + of_nat off) = unat WF_BASE + (k + off)"
    using a k o by (simp only: unat_plus_if_size) (simp add: wf_consts unsigned_of_nat take_bit_eq_mod word_size)
  then have ge: "WF_BASE \<le> a + of_nat off" by (simp add: word_le_nat_alt)
  have d: "unat (a + of_nat off - WF_BASE) = k + off"
    using unat_sub [OF ge] u by simp
  have "(unat WF_BASE + k) mod 4 = 0" using in_range_aligned [OF assms(1)] by (simp add: u32_mod_4 a)
  then have "unat (a + of_nat off) mod 4 = 0" using u o(2) by presburger
  then show ?thesis using ge d k o by (simp add: in_range_def and_3_mod_4 u32_mod_4 WF_SIZE_def wf_consts)
qed

lemma fake_write_word:
  "in_range b 4 \<Longrightarrow> fake_write b (Some (le32 v)) f = write_loop b (le32 v) [0] f"
  by (simp add: fake_write_def)

lemma rd_bytes_Suc: "rd_bytes rd (4 * Suc n) = rd_bytes rd (4 * n) @ le32 (rd ! n)"
proof -
  have s: "[0..<4 * Suc n] = [0..<4 * n] @ map (\<lambda>j. 4 * n + j) [0, 1, 2, 3]"
    by (simp add: numeral_eq_Suc)
  have m: "(4 * n + j) div 4 = n" "(4 * n + j) mod 4 = j" if "j < 4" for j
    using that by auto
  note m' = m [of 1] m [of 2] m [of 3]
  show ?thesis
    unfolding rd_bytes_def s map_append map_map WF_WORD_def using m' by (simp add: le32_def)
qed

lemma rd_bytes_words: "n \<le> length rd \<Longrightarrow> rd_bytes rd (4 * n) = concat (map le32 (take n rd))"
proof (induction n)
  case 0
  then show ?case by (simp add: rd_bytes_def)
next
  case (Suc n)
  then show ?case by (simp add: rd_bytes_Suc take_Suc_conv_app_nth del: mult_Suc_right)
qed

section \<open>The contract of the vendor calls\<close>

lemma write_loop_word:
  fixes v defines "v src off \<equiv> un_le32 (src ! off) (src ! (off + 1)) (src ! (off + 2)) (src ! (off + 3))"
  shows "write_loop addr src (off # offs) f =
    (case write_loop (addr + of_nat off) (le32 (v src off)) [0] f of (r, f1) \<Rightarrow>
       if r \<noteq> 0 then (- 1, f1) else write_loop addr src offs f1)"
  by (auto simp: v_def le32_def numeral_2_eq_2 numeral_3_eq_3 Let_def split: prod.splits if_splits)

text \<open>
  What the driver relies on. \<open>dev\<close> reads the flash behind the calls; \<open>desc\<close> is the descriptor last
  set up, \<open>armed\<close> says that the channel is enabled, \<open>flight\<close> is a triggered transfer with the number
  of polls that still find it busy.
\<close>

locale work_flash_vendor =
  fixes cy :: "'w cy_work_flash"
    and cfg :: wflash_port_cfg
    and dev :: "'w \<Rightarrow> wflash"
    and desc :: "'w \<Rightarrow> u32 \<times> u32"
    and armed :: "'w \<Rightarrow> bool"
    and flight :: "'w \<Rightarrow> (u32 \<times> u32 \<times> nat) option"
    and cycle :: "int \<Rightarrow> 'w \<Rightarrow> 'w"
  assumes vendor_cfg: "wc_dmac cfg \<noteq> None" "wc_shared cfg \<noteq> None" "wc_sector_size cfg = of_nat WF_SECTOR_SIZE"
    and vendor_erase: "cw_erase_sector cy a w = (st, w') \<Longrightarrow>
      fake_erase_sector a (dev w) = (if st = cw_drv_success cy then 0 else - 1, dev w')"
    and vendor_program: "in_range a 4 \<Longrightarrow> cw_program cy a v w = (st, w') \<Longrightarrow>
      fake_write a (Some (le32 v)) (dev w) = (if st = cw_drv_success cy then 0 else - 1, dev w')"
    and vendor_blank: "in_range a (4 * unat n) \<Longrightarrow> cw_blank_check cy a n w = (st, w') \<Longrightarrow> dev w' = dev w \<and>
      fake_blank_check a (4 * unat n) (dev w) =
        (if st = cw_drv_success cy then 1 else if st = cw_drv_not_erased cy then 0 else - 1)"
    and vendor_descriptor: "cw_descriptor_init cy a n w = (st, w') \<Longrightarrow>
      st = cw_dmac_success cy \<and> desc w' = (a, n) \<and> dev w' = dev w"
    and vendor_channel: "cw_channel_init cy d c w = (st, w') \<Longrightarrow>
      st = cw_dmac_success cy \<and> desc w' = desc w \<and> dev w' = dev w"
    and vendor_clear: "desc (cw_clear_interrupt cy d c w) = desc w" "dev (cw_clear_interrupt cy d c w) = dev w"
      "cw_rd cy (cw_clear_interrupt cy d c w) = cw_rd cy w"
    and vendor_enable: "armed (cw_channel_enable cy d c w)" "desc (cw_channel_enable cy d c w) = desc w"
      "dev (cw_channel_enable cy d c w) = dev w"
    and vendor_disable: "dev (cw_channel_disable cy d c w) = dev w" "cw_rd cy (cw_channel_disable cy d c w) = cw_rd cy w"
    and vendor_trigger: "armed w \<Longrightarrow> cw_sw_trigger cy t w = (st, w') \<Longrightarrow> st = cw_trigmux_success cy \<and>
      dev w' = dev w \<and> (\<exists>k < WF_DMA_POLL_LIMIT. flight w' = Some (fst (desc w), snd (desc w), k))"
    and vendor_busy: "flight w = Some (a, n, Suc k) \<Longrightarrow> cw_interrupt_status cy d c w = (i, w') \<Longrightarrow>
      i AND (cw_intr_completion cy OR WF_DMA_ERRORS cy) = 0 \<and> flight w' = Some (a, n, k) \<and> dev w' = dev w"
    and vendor_done: "flight w = Some (a, n, 0) \<Longrightarrow> cw_interrupt_status cy d c w = (i, w') \<Longrightarrow> dev w' = dev w \<and>
      (case fake_read_checked a (4 * unat n) (dev w) of
         None \<Rightarrow> i AND WF_DMA_ERRORS cy \<noteq> 0
       | Some b \<Rightarrow> i AND WF_DMA_ERRORS cy = 0 \<and> i AND cw_intr_completion cy \<noteq> 0 \<and>
           unat n \<le> length (cw_rd cy w') \<and> concat (map le32 (take (unat n) (cw_rd cy w'))) = b)"
    and vendor_gates: "dev (cw_write_enable cy w) = dev w" "dev (cw_dmac_enable cy d w) = dev w"
    and vendor_power: "dev (cycle budget w) = flash_reset budget (dev w)"
begin

abbreviation D :: "'w wf_port \<Rightarrow> wflash" where "D p \<equiv> dev (wp_dev p)"

lemma erase_refines:
  "wf_erase_sector cy a p = (r, p') \<Longrightarrow> fake_erase_sector a (D p) = (r, D p')"
  using vendor_erase [of a "wp_dev p"]
  by (auto simp: wf_erase_sector_def status_to_rc_def split: prod.splits if_splits)

lemma write_loop_refines:
  "\<forall>off \<in> set offs. in_range (addr + of_nat off) 4 \<Longrightarrow> wf_write_loop cy addr src offs p = (r, p') \<Longrightarrow>
     write_loop addr src offs (D p) = (r, D p')"
proof (induction offs arbitrary: p)
  case Nil
  then show ?case by simp
next
  case (Cons off offs)
  let ?v = "un_le32 (src ! off) (src ! (off + 1)) (src ! (off + 2)) (src ! (off + 3))"
  obtain st w where st: "cw_program cy (addr + of_nat off) ?v (wp_dev p) = (st, w)" by fastforce
  have rg: "in_range (addr + of_nat off) 4" using Cons.prems(1) by simp
  have one: "write_loop (addr + of_nat off) (le32 ?v) [0] (D p) = (if st = cw_drv_success cy then 0 else - 1, dev w)"
    using vendor_program [OF rg st] by (simp only: fake_write_word [OF rg])
  note step = write_loop_word [of addr src off offs "D p", unfolded one]
  show ?case
  proof (cases "st = cw_drv_success cy")
    case True
    let ?p = "p\<lparr>wp_dev := w, wp_raw_status := st\<rparr>"
    have "wf_write_loop cy addr src offs ?p = (r, p')"
      using Cons.prems(2) st True by (simp add: status_to_rc_def)
    from Cons.IH [OF _ this] Cons.prems(1) show ?thesis
      using True by (simp add: step del: write_loop.simps)
  next
    case False
    then have "r = - 1" "p' = p\<lparr>wp_dev := w, wp_raw_status := st\<rparr>"
      using Cons.prems(2) st by (auto simp: status_to_rc_def)
    then show ?thesis using False by (simp add: step del: write_loop.simps)
  qed
qed

lemma write_refines:
  assumes "in_range a (length x)" and "wf_write cy a (Some x) p = (r, p')"
  shows "fake_write a (Some x) (D p) = (r, D p')"
proof -
  have "wf_write_loop cy a x (word_offsets (length x)) p = (r, p')"
    using assms in_range_aligned [OF assms(1)] by (simp add: wf_write_def WF_WORD_def)
  from write_loop_refines [OF _ this] show ?thesis
    using in_range_word [OF assms(1)] assms(1) by (simp add: fake_write_def)
qed

lemma in_range_words: "in_range a len \<Longrightarrow> 4 * unat (of_nat (len div 4) :: u32) = len"
proof -
  assume r: "in_range a len"
  then have l: "len \<le> 512" "len mod 4 = 0" by (auto simp: in_range_def wf_consts)
  have "unat (of_nat (len div 4) :: u32) = len div 4"
    using l by (simp add: unsigned_of_nat take_bit_eq_mod)
  then show ?thesis using l by presburger
qed

lemma blank_refines:
  assumes "in_range a len" and "len \<noteq> 0" and "wf_blank_check cy a len p = (r, p')"
  shows "fake_blank_check a len (D p) = r" and "D p' = D p"
proof -
  note n = in_range_words [OF assms(1)]
  have "in_range a (4 * unat (of_nat (len div 4) :: u32))" using assms(1) n by simp
  note v = vendor_blank [OF this, unfolded n]
  show "fake_blank_check a len (D p) = r" and "D p' = D p"
    using assms(2,3) in_range_aligned [OF assms(1)] v
    by (auto simp: wf_blank_check_def WF_WORD_def split: prod.splits if_splits)
qed

lemma poll_refines:
  "flight w = Some (a, n, k) \<Longrightarrow> k < lim \<Longrightarrow> dma_poll cy d c lim i0 w = (i, w') \<Longrightarrow> dev w' = dev w \<and>
     (case fake_read_checked a (4 * unat n) (dev w) of
         None \<Rightarrow> i AND WF_DMA_ERRORS cy \<noteq> 0
       | Some b \<Rightarrow> i AND WF_DMA_ERRORS cy = 0 \<and> i AND cw_intr_completion cy \<noteq> 0 \<and>
           unat n \<le> length (cw_rd cy w') \<and> concat (map le32 (take (unat n) (cw_rd cy w'))) = b)"
proof (induction lim arbitrary: k i0 w)
  case 0
  then show ?case by simp
next
  case (Suc lim)
  obtain j w1 where s: "cw_interrupt_status cy d c w = (j, w1)" by fastforce
  show ?case
  proof (cases k)
    case 0
    have v: "dev w1 = dev w \<and> (case fake_read_checked a (4 * unat n) (dev w) of
         None \<Rightarrow> j AND WF_DMA_ERRORS cy \<noteq> 0
       | Some b \<Rightarrow> j AND WF_DMA_ERRORS cy = 0 \<and> j AND cw_intr_completion cy \<noteq> 0 \<and>
           unat n \<le> length (cw_rd cy w1) \<and> concat (map le32 (take (unat n) (cw_rd cy w1))) = b)"
      by (rule vendor_done [OF Suc.prems(1) [unfolded 0] s])
    then have "j AND (cw_intr_completion cy OR WF_DMA_ERRORS cy) \<noteq> 0"
      by (auto simp: bit.conj_disj_distrib or_eq_0_iff split: option.splits)
    then have e: "i = j" "w' = w1" using Suc.prems(3) s by simp_all
    show ?thesis unfolding e by (rule v)
  next
    case (Suc k')
    have b: "j AND (cw_intr_completion cy OR WF_DMA_ERRORS cy) = 0 \<and> flight w1 = Some (a, n, k') \<and> dev w1 = dev w"
      by (rule vendor_busy [OF Suc.prems(1) [unfolded Suc] s])
    then have "dma_poll cy d c lim j w1 = (i, w')" using Suc.prems(3) s by simp
    from Suc.IH [OF _ _ this] b Suc.prems(2) Suc show ?thesis by simp
  qed
qed

end

lemma slot_words_in_range:
  "a \<in> {SLOT0, SLOT1} \<Longrightarrow> b \<in> {a, a + 16} \<Longrightarrow> length x = 16 \<or> length x = 4 \<Longrightarrow> in_range b (length x)"
  by (auto simp: slot_consts in_range_def)

lemma flash_reset_good [simp]: "wf_good (flash_reset k f) = wf_good f"
  by (simp add: wf_good_def flash_reset_simps)

context work_flash_vendor
begin

lemma read_refines:
  assumes "in_range a len" and "len \<noteq> 0" and "len \<le> 32"
  shows "hal_read cy a len p = fake_read_checked a len (D p)"
    and "D (snd (snd (wf_read_checked cy a dst len p))) = D p"
proof -
  note n = in_range_words [OF assms(1)]
  note c = wf_port_consts in_range_aligned [OF assms(1)] assms(2,3)
  let ?d = "wc_dmac (wp_cfg p)" and ?c = "wc_channel (wp_cfg p)" and ?n = "of_nat (len div 4) :: u32"
  obtain st1 w1 where 1: "cw_descriptor_init cy a ?n (wp_dev p) = (st1, w1)" by fastforce
  obtain st2 w2 where 2: "cw_channel_init cy ?d ?c w1 = (st2, w2)" by fastforce
  define w3 where "w3 = cw_channel_enable cy ?d ?c (cw_clear_interrupt cy ?d ?c w2)"
  obtain st4 w4 where 4: "cw_sw_trigger cy (wc_sw_trigger (wp_cfg p)) w3 = (st4, w4)" by fastforce
  obtain i w5 where 5: "dma_poll cy ?d ?c WF_DMA_POLL_LIMIT 0 w4 = (i, w5)" by fastforce
  note v1 = vendor_descriptor [OF 1] and v2 = vendor_channel [OF 2]
  have v3: "armed w3" "desc w3 = (a, ?n)" "dev w3 = D p"
    using v1 v2 by (simp_all add: w3_def vendor_enable vendor_clear)
  from vendor_trigger [OF v3(1) 4] v3 obtain k where
    v4: "st4 = cw_trigmux_success cy" "dev w4 = D p" "flight w4 = Some (a, ?n, k)" "k < WF_DMA_POLL_LIMIT" by auto
  note v5 = poll_refines [OF v4(3,4) 5, unfolded v4(2) n]
  let ?w6 = "cw_clear_interrupt cy ?d ?c (cw_channel_disable cy ?d ?c w5)"
  have r6: "cw_rd cy ?w6 = cw_rd cy w5" "dev ?w6 = D p" using v5 by (simp_all add: vendor_clear vendor_disable)
  have r: "wf_read_checked cy a (Some b) len p =
    (let p1 = p\<lparr>wp_dev := ?w6, wp_raw_dma_intr := i\<rparr> in
     if i AND WF_DMA_ERRORS cy \<noteq> 0 \<or> i AND cw_intr_completion cy = 0 then (- 1, Some b, p1)
     else (0, Some (overwrite 0 (rd_bytes (cw_rd cy w5) len) b), p1))" for b
    using c 1 2 v1 v2 4 5 v4(1) by (simp add: wf_read_checked_def r6(1) w3_def [symmetric] Let_def)
  show "D (snd (snd (wf_read_checked cy a dst len p))) = D p"
    by (cases dst) (simp_all add: r r6(2) Let_def, simp add: wf_read_checked_def)
  show "hal_read cy a len p = fake_read_checked a len (D p)"
  proof (cases "fake_read_checked a len (D p)")
    case None
    then show ?thesis using v5 by (simp add: hal_read_def r Let_def)
  next
    case (Some b)
    then have b: "i AND WF_DMA_ERRORS cy = 0" "i AND cw_intr_completion cy \<noteq> 0" "unat ?n \<le> length (cw_rd cy w5)"
      "concat (map le32 (take (unat ?n) (cw_rd cy w5))) = b" using v5 by auto
    have rb: "rd_bytes (cw_rd cy w5) len = b"
      using rd_bytes_words [OF b(3)] b(4) by (simp add: n)
    then have "length b = len" by (auto simp: rd_bytes_def)
    with rb show ?thesis using Some b(1,2) by (simp add: hal_read_def r Let_def overwrite_def)
  qed
qed

lemma blank_hal: "in_range a len \<Longrightarrow> len \<noteq> 0 \<Longrightarrow> hal_blank cy a len p = fake_blank_check a len (D p)"
  using blank_refines(1) [of a len p "fst (wf_blank_check cy a len p)" "snd (wf_blank_check cy a len p)"]
  by (simp add: hal_blank_def)

lemma reboot_refines: "D (wf_reboot cy cfg cycle k p) = flash_reset k (D p)"
  using vendor_cfg by (auto simp: wf_reboot_def wflash_port_init_def wf_port0_def vendor_gates vendor_power wf_consts)

lemma init_succeeds: "fst (wflash_port_init cy (Some cfg) p) = Some (s_hal cy (of_nat WF_SECTOR_SIZE))"
  using vendor_cfg by (auto simp: wflash_port_init_def wf_consts)

end

sublocale work_flash_vendor \<subseteq> port: work_flash "s_hal cy (of_nat WF_SECTOR_SIZE)" "wf_erase_sector cy" "wf_write cy"
  "hal_blank cy" "hal_read cy" "of_nat WF_SECTOR_SIZE" SLOT0 SLOT1 "wf_reboot cy cfg cycle"
  "\<lambda>a p. mark_blank a (D p)" "\<lambda>a p. contents a (D p)" "\<lambda>p. wf_good (D p)"
proof (unfold_locales, goal_cases)
  case (10 f a r f')
  show ?case by (rule flash.good_er [OF 10(1,2) erase_refines [OF 10(3)]])
next
  case (11 f a b x r f')
  show ?case
    by (rule flash.good_wr [OF 11(1-4) write_refines [OF slot_words_in_range [OF 11(2-4)] 11(5)]])
next
  case (13 f a b r f')
  show ?case by (rule flash.other_er [OF 13(1,2) erase_refines [OF 13(3)]])
next
  case (14 f a b x r f')
  have "a \<in> {SLOT0, SLOT1}" using 14(2) by blast
  then have "in_range a (length x)" using slot_words_in_range [of a a x] 14(4) by simp
  from flash.other_wr [OF 14(1,2) write_refines [OF this 14(3)] 14(4)] show ?case .
next
  case (15 f a b x r f')
  have "a \<in> {SLOT0, SLOT1}" using 15(2) by blast
  then have "in_range (a + 16) (length x)" using slot_words_in_range [of a "a + 16" x] 15(4) by simp
  from flash.other_mark [OF 15(1,2) write_refines [OF this 15(3)] 15(4)] show ?case .
next
  case (16 f a f')
  show ?case by (rule flash.er_ok [OF 16(1,2) erase_refines [OF 16(3)]])
next
  case (17 f a r f')
  show ?case by (rule flash.er_fail [OF 17(1,2) erase_refines [OF 17(3)] 17(4)])
next
  case (18 f a x r f')
  have "in_range a (length x)" using slot_words_in_range [OF 18(2), of a x] 18(4) by simp
  from flash.wr_body [OF 18(1,2) write_refines [OF this 18(3)] 18(4,5)] show ?case .
next
  case (19 f a x r f')
  have "in_range (a + 16) (length x)" using slot_words_in_range [OF 19(2), of "a + 16" x] 19(4) by simp
  from flash.wr_mark [OF 19(1,2) write_refines [OF this 19(3)] 19(4-6)] show ?case .
next
  case (20 f a f1 x f2 y f3)
  note g = slot_geometry [OF 20(2)]
  have "in_range a (length x)" "in_range (a + 16) (length y)"
    using slot_words_in_range [OF 20(2), of a x] slot_words_in_range [OF 20(2), of "a + 16" y] 20(5,7) by simp_all
  note p = flash.program [OF 20(1,2) erase_refines [OF 20(3)] write_refines [OF this(1) 20(4)] 20(5)
      write_refines [OF this(2) 20(6)] 20(7)]
  then show ?case
    using blank_hal [OF g(5)] read_refines(1) [OF g(4)] by simp
next
  case (21 f a k)
  show ?case
    using flash.rst_bc [OF 21(1,2), of k] blank_hal [OF slot_geometry(5) [OF 21(2)]] by (simp add: reboot_refines)
next
  case (22 f a k)
  show ?case
    using flash.rst_rc [OF 22(1-3), of k] read_refines(1) [OF slot_geometry(4) [OF 22(2)]] by (simp add: reboot_refines)
qed (auto simp: s_hal_def reboot_refines flash_reset_good flash.rst_same fun_eq_iff slot_consts)

section \<open>The store over the driver\<close>

text \<open>What the nodes do at every start: \<open>wflash_port_init\<close>, then the mount (\<open>secoc_app_init\<close>).\<close>

definition driver_boot :: "'w cy_work_flash \<Rightarrow> wflash_port_cfg \<Rightarrow> 'w \<Rightarrow> 'w wf_port store_state \<times> 'w wf_port" where
  "driver_boot cy cfg w = (case wflash_port_init cy (Some cfg) (wf_port0 w) of (hal, p) \<Rightarrow>
     (snd (secoc_store_mount (Some \<lparr>cfg_flash = hal, cfg_slot_addr = [SLOT0, SLOT1]\<rparr>) store_state0 p), p))"

definition driver_reboot :: "'w cy_work_flash \<Rightarrow> wflash_port_cfg \<Rightarrow> (int \<Rightarrow> 'w \<Rightarrow> 'w) \<Rightarrow> int \<Rightarrow>
    'w wf_port store_state \<times> 'w wf_port \<Rightarrow> 'w wf_port store_state \<times> 'w wf_port" where
  "driver_reboot cy cfg cycle k sp = driver_boot cy cfg (cycle k (wp_dev (snd sp)))"

context work_flash_vendor
begin

lemma driver_reboot_eq: "driver_reboot cy cfg cycle k sp = port.store_reboot k sp"
proof -
  have "fst (wflash_port_init cy (Some cfg) q) = Some (s_hal cy (of_nat WF_SECTOR_SIZE))" for q
    by (rule init_succeeds)
  then show ?thesis
    by (simp add: driver_reboot_def driver_boot_def port.store_reboot_def wf_reboot_def port.cfg_def Let_def
        split_def)
qed

lemma driver_run:
  assumes "dev w0 = wflash_fake_reset" and "length ops < 2 ^ 32"
    and "medium_run store_commit (driver_reboot cy cfg cycle) ops
      (driver_reboot cy cfg cycle k (s, wf_port0 w0)) = (bs, sp)"
  shows "store_load d sp = epoch_map ops bs Map.empty d"
proof -
  let ?p = "wf_port0 w0"
  have D0: "D ?p = wflash_fake_reset" using assms(1) by (simp add: wf_port0_def)
  have g: "wf_good (D ?p)" by (simp add: D0 wf_good_def wflash_fake_reset_def)
  have "fst (port.slot_of a ?p) \<noteq> SLOT_VALID" if "a \<in> {SLOT0, SLOT1}" for a
    using that by (intro port.mblank_not_VALID) (auto simp: D0 mark_blank_def wflash_fake_reset_def word_index_def slot_consts)
  then have nr: "port.no_record ?p" by (simp add: port.no_record_def)
  have eq: "driver_reboot cy cfg cycle = port.store_reboot" by (rule ext)+ (rule driver_reboot_eq)
  have z: "store_load d (port.store_reboot k (s, ?p)) = None" for d
    by (rule port.first_mount_load [OF g nr])
  from port.medium.medium_run_refines [OF port.store_inv_first_mount [OF g nr assms(2)] assms(3) [unfolded eq]]
  show ?thesis by (simp add: z fun_eq_iff)
qed

end

section \<open>The reference device behind the vendor calls\<close>

text \<open>
  The repository's flash model with a DMA engine that answers every trigger after two busy polls: the
  contract of the vendor calls can be met, at every state of the reference flash.
\<close>

record sim_dev =
  sd_flash :: wflash
  sd_desc :: "u32 \<times> u32"
  sd_armed :: bool
  sd_flight :: "(u32 \<times> u32 \<times> nat) option"
  sd_rd :: "u32 list"

fun words_of_bytes :: "bytes \<Rightarrow> u32 list" where
  "words_of_bytes (a # b # c # d # r) = un_le32 a b c d # words_of_bytes r"
| "words_of_bytes _ = []"

definition sim_status :: "u32 option \<Rightarrow> u32 \<Rightarrow> sim_dev \<Rightarrow> u32 \<times> sim_dev" where
  "sim_status d c s = (case sd_flight s of
     None \<Rightarrow> (0, s)
   | Some (a, n, Suc k) \<Rightarrow> (0, s\<lparr>sd_flight := Some (a, n, k)\<rparr>)
   | Some (a, n, 0) \<Rightarrow> (case fake_read_checked a (4 * unat n) (sd_flash s) of
       None \<Rightarrow> (2, s)
     | Some b \<Rightarrow> (1, s\<lparr>sd_rd := words_of_bytes b\<rparr>)))"

definition sim_cy :: "sim_dev cy_work_flash" where
  "sim_cy =
     \<lparr>cw_erase_sector = (\<lambda>a s. case fake_erase_sector a (sd_flash s) of
        (r, f) \<Rightarrow> (if r = 0 then 0 else 1, s\<lparr>sd_flash := f\<rparr>)),
      cw_program = (\<lambda>a v s. case fake_write a (Some (le32 v)) (sd_flash s) of
        (r, f) \<Rightarrow> (if r = 0 then 0 else 1, s\<lparr>sd_flash := f\<rparr>)),
      cw_blank_check = (\<lambda>a n s.
        (let r = fake_blank_check a (4 * unat n) (sd_flash s) in if r = 1 then 0 else if r = 0 then 2 else 1, s)),
      cw_write_enable = id, cw_dmac_enable = (\<lambda>d. id),
      cw_descriptor_init = (\<lambda>a n s. (0, s\<lparr>sd_desc := (a, n)\<rparr>)),
      cw_channel_init = (\<lambda>d c s. (0, s)), cw_clear_interrupt = (\<lambda>d c. id),
      cw_channel_enable = (\<lambda>d c s. s\<lparr>sd_armed := True\<rparr>),
      cw_channel_disable = (\<lambda>d c s. s\<lparr>sd_armed := False\<rparr>),
      cw_sw_trigger = (\<lambda>t s. if sd_armed s then (0, s\<lparr>sd_flight := Some (fst (sd_desc s), snd (sd_desc s), 2)\<rparr>) else (1, s)),
      cw_interrupt_status = sim_status, cw_rd = sd_rd,
      cw_drv_success = 0, cw_drv_not_erased = 2, cw_dmac_success = 0, cw_trigmux_success = 0,
      cw_intr_completion = 1, cw_intr_errors = [2, 4, 8, 16, 32, 64]\<rparr>"

definition sim_cfg :: wflash_port_cfg where
  "sim_cfg = \<lparr>wc_dmac = Some 0x402A0000, wc_channel = 0, wc_sw_trigger = 0, wc_sector_size = of_nat WF_SECTOR_SIZE,
     wc_shared = Some 0x08010000\<rparr>"

definition sim_cycle :: "int \<Rightarrow> sim_dev \<Rightarrow> sim_dev" where
  "sim_cycle k s = s\<lparr>sd_flash := flash_reset k (sd_flash s), sd_armed := False, sd_flight := None\<rparr>"

definition sim_dev0 :: sim_dev where
  "sim_dev0 = \<lparr>sd_flash = wflash_fake_reset, sd_desc = (0, 0), sd_armed = False, sd_flight = None, sd_rd = replicate 8 0\<rparr>"

lemma words_of_bytes: "length b = 4 * n \<Longrightarrow> length (words_of_bytes b) = n \<and> concat (map le32 (words_of_bytes b)) = b"
proof (induction n arbitrary: b)
  case 0
  then show ?case by simp
next
  case (Suc n)
  then obtain w x y z r where b: "b = w # x # y # z # r" using length_ge_4_D [of b] by auto
  then have "length r = 4 * n" using Suc.prems by simp
  from Suc.IH [OF this] b show ?case by simp
qed

lemma fake_erase_codes: "fake_erase_sector a f = (r, f') \<Longrightarrow> r = 0 \<or> r = - 1"
  by (auto simp: fake_erase_sector_def Let_def split: if_splits prod.splits wf_step.splits)

lemma write_loop_codes: "write_loop a x offs f = (r, f') \<Longrightarrow> r = 0 \<or> r = - 1"
  by (induction a x offs f arbitrary: r f' rule: write_loop.induct)
     (auto simp: Let_def split: if_splits prod.splits)

lemma fake_write_codes: "fake_write a x f = (r, f') \<Longrightarrow> r = 0 \<or> r = - 1"
  by (auto simp: fake_write_def dest: write_loop_codes split: option.splits if_splits)

lemma fake_blank_codes: "fake_blank_check a n f \<in> {- 1, 0, 1}"
  by (simp add: fake_blank_check_def)

lemma fake_read_length: "fake_read_checked a (4 * n) f = Some b \<Longrightarrow> length b = 4 * n"
  by (auto simp: fake_read_checked_def word_offsets_def dest!: read_loop_length split: if_splits)

interpretation sim: work_flash_vendor sim_cy sim_cfg sd_flash sd_desc sd_armed sd_flight sim_cycle
proof (unfold_locales, goal_cases)
  case (4 a w st w')
  then show ?case using fake_erase_codes [of a "sd_flash w"] by (auto simp: sim_cy_def split: prod.splits if_splits)
next
  case (5 a v w st w')
  then show ?case using fake_write_codes [of a _ "sd_flash w"] by (auto simp: sim_cy_def split: prod.splits if_splits)
next
  case (6 a n w st w')
  then show ?case using fake_blank_codes [of a "4 * unat n" "sd_flash w"] by (auto simp: sim_cy_def Let_def)
next
  case (19 w a n d c i w')
  show ?case
  proof (cases "fake_read_checked a (4 * unat n) (sd_flash w)")
    case None
    with 19 show ?thesis by (simp add: sim_cy_def sim_status_def WF_DMA_ERRORS_def)
  next
    case (Some b)
    note wb = words_of_bytes [OF fake_read_length [OF Some]]
    from 19 Some wb show ?thesis by (auto simp: sim_cy_def sim_status_def WF_DMA_ERRORS_def) 
  qed
qed (auto simp: sim_cy_def sim_cfg_def sim_cycle_def sim_status_def WF_DMA_POLL_LIMIT_def WF_DMA_ERRORS_def)

text \<open>C8: over any vendor flash that answers its calls as documented, the store on the target driver, started
  from an erased device, loads after any commits and power cycles exactly the epochs that were acknowledged.\<close>

theorem driver_keeps_epochs:
  assumes "work_flash_vendor cy cfg dev desc armed flight cycle"
    and "dev w0 = wflash_fake_reset" and "length ops < 2 ^ 32"
    and "medium_run store_commit (driver_reboot cy cfg cycle) ops
      (driver_boot cy cfg (cycle k w0)) = (bs, sp)"
  shows "store_load d sp = epoch_map ops bs Map.empty d"
  by (rule work_flash_vendor.driver_run [OF assms(1-3), where k = k and s = store_state0])
     (use assms(4) in \<open>simp add: driver_reboot_def wf_port0_def\<close>)

theorem driver_keeps_epochs_witness:
  "\<exists>bs sp. medium_run store_commit (driver_reboot sim_cy sim_cfg sim_cycle)
      [Commit_Epoch 0 5, Power_Cycle 3, Commit_Epoch 1 6, Power_Cycle (- 1)]
      (driver_boot sim_cy sim_cfg (sim_cycle (- 1) sim_dev0)) = (bs, sp) \<and>
    store_load 0 sp = epoch_map [Commit_Epoch 0 5, Power_Cycle (3 :: int), Commit_Epoch 1 6, Power_Cycle (- 1)] bs Map.empty 0"
proof -
  let ?ops = "[Commit_Epoch 0 5, Power_Cycle 3, Commit_Epoch 1 6, Power_Cycle (- 1)]"
  obtain bs sp where r: "medium_run store_commit (driver_reboot sim_cy sim_cfg sim_cycle) ?ops
      (driver_boot sim_cy sim_cfg (sim_cycle (- 1) sim_dev0)) = (bs, sp)" by (metis surj_pair)
  from driver_keeps_epochs [OF sim.work_flash_vendor_axioms _ _ r, of 0] r show ?thesis
    by (auto simp: sim_dev0_def)
qed

end
