(* ===== verification/Sched.thy ===== *)
theory Sched imports Prelude begin

text \<open>
  The stand-alone scheduler: \<open>scheduler/src/sched.c\<close> with \<open>scheduler/include/sched_types.h\<close>, and the
  stack frame of its target port, \<open>scheduler/src/sched_port_arm.c\<close>. The port's other functions are
  comments there; of \<open>sched_port_trigger_switch\<close> and \<open>sched_port_start_first_task\<close> the model keeps
  the calls.

  The file-scope variables are the record \<open>sched\<close>. Task numbers and counts, all below 256 in the code
  (\<open>uint8_t\<close>), are naturals; priorities, delays, the bitmap and the tick count have their width.
  Pointers are 32-bit addresses with 0 for \<open>NULL\<close>, and \<open>sc_mem\<close> holds the words the port writes to
  the stacks. A call of the API is one step, which is what its critical section makes it.
\<close>

unbundle bit_operations_syntax

section \<open>Types and state\<close>

definition SCHED_MAX_TASKS :: nat where "SCHED_MAX_TASKS = 8"
definition SCHED_MAX_PRIORITIES :: nat where "SCHED_MAX_PRIORITIES = 32"
definition SCHED_IDLE_ID :: nat where "SCHED_IDLE_ID = SCHED_MAX_TASKS"
definition SCHED_IDLE_PRIORITY :: u8 where "SCHED_IDLE_PRIORITY = of_nat (SCHED_MAX_PRIORITIES - 1)"
definition SCHED_IDLE_STACK_WORDS :: u32 where "SCHED_IDLE_STACK_WORDS = 64"
definition UINT8_MAX :: nat where "UINT8_MAX = 255"

lemmas sched_consts = SCHED_MAX_TASKS_def SCHED_MAX_PRIORITIES_def SCHED_IDLE_ID_def SCHED_IDLE_PRIORITY_def
  SCHED_IDLE_STACK_WORDS_def UINT8_MAX_def

datatype sched_task_state = SCHED_STATE_SUSPENDED | SCHED_STATE_READY | SCHED_STATE_RUNNING | SCHED_STATE_BLOCKED

datatype sched_err = SCHED_OK | SCHED_ERR_FULL | SCHED_ERR_NULL | SCHED_ERR_PRIORITY | SCHED_ERR_STACK

record sched_tcb =
  tk_sp :: u32
  tk_priority :: u8
  tk_state :: sched_task_state
  tk_delay_ticks :: u32
  tk_stack_base :: u32
  tk_stack_size :: u32
  tk_entry :: u32
  tk_arg :: u32
  tk_id :: nat

record sched =
  sc_tasks :: "sched_tcb list"
  sc_task_count :: nat
  sc_tick_count :: u32
  sc_ready_bitmap :: u32
  sc_current_task :: nat
  sc_rr_index :: "nat list"
  sc_mem :: "u32 \<Rightarrow> u32"
  sc_started :: bool
  sc_switches :: nat

definition upd_task :: "nat \<Rightarrow> (sched_tcb \<Rightarrow> sched_tcb) \<Rightarrow> sched \<Rightarrow> sched" where
  "upd_task i f s = s\<lparr>sc_tasks := (sc_tasks s)[i := f (sc_tasks s ! i)]\<rparr>"

definition sched_port_trigger_switch :: "sched \<Rightarrow> sched" where
  "sched_port_trigger_switch s = s\<lparr>sc_switches := sc_switches s + 1\<rparr>"

section \<open>The initial stack frame\<close>

text \<open>\<open>*(--sp) = v\<close>.\<close>

definition push :: "u32 \<Rightarrow> u32 \<times> (u32 \<Rightarrow> u32) \<Rightarrow> u32 \<times> (u32 \<Rightarrow> u32)" where
  "push v sm = (case sm of (sp, m) \<Rightarrow> (sp - 4, m(sp - 4 := v)))"

definition SCHED_EXC_RETURN_THREAD_PSP :: u32 where "SCHED_EXC_RETURN_THREAD_PSP = 0xFFFFFFFD"

definition sched_port_init_stack :: "u32 \<Rightarrow> u32 \<Rightarrow> u32 \<Rightarrow> (u32 \<Rightarrow> u32) \<Rightarrow> u32 \<times> (u32 \<Rightarrow> u32)" where
  "sched_port_init_stack stack_top entry a m =
     fold push ([0x01000000, entry AND 0xFFFFFFFE, 0, 0, 0, 0, 0, a, SCHED_EXC_RETURN_THREAD_PSP] @ replicate 8 0)
       (stack_top AND NOT 7, m)"

section \<open>Selection\<close>

definition is_ready :: "sched_tcb \<Rightarrow> bool" where
  "is_ready t \<longleftrightarrow> tk_state t = SCHED_STATE_READY \<or> tk_state t = SCHED_STATE_RUNNING"

text \<open>\<open>__builtin_ctz\<close> of a word that is not 0.\<close>

definition ctz :: "u32 \<Rightarrow> nat" where
  "ctz w = hd (filter (bit w) [0..<32])"

definition sched_find_highest_ready_priority :: "sched \<Rightarrow> nat" where
  "sched_find_highest_ready_priority s =
     (if sc_ready_bitmap s = 0 then UINT8_MAX else ctz (sc_ready_bitmap s))"

definition ready_list :: "sched \<Rightarrow> nat \<Rightarrow> nat list" where
  "ready_list s p = filter (\<lambda>i. unat (tk_priority (sc_tasks s ! i)) = p \<and> is_ready (sc_tasks s ! i)) [0..<sc_task_count s]"

definition sched_count_ready_at :: "sched \<Rightarrow> nat \<Rightarrow> nat" where
  "sched_count_ready_at s p = length (ready_list s p)"

definition sched_pick_task_at_priority :: "sched \<Rightarrow> nat \<Rightarrow> nat" where
  "sched_pick_task_at_priority s p =
     (let candidates = ready_list s p; count = length candidates in
      if count = 0 then UINT8_MAX else candidates ! (sc_rr_index s ! p mod count))"

definition sched_choose_next :: "sched \<Rightarrow> nat" where
  "sched_choose_next s =
     (let prio = sched_find_highest_ready_priority s in
      if prio = UINT8_MAX then SCHED_IDLE_ID
      else let next = sched_pick_task_at_priority s prio in
        if next = UINT8_MAX then SCHED_IDLE_ID else next)"

definition sched_set_running :: "nat \<Rightarrow> sched \<Rightarrow> sched" where
  "sched_set_running next s =
     (if next = UINT8_MAX then s
      else
        let s1 = (if sc_current_task s \<noteq> UINT8_MAX \<and> tk_state (sc_tasks s ! sc_current_task s) = SCHED_STATE_RUNNING
              then upd_task (sc_current_task s) (\<lambda>t. t\<lparr>tk_state := SCHED_STATE_READY\<rparr>) s else s) in
        (upd_task next (\<lambda>t. t\<lparr>tk_state := SCHED_STATE_RUNNING\<rparr>) s1)\<lparr>sc_current_task := next\<rparr>)"

definition bitmap_bit :: "nat \<Rightarrow> u32" where
  "bitmap_bit p = push_bit p 1"

definition sched_update_bitmap_for :: "nat \<Rightarrow> sched \<Rightarrow> sched" where
  "sched_update_bitmap_for p s =
     (if sched_count_ready_at s p > 0 then s\<lparr>sc_ready_bitmap := sc_ready_bitmap s OR bitmap_bit p\<rparr>
      else s\<lparr>sc_ready_bitmap := sc_ready_bitmap s AND NOT (bitmap_bit p)\<rparr>)"

section \<open>The API\<close>

text \<open>\<open>entry\<close> and \<open>stack\<close> are the addresses of \<open>sched_idle_task\<close> and \<open>g_idle_stack\<close>.\<close>

definition sched_init :: "u32 \<Rightarrow> u32 \<Rightarrow> sched \<Rightarrow> sched" where
  "sched_init entry stack s =
     (let (sp, m) = sched_port_init_stack (stack + 4 * SCHED_IDLE_STACK_WORDS) entry 0 (sc_mem s) in
      s\<lparr>sc_tasks := (map (\<lambda>t. t\<lparr>tk_state := SCHED_STATE_SUSPENDED, tk_sp := 0\<rparr>) (sc_tasks s))
          [SCHED_IDLE_ID := \<lparr>tk_sp = sp, tk_priority = SCHED_IDLE_PRIORITY, tk_state = SCHED_STATE_READY,
             tk_delay_ticks = 0, tk_stack_base = stack, tk_stack_size = SCHED_IDLE_STACK_WORDS,
             tk_entry = entry, tk_arg = 0, tk_id = SCHED_IDLE_ID\<rparr>],
        sc_rr_index := replicate SCHED_MAX_PRIORITIES 0,
        sc_task_count := 0, sc_tick_count := 0, sc_ready_bitmap := 0, sc_current_task := UINT8_MAX, sc_mem := m\<rparr>)"

definition sched_task_create :: "u32 \<Rightarrow> u32 \<Rightarrow> u8 \<Rightarrow> u32 \<Rightarrow> u32 \<Rightarrow> sched \<Rightarrow> sched_err \<times> sched" where
  "sched_task_create entry a priority stack_base stack_size s =
     (if entry = 0 then (SCHED_ERR_NULL, s)
      else if stack_base = 0 then (SCHED_ERR_STACK, s)
      else if unat priority \<ge> SCHED_MAX_PRIORITIES then (SCHED_ERR_PRIORITY, s)
      else if sc_task_count s \<ge> SCHED_MAX_TASKS then (SCHED_ERR_FULL, s)
      else
        let i = sc_task_count s; (sp, m) = sched_port_init_stack (stack_base + 4 * stack_size) entry a (sc_mem s) in
        (SCHED_OK,
         (upd_task i (\<lambda>_. \<lparr>tk_sp = sp, tk_priority = priority, tk_state = SCHED_STATE_READY, tk_delay_ticks = 0,
             tk_stack_base = stack_base, tk_stack_size = stack_size, tk_entry = entry, tk_arg = a, tk_id = i\<rparr>) s)
         \<lparr>sc_mem := m, sc_ready_bitmap := sc_ready_bitmap s OR bitmap_bit (unat priority), sc_task_count := i + 1\<rparr>))"

definition sched_start :: "sched \<Rightarrow> sched" where
  "sched_start s = (sched_set_running (sched_choose_next s) s)\<lparr>sc_started := True\<rparr>"

definition advance_rr :: "nat \<Rightarrow> sched \<Rightarrow> sched" where
  "advance_rr p s = s\<lparr>sc_rr_index := (sc_rr_index s)[p := (sc_rr_index s ! p + 1) mod SCHED_MAX_TASKS]\<rparr>"

definition sched_yield :: "sched \<Rightarrow> sched" where
  "sched_yield s =
     (let s1 = (if sc_current_task s \<noteq> UINT8_MAX
            then advance_rr (unat (tk_priority (sc_tasks s ! sc_current_task s))) s else s) in
      sched_port_trigger_switch (sched_set_running (sched_choose_next s1) s1))"

definition sched_delay :: "u32 \<Rightarrow> sched \<Rightarrow> sched" where
  "sched_delay ticks s =
     (if ticks = 0 then sched_yield s
      else
        let c = sc_current_task s;
            s3 = (if c \<noteq> UINT8_MAX \<and> c \<noteq> SCHED_IDLE_ID then
                (let prio = unat (tk_priority (sc_tasks s ! c));
                     s1 = upd_task c (\<lambda>t. t\<lparr>tk_state := SCHED_STATE_BLOCKED, tk_delay_ticks := ticks\<rparr>) s;
                     s2 = sched_update_bitmap_for prio s1 in
                 sched_set_running (sched_choose_next s2) s2)
              else s) in
        sched_port_trigger_switch s3)"

text \<open>One round of the unblocking loop; the flag is \<open>need_switch\<close>.\<close>

definition tick_task :: "nat \<Rightarrow> sched \<times> bool \<Rightarrow> sched \<times> bool" where
  "tick_task i sn =
     (case sn of (s, need) \<Rightarrow>
        let t = sc_tasks s ! i in
        if tk_state t = SCHED_STATE_BLOCKED \<and> tk_delay_ticks t > 0 then
          let s1 = upd_task i (\<lambda>t. t\<lparr>tk_delay_ticks := tk_delay_ticks t - 1\<rparr>) s in
          if tk_delay_ticks (sc_tasks s1 ! i) = 0 then
            let s2 = upd_task i (\<lambda>t. t\<lparr>tk_state := SCHED_STATE_READY\<rparr>) s1;
                s3 = s2\<lparr>sc_ready_bitmap := sc_ready_bitmap s2 OR bitmap_bit (unat (tk_priority t))\<rparr> in
            (s3, need \<or> sc_current_task s \<noteq> UINT8_MAX \<and>
               tk_priority t < tk_priority (sc_tasks s ! sc_current_task s))
          else (s1, need)
        else (s, need))"

definition sched_tick :: "sched \<Rightarrow> sched" where
  "sched_tick s =
     (let (s1, need1) = fold tick_task [0..<sc_task_count s] (s\<lparr>sc_tick_count := sc_tick_count s + 1\<rparr>, False);
          (s2, need2) =
            (if sc_current_task s1 \<noteq> UINT8_MAX then
               (let prio = unat (tk_priority (sc_tasks s1 ! sc_current_task s1)) in
                if sched_count_ready_at s1 prio > 1 then (advance_rr prio s1, True) else (s1, need1))
             else (s1, need1)) in
      if need2 then sched_port_trigger_switch s2 else s2)"

definition sched_get_tcb :: "nat \<Rightarrow> sched \<Rightarrow> sched_tcb option" where
  "sched_get_tcb i s =
     (if i = SCHED_IDLE_ID then Some (sc_tasks s ! SCHED_IDLE_ID)
      else if i \<ge> sc_task_count s then None else Some (sc_tasks s ! i))"

definition sched_get_tick_count :: "sched \<Rightarrow> u32" where "sched_get_tick_count = sc_tick_count"
definition sched_get_task_count :: "sched \<Rightarrow> nat" where "sched_get_task_count = sc_task_count"
definition sched_get_ready_bitmap :: "sched \<Rightarrow> u32" where "sched_get_ready_bitmap = sc_ready_bitmap"
definition sched_get_current_task_id :: "sched \<Rightarrow> nat" where "sched_get_current_task_id = sc_current_task"
definition sched_get_idle_task_id :: nat where "sched_get_idle_task_id = SCHED_IDLE_ID"

section \<open>Runs\<close>

text \<open>The calls tasks and the tick interrupt make, in any order.\<close>

datatype sched_op = Op_Create u32 u32 u8 u32 u32 | Op_Start | Op_Yield | Op_Delay u32 | Op_Tick

fun sched_do :: "sched_op \<Rightarrow> sched \<Rightarrow> sched" where
  "sched_do (Op_Create e a p b n) s = snd (sched_task_create e a p b n s)"
| "sched_do Op_Start s = sched_start s"
| "sched_do Op_Yield s = sched_yield s"
| "sched_do (Op_Delay n) s = sched_delay n s"
| "sched_do Op_Tick s = sched_tick s"

section \<open>The invariant\<close>

definition task_ok :: "sched_tcb \<Rightarrow> bool" where
  "task_ok t \<longleftrightarrow> unat (tk_priority t) < 32 \<and> tk_state t \<noteq> SCHED_STATE_SUSPENDED \<and>
     (tk_state t = SCHED_STATE_BLOCKED \<longleftrightarrow> tk_delay_ticks t \<noteq> 0)"

text \<open>What holds in the middle of an operation as well: the task that runs may just have blocked itself.\<close>

definition sched_shape :: "sched \<Rightarrow> bool" where
  "sched_shape s \<longleftrightarrow> length (sc_tasks s) = 9 \<and> length (sc_rr_index s) = 32 \<and> sc_task_count s \<le> 8 \<and>
     (\<forall>i < sc_task_count s. task_ok (sc_tasks s ! i)) \<and>
     is_ready (sc_tasks s ! 8) \<and> tk_priority (sc_tasks s ! 8) = 31 \<and>
     (sc_current_task s = 255 \<or> sc_current_task s < sc_task_count s \<or> sc_current_task s = 8) \<and>
     (\<forall>i. (i < sc_task_count s \<or> i = 8) \<and> i \<noteq> sc_current_task s \<longrightarrow> tk_state (sc_tasks s ! i) \<noteq> SCHED_STATE_RUNNING) \<and>
     (\<forall>p < 32. bit (sc_ready_bitmap s) p \<longleftrightarrow>
        (\<exists>i < sc_task_count s. unat (tk_priority (sc_tasks s ! i)) = p \<and> is_ready (sc_tasks s ! i)))"

lemma shapeD:
  assumes "sched_shape s"
  shows "length (sc_tasks s) = 9" and "length (sc_rr_index s) = 32" and "sc_task_count s \<le> 8"
    and "\<And>i. i < sc_task_count s \<Longrightarrow> task_ok (sc_tasks s ! i)"
    and "is_ready (sc_tasks s ! 8)" and "tk_priority (sc_tasks s ! 8) = 31"
    and "sc_current_task s = 255 \<or> sc_current_task s < sc_task_count s \<or> sc_current_task s = 8"
    and "\<And>i. i < sc_task_count s \<or> i = 8 \<Longrightarrow> i \<noteq> sc_current_task s \<Longrightarrow> tk_state (sc_tasks s ! i) \<noteq> SCHED_STATE_RUNNING"
    and "\<And>p. p < 32 \<Longrightarrow> bit (sc_ready_bitmap s) p \<longleftrightarrow>
      (\<exists>i < sc_task_count s. unat (tk_priority (sc_tasks s ! i)) = p \<and> is_ready (sc_tasks s ! i))"
proof -
  note c = assms [unfolded sched_shape_def]
  note c2 = c [THEN conjunct2]
  note c3 = c2 [THEN conjunct2]
  note c4 = c3 [THEN conjunct2]
  note c5 = c4 [THEN conjunct2]
  note c6 = c5 [THEN conjunct2]
  note c7 = c6 [THEN conjunct2]
  note c8 = c7 [THEN conjunct2]
  show "length (sc_tasks s) = 9" "length (sc_rr_index s) = 32" "sc_task_count s \<le> 8"
    "is_ready (sc_tasks s ! 8)" "tk_priority (sc_tasks s ! 8) = 31"
    "sc_current_task s = 255 \<or> sc_current_task s < sc_task_count s \<or> sc_current_task s = 8"
    by (rule c [THEN conjunct1] c2 [THEN conjunct1] c3 [THEN conjunct1] c5 [THEN conjunct1] c6 [THEN conjunct1]
        c7 [THEN conjunct1])+
  show "task_ok (sc_tasks s ! i)" if "i < sc_task_count s" for i using c4 [THEN conjunct1] that by blast
  show "tk_state (sc_tasks s ! i) \<noteq> SCHED_STATE_RUNNING"
    if "i < sc_task_count s \<or> i = 8" "i \<noteq> sc_current_task s" for i
    using c8 [THEN conjunct1] that by blast
  show "bit (sc_ready_bitmap s) p \<longleftrightarrow>
      (\<exists>i < sc_task_count s. unat (tk_priority (sc_tasks s ! i)) = p \<and> is_ready (sc_tasks s ! i))" if "p < 32" for p
    using c8 [THEN conjunct2] that by blast
qed

definition sched_inv :: "sched \<Rightarrow> bool" where
  "sched_inv s \<longleftrightarrow> sched_shape s \<and>
     (sc_current_task s \<noteq> 255 \<longrightarrow> tk_state (sc_tasks s ! sc_current_task s) = SCHED_STATE_RUNNING)"

text \<open>The current task is one that no ready task outranks, and it is the idle task only if there is none.\<close>

definition runs_best :: "sched \<Rightarrow> bool" where
  "runs_best s \<longleftrightarrow>
     (if sc_current_task s = SCHED_IDLE_ID then \<forall>j < sc_task_count s. \<not> is_ready (sc_tasks s ! j)
      else sc_current_task s < sc_task_count s \<and> tk_state (sc_tasks s ! sc_current_task s) = SCHED_STATE_RUNNING \<and>
        (\<forall>j < sc_task_count s. is_ready (sc_tasks s ! j) \<longrightarrow>
           tk_priority (sc_tasks s ! sc_current_task s) \<le> tk_priority (sc_tasks s ! j)))"

lemma ready_list_mem:
  "i \<in> set (ready_list s p) \<longleftrightarrow> i < sc_task_count s \<and> unat (tk_priority (sc_tasks s ! i)) = p \<and> is_ready (sc_tasks s ! i)"
  by (auto simp: ready_list_def)

lemma ctz_least:
  assumes "w \<noteq> 0"
  shows "ctz w < 32 \<and> bit w (ctz w) \<and> (\<forall>k < ctz w. \<not> bit w k)"
proof -
  obtain n where "bit w n" "n < 32" using assms bit_word_eqI [of w 0] by auto
  then have ne: "filter (bit w) [0..<32] \<noteq> []" by (auto simp: filter_empty_conv)
  then have c: "ctz w \<in> set (filter (bit w) [0..<32])" unfolding ctz_def by (rule hd_in_set)
  have "\<not> bit w k" if k: "k < ctz w" for k
  proof
    assume "bit w k"
    then have "k \<in> set (filter (bit w) [0..<32])" using k c by auto
    moreover have "sorted (filter (bit w) [0..<32])" by (simp add: sorted_wrt_filter)
    ultimately have "ctz w \<le> k" unfolding ctz_def by (cases "filter (bit w) [0..<32]") auto
    then show False using k by simp
  qed
  then show ?thesis using c by auto
qed

text \<open>The selection is total, and it is a ready task of the highest priority or the idle task.\<close>

lemma choose_next_best:
  assumes "sched_shape s"
  shows "(sched_choose_next s = 8 \<and> (\<forall>j < sc_task_count s. \<not> is_ready (sc_tasks s ! j))) \<or>
    (sched_choose_next s < sc_task_count s \<and> is_ready (sc_tasks s ! sched_choose_next s) \<and>
      (\<forall>j < sc_task_count s. is_ready (sc_tasks s ! j) \<longrightarrow>
         tk_priority (sc_tasks s ! sched_choose_next s) \<le> tk_priority (sc_tasks s ! j)))"
proof (cases "sc_ready_bitmap s = 0")
  case True
  have "\<not> is_ready (sc_tasks s ! j)" if "j < sc_task_count s" for j
    using shapeD(4) [OF assms that] shapeD(9) [OF assms, of "unat (tk_priority (sc_tasks s ! j))"] that True
    by (auto simp: task_ok_def)
  then show ?thesis using True by (simp add: sched_choose_next_def sched_find_highest_ready_priority_def sched_consts)
next
  case False
  let ?p = "ctz (sc_ready_bitmap s)"
  note c = ctz_least [OF False]
  have p: "sched_find_highest_ready_priority s = ?p" "?p \<noteq> UINT8_MAX"
    using c False by (simp_all add: sched_find_highest_ready_priority_def sched_consts)
  have ne: "ready_list s ?p \<noteq> []"
    using c shapeD(9) [OF assms, of ?p] ready_list_mem [of _ s ?p] by (metis list.set(1) empty_iff)
  then have pick: "sched_pick_task_at_priority s ?p \<in> set (ready_list s ?p)"
    by (simp add: sched_pick_task_at_priority_def Let_def)
  then have "sched_pick_task_at_priority s ?p \<noteq> UINT8_MAX"
    using shapeD(3) [OF assms] by (auto simp: ready_list_mem sched_consts)
  then have e: "sched_choose_next s = sched_pick_task_at_priority s ?p" using p by (simp add: sched_choose_next_def Let_def)
  have "?p \<le> unat (tk_priority (sc_tasks s ! j))" if j: "j < sc_task_count s" "is_ready (sc_tasks s ! j)" for j
  proof -
    have "bit (sc_ready_bitmap s) (unat (tk_priority (sc_tasks s ! j)))"
      using shapeD(4) [OF assms j(1)] shapeD(9) [OF assms, of "unat (tk_priority (sc_tasks s ! j))"] j
      by (auto simp: task_ok_def)
    then show ?thesis using c by (meson not_le)
  qed
  then show ?thesis using pick unfolding e ready_list_mem by (auto simp: word_le_nat_alt)
qed

text \<open>Promoting what the selection returned.\<close>

lemma nth_upd_task:
  "i < length (sc_tasks s) \<Longrightarrow> sc_tasks (upd_task k f s) ! i = (if i = k then f (sc_tasks s ! i) else sc_tasks s ! i)"
  by (simp add: upd_task_def nth_list_update)

lemma upd_task_simps [simp]:
  "sc_task_count (upd_task k f s) = sc_task_count s" "sc_current_task (upd_task k f s) = sc_current_task s"
  "sc_rr_index (upd_task k f s) = sc_rr_index s" "sc_ready_bitmap (upd_task k f s) = sc_ready_bitmap s"
  "length (sc_tasks (upd_task k f s)) = length (sc_tasks s)" "sc_switches (upd_task k f s) = sc_switches s"
  by (simp_all add: upd_task_def)

lemma set_running_shape:
  assumes s: "sched_shape s" and n: "n < sc_task_count s \<or> n = 8" "is_ready (sc_tasks s ! n)"
  shows "sched_inv (sched_set_running n s) \<and> sc_current_task (sched_set_running n s) = n \<and>
    sc_task_count (sched_set_running n s) = sc_task_count s \<and>
    (\<forall>i < 9. tk_priority (sc_tasks (sched_set_running n s) ! i) = tk_priority (sc_tasks s ! i) \<and>
       tk_delay_ticks (sc_tasks (sched_set_running n s) ! i) = tk_delay_ticks (sc_tasks s ! i) \<and>
       is_ready (sc_tasks (sched_set_running n s) ! i) = is_ready (sc_tasks s ! i))"
proof -
  let ?t = "sched_set_running n s"
  have len: "length (sc_tasks s) = 9" and cnt: "sc_task_count s \<le> 8" using shapeD [OF s] by auto
  have n9: "n < 9" using n cnt by auto
  have tasks: "sc_tasks ?t ! i = (if i = n then (sc_tasks s ! i)\<lparr>tk_state := SCHED_STATE_RUNNING\<rparr>
      else if i = sc_current_task s \<and> tk_state (sc_tasks s ! i) = SCHED_STATE_RUNNING
        then (sc_tasks s ! i)\<lparr>tk_state := SCHED_STATE_READY\<rparr> else sc_tasks s ! i)" if "i < 9" for i
    using that len n9 by (auto simp: sched_set_running_def Let_def nth_upd_task sched_consts)
  have rest: "sc_current_task ?t = n" "sc_task_count ?t = sc_task_count s" "sc_rr_index ?t = sc_rr_index s"
    "sc_ready_bitmap ?t = sc_ready_bitmap s" "length (sc_tasks ?t) = 9"
    using n9 len by (simp_all add: sched_set_running_def Let_def sched_consts)
  have keep: "tk_priority (sc_tasks ?t ! i) = tk_priority (sc_tasks s ! i)"
    "tk_delay_ticks (sc_tasks ?t ! i) = tk_delay_ticks (sc_tasks s ! i)"
    "is_ready (sc_tasks ?t ! i) = is_ready (sc_tasks s ! i)"
    "tk_state (sc_tasks ?t ! i) = SCHED_STATE_SUSPENDED \<longleftrightarrow> tk_state (sc_tasks s ! i) = SCHED_STATE_SUSPENDED"
    "tk_state (sc_tasks ?t ! i) = SCHED_STATE_BLOCKED \<longleftrightarrow> tk_state (sc_tasks s ! i) = SCHED_STATE_BLOCKED"
    if "i < 9" for i
    using tasks [OF that] n(2) by (auto simp: is_ready_def)
  have run: "tk_state (sc_tasks ?t ! i) = SCHED_STATE_RUNNING \<longleftrightarrow> i = n" if "i < sc_task_count s \<or> i = 8" for i
  proof -
    have "i < 9" using that cnt by auto
    then show ?thesis using tasks [of i] shapeD(8) [OF s that] by (auto split: if_splits)
  qed
  have ok: "task_ok (sc_tasks ?t ! i)" if "i < sc_task_count s" for i
  proof -
    have "task_ok (sc_tasks s ! i)" by (rule shapeD(4) [OF s that])
    then show ?thesis using keep [of i] that cnt by (simp add: task_ok_def)
  qed
  have bm: "(\<exists>i < sc_task_count s. unat (tk_priority (sc_tasks ?t ! i)) = p \<and> is_ready (sc_tasks ?t ! i)) \<longleftrightarrow>
      (\<exists>i < sc_task_count s. unat (tk_priority (sc_tasks s ! i)) = p \<and> is_ready (sc_tasks s ! i))" for p
    by (rule ex_cong1) (use keep cnt in auto)
  have "sched_shape ?t"
    unfolding sched_shape_def rest bm
    using n ok keep(1,3) [of 8] shapeD(1-3,5,6,9) [OF s] by (intro conjI allI impI) (simp_all add: run)
  then show ?thesis using rest keep run [of n] n by (auto simp: sched_inv_def)
qed

lemma reschedule:
  assumes "sched_shape s"
  shows "sched_inv (sched_set_running (sched_choose_next s) s) \<and> runs_best (sched_set_running (sched_choose_next s) s)"
proof -
  let ?n = "sched_choose_next s"
  note b = choose_next_best [OF assms]
  have n: "?n < sc_task_count s \<or> ?n = 8" "is_ready (sc_tasks s ! ?n)" using b shapeD(5) [OF assms] by auto
  note r = set_running_shape [OF assms n]
  have c: "sc_task_count s \<le> 8" by (rule shapeD(3) [OF assms])
  have st: "tk_state (sc_tasks (sched_set_running ?n s) ! ?n) = SCHED_STATE_RUNNING"
    using r n c by (auto simp: sched_inv_def)
  show ?thesis
  proof (cases "?n = 8")
    case True
    then show ?thesis using b r c by (auto simp: runs_best_def sched_consts)
  next
    case False
    then show ?thesis using b r c st by (auto simp: runs_best_def sched_consts)
  qed
qed

section \<open>Every operation keeps the invariant\<close>

lemma trigger_simps [simp]:
  "sc_tasks (sched_port_trigger_switch s) = sc_tasks s" "sc_task_count (sched_port_trigger_switch s) = sc_task_count s"
  "sc_current_task (sched_port_trigger_switch s) = sc_current_task s" "sched_shape (sched_port_trigger_switch s) = sched_shape s"
  "sched_inv (sched_port_trigger_switch s) = sched_inv s" "runs_best (sched_port_trigger_switch s) = runs_best s"
  "sc_switches (sched_port_trigger_switch s) = Suc (sc_switches s)"
  by (simp_all add: sched_port_trigger_switch_def sched_inv_def sched_shape_def runs_best_def)

lemma advance_rr_simps [simp]:
  "sc_tasks (advance_rr p s) = sc_tasks s" "sc_task_count (advance_rr p s) = sc_task_count s"
  "sc_current_task (advance_rr p s) = sc_current_task s" "sched_shape (advance_rr p s) = sched_shape s"
  "sched_inv (advance_rr p s) = sched_inv s" "sc_switches (advance_rr p s) = sc_switches s"
  by (simp_all add: advance_rr_def sched_inv_def sched_shape_def)

lemma inv_shape: "sched_inv s \<Longrightarrow> sched_shape s"
  by (simp add: sched_inv_def)

lemma start_ok: "sched_shape s \<Longrightarrow> sched_inv (sched_start s) \<and> runs_best (sched_start s)"
proof -
  assume s: "sched_shape s"
  have "sched_inv (t\<lparr>sc_started := True\<rparr>) = sched_inv t" "runs_best (t\<lparr>sc_started := True\<rparr>) = runs_best t" for t
    by (simp_all add: sched_inv_def sched_shape_def runs_best_def)
  then show ?thesis using reschedule [OF s] by (simp add: sched_start_def)
qed

lemma yield_ok: "sched_shape s \<Longrightarrow> sched_inv (sched_yield s) \<and> runs_best (sched_yield s)"
  using reschedule [of s] reschedule [of "advance_rr p s" for p] by (simp add: sched_yield_def Let_def)

lemma bit_bitmap_bit: "p < 32 \<Longrightarrow> k < 32 \<Longrightarrow> bit (bitmap_bit p) k \<longleftrightarrow> k = p"
  by (auto simp: bitmap_bit_def bit_simps)

lemma bit_update_bitmap:
  assumes "p < 32" and "k < 32"
  shows "bit (sc_ready_bitmap (sched_update_bitmap_for p s)) k \<longleftrightarrow>
    (if k = p then sched_count_ready_at s p > 0 else bit (sc_ready_bitmap s) k)"
  using assms by (auto simp: sched_update_bitmap_for_def bit_or_iff bit_and_iff bit_not_iff bit_bitmap_bit)

lemma update_bitmap_simps [simp]:
  "sc_tasks (sched_update_bitmap_for p s) = sc_tasks s" "sc_task_count (sched_update_bitmap_for p s) = sc_task_count s"
  "sc_current_task (sched_update_bitmap_for p s) = sc_current_task s" "sc_rr_index (sched_update_bitmap_for p s) = sc_rr_index s"
  "sc_switches (sched_update_bitmap_for p s) = sc_switches s"
  by (simp_all add: sched_update_bitmap_for_def)

lemma count_ready_pos:
  "sched_count_ready_at s p > 0 \<longleftrightarrow>
    (\<exists>i < sc_task_count s. unat (tk_priority (sc_tasks s ! i)) = p \<and> is_ready (sc_tasks s ! i))"
proof -
  have "0 < length xs \<longleftrightarrow> (\<exists>i. i \<in> set xs)" for xs :: "nat list" by (cases xs) auto
  then show ?thesis by (simp add: sched_count_ready_at_def ready_list_mem)
qed

text \<open>The running task blocks itself.\<close>

definition blocked :: "u32 \<Rightarrow> sched_tcb \<Rightarrow> sched_tcb" where
  "blocked n t = t\<lparr>tk_state := SCHED_STATE_BLOCKED, tk_delay_ticks := n\<rparr>"

lemma block_shape:
  assumes s: "sched_shape s" and c: "sc_current_task s < sc_task_count s" and n: "n \<noteq> 0"
  shows "sched_shape (sched_update_bitmap_for (unat (tk_priority (sc_tasks s ! sc_current_task s)))
    (upd_task (sc_current_task s) (blocked n) s))"
proof -
  let ?c = "sc_current_task s"
  let ?p = "unat (tk_priority (sc_tasks s ! ?c))"
  let ?s1 = "upd_task ?c (blocked n) s"
  note d = shapeD [OF s]
  have c9: "?c < 8" using c d(3) by simp
  have p: "?p < 32" using d(4) [OF c] by (simp add: task_ok_def)
  have t: "sc_tasks ?s1 ! i = (if i = ?c then blocked n (sc_tasks s ! i) else sc_tasks s ! i)" if "i < 9" for i
    using that d(1) by (simp add: nth_upd_task)
  have ok: "task_ok (sc_tasks ?s1 ! i)" if "i < sc_task_count s" for i
    using d(4) [OF that] t [of i] that d(3) n by (auto simp: task_ok_def blocked_def)
  have same: "(\<exists>i < sc_task_count s. unat (tk_priority (sc_tasks ?s1 ! i)) = k \<and> is_ready (sc_tasks ?s1 ! i)) \<longleftrightarrow>
      (\<exists>i < sc_task_count s. unat (tk_priority (sc_tasks s ! i)) = k \<and> is_ready (sc_tasks s ! i))" if "k \<noteq> ?p" for k
  proof -
    have "(unat (tk_priority (sc_tasks ?s1 ! i)) = k \<and> is_ready (sc_tasks ?s1 ! i)) \<longleftrightarrow>
        (unat (tk_priority (sc_tasks s ! i)) = k \<and> is_ready (sc_tasks s ! i))" if "i < sc_task_count s" for i
      using t [of i] that d(3) \<open>k \<noteq> ?p\<close> by (cases "i = ?c") (simp_all add: blocked_def)
    then show ?thesis by blast
  qed
  have bm: "bit (sc_ready_bitmap (sched_update_bitmap_for ?p ?s1)) k \<longleftrightarrow>
      (\<exists>i < sc_task_count s. unat (tk_priority (sc_tasks ?s1 ! i)) = k \<and> is_ready (sc_tasks ?s1 ! i))" if "k < 32" for k
    using bit_update_bitmap [OF p that, of ?s1] d(9) [OF that] same [of k] count_ready_pos [of ?s1 ?p] by auto
  have run: "tk_state (sc_tasks ?s1 ! i) \<noteq> SCHED_STATE_RUNNING" if "i < sc_task_count s \<or> i = 8" "i \<noteq> ?c" for i
    using d(8) [OF that] t [of i] that d(3) by auto
  show ?thesis
    unfolding sched_shape_def update_bitmap_simps upd_task_simps
    using d(1-3,5-7) ok bm run t [of 8] c9 by (intro conjI allI impI) simp_all
qed

lemma delay_blocks:
  assumes "n \<noteq> 0" and "sc_current_task s \<noteq> UINT8_MAX \<and> sc_current_task s \<noteq> SCHED_IDLE_ID"
  shows "sched_delay n s =
    (let t = sched_update_bitmap_for (unat (tk_priority (sc_tasks s ! sc_current_task s))) (upd_task (sc_current_task s) (blocked n) s)
     in sched_port_trigger_switch (sched_set_running (sched_choose_next t) t))"
  unfolding sched_delay_def Let_def blocked_def [abs_def] using assms by (simp only: if_True if_False simp_thms)

lemma delay_ok:
  assumes "sched_inv s"
  shows "sched_inv (sched_delay n s) \<and>
    (sc_current_task s \<noteq> UINT8_MAX \<and> sc_current_task s \<noteq> SCHED_IDLE_ID \<longrightarrow> runs_best (sched_delay n s))"
proof (cases "n = 0")
  case True
  then show ?thesis using yield_ok [OF inv_shape [OF assms]] by (simp add: sched_delay_def)
next
  case n: False
  show ?thesis
  proof (cases "sc_current_task s \<noteq> UINT8_MAX \<and> sc_current_task s \<noteq> SCHED_IDLE_ID")
    case True
    then have c: "sc_current_task s < sc_task_count s" using shapeD(7) [OF inv_shape [OF assms]] by (auto simp: sched_consts)
    show ?thesis
      using reschedule [OF block_shape [OF inv_shape [OF assms] c n]] by (simp add: delay_blocks [OF n True] Let_def)
  next
    case False
    then have "sched_delay n s = sched_port_trigger_switch s"
      unfolding sched_delay_def Let_def using n by (simp only: if_False)
    then show ?thesis using assms False by (simp only: trigger_simps simp_thms)
  qed
qed

text \<open>A task that is added, and one that wakes: one table entry changes and its priority's bit is set.\<close>

lemma set_bit_shape:
  assumes s: "sched_shape s" and q: "q < 32" and t: "unat (tk_priority t) = q" "tk_state t = SCHED_STATE_READY" "tk_delay_ticks t = 0"
    and k: "k < sc_task_count s \<and> unat (tk_priority (sc_tasks s ! k)) = q \<and> n = sc_task_count s \<or>
      k = sc_task_count s \<and> k < 8 \<and> n = Suc k"
    and kc: "k \<noteq> sc_current_task s"
    and u: "sc_tasks u = (sc_tasks s)[k := t]" "sc_ready_bitmap u = sc_ready_bitmap s OR bitmap_bit q" "sc_task_count u = n"
      "sc_current_task u = sc_current_task s" "sc_rr_index u = sc_rr_index s"
  shows "sched_shape u"
proof -
  note d = shapeD [OF s]
  have k8: "k < 8" and n: "n \<le> 8" "sc_task_count s \<le> n" "k < n" using k d(3) by auto
  have old: "i = k \<or> i < sc_task_count s" if "i < n" for i using k that by auto
  have nth: "sc_tasks u ! i = (if i = k then t else sc_tasks s ! i)" if "i < 9" for i
    using that d(1) by (simp add: u nth_list_update)
  have ok: "task_ok (sc_tasks u ! i)" if "i < n" for i
    using old [OF that] nth [of i] that n d(4) [of i] t q by (auto simp: task_ok_def)
  have run: "tk_state (sc_tasks u ! i) \<noteq> SCHED_STATE_RUNNING" if "i < n \<or> i = 8" "i \<noteq> sc_current_task s" for i
    using old [of i] nth [of i] that n d(8) [of i] t by (cases "i = k") auto
  have bm: "bit (sc_ready_bitmap u) p \<longleftrightarrow> (\<exists>i < n. unat (tk_priority (sc_tasks u ! i)) = p \<and> is_ready (sc_tasks u ! i))"
    if p: "p < 32" for p
  proof (cases "p = q")
    case True
    have "unat (tk_priority (sc_tasks u ! k)) = p \<and> is_ready (sc_tasks u ! k)"
      using nth [of k] k8 t True by (simp add: is_ready_def)
    then show ?thesis using n(3) bit_bitmap_bit [OF q p] True by (auto simp: u bit_or_iff)
  next
    case False
    have "(i < n \<and> unat (tk_priority (sc_tasks u ! i)) = p \<and> is_ready (sc_tasks u ! i)) \<longleftrightarrow>
        (i < sc_task_count s \<and> unat (tk_priority (sc_tasks s ! i)) = p \<and> is_ready (sc_tasks s ! i))" for i
      using old [of i] nth [of i] k n False t by (cases "i = k") auto
    then show ?thesis using d(9) [OF p] bit_bitmap_bit [OF q p] False by (simp add: u bit_or_iff)
  qed
  have c: "sc_current_task s = 255 \<or> sc_current_task s < n \<or> sc_current_task s = 8" using d(7) n by auto
  show ?thesis
    unfolding sched_shape_def u(3,4,5)
    using d(1,2,5,6) n(1) ok run bm nth [of 8] k8 c by (intro conjI allI impI) (simp_all add: u(1))
qed

lemma create_ok:
  assumes "sched_inv s"
  shows "sched_inv (snd (sched_task_create e a p b n s))"
proof (cases "e = 0 \<or> b = 0 \<or> unat p \<ge> SCHED_MAX_PRIORITIES \<or> sc_task_count s \<ge> SCHED_MAX_TASKS")
  case True
  then show ?thesis using assms by (auto simp: sched_task_create_def)
next
  case False
  let ?u = "snd (sched_task_create e a p b n s)"
  note d = shapeD [OF inv_shape [OF assms]]
  let ?i = "sc_task_count s"
  have i: "?i < 8" "?i \<noteq> sc_current_task s" using False d(7) by (auto simp: sched_consts)
  obtain t where t: "sc_tasks ?u = (sc_tasks s)[?i := t]" "tk_priority t = p" "tk_state t = SCHED_STATE_READY" "tk_delay_ticks t = 0"
    and u: "sc_ready_bitmap ?u = sc_ready_bitmap s OR bitmap_bit (unat p)" "sc_task_count ?u = Suc ?i"
      "sc_current_task ?u = sc_current_task s" "sc_rr_index ?u = sc_rr_index s"
    by (rule that [of "\<lparr>tk_sp = fst (sched_port_init_stack (b + 4 * n) e a (sc_mem s)), tk_priority = p,
          tk_state = SCHED_STATE_READY, tk_delay_ticks = 0, tk_stack_base = b, tk_stack_size = n, tk_entry = e, tk_arg = a,
          tk_id = ?i\<rparr>"])
      (use False in \<open>simp_all add: sched_task_create_def upd_task_def Let_def case_prod_beta\<close>)
  have "sched_shape ?u"
    by (rule set_bit_shape [OF inv_shape [OF assms], where q = "unat p" and t = t and k = ?i and n = "Suc ?i"])
      (use False i t u in \<open>auto simp: sched_consts\<close>)
  moreover have "tk_state (sc_tasks ?u ! c) = tk_state (sc_tasks s ! c)" if "c = sc_current_task s" for c
    using i(2) that by (simp add: t(1))
  ultimately show ?thesis using assms u(3) by (simp add: sched_inv_def)
qed

text \<open>The tick, one table entry at a time.\<close>

definition tick_tcb :: "sched_tcb \<Rightarrow> sched_tcb" where
  "tick_tcb t = (if tk_state t = SCHED_STATE_BLOCKED \<and> tk_delay_ticks t > 0 then
       (if tk_delay_ticks t = 1 then t\<lparr>tk_delay_ticks := 0, tk_state := SCHED_STATE_READY\<rparr>
        else t\<lparr>tk_delay_ticks := tk_delay_ticks t - 1\<rparr>)
     else t)"

definition wakes :: "sched_tcb \<Rightarrow> bool" where
  "wakes t \<longleftrightarrow> tk_state t = SCHED_STATE_BLOCKED \<and> tk_delay_ticks t = 1"

lemma tick_tcb_keeps [simp]: "tk_priority (tick_tcb t) = tk_priority t"
  by (simp add: tick_tcb_def)

lemma tick_task_step:
  assumes "i < length (sc_tasks s)" and "tick_task i (s, need) = (s', need')"
  shows "sc_tasks s' = (sc_tasks s)[i := tick_tcb (sc_tasks s ! i)]" and "sc_task_count s' = sc_task_count s"
    and "sc_current_task s' = sc_current_task s" and "sc_rr_index s' = sc_rr_index s" and "sc_switches s' = sc_switches s"
    and "sc_ready_bitmap s' = (if wakes (sc_tasks s ! i) then sc_ready_bitmap s OR bitmap_bit (unat (tk_priority (sc_tasks s ! i)))
      else sc_ready_bitmap s)"
    and "need' \<longleftrightarrow> need \<or> wakes (sc_tasks s ! i) \<and> sc_current_task s \<noteq> UINT8_MAX \<and>
      tk_priority (sc_tasks s ! i) < tk_priority (sc_tasks s ! sc_current_task s)"
proof -
  let ?t = "sc_tasks s ! i"
  have m: "tk_delay_ticks ?t - 1 = 0 \<longleftrightarrow> tk_delay_ticks ?t = 1" by simp
  have z: "tk_delay_ticks ?t = 1 \<Longrightarrow> tk_delay_ticks ?t > 0" by simp
  note r = assms(2) [unfolded tick_task_def]
  consider "\<not> (tk_state ?t = SCHED_STATE_BLOCKED \<and> tk_delay_ticks ?t > 0)"
    | "tk_state ?t = SCHED_STATE_BLOCKED" "tk_delay_ticks ?t > 0" "tk_delay_ticks ?t \<noteq> 1"
    | "tk_state ?t = SCHED_STATE_BLOCKED" "tk_delay_ticks ?t = 1"
    by blast
  then have "sc_tasks s' = (sc_tasks s)[i := tick_tcb ?t] \<and> sc_task_count s' = sc_task_count s \<and>
    sc_current_task s' = sc_current_task s \<and> sc_rr_index s' = sc_rr_index s \<and> sc_switches s' = sc_switches s \<and>
    sc_ready_bitmap s' = (if wakes ?t then sc_ready_bitmap s OR bitmap_bit (unat (tk_priority ?t)) else sc_ready_bitmap s) \<and>
    (need' \<longleftrightarrow> need \<or> wakes ?t \<and> sc_current_task s \<noteq> UINT8_MAX \<and> tk_priority ?t < tk_priority (sc_tasks s ! sc_current_task s))"
  proof cases
    case 1
    then show ?thesis using r assms(1) by (auto simp: tick_tcb_def wakes_def)
  next
    case 2
    then show ?thesis using r assms(1) by (auto simp: tick_tcb_def wakes_def upd_task_def Let_def m)
  next
    case 3
    then show ?thesis using r assms(1) by (auto simp: tick_tcb_def wakes_def upd_task_def Let_def m)
  qed
  then show "sc_tasks s' = (sc_tasks s)[i := tick_tcb ?t]" "sc_task_count s' = sc_task_count s"
    "sc_current_task s' = sc_current_task s" "sc_rr_index s' = sc_rr_index s" "sc_switches s' = sc_switches s"
    "sc_ready_bitmap s' = (if wakes ?t then sc_ready_bitmap s OR bitmap_bit (unat (tk_priority ?t)) else sc_ready_bitmap s)"
    "need' \<longleftrightarrow> need \<or> wakes ?t \<and> sc_current_task s \<noteq> UINT8_MAX \<and> tk_priority ?t < tk_priority (sc_tasks s ! sc_current_task s)"
    by blast+
qed

lemma tick_task_inv:
  assumes "sched_inv s" and i: "i < sc_task_count s" and t: "tick_task i (s, need) = (s', need')"
  shows "sched_inv s'"
proof -
  note d = shapeD [OF inv_shape [OF assms(1)]]
  have i8: "i < 8" using i d(3) by simp
  note u = tick_task_step [OF _ t, unfolded d(1)]
  let ?t = "sc_tasks s ! i"
  have ok: "task_ok ?t" by (rule d(4) [OF i])
  have run: "tk_state (sc_tasks s' ! c) = tk_state (sc_tasks s ! c)" if "c = sc_current_task s" "c \<noteq> 255" for c
  proof -
    have "tk_state (sc_tasks s ! c) = SCHED_STATE_RUNNING" using assms(1) that by (simp add: sched_inv_def)
    then show ?thesis using u(1) i8 d(1) by (cases "c = i") (auto simp: tick_tcb_def)
  qed
  have "sched_shape s'"
  proof (cases "wakes ?t")
    case True
    have ic: "i \<noteq> sc_current_task s" using True assms(1) i8 by (auto simp: wakes_def sched_inv_def)
    show ?thesis
      by (rule set_bit_shape [OF inv_shape [OF assms(1)], where q = "unat (tk_priority ?t)" and t = "tick_tcb ?t" and k = i
            and n = "sc_task_count s"])
        (use True ok i i8 ic u in \<open>auto simp: wakes_def tick_tcb_def task_ok_def\<close>)
  next
    case False
    have r: "is_ready (tick_tcb ?t) = is_ready ?t" "task_ok (tick_tcb ?t)" "tk_state (tick_tcb ?t) = tk_state ?t"
      using False ok by (auto simp: tick_tcb_def wakes_def task_ok_def is_ready_def word_gt_0)
    have nth: "sc_tasks s' ! j = (if j = i then tick_tcb ?t else sc_tasks s ! j)" if "j < 9" for j
      using that d(1) u(1) i8 by (simp add: nth_list_update)
    have same: "tk_priority (sc_tasks s' ! j) = tk_priority (sc_tasks s ! j)" "is_ready (sc_tasks s' ! j) = is_ready (sc_tasks s ! j)"
      "tk_state (sc_tasks s' ! j) = tk_state (sc_tasks s ! j)" if "j < 9" for j
      using nth [OF that] r by auto
    have okj: "task_ok (sc_tasks s' ! j)" if "j < sc_task_count s" for j
      using nth [of j] that d(3) d(4) [OF that] r by auto
    have bm: "(\<exists>j < sc_task_count s. unat (tk_priority (sc_tasks s' ! j)) = p \<and> is_ready (sc_tasks s' ! j)) \<longleftrightarrow>
        (\<exists>j < sc_task_count s. unat (tk_priority (sc_tasks s ! j)) = p \<and> is_ready (sc_tasks s ! j))" for p
      by (rule ex_cong1) (use same d(3) in auto)
    have rn: "tk_state (sc_tasks s' ! j) \<noteq> SCHED_STATE_RUNNING" if "j < sc_task_count s \<or> j = 8" "j \<noteq> sc_current_task s" for j
      using same(3) [of j] d(8) [OF that] that d(3) by auto
    show ?thesis
      unfolding sched_shape_def
      using u(1-6) i8 d(1-3,5-7,9) okj bm rn same [of 8] False by (intro conjI allI impI) simp_all
  qed
  then show ?thesis using assms(1) run u(3) i8 by (simp add: sched_inv_def)
qed

lemma tick_fold:
  assumes "sched_inv s" and "k \<le> sc_task_count s" and "fold tick_task [0..<k] (s, need) = (s', need')"
  shows "sched_inv s' \<and> sc_task_count s' = sc_task_count s \<and> sc_current_task s' = sc_current_task s \<and>
    sc_switches s' = sc_switches s \<and>
    (\<forall>j < 9. sc_tasks s' ! j = (if j < k then tick_tcb (sc_tasks s ! j) else sc_tasks s ! j)) \<and>
    (need' \<longleftrightarrow> need \<or> (\<exists>j < k. wakes (sc_tasks s ! j) \<and> sc_current_task s \<noteq> UINT8_MAX \<and>
       tk_priority (sc_tasks s ! j) < tk_priority (sc_tasks s ! sc_current_task s)))"
  using assms(2,3)
proof (induction k arbitrary: s' need')
  case 0
  then show ?case using assms(1) by simp
next
  case (Suc k)
  obtain s1 n1 where f: "fold tick_task [0..<k] (s, need) = (s1, n1)" by (metis surj_pair)
  have IH: "sched_inv s1 \<and> sc_task_count s1 = sc_task_count s \<and> sc_current_task s1 = sc_current_task s \<and>
    sc_switches s1 = sc_switches s \<and>
    (\<forall>j < 9. sc_tasks s1 ! j = (if j < k then tick_tcb (sc_tasks s ! j) else sc_tasks s ! j)) \<and>
    (n1 \<longleftrightarrow> need \<or> (\<exists>j < k. wakes (sc_tasks s ! j) \<and> sc_current_task s \<noteq> UINT8_MAX \<and>
       tk_priority (sc_tasks s ! j) < tk_priority (sc_tasks s ! sc_current_task s)))"
    using Suc.IH [OF _ f] Suc.prems(1) by simp
  then have inv: "sched_inv s1" and c: "sc_task_count s1 = sc_task_count s" "sc_current_task s1 = sc_current_task s"
      "sc_switches s1 = sc_switches s"
    and nth: "\<And>j. j < 9 \<Longrightarrow> sc_tasks s1 ! j = (if j < k then tick_tcb (sc_tasks s ! j) else sc_tasks s ! j)"
    and n1: "n1 \<longleftrightarrow> need \<or> (\<exists>j < k. wakes (sc_tasks s ! j) \<and> sc_current_task s \<noteq> UINT8_MAX \<and>
       tk_priority (sc_tasks s ! j) < tk_priority (sc_tasks s ! sc_current_task s))"
    by blast+
  have t: "tick_task k (s1, n1) = (s', need')" using Suc.prems(2) f by simp
  note d = shapeD [OF inv_shape [OF inv]]
  have k8: "k < 8" using Suc.prems(1) c d(3) by simp
  note u = tick_task_step [OF _ t, unfolded d(1)]
  have kc: "k < sc_task_count s1" using Suc.prems(1) c by simp
  have pc: "tk_priority (sc_tasks s1 ! sc_current_task s) = tk_priority (sc_tasks s ! sc_current_task s)"
    if "sc_current_task s \<noteq> UINT8_MAX"
    using nth [of "sc_current_task s"] d(3,7) c that by (auto simp: sched_consts)
  have "sc_tasks s' ! j = (if j < Suc k then tick_tcb (sc_tasks s ! j) else sc_tasks s ! j)" if "j < 9" for j
    using u(1) k8 nth [OF that] nth [of k] that d(1) by (auto simp: nth_list_update less_Suc_eq)
  moreover have "need' \<longleftrightarrow> need \<or> (\<exists>j < Suc k. wakes (sc_tasks s ! j) \<and> sc_current_task s \<noteq> UINT8_MAX \<and>
       tk_priority (sc_tasks s ! j) < tk_priority (sc_tasks s ! sc_current_task s))"
    using u(7) k8 n1 nth [of k] pc c by (auto simp: less_Suc_eq)
  ultimately show ?case using tick_task_inv [OF inv kc t] u(2,3,5) k8 c by simp
qed

lemma tick_count_simps [simp]:
  "sched_inv (s\<lparr>sc_tick_count := x\<rparr>) = sched_inv s"
  by (simp add: sched_inv_def sched_shape_def)

text \<open>When the tick asks for a switch, in terms of the table before and after it.\<close>

definition switch_due :: "sched \<Rightarrow> sched \<Rightarrow> bool" where
  "switch_due s s' \<longleftrightarrow> sc_current_task s \<noteq> UINT8_MAX \<and>
     (let p = tk_priority (sc_tasks s ! sc_current_task s) in
      (\<exists>j < sc_task_count s. wakes (sc_tasks s ! j) \<and> tk_priority (sc_tasks s ! j) < p) \<or> sched_count_ready_at s' (unat p) > 1)"

lemma tick_ok:
  assumes "sched_inv s"
  shows "sched_inv (sched_tick s)" and "sc_task_count (sched_tick s) = sc_task_count s"
    and "sc_current_task (sched_tick s) = sc_current_task s"
    and "\<And>j. j < sc_task_count s \<Longrightarrow> sc_tasks (sched_tick s) ! j = tick_tcb (sc_tasks s ! j)"
    and "sc_switches (sched_tick s) = (if switch_due s (sched_tick s) then Suc (sc_switches s) else sc_switches s)"
proof -
  let ?s0 = "s\<lparr>sc_tick_count := sc_tick_count s + 1\<rparr>"
  obtain s1 n1 where f: "fold tick_task [0..<sc_task_count s] (?s0, False) = (s1, n1)" by (metis surj_pair)
  have r: "sched_inv s1 \<and> sc_task_count s1 = sc_task_count s \<and> sc_current_task s1 = sc_current_task s \<and>
    sc_switches s1 = sc_switches s \<and>
    (\<forall>j < 9. sc_tasks s1 ! j = (if j < sc_task_count s then tick_tcb (sc_tasks s ! j) else sc_tasks s ! j)) \<and>
    (n1 \<longleftrightarrow> False \<or> (\<exists>j < sc_task_count s. wakes (sc_tasks s ! j) \<and> sc_current_task s \<noteq> UINT8_MAX \<and>
       tk_priority (sc_tasks s ! j) < tk_priority (sc_tasks s ! sc_current_task s)))"
    using tick_fold [of ?s0, OF _ _ f] assms by simp
  note d = shapeD [OF inv_shape [OF assms]]
  let ?p = "unat (tk_priority (sc_tasks s ! sc_current_task s))"
  have pc: "tk_priority (sc_tasks s1 ! sc_current_task s) = tk_priority (sc_tasks s ! sc_current_task s)"
    if "sc_current_task s \<noteq> UINT8_MAX"
    using r d(3,7) that by (auto simp: sched_consts)
  have rl: "ready_list (advance_rr q t) k = ready_list t k" "ready_list (sched_port_trigger_switch t) k = ready_list t k" for q t k
    by (simp_all add: ready_list_def)
  have e: "sched_tick s = (let (s2, need2) = (if sc_current_task s \<noteq> UINT8_MAX \<and> sched_count_ready_at s1 ?p > 1
      then (advance_rr ?p s1, True) else (s1, n1)) in if need2 then sched_port_trigger_switch s2 else s2)"
  proof -
    have cur: "sc_current_task s1 = sc_current_task s" using r by blast
    show ?thesis
      unfolding sched_tick_def f
      by (cases "sc_current_task s = UINT8_MAX"; cases "sched_count_ready_at s1 ?p > 1") (simp_all add: cur pc Let_def)
  qed
  show "sched_inv (sched_tick s)" "sc_task_count (sched_tick s) = sc_task_count s"
    "sc_current_task (sched_tick s) = sc_current_task s" using r by (simp_all add: e)
  show "sc_tasks (sched_tick s) ! j = tick_tcb (sc_tasks s ! j)" if "j < sc_task_count s" for j
    using r that d(3) by (simp add: e)
  have "sched_count_ready_at (sched_tick s) ?p = sched_count_ready_at s1 ?p"
    by (simp add: e sched_count_ready_at_def rl)
  then show "sc_switches (sched_tick s) = (if switch_due s (sched_tick s) then Suc (sc_switches s) else sc_switches s)"
    using r unfolding switch_due_def Let_def by (auto simp: e)
qed

section \<open>Runs from init\<close>

lemma do_ok: "sched_inv s \<Longrightarrow> sched_inv (sched_do x s)"
  using create_ok start_ok yield_ok delay_ok tick_ok(1) inv_shape by (cases x) auto

lemma sched_init_ok:
  assumes "length (sc_tasks s) = 9"
  shows "sched_inv (sched_init e b s)"
  using assms
  by (simp add: sched_init_def Let_def case_prod_beta sched_inv_def sched_shape_def sched_consts is_ready_def nth_list_update)

lemma run_ok: "sched_inv s \<Longrightarrow> sched_inv (fold sched_do ops s)"
  by (induction ops arbitrary: s) (auto intro: do_ok)

text \<open>A blocked task is left alone by everything but the tick.\<close>

lemma reschedule_keeps:
  assumes "sched_shape s" and "i < 9"
  shows "let u = sched_set_running (sched_choose_next s) s in
    is_ready (sc_tasks u ! i) = is_ready (sc_tasks s ! i) \<and> tk_delay_ticks (sc_tasks u ! i) = tk_delay_ticks (sc_tasks s ! i) \<and>
    sc_task_count u = sc_task_count s"
proof -
  have "sched_choose_next s < sc_task_count s \<or> sched_choose_next s = 8" "is_ready (sc_tasks s ! sched_choose_next s)"
    using choose_next_best [OF assms(1)] shapeD(5) [OF assms(1)] by auto
  from set_running_shape [OF assms(1) this] show ?thesis using assms(2) by (simp add: Let_def)
qed

definition waiting :: "nat \<Rightarrow> u32 \<Rightarrow> sched \<Rightarrow> bool" where
  "waiting i n s \<longleftrightarrow> i < sc_task_count s \<and> \<not> is_ready (sc_tasks s ! i) \<and> tk_delay_ticks (sc_tasks s ! i) = n"

lemma waiting_blocked: "sched_inv s \<Longrightarrow> waiting i n s \<Longrightarrow> tk_state (sc_tasks s ! i) = SCHED_STATE_BLOCKED \<and> n \<noteq> 0"
  using shapeD(4) [OF inv_shape, of s i]
  by (cases "tk_state (sc_tasks s ! i)") (auto simp: waiting_def is_ready_def task_ok_def)

lemma block_waits:
  assumes s: "sched_inv s" and c: "sc_current_task s < sc_task_count s" and n: "n \<noteq> 0"
  shows "waiting (sc_current_task s) n (sched_delay n s)"
proof -
  note d = shapeD [OF inv_shape [OF s]]
  have u: "sc_current_task s \<noteq> UINT8_MAX \<and> sc_current_task s \<noteq> SCHED_IDLE_ID" "sc_current_task s < 9"
    using c d(3) by (auto simp: sched_consts)
  show ?thesis
    using reschedule_keeps [OF block_shape [OF inv_shape [OF s] c n] u(2)] c u(2) d(1)
    by (simp add: delay_blocks [OF n u(1)] waiting_def Let_def nth_upd_task blocked_def is_ready_def)
qed

lemma waiting_kept:
  assumes s: "sched_inv s" and w: "waiting i n s" and x: "x \<noteq> Op_Tick"
  shows "waiting i n (sched_do x s)"
proof -
  note d = shapeD [OF inv_shape [OF s]]
  have i: "i < 9" "i < sc_task_count s" using w d(3) by (auto simp: waiting_def)
  have b: "tk_state (sc_tasks s ! i) = SCHED_STATE_BLOCKED" using waiting_blocked [OF s w] by simp
  have y: "waiting i n (sched_yield s)"
    using reschedule_keeps [of "advance_rr q s" i for q] reschedule_keeps [OF inv_shape [OF s] i(1)] inv_shape [OF s] i w
    by (simp add: sched_yield_def waiting_def Let_def)
  show ?thesis
  proof (cases x)
    case (Op_Create e a p bb m)
    then show ?thesis using w i by (auto simp: waiting_def sched_task_create_def upd_task_def Let_def case_prod_beta nth_list_update)
  next
    case Op_Start
    then show ?thesis using reschedule_keeps [OF inv_shape [OF s] i(1)] w i by (simp add: sched_start_def waiting_def Let_def)
  next
    case Op_Yield
    then show ?thesis using y by simp
  next
    case (Op_Delay m)
    show ?thesis
    proof (cases "m \<noteq> 0 \<and> sc_current_task s \<noteq> UINT8_MAX \<and> sc_current_task s \<noteq> SCHED_IDLE_ID")
      case True
      then have c: "sc_current_task s < sc_task_count s" using d(7) by (auto simp: sched_consts)
      have ic: "i \<noteq> sc_current_task s" using s b c d(3) by (auto simp: sched_inv_def)
      show ?thesis
        using reschedule_keeps [OF block_shape [OF inv_shape [OF s] c] i(1), of m] True w i ic d(1) Op_Delay
        by (simp add: delay_blocks waiting_def Let_def nth_upd_task)
    next
      case False
      then have "sched_delay m s = sched_yield s \<or> sched_delay m s = sched_port_trigger_switch s"
        unfolding sched_delay_def Let_def by auto
      then show ?thesis using y w Op_Delay by (auto simp: waiting_def)
    qed
  qed (use x in simp)
qed

section \<open>Properties\<close>

text \<open>C11: whatever calls were made since init, the ready bitmap and the states agree, at most one
  task runs, and after a start, a yield or a delay the processor has a ready task of the highest priority, or the idle
  task when no task is ready.\<close>

theorem scheduler_runs_the_best:
  assumes "length (sc_tasks s0) = 9" and "s = fold sched_do ops (sched_init e b s0)"
  shows "sched_inv s \<and> runs_best (sched_start s) \<and> runs_best (sched_yield s) \<and>
    (sc_current_task s < sc_task_count s \<longrightarrow> runs_best (sched_delay n s))"
proof -
  have i: "sched_inv s" unfolding assms(2) by (rule run_ok [OF sched_init_ok [OF assms(1)]])
  then show ?thesis
    using start_ok [OF inv_shape [OF i]] yield_ok [OF inv_shape [OF i]] delay_ok [OF i, of n] shapeD(3) [OF inv_shape [OF i]]
    by (auto simp: sched_consts)
qed

definition sched_ram :: sched where
  "sched_ram = \<lparr>sc_tasks = replicate 9 \<lparr>tk_sp = 0, tk_priority = 0, tk_state = SCHED_STATE_SUSPENDED, tk_delay_ticks = 0,
       tk_stack_base = 0, tk_stack_size = 0, tk_entry = 0, tk_arg = 0, tk_id = 0\<rparr>,
     sc_task_count = 0, sc_tick_count = 0, sc_ready_bitmap = 0, sc_current_task = 255, sc_rr_index = replicate 32 0,
     sc_mem = (\<lambda>_. 0), sc_started = False, sc_switches = 0\<rparr>"

lemma sched_ram_length: "length (sc_tasks sched_ram) = 9"
  by (simp add: sched_ram_def)

theorem scheduler_runs_the_best_witness:
  "let s = fold sched_do [Op_Create 0x100 0 5 0x2000 64, Op_Create 0x200 0 3 0x3000 64, Op_Start, Op_Delay 2, Op_Tick]
      (sched_init 0x50 0x1000 sched_ram) in
    sched_inv s \<and> runs_best (sched_yield s) \<and> runs_best (sched_start s)"
  unfolding Let_def using scheduler_runs_the_best [OF sched_ram_length refl] by blast

text \<open>C37: a task that delays itself by \<open>n\<close> ticks is blocked until the \<open>n\<close>-th tick, whatever other
  tasks call meanwhile, and ready after it; that tick asks for a switch exactly when a task that woke outranks the
  current one or the current priority has a second ready task.\<close>

definition ticks :: "sched_op list \<Rightarrow> nat" where
  "ticks ops = length (filter (\<lambda>x. x = Op_Tick) ops)"

lemma waits:
  assumes "sched_inv s" and "waiting i n s" and "ticks ops < unat n"
  shows "sched_inv (fold sched_do ops s) \<and> waiting i (n - of_nat (ticks ops)) (fold sched_do ops s)"
  using assms
proof (induction ops arbitrary: s n)
  case Nil
  then show ?case by (simp add: ticks_def)
next
  case (Cons x ops)
  show ?case
  proof (cases "x = Op_Tick")
    case False
    then have "ticks ops < unat n" using Cons.prems(3) by (simp add: ticks_def)
    from Cons.IH [OF do_ok [OF Cons.prems(1)] waiting_kept [OF Cons.prems(1,2) False] this] show ?thesis
      using False by (simp add: ticks_def)
  next
    case True
    note b = waiting_blocked [OF Cons.prems(1,2)]
    have t: "ticks (x # ops) = Suc (ticks ops)" using True by (simp add: ticks_def)
    then have n1: "1 < unat n" using Cons.prems(3) by simp
    then have n: "n \<noteq> 1" "n > 0" "unat (n - 1) = unat n - 1" by (auto simp: word_gt_0 unat_sub word_le_nat_alt)
    have "waiting i (n - 1) (sched_do x s)"
      using True tick_ok(2,4) [OF Cons.prems(1)] Cons.prems(2) b n by (simp add: waiting_def tick_tcb_def is_ready_def)
    moreover have "ticks ops < unat (n - 1)" using t n Cons.prems(3) by simp
    ultimately show ?thesis
      using Cons.IH [of "sched_do x s" "n - 1"] do_ok [OF Cons.prems(1)] t by (simp add: algebra_simps)
  qed
qed

theorem delay_wakes_on_time:
  assumes "length (sc_tasks s0) = 9" and "s = fold sched_do ops (sched_init e b s0)"
    and "c = sc_current_task s" and "c < sc_task_count s" and "ticks later < unat n"
    and "u = fold sched_do later (sched_delay n s)"
  shows "tk_state (sc_tasks u ! c) = SCHED_STATE_BLOCKED \<and> unat (tk_delay_ticks (sc_tasks u ! c)) = unat n - ticks later \<and>
    (Suc (ticks later) = unat n \<longrightarrow> tk_state (sc_tasks (sched_tick u) ! c) = SCHED_STATE_READY) \<and>
    (sc_switches (sched_tick u) \<noteq> sc_switches u \<longleftrightarrow> switch_due u (sched_tick u))"
proof -
  have i: "sched_inv s" unfolding assms(2) by (rule run_ok [OF sched_init_ok [OF assms(1)]])
  have n: "n \<noteq> 0" using assms(5) by auto
  have "sched_inv (sched_delay n s)" using delay_ok [OF i] by blast
  from waits [OF this block_waits [OF i assms(4) [unfolded assms(3)] n] assms(5)]
  have u: "sched_inv u" "waiting c (n - of_nat (ticks later)) u" by (auto simp: assms(3,6))
  have m: "unat (n - of_nat (ticks later)) = unat n - ticks later"
  proof -
    have "unat n < 2 ^ LENGTH(32)" by (rule unsigned_less)
    then have "unat (of_nat (ticks later) :: u32) = ticks later" using assms(5) by (simp add: unat_of_nat)
    then show ?thesis using assms(5) by (simp add: unat_sub word_le_nat_alt)
  qed
  have "tk_state (sc_tasks (sched_tick u) ! c) = SCHED_STATE_READY" if "Suc (ticks later) = unat n"
  proof -
    have "n - of_nat (ticks later) = 1" using m that by (simp add: word_unat_eq_iff)
    then show ?thesis using u waiting_blocked [OF u] tick_ok(4) [OF u(1), of c] by (simp add: waiting_def tick_tcb_def)
  qed
  then show ?thesis using u waiting_blocked [OF u] m tick_ok(5) [OF u(1)] by (simp add: waiting_def)
qed

theorem delay_wakes_on_time_witness:
  "let s = fold sched_do [Op_Create 0x100 0 5 0x2000 64, Op_Create 0x200 0 3 0x3000 64, Op_Start] (sched_init 0x50 0x1000 sched_ram);
       u = fold sched_do [Op_Tick, Op_Yield] (sched_delay 2 s) in
    sc_current_task s = 1 \<and> tk_state (sc_tasks u ! 1) = SCHED_STATE_BLOCKED \<and>
    tk_state (sc_tasks (sched_tick u) ! 1) = SCHED_STATE_READY"
proof -
  let ?ops = "[Op_Create 0x100 0 5 0x2000 64, Op_Create 0x200 0 3 0x3000 64, Op_Start]"
  have c: "sc_current_task (fold sched_do ?ops (sched_init 0x50 0x1000 sched_ram)) = 1"
    "sc_task_count (fold sched_do ?ops (sched_init 0x50 0x1000 sched_ram)) = 2" by code_simp+
  show ?thesis
    unfolding Let_def
    using delay_wakes_on_time [where ops = ?ops and e = "0x50" and b = "0x1000" and later = "[Op_Tick, Op_Yield]" and n = 2,
        OF sched_ram_length refl refl _ _ refl] c
    by (simp add: ticks_def del: fold_simps sched_do.simps)
qed

text \<open>C38: a single task at the lowest priority, which the idle task shares, becomes ready
  after its delay, but no tick ever asks for the switch to it while the idle task runs.\<close>

theorem lowest_priority_task_starves:
  assumes "sched_inv s" and "sc_current_task s = SCHED_IDLE_ID" and "sc_task_count s = 1"
    and "tk_priority (sc_tasks s ! 0) = SCHED_IDLE_PRIORITY"
  shows "let u = (sched_tick ^^ k) s in
    sc_switches u = sc_switches s \<and> sc_current_task u = SCHED_IDLE_ID \<and>
    (unat (tk_delay_ticks (sc_tasks s ! 0)) \<le> k \<longrightarrow> tk_state (sc_tasks u ! 0) = SCHED_STATE_READY)"
  using assms
proof (induction k arbitrary: s)
  case 0
  have "task_ok (sc_tasks s ! 0)" "tk_state (sc_tasks s ! 0) \<noteq> SCHED_STATE_RUNNING"
    using shapeD(4,8) [OF inv_shape [OF 0(1)], of 0] 0(2,3) by (simp_all add: sched_consts)
  then have "tk_state (sc_tasks s ! 0) = SCHED_STATE_READY" if "unat (tk_delay_ticks (sc_tasks s ! 0)) = 0"
    using that by (cases "tk_state (sc_tasks s ! 0)") (auto simp: task_ok_def unat_eq_zero)
  then show ?case using 0(2) by simp
next
  case (Suc k)
  let ?t = "sched_tick s"
  note t = tick_ok [OF Suc.prems(1)]
  have t0: "sc_tasks ?t ! 0 = tick_tcb (sc_tasks s ! 0)" using t(4) [of 0] Suc.prems(3) by simp
  have "sched_count_ready_at ?t q \<le> 1" for q
    using t(2) Suc.prems(3) length_filter_le [of _ "[0..<1]"] by (simp add: sched_count_ready_at_def ready_list_def)
  then have "\<not> switch_due s ?t"
    using Suc.prems(2-4) shapeD(6) [OF inv_shape [OF Suc.prems(1)]]
    by (auto simp: switch_due_def Let_def sched_consts not_less)
  then have sw: "sc_switches ?t = sc_switches s" using t(5) by simp
  have dl: "unat (tk_delay_ticks (sc_tasks ?t ! 0)) \<le> k" if "unat (tk_delay_ticks (sc_tasks s ! 0)) \<le> Suc k"
  proof -
    have ok: "task_ok (sc_tasks s ! 0)" using shapeD(4) [OF inv_shape [OF Suc.prems(1)], of 0] Suc.prems(3) by simp
    show ?thesis
    proof (cases "tk_delay_ticks (sc_tasks s ! 0) = 0")
      case True
      then show ?thesis by (simp add: t0 tick_tcb_def)
    next
      case False
      then have "tk_state (sc_tasks s ! 0) = SCHED_STATE_BLOCKED" "unat (tk_delay_ticks (sc_tasks s ! 0)) > 0"
        using ok by (auto simp: task_ok_def unat_gt_0)
      then show ?thesis using False that
        by (auto simp: t0 tick_tcb_def word_gt_0 unat_sub word_le_nat_alt)
    qed
  qed
  have "tk_priority (sc_tasks ?t ! 0) = SCHED_IDLE_PRIORITY" using t0 Suc.prems(4) by simp
  from Suc.IH [OF t(1) _ _ this] show ?case
    using Suc.prems(2,3) t(2,3) sw dl by (simp add: Let_def funpow_swap1)
qed

text \<open>A task at the lowest priority that delays itself while nothing else is there.\<close>

theorem lowest_priority_task_starves_witness:
  "let s = fold sched_do [Op_Create 0x100 0 31 0x2000 64, Op_Start, Op_Delay 2] (sched_init 0x50 0x1000 sched_ram);
       u = (sched_tick ^^ 1000) s in
    sc_switches u = sc_switches s \<and> sc_current_task u = SCHED_IDLE_ID \<and> tk_state (sc_tasks u ! 0) = SCHED_STATE_READY"
proof -
  let ?s = "fold sched_do [Op_Create 0x100 0 31 0x2000 64, Op_Start, Op_Delay 2] (sched_init 0x50 0x1000 sched_ram)"
  have c: "sc_current_task ?s = SCHED_IDLE_ID" "sc_task_count ?s = 1" "tk_priority (sc_tasks ?s ! 0) = SCHED_IDLE_PRIORITY"
    "unat (tk_delay_ticks (sc_tasks ?s ! 0)) \<le> 1000" by code_simp+
  show ?thesis
    using lowest_priority_task_starves [OF run_ok [OF sched_init_ok [OF sched_ram_length]] c(1-3), of 1000] c(4)
    unfolding Let_def by blast
qed

end
