(* ===== verification/Spec2Isabelle.thy ===== *)
theory Spec2Isabelle imports Fbl_Prog Fbl_Can Health Log_Sink Sysmgr Prot_Wall Vehicle Sender_Life Wflash_Port Sched begin

text \<open>
  A verification library for the two-node body network. Node A is the gateway: a security core, a
  verified bootloader and the gateway application, which reads buttons and sends light commands. Node B is
  the actuator. They talk over CAN FD with SecOC: every frame carries a freshness pair and a truncated
  CMAC; the epoch of the pair is persisted in work flash and the CMAC is computed by the security core,
  which a node reaches through an IPC mailbox. A tester reprograms Node A over UDS on ISO-TP while the
  bootloader stays resident.

  The theories, bottom up, with the sources under \<open>src/\<close> they model:
  \<^item> \<open>Prelude\<close>: word types of the C widths, byte order, \<open>overwrite\<close> (a copy into a buffer), \<open>first_index\<close>.
  \<^item> \<open>Body_Msgs\<close>: \<open>shared/messages\<close>. \<open>Can_Frame\<close>: the frames of \<open>can_hal.h\<close>, the length codes, sending and the
    receive callback of \<open>can_task.c\<close> of both nodes.
  \<^item> \<open>Secoc\<close>, \<open>Freshness\<close>, \<open>Secoc_Rx\<close>: \<open>shared/secoc\<close>: securing and verifying a frame; the counters of sender
    and receiver with their persisted epoch, proved over any freshness medium (locale \<open>freshness_medium\<close>);
    the accepting pipeline with its events.
  \<^item> \<open>Hal\<close>, \<open>Secoc_Store\<close>, \<open>Work_Flash\<close>, \<open>Wflash_Port\<close>: the flash interface; \<open>shared/secoc_store\<close>, proved over
    any work flash (locale \<open>work_flash\<close>) to be a freshness medium; the repository's reference flash with
    its power cuts; the target driver \<open>port/wflash_port.c\<close> over the vendor calls (locale \<open>work_flash_vendor\<close>),
    proved to be such a work flash.
  \<^item> \<open>Log_Events\<close>, \<open>Log\<close>, \<open>Log_Sink\<close>, \<open>Log_Port\<close>: \<open>shared/log\<close>: the ring and the records; its fake port; the
    target's \<open>port_log.c\<close> and \<open>log_task.c\<close> (locales \<open>log_sink\<close>, \<open>uart_transmitter\<close>). \<open>Health\<close>: the liveness
    event of \<open>health_task.c\<close>.
  \<^item> \<open>Crypto_Msg\<close>, \<open>Ipc_Mailbox\<close>, \<open>Crypto_Service\<close>, \<open>Crypto_Server\<close>, \<open>Crypto_Link\<close>: \<open>shared/crypto\<close> with the port of
    the application core and the loop and handlers of the security core; the crypto block is a parameter
    (locale \<open>cmac_engine\<close>).
  \<^item> \<open>Node_World\<close>, \<open>Sample_Node\<close>: link and store together, and one concrete node that witnesses evaluate.
  \<^item> \<open>Secoc_App\<close>: \<open>secoc_app.c\<close> of both nodes. \<open>Node_B\<close>, \<open>Node_B_Life\<close>: \<open>actuator_fsm.c\<close>, a pass of Node B's CAN task,
    and its life with power cuts. \<open>Node_A\<close>: \<open>bodyctl.c\<close>, \<open>reprogram.c\<close> and the passes of the gateway's tasks.
    \<open>Vehicle\<close>: both nodes and the bus. \<open>Sender_Life\<close>: lives of a sender in which no call faults.
  \<^item> \<open>Boot\<close>, \<open>Fbl_Port\<close>, \<open>Fbl_Can\<close>, \<open>Fbl_Main\<close>: \<open>shared/boot\<close>; the bootloader's port of it
    (\<open>bootloader/proj_cm4/src\<close>), its CAN driver and its entry. \<open>Flash_Mem\<close>, \<open>Fbl_Flash\<close>: images in code flash and
    \<open>port_flash.c\<close> (locale \<open>flash_driver\<close>). \<open>Isotp\<close>, \<open>Uds\<close>, \<open>Fbl_Diag\<close>, \<open>Fbl_Prog\<close>: \<open>shared/diag\<close>, \<open>fbl_diag.c\<close> and
    the super-loop of \<open>port_prog.c\<close>. \<open>Sample_Boot\<close>: a concrete boot and tester.
  \<^item> \<open>Prot_Region\<close>, \<open>Prot_Wall\<close>: \<open>shared/prot\<close> and \<open>prot_config_cm0p.c\<close>. \<open>Sysmgr\<close>: \<open>shared/sysmgr\<close>. \<open>Sched\<close>:
    \<open>scheduler\<close>.

  Conventions. A C pointer that may be \<open>NULL\<close> is an \<open>option\<close>; an output buffer is passed in and returned
  as the call leaves it; uninitialised locals are parameters; file-scope state is a record passed along;
  calls through function pointers or to ports thread a world \<open>'w\<close>. A \<open>None\<close> result of an operation whose
  result type is an option of a tuple is a fault (\<open>NULL\<close> dereference, an access outside a buffer) or, for
  the polling loops, fuel that ran out. The tasks of the gateway share the SecOC state; a run interleaves
  their passes, each taken whole. Vendor calls are fields of a record, and a locale states what their
  documentation promises; every such locale has an instance that the witnesses run on.

  Fuel. With a clock that advances the knock window closes within 2001 polls; a log flush gives up within
  2002 passes on any clock; a drain period needs one call more than there are bytes queued; a drain of
  the receive FIFO one call more than there are frames; the DMA poll is bounded by the code's own
  100000. The mailbox wait has no bound of its own: \<open>ipc_wait_ends_iff\<close> says when it ends. The cover search
  of \<open>Prot_Region\<close> and the loops of \<open>Isotp\<close> are total on the inputs their lemmas name.

  What the groups of lemmas show: replay protection and authenticity from the frame up to the actuator,
  over power cuts at any flash step; durability of the epochs on the reference flash and on the target
  driver; that the mailbox client gets its answer; that no log event is lost uncounted; that the
  bootloader hands over only to a valid image, breaks boot loops, honours requests, reports its outcome
  and is never overwritten; that a downloaded image boots and locked services stay locked where they are
  meant to; the invariants of the scheduler and of the resource manager's bring-up. The theorems of this
  theory span components; those of one component stand in its theory. A few state what the code
  does against its own comments.

  Not modelled: the board support packages and start-up code of both targets (vendor code), the
  cores' entry routines with clock, cache, pin and interrupt set-up, the jump through the application's
  vector table, the probe and known-answer checks behind build flags, the loopback and echo builds of the
  CAN tasks, Node B's and the bootloader's copies of the crypto port and Node B's copy of the MAC handler
  (the same mailbox protocol; Node B adds cache set-up), the blocking transmit of \<open>log_panic\<close>, the scheduler's context
  switch (a comment in the source), FreeRTOS (outside the repository; its queues and delays are
  parameters of the passes), and the host tools, which are Python.
\<close>

section \<open>SecOC over the whole node\<close>

text \<open>C1: no replay is accepted over any life of a receiver, power cuts included, until the
  persisted epoch reaches \<open>0xFFFF\<close>.\<close>

theorem receiver_replay_protection:
  assumes "cmac_engine hw aes" and "table \<in> {g_handlers hw keys, g_handlers_b hw keys}"
    and "crypto_mac_of (Some cy) = Some (key, node_mac (link_mac fuel table))"
    and "ids \<noteq> []" and "length ids \<le> SECOC_MAX_IDS" and "length evs < 2 ^ 32"
  shows "\<exists>outs hist. rx_life cy plen node_store node_reboot d ids buf evs
      (rx_start cy plen node_store d ids (factory_node lkk), factory_node lkk) = Some (outs, hist) \<and>
    (0xFFFF \<in> set hist \<or> distinct outs)"
  by (rule mac_server.factory_life [OF mac_server_tables [OF assms(1,2)] assms(4-6,3)])

theorem receiver_replay_protection_witness:
  "\<exists>outs hist. rx_life sample_cy None node_store node_reboot 1 [0x100] (replicate 64 0)
      [Rx_Frame 0x100 [1, 2, 3], Rx_Reboot (sample_link, 7), Rx_Frame 0x100 [1, 2, 3]]
      (rx_start sample_cy None node_store 1 [0x100] (factory_node (sample_link, - 1)),
       factory_node (sample_link, - 1)) = Some (outs, hist) \<and> (0xFFFF \<in> set hist \<or> distinct outs)"
  by (rule receiver_replay_protection [OF sample_engine _ sample_cy_mac, where keys = sample_keys])
     (simp_all add: SECOC_MAX_IDS_def)

text \<open>C6: the sender never spends a triple twice over any life in which no call faults (a sync
  adopted after a failed boot commit faults), until its epoch reaches \<open>0xFFFF\<close>.\<close>

theorem sender_never_repeats:
  assumes "tx_life node_store node_reboot d ids evs (tx_zero, factory_node lkk) = Some (outs, hist)"
    and "0xFFFF \<notin> set hist" and "ids \<noteq> []" and "length ids \<le> SECOC_MAX_IDS" and "length evs < 2 ^ 32"
  shows "distinct outs"
proof -
  have "node.tx_sound (length evs) d tx_zero (factory_node lkk) {}"
    using factory_ok [OF assms(5)] by (simp add: node.tx_sound_def tx_zero_def)
  from node.tx_life_distinct [OF assms(1) [folded node_port] assms(2) this assms(3,4)]
  show ?thesis by blast
qed

lemma quiet_sender:
  assumes "list_all no_sync evs" and "length evs < 0xFFFF" and "ids \<noteq> []" and "length ids \<le> SECOC_MAX_IDS"
  shows "\<exists>outs hist. tx_life node_store node_reboot d ids evs (tx_zero, factory_node lkk) = Some (outs, hist) \<and> 0xFFFF \<notin> set hist"
proof -
  have "node.tx_sound (length evs) d tx_zero (factory_node lkk) {}"
    using factory_ok [of "length evs" lkk] assms(2) by (simp add: node.tx_sound_def tx_zero_def)
  from freshness_medium.tx_quiet_life [OF node.freshness_medium_axioms this _ assms(1,3,4)] show ?thesis
    using assms(2) by (simp add: node_port factory_persisted)
qed

theorem sender_never_repeats_witness:
  "\<exists>outs hist. tx_life node_store node_reboot 0 [0x100, 0x1F0]
      [Tx_Reboot (sample_link, 5), Tx_Send 0x100, Tx_Send 0x1F0, Tx_Send 0x100, Tx_Reboot (sample_link, - 1), Tx_Send 0x100]
      (tx_zero, factory_node (sample_link, - 1)) = Some (outs, hist) \<and> 0xFFFF \<notin> set hist \<and> distinct outs"
proof -
  let ?evs = "[Tx_Reboot (sample_link, 5), Tx_Send 0x100, Tx_Send 0x1F0, Tx_Send 0x100, Tx_Reboot (sample_link, - 1), Tx_Send 0x100]"
  obtain outs hist where l: "tx_life node_store node_reboot 0 [0x100, 0x1F0] ?evs (tx_zero, factory_node (sample_link, - 1)) = Some (outs, hist)"
    "0xFFFF \<notin> set hist"
    using quiet_sender [of ?evs "[0x100, 0x1F0]" 0 "(sample_link, - 1)"] by (auto simp: SECOC_MAX_IDS_def)
  from sender_never_repeats [OF l] l show ?thesis by (auto simp: SECOC_MAX_IDS_def)
qed

text \<open>C12: acceptance means that the frame carries the tag of exactly the content delivered.\<close>

theorem accepted_frame_is_authentic:
  assumes "cmac_engine hw aes" and "table \<in> {g_handlers hw keys, g_handlers_b hw keys}"
    and "crypto_mac_of (r_cy r) = Some (key, node_mac (link_mac fuel table))"
    and "secoc_rx_process (Some r) i f pdu len w = Some x" and "rr_verdict x = SECOC_RX_ACCEPT"
  shows "\<exists>p e c pad. f = Some (p @ le16 e @ le16 c @
        take SECOC_MAC_LEN (mac_tag_of aes keys key (le16 i @ le16 e @ le16 c @ p)) @ pad) \<and>
    rr_pdu x = map_option (overwrite 0 p) pdu \<and> rr_pdu_len x = Some (length p) \<and>
    secoc_rx_check (r_fresh r) i e c = SECOC_FRESH_OK"
proof -
  note srv = mac_server_tables [OF assms(1,2)]
  show ?thesis
    using mac_server.accepted_authentic [OF srv assms(4,5,3)]
    by (auto simp: authentic_def wire_frame_def mac_input_def) metis
qed

theorem accepted_frame_is_authentic_witness:
  "\<exists>p e c pad. Some sample_frame = Some (p @ le16 e @ le16 c @
        take SECOC_MAC_LEN (mac_tag_of (\<lambda>k d. pad16 [of_nat (length d), of_nat (length k)]) sample_keys
          SECOC_MAC_KEY_ID (le16 0x100 @ le16 e @ le16 c @ p)) @ pad) \<and>
    secoc_rx_check (r_fresh sample_rx) 0x100 e c = SECOC_FRESH_OK"
proof -
  obtain x where x: "secoc_rx_process (Some sample_rx) 0x100 (Some sample_frame) (Some (replicate 8 0)) (Some 0)
      (sample_link, store_state0, wflash_fake_reset) = Some x" "rr_verdict x = SECOC_RX_ACCEPT"
    using sample_accepts by blast
  have cy: "crypto_mac_of (r_cy sample_rx) = Some (SECOC_MAC_KEY_ID, node_mac (link_mac 10 (g_handlers sample_hw sample_keys)))"
    using sample_cy_mac by (simp add: sample_rx_def)
  from accepted_frame_is_authentic [OF sample_engine _ cy x] show ?thesis by blast
qed

text \<open>C20: one node's secured frame, padded to its CAN FD length, is accepted by the other's verifier,
  over the full path through both security cores, and the content is recovered.\<close>

theorem secured_frame_verifies:
  assumes "cmac_engine hwA aes" and "cmac_engine hwB aes"
    and "mac_key keysA key = mac_key keysB key"
    and "crypto_mac_of cyA = Some (key, link_mac fuelA (g_handlers hwA keysA))"
    and "crypto_mac_of cyB = Some (key, link_mac fuelB (g_handlers_b hwB keysB))"
    and "secoc_secure cyA i e c (Some p) (Some ob) lkA = (n, Some out, lkA')" and "n \<noteq> 0"
    and "outs_ok o0" and "length p \<le> length (the (o_pdu o0))"
    and "n + length pad = secoc_fd_frame_len n"
    and "link_mac fuelB (g_handlers_b hwB keysB) key (mac_input i e c p) lkB = (Some t, lkB')"
  shows "secoc_verify_len cyB i (Some (take n out @ pad)) (length p) o0 lkB =
    (SECOC_OK, o0\<lparr>o_pdu := map_option (overwrite 0 p) (o_pdu o0), o_pdu_len := Some (length p),
       o_epoch := Some e, o_counter := Some c\<rparr>, lkB')"
proof -
  let ?t = "take SECOC_MAC_LEN (mac_tag_of aes keysA key (mac_input i e c p))"
  let ?f = "wire_frame p e c ?t"
  note srvA = mac_server_tables [OF assms(1), of "g_handlers hwA keysA" keysA, simplified]
  note srvB = mac_server_tables [OF assms(2), of "g_handlers_b hwB keysB" keysB, simplified]
  from mac_server.link_secure [OF srvA assms(6,7,4)]
  have s: "out = overwrite 0 ?f ob" "n = length p + 12" "length p \<le> SECOC_MAX_PDU" "n \<le> length ob"
    "length ?t = 8" by (auto simp: secoc_consts)
  have "length ?f = n" using s by simp
  then have f: "take n out = ?f" using take_overwrite_0 [of ?f ob] s(1) by simp
  have "t = mac_tag_of aes keysA key (mac_input i e c p)"
    using mac_server.served_tag [OF srvB assms(11)] assms(3) by (simp add: mac_tag_of_def)
  then show ?thesis
    unfolding f
    using assms(8-11) s secoc_verify_len_wire [OF assms(5,8) s(5,3) assms(9), of pad]
      verify_core_wire [OF s(5) mac_server.link_full_tags [OF srvB, of fuelB], of key i p e c pad o0 lkB]
    by (simp add: secoc_consts)
qed

text \<open>C21: a client whose mailbox is free gets its tag when the security core reaches its loop
  after \<open>d\<close> polls and fewer than 10 ms of clock.\<close>

theorem mac_service_answers:
  assumes "cmac_engine hw aes" and "table \<in> {g_handlers hw keys, g_handlers_b hw keys}"
    and "\<not> lk_locked lk" and "lk_delay lk = Some d" and "d < fuel" and "Suc d * unat (lk_tick lk) < 10"
    and "length msg \<le> 119" and "mac_key keys key = Some s"
    and "fst (cmac_compute hw s msg (lk_hw lk)) \<noteq> None"
  shows "\<exists>lk'. link_mac fuel table key msg lk = (Some (aes s msg), lk')"
  by (rule mac_server.served_answer [OF mac_server_tables [OF assms(1,2)] assms(3-9)])

theorem mac_service_answers_witness:
  "\<exists>lk'. link_mac 10 (g_handlers sample_hw sample_keys) SECOC_MAC_KEY_ID [1, 2, 3] sample_link =
     (Some (pad16 [of_nat (length [1, 2, 3 :: u8]), of_nat (length (replicate 16 (7 :: u8)))]), lk')"
  by (rule mac_service_answers [OF sample_engine _ _ _ _ _ _ sample_key, where d = 3])
     (simp_all add: sample_link_def sample_hw_def block_cmac)

theorem secured_frame_verifies_witness:
  "\<exists>n out lkA' lkB'. secoc_secure (Some \<lparr>cy_oracle = Some \<lparr>if_mac = Some sample_mac\<rparr>, cy_key_id = SECOC_MAC_KEY_ID\<rparr>)
      0x100 1 1 (Some [1, 2, 3]) (Some (replicate 15 0)) sample_link = (n, Some out, lkA') \<and>
    fst (secoc_verify_len (Some \<lparr>cy_oracle = Some \<lparr>if_mac = Some sample_mac_b\<rparr>, cy_key_id = SECOC_MAC_KEY_ID\<rparr>)
      0x100 (Some (take n out @ [0])) (length [1, 2, 3 :: u8])
      \<lparr>o_epoch = Some 0, o_counter = Some 0, o_pdu = Some (replicate 8 0), o_pdu_len = Some 0\<rparr> sample_link) = SECOC_OK"
proof -
  let ?cyA = "Some \<lparr>cy_oracle = Some \<lparr>if_mac = Some sample_mac\<rparr>, cy_key_id = SECOC_MAC_KEY_ID\<rparr>"
  let ?cyB = "Some \<lparr>cy_oracle = Some \<lparr>if_mac = Some sample_mac_b\<rparr>, cy_key_id = SECOC_MAC_KEY_ID\<rparr>"
  let ?o = "\<lparr>o_epoch = Some 0, o_counter = Some 0, o_pdu = Some (replicate 8 0), o_pdu_len = Some 0\<rparr>"
  have A: "crypto_mac_of ?cyA = Some (SECOC_MAC_KEY_ID, link_mac 10 (g_handlers sample_hw sample_keys))"
    by (simp add: crypto_mac_of_def sample_mac_def)
  have B: "crypto_mac_of ?cyB = Some (SECOC_MAC_KEY_ID, link_mac 10 (g_handlers_b sample_hw sample_keys))"
    by (simp add: crypto_mac_of_def sample_mac_b_def)
  have l: "length (mac_input 0x100 1 1 [1, 2, 3]) \<le> 119" by (simp add: mac_input_def)
  obtain a b where ta: "sample_mac SECOC_MAC_KEY_ID (mac_input 0x100 1 1 [1, 2, 3]) sample_link = (Some a, b)"
    using sample_answers [OF l] by blast
  obtain a' b' where tb: "sample_mac_b SECOC_MAC_KEY_ID (mac_input 0x100 1 1 [1, 2, 3]) sample_link = (Some a', b')"
    using sample_answers_b [OF l] by blast
  obtain out where s: "secoc_secure ?cyA 0x100 1 1 (Some [1, 2, 3]) (Some (replicate 15 0)) sample_link = (15, Some out, b)"
    using secoc_secure_spec [OF A, of "[1, 2, 3]" "replicate 15 0" "0x100" 1 1 sample_link] ta
    by (simp add: sample_mac_def secoc_consts)
  have "secoc_verify_len ?cyB 0x100 (Some (take 15 out @ [0])) (length [1, 2, 3 :: u8]) ?o sample_link =
    (SECOC_OK, ?o\<lparr>o_pdu := map_option (overwrite 0 [1, 2, 3]) (o_pdu ?o),
       o_pdu_len := Some (length [1, 2, 3 :: u8]), o_epoch := Some 1, o_counter := Some 1\<rparr>, b')"
    by (rule secured_frame_verifies [OF sample_engine sample_engine refl A B s])
       (use tb in \<open>simp_all add: outs_ok_def sample_mac_b_def secoc_fd_frame_len_def k_fd_len_def\<close>)
  with s show ?thesis by auto
qed

text \<open>Over any commits and power cycles from an erased device, what each domain loads is what
  the map of the acknowledged commits holds.\<close>

lemma epoch_commit_is_durable:
  assumes "length ops < 2 ^ 32" and "medium_run node_commit node_reboot ops (factory_node lkk) = (bs, w)"
  shows "node_load d w = epoch_map ops bs Map.empty d"
proof -
  have "node_load d' (factory_node lkk) = None" for d'
    using factory_load .
  then show ?thesis
    using fun_cong [OF node.medium_run_refines [OF factory_ok [OF assms(1)] assms(2)], of d] by simp
qed

section \<open>Crypto service and logging\<close>





text \<open>C23: no event is lost without being counted, and the count is reported before the next
  event that gets through.\<close>

theorem log_event_queued_or_counted:
  assumes "ring_ok s" and "log_evt p evt arg0 arg1 s w = (s', w')" and "lp_now_ms p w = (t, w1)"
  shows "ring_ok s' \<and>
    (log_queue s' = log_queue s \<and> lg_dropped s' = lg_dropped s + 1 \<and> lg_pending s' = lg_pending s + 1 \<or>
     lg_dropped s' = lg_dropped s \<and> lg_pending s' = 0 \<and>
     log_queue s' = log_queue s @
       (if lg_pending s = 0 then log_record (lg_core s) (lg_seq s) evt t arg0 arg1
        else log_record (lg_core s) (lg_seq s) LOG_EVT_OVERFLOW t (lg_pending s) 0 @
          log_record (lg_core s) ((lg_seq s + 1) AND LOG_SEQ_MASK) evt t arg0 arg1))"
  using log_evt_ring_ok [OF assms(1,2)]
  by (cases rule: log_evt_cases [OF assms]) simp_all

theorem log_event_queued_or_counted_witness:
  "\<exists>s' w'. log_evt fake_log_port LOG_EVT_BOOT 1 2 fake_ring
      \<lparr>fk_sink = [], fk_panic = [], fk_now = 7, fk_step = 1, fk_accept = 4, fk_ready = True, fk_idle = True\<rparr> = (s', w') \<and>
    ring_ok s'"
proof -
  let ?w = "\<lparr>fk_sink = [], fk_panic = [], fk_now = 7, fk_step = 1, fk_accept = 4, fk_ready = True, fk_idle = True\<rparr>"
  obtain s' w' where e: "log_evt fake_log_port LOG_EVT_BOOT 1 2 fake_ring ?w = (s', w')" by (metis surj_pair)
  have "lp_now_ms fake_log_port ?w = (7, ?w\<lparr>fk_now := 8\<rparr>)" by (simp add: fake_log_port_def fake_now_ms_def)
  from log_event_queued_or_counted [OF fake_ring_ok e this] e show ?thesis by blast
qed

text \<open>2002 passes are enough with any clock, a stopped one included, because a flush gives up
  after \<open>LOG_FLUSH_MAX_STALL\<close> passes without progress; what it sent and what it left are what was queued.\<close>

lemma log_flush_terminates:
  assumes "ring_ok s" and "2002 \<le> fuel"
  shows "\<exists>b s' w'. log_flush fake_log_port fuel timeout_ms s w = Some (b, s', w') \<and> ring_ok s' \<and>
    fk_sink w' @ log_queue s' = fk_sink w @ log_queue s \<and> (b \<longrightarrow> log_queue s' = [] \<and> fk_idle w')"
  using fake.log_flush_ends [OF assms, of timeout_ms w] by (simp add: fake_log_port_def)

section \<open>Boot\<close>

text \<open>C4: in the SHA-256 build the bootloader hands over only to an image that lies in the application
  region and whose hash and signature the security core has just checked under a key of its table.\<close>

theorem secure_boot_jump:
  assumes "fbl_run_boot FBL_DIGEST_SHA256 (fbl_target b fuel (g_handlers hw keys)) fuel' w =
      Some (FBL_ACTION_JUMP_APP, log, w')"
  shows "\<exists>len k pub digest h1 h2. ah_image_len (read_app_header (fw_flash w) FBL_APP_FLASH_BASE) = len \<and>
    268 \<le> unat len \<and> unat len + 100 \<le> unat FBL_APP_FLASH_SIZE \<and>
    crypto_keystore_lookup keys (mem_u32 (fw_flash w) FBL_APP_FLASH_BASE (len + 96)) = Some k \<and> ke_pubkey k = Some pub \<and>
    hw_sha hw (mem_bytes hw (lk_hw (fw_link w)) FBL_APP_FLASH_BASE (unat len)) (lk_hw (fw_link w)) = (Some digest, h1) \<and>
    digest = mem_bytes hw (lk_hw (fw_link w)) (FBL_APP_FLASH_BASE + len) 32 \<and>
    (let sig = mem_bytes hw (lk_hw (fw_link w)) (FBL_APP_FLASH_BASE + len + 32) 64 in
     hw_ecc_verify hw (reverse32 sig @ reverse32 (drop 32 sig)) digest (reverse32 pub) (reverse32 (drop 32 pub)) h1 =
       (Some 1, h2)) \<and>
    fbl_vector_sane (mem_u32 (fw_flash w) FBL_APP_FLASH_BASE 0) (mem_u32 (fw_flash w) FBL_APP_FLASH_BASE 4)"
proof -
  let ?len = "ah_image_len (read_app_header (fw_flash w) FBL_APP_FLASH_BASE)"
  let ?key = "mem_u32 (fw_flash w) FBL_APP_FLASH_BASE (?len + 96)"
  note j = secure_jump [OF assms]
  have v: "fst (verify_verdict hw keys FBL_APP_FLASH_BASE ?len ?key (lk_hw (fw_link w))) = CRYPTO_VERDICT_VALID"
    using j(2) by (simp only: add.commute)
  then obtain k where k: "crypto_keystore_lookup keys ?key = Some k" "ke_pubkey k \<noteq> None"
    "fst (do_verify_image hw FBL_APP_FLASH_BASE ?len (the (ke_pubkey k)) (lk_hw (fw_link w))) = CRYPTO_VERDICT_VALID"
    by (auto simp: verify_verdict_def split: option.splits if_splits)
  obtain digest h1 h2 where d:
    "hw_sha hw (mem_bytes hw (lk_hw (fw_link w)) FBL_APP_FLASH_BASE (unat ?len)) (lk_hw (fw_link w)) = (Some digest, h1)"
    "digest = mem_bytes hw (lk_hw (fw_link w)) (FBL_APP_FLASH_BASE + ?len) 32"
    "hw_ecc_verify hw (reverse32 (mem_bytes hw (lk_hw (fw_link w)) (FBL_APP_FLASH_BASE + ?len + 32) 64) @
        reverse32 (drop 32 (mem_bytes hw (lk_hw (fw_link w)) (FBL_APP_FLASH_BASE + ?len + 32) 64))) digest
       (reverse32 (the (ke_pubkey k))) (reverse32 (drop 32 (the (ke_pubkey k)))) h1 = (Some 1, h2)"
    using do_verify_VALID [OF k(3)] by metis
  have "268 \<le> unat ?len \<and> unat ?len + 100 \<le> unat FBL_APP_FLASH_SIZE"
    using j(1) by (simp add: image_fits_def FBL_TRAILER_SIZE_def FBL_APP_HEADER_OFFSET_def)
  then show ?thesis using k d j(3) unfolding Let_def by (metis option.collapse)
qed

theorem secure_boot_jump_witness:
  "\<exists>len. 268 \<le> unat len \<and> ah_image_len (read_app_header (fw_flash (sample_boot 256)) FBL_APP_FLASH_BASE) = len"
  using sample_boots secure_boot_jump [of sample_bits 10 sample_hw sample_keys 1 "sample_boot 256"] by blast



text \<open>C27: a request the application writes before its reset keeps the bootloader in control.\<close>

theorem programming_request_honoured:
  assumes "soft_distinct b" and "fw_handshake w = boot_handshake_encode h FBL_PROGRAMMING_REQUESTED"
    and "fbl_run_boot alg (fbl_target b fuel table) fuel' (fbl_port_system_reset b w) = Some (act, log, w')"
  shows "act = FBL_ACTION_PROGRAMMING_MODE"
  by (rule programming_request [OF assms])

theorem programming_request_honoured_witness:
  "\<exists>act log w'. fbl_run_boot FBL_DIGEST_CRC32 sample_target 0 (fbl_port_system_reset sample_bits
      (sample_boot 0\<lparr>fw_handshake := boot_handshake_encode (fw_handshake (sample_boot 0)) FBL_PROGRAMMING_REQUESTED\<rparr>)) =
    Some (act, log, w') \<and> act = FBL_ACTION_PROGRAMMING_MODE"
proof -
  let ?h = "boot_handshake_encode (fw_handshake (sample_boot 0)) FBL_PROGRAMMING_REQUESTED"
  let ?w = "fbl_port_system_reset sample_bits (sample_boot 0\<lparr>fw_handshake := ?h\<rparr>)"
  have v: "fbl_handshake_valid ?h" "hs_mode ?h = boot_mode_code FBL_PROGRAMMING_REQUESTED"
    using handshake_encode_valid by blast+
  have c: "fbl_port_reset_cause sample_bits ?w = FBL_RST_SOFTWARE" by (rule soft_cause [OF sample_soft])
  have "\<exists>act log w'. fbl_run_boot FBL_DIGEST_CRC32 sample_target 0 ?w = Some (act, log, w')"
    using v c by (simp add: fbl_run_boot_def Let_def reconcile_noinit_def fbl_port_defs update_counter_def
        fbl_port_system_reset_def)
  then obtain act log w' where r: "fbl_run_boot FBL_DIGEST_CRC32 sample_target 0 ?w = Some (act, log, w')" by blast
  show ?thesis using programming_request_honoured [OF sample_soft _ r, of "fw_handshake (sample_boot 0)"] r by simp
qed

text \<open>C18: from the fourth watchdog reset in a row on, the bootloader keeps control.\<close>

theorem boot_loop_is_broken:
  assumes "fbl_port_reset_cause b (w\<lparr>fw_reason := reason\<rparr>) = FBL_RST_WATCHDOG"
    and "watchdog_boots alg (fbl_target b fuel table) fuel' reason n w = Some as"
    and "fw_breg w FBL_BREG_MAGIC_IDX = FBL_BACKUP_MAGIC \<Longrightarrow> unat (fw_breg w FBL_BREG_COUNTER_IDX) + n < 2 ^ 32"
    and "n < 2 ^ 32" and "3 \<le> i" and "i < n"
  shows "as ! i = FBL_ACTION_PROGRAMMING_MODE"
  by (rule watchdog_boots_fallback [OF assms(1,2) _ assms(6)])
     (use assms(3-5) in \<open>simp_all add: boot_counter_target\<close>)

theorem boot_loop_is_broken_witness:
  "\<exists>as. watchdog_boots FBL_DIGEST_CRC32 sample_target 0 256 4 (sample_boot 0) = Some as \<and>
    as ! 3 = FBL_ACTION_PROGRAMMING_MODE"
proof -
  have c: "fbl_port_reset_cause sample_bits (sample_boot 0\<lparr>fw_reason := 256\<rparr>) = FBL_RST_WATCHDOG"
    by (simp add: fbl_port_reset_cause_def sample_bits_def FBL_RST_COLD_MASK_def FBL_RST_WDT_MASK_def)
  obtain as where as: "watchdog_boots FBL_DIGEST_CRC32 sample_target 0 256 4 (sample_boot 0) = Some as"
    using crc_watchdog_boots [OF c] by blast
  from boot_loop_is_broken [OF c as, of 3] as show ?thesis by (simp add: sample_boot_def)
qed

text \<open>With a clock that advances at all, the two-second window closes within 2001 polls.\<close>

lemma knock_dwell_ends:
  assumes "0 < fw_tick w" and "fw_tick w < 0x80000000" and "2001 \<le> fuel"
  shows "\<exists>c w'. fbl_dwell_for_tool (fbl_target b vf table) fuel FBL_KNOCK_WINDOW_MS w = Some (c, w')"
  by (rule fbl_dwell_ends [OF assms])

text \<open>The two CRC-32 routines of the repository, one with a mask and one with a branch, agree.\<close>

lemma boot_crc_is_store_crc: "boot_crc32 d = crc32 d (length d)"
proof -
  have "boot_crc32_bit = crc32_bit"
    by (rule ext) (simp add: boot_crc32_bit_eq crc32_bit_def CRC32_POLY_def)
  then have "foldl (\<lambda>crc b. (boot_crc32_bit ^^ 8) (crc XOR ucast b)) c d = foldl crc32_byte c d" for c
    by (induction d arbitrary: c) (simp_all add: crc32_byte_def)
  moreover have "(0xFFFFFFFF :: u32) = - 1"
    by (simp add: word_eq_iff_unsigned unsigned_minus_1_eq_mask mask_eq_exp_minus_1)
  ultimately show ?thesis by (simp only: boot_crc32_def crc32_def bit.xor_one_right take_all order_refl)
qed

section \<open>Diagnostics\<close>





text \<open>C10: a tick that ends unlocked either began unlocked or served the \<open>sendKey\<close> with the key of the
  seed it had sent.\<close>

theorem unlock_needs_the_key:
  assumes "uds_session_tick (g_table drv alg p) now frames s = Some (e, s')"
    and "uds_session_is_unlocked s'" and "\<not> uds_session_is_unlocked s"
  shows "sa_state s = UDS_SEC_SEED_SENT \<and> (\<exists>msg s1. tick_request now frames s = Some (Some msg, s1) \<and>
    take 6 msg = [UDS_SID_SECURITY_ACCESS, 2] @ be32 (sa_seed s XOR UDS_SECURITY_KEY_XOR_CONST))"
  using tick_unlock [OF assms(1)] assms(2,3)
  by (auto simp: uds_session_is_unlocked_def uds_security_access_is_unlocked_def key_message_def)

theorem unlock_needs_the_key_witness:
  "\<exists>e s' msg s1. uds_session_tick sample_table 0
      [sample_request ([UDS_SID_SECURITY_ACCESS, 2] @ be32 (7 XOR UDS_SECURITY_KEY_XOR_CONST))]
      (sample_uds\<lparr>sa_state := UDS_SEC_SEED_SENT, sa_seed := 7\<rparr>) = Some (e, s') \<and> uds_session_is_unlocked s' \<and>
    tick_request 0 [sample_request ([UDS_SID_SECURITY_ACCESS, 2] @ be32 (7 XOR UDS_SECURITY_KEY_XOR_CONST))]
      (sample_uds\<lparr>sa_state := UDS_SEC_SEED_SENT, sa_seed := 7\<rparr>) = Some (Some msg, s1) \<and>
    take 6 msg = [UDS_SID_SECURITY_ACCESS, 2] @ be32 (7 XOR UDS_SECURITY_KEY_XOR_CONST)"
proof -
  obtain e s' where t: "uds_session_tick sample_table 0
      [sample_request ([UDS_SID_SECURITY_ACCESS, 2] @ be32 (7 XOR UDS_SECURITY_KEY_XOR_CONST))]
      (sample_uds\<lparr>sa_state := UDS_SEC_SEED_SENT, sa_seed := 7\<rparr>) = Some (e, s')" "uds_session_is_unlocked s'"
    using sample_key_tick by blast
  have "\<not> uds_session_is_unlocked (sample_uds\<lparr>sa_state := UDS_SEC_SEED_SENT, sa_seed := 7\<rparr>)"
    by (simp add: uds_session_is_unlocked_def uds_security_access_is_unlocked_def)
  moreover have "sa_seed (sample_uds\<lparr>sa_state := UDS_SEC_SEED_SENT, sa_seed := 7\<rparr>) = 7" by simp
  ultimately show ?thesis using unlock_needs_the_key [OF t] t by metis
qed

text \<open>C28: every service but security access behaves the same in every session and lock state, so a
  locked server in the default session erases and programs as an unlocked one does.\<close>

theorem services_ignore_the_lock:
  assumes "h \<in> set (g_table drv alg p)" and "uh_sid h \<noteq> UDS_SID_SECURITY_ACCESS"
  shows "uh_handle h req cap (s\<lparr>sa_state := x, us_session := y\<rparr>) =
    map_option (\<lambda>(r, s'). (r, s'\<lparr>sa_state := x, us_session := y\<rparr>)) (uh_handle h req cap s)"
  using access_ignored [OF assms] by (simp add: with_access_def)

theorem services_ignore_the_lock_witness:
  "request_download_handle (be32 FBL_APP_FLASH_BASE @ be32 512) 4095
      (sample_uds\<lparr>sa_state := UDS_SEC_UNLOCKED, us_session := UDS_SESS_PROGRAMMING\<rparr>) =
    map_option (\<lambda>(r, s'). (r, s'\<lparr>sa_state := UDS_SEC_UNLOCKED, us_session := UDS_SESS_PROGRAMMING\<rparr>))
      (request_download_handle (be32 FBL_APP_FLASH_BASE @ be32 512) 4095 sample_uds)"
  using services_ignore_the_lock [of "\<lparr>uh_sid = UDS_SID_REQUEST_DOWNLOAD, uh_handle = request_download_handle\<rparr>"
      ram_driver FBL_DIGEST_CRC32 sample_target]
  by (simp add: g_table_def uds_sids)

section \<open>ISO-TP\<close>

text \<open>C29: no frames, in any order, make a poll write or read outside a buffer, as long as no single
  frame announces more than its 62 bytes.\<close>

theorem isotp_stays_in_bounds:
  assumes "isotp_ok s" and "\<And>f. f \<in> set fs \<Longrightarrow> frame_ok f \<and> \<not> overlong_sf f"
  shows "\<exists>s'. isotp_poll now fs s = Some s' \<and> isotp_ok s'"
  by (rule isotp_poll_ok [OF assms])

theorem isotp_stays_in_bounds_witness:
  "\<exists>s'. isotp_poll 0 [fd_frame 0x7A0 [0x10, 0, 0, 0, 3], fd_frame 0x7A0 [0x21, 1], fd_frame 0x7A0 [0x30, 8, 0]]
      (us_isotp sample_uds) = Some s' \<and> isotp_ok s'"
proof (rule isotp_stays_in_bounds)
  show "isotp_ok (us_isotp sample_uds)" by (simp add: isotp_ok_def sample_uds_def isotp_consts)
  fix f assume "f \<in> set [fd_frame 0x7A0 [0x10, 0, 0, 0, 3], fd_frame 0x7A0 [0x21, 1], fd_frame 0x7A0 [0x30, 8, 0]]"
  then show "frame_ok f \<and> \<not> overlong_sf f"
    by (auto simp: overlong_sf_def isotp_consts fd_frame_data frame_ok_fd)
qed

text \<open>C30: a single frame that announces more than its 62 bytes makes the copy read past the
  frame, whatever the state of the transport.\<close>

theorem overlong_single_frame_overreads:
  assumes "frame_ok f" and "cf_data f ! 0 AND 0xF0 = ISOTP_PCI_TYPE_SF" and "62 < unat (cf_data f ! 1)"
  shows "isotp_poll now (f # fs) s = None"
  using overlong_sf_faults [OF assms(1), of now s] assms(2,3) by (simp add: overlong_sf_def isotp_poll_def)

theorem overlong_single_frame_overreads_witness:
  "isotp_poll 0 [fd_frame 0x7A0 [0, 255, 1]] (us_isotp sample_uds) = None"
  by (rule overlong_single_frame_overreads) (simp_all add: isotp_consts fd_frame_data frame_ok_fd)

text \<open>C14: between two endpoints a message of up to 563 bytes, in one frame or in a first frame and up to
  eight consecutive ones, arrives as it was sent, and the sender is free again.\<close>

theorem isotp_roundtrip:
  assumes "isotp_idle a" and "isotp_idle b" and "length m \<le> 563"
  shows "\<exists>a' b'. isotp_rounds now 2 (snd (isotp_send m a), b) = Some (a', b') \<and> \<not> is_tx_pending a' \<and>
    fst (isotp_take_received ISOTP_MAX_PAYLOAD b') = Some m"
  by (rule exchange_arrives [OF assms])

lemma sample_isotp_idle: "isotp_idle (us_isotp sample_uds)"
  by (simp add: isotp_idle_def sample_uds_def isotp_consts)

theorem isotp_roundtrip_witness:
  "\<exists>a' b'. isotp_rounds 0 2 (snd (isotp_send (replicate 200 7) (us_isotp sample_uds)), us_isotp sample_uds) = Some (a', b') \<and>
    fst (isotp_take_received ISOTP_MAX_PAYLOAD b') = Some (replicate 200 7)"
  using isotp_roundtrip [OF sample_isotp_idle sample_isotp_idle, of "replicate 200 7" 0] by auto

text \<open>C31: a longer one stays half sent: after the first block nothing is in flight, the receiver
  waits, the sender waits for another flow control and refuses every further message.\<close>

theorem isotp_long_message_stalls:
  assumes "isotp_idle a" and "isotp_idle b" and "563 < length m" and "length m \<le> ISOTP_MAX_PAYLOAD"
  shows "\<exists>a' b'. isotp_rounds now (Suc (Suc n)) (snd (isotp_send m a), b) = Some (a', b') \<and>
    is_out a' = [] \<and> is_out b' = [] \<and> \<not> is_rx_complete b' \<and> isotp_send m' a' = (- 1, a')"
  using exchange_long [OF assms(1,2) _ assms(4), of now n] assms(3) by (auto simp: isotp_send_def)

theorem isotp_long_message_stalls_witness:
  "\<exists>a' b'. isotp_rounds 0 (Suc (Suc 100)) (snd (isotp_send (replicate 600 7) (us_isotp sample_uds)), us_isotp sample_uds) =
      Some (a', b') \<and> \<not> is_rx_complete b' \<and> isotp_send [1] a' = (- 1, a')"
  using isotp_long_message_stalls [OF sample_isotp_idle sample_isotp_idle, of "replicate 600 7" 0 100 "[1]"]
  by (auto simp: ISOTP_MAX_PAYLOAD_def)

section \<open>Messages\<close>

text \<open>C25: what is decoded is in range, and every refusal is visible in the kind.\<close>

theorem body_decode_sound:
  "(case body_decode mid buf (Some o0) of
      (True, o1) \<Rightarrow> \<exists>m b. o1 = Some m \<and> body_msg_ok m \<and> bm_kind m \<noteq> BODY_MSG_NONE \<and>
        buf = Some b \<and> body_msg_pdu_len mid \<le> length b
    | (False, o1) \<Rightarrow> o1 = Some (o0\<lparr>bm_kind := BODY_MSG_NONE\<rparr>))"
proof -
  obtain r o1 where d: "body_decode mid buf (Some o0) = (r, o1)" by (metis surj_pair)
  show ?thesis
    using body_decode_ok [of mid buf "Some o0" o1] body_decode_length [of mid buf "Some o0" o1]
      body_decode_kind_None [of mid buf o0 o1] d by (cases r) auto
qed

end
